(* ===== verification/Prelude.thy ===== *)
theory Prelude
  imports Main "HOL-Library.State_Monad" "HOL-Library.Word"
begin

section \<open>Prelude: bytes, errors, effects\<close>

text \<open>
  The vocabulary every component shares.

  \<^item> A Go \<open>string\<close> and a Go \<open>[]byte\<close> are both sequences of bytes; both are
    \<open>bytes\<close>, a list of 8-bit characters. A SHA-256 digest and a repository identity are
    Go arrays of 32 bytes; both are a \<open>256 word\<close>, so their length is part of the type and
    the zero array is \<open>0\<close>. A \<open>uint64\<close> is a \<open>64 word\<close>. An \<open>int64\<close> is an
    \<open>int\<close> with \<open>wrap64\<close> written where the code can overflow.
  \<^item> A Go error is the list of the sentinel errors that \<open>errors.Is\<close> finds in it:
    \<open>fmt.Errorf("%w: %w", a, b)\<close> is the concatenation of the two lists, a \<open>%v\<close> adds
    nothing, and an error with no sentinel is the empty list.
  \<^item> Code that talks to a store, a disk or a context is a state transformer
    \<open>('s, err + 'a) state\<close>: it always returns a state, also when it returns an error.
    The state is a type parameter, so a theorem about such code holds for every
    environment: a store that lies, loses responses, or is written by others between calls.
\<close>

type_synonym bytes = string
type_synonym u64 = "64 word"
type_synonym digest = "256 word"
type_synonym repository_id = "256 word"

subsection \<open>Errors\<close>

text \<open>
  The sentinels of \<open>errors.go\<close>, and after them the ones of the standard library that the
  code tests or returns: a cancelled or expired context, \<open>io.EOF\<close>, \<open>os.ErrNotExist\<close>, \<open>os.ErrExist\<close>
  and \<open>os.ErrClosed\<close>.
\<close>

datatype sentinel =
    ErrObjectNotFound | ErrNotModified | ErrPrecondition | ErrPublishConflict
  | ErrPublishIndeterminate | ErrNoSnapshot | ErrPathNotFound | ErrInvalidPath
  | ErrNotDirectory | ErrIsDirectory | ErrUnsupportedType | ErrCorruptObject
  | ErrSplitBrain | ErrUnstableFile | ErrInvalidChunking | ErrInvalidReference
  | ErrInvalidSnapshotClosure | ErrResourceLimit | ErrGenerationExhausted
  | ErrRollbackDetected | ErrStoreIncompatible | ErrBucketNotFound
  | ErrStoreMisconfigured | ErrStoreOperationUnsupported | ErrAccessDenied
  | ErrRateLimited | ErrStoreUnavailable | ErrRepositoryNotInitialized
  | ErrRepositoryConfigurationMismatch | ErrRepositoryInitializationIndeterminate
  | ErrRepositoryReadOnly | ErrUnsafeSymlink | ErrUntrustedReference
  | ErrTrustStateRequired | ErrTrustStateUnsupported | ErrProtectedSourceFile
  | ErrContext | ErrEOF | ErrNotExist | ErrExist | ErrClosed

type_synonym err = "sentinel list"

definition errors_Is :: "err \<Rightarrow> sentinel \<Rightarrow> bool" where
  "errors_Is e s = (s \<in> set e)"

abbreviation plain_error :: err where
  "plain_error \<equiv> []"

lemma errors_Is_simps [simp]:
  "errors_Is [] s = False"
  "errors_Is (x # e) s = (x = s \<or> errors_Is e s)"
  "errors_Is (e @ e') s = (errors_Is e s \<or> errors_Is e' s)"
  by (auto simp: errors_Is_def)

subsection \<open>Lists\<close>

lemma append_sep_inject:
  "\<lbrakk>c \<notin> set k; c \<notin> set k'\<rbrakk> \<Longrightarrow> k @ c # d = k' @ c # d' \<longleftrightarrow> k = k' \<and> d = d'"
proof (induction k arbitrary: k')
  case Nil
  then show ?case by (cases k') auto
next
  case (Cons x k)
  then show ?case by (cases k') auto
qed

lemma length_remove1_Suc: "x \<in> set xs \<Longrightarrow> length xs = Suc (length (remove1 x xs))"
  by (metis One_nat_def Suc_pred length_pos_if_in_set length_remove1)

subsection \<open>Effects\<close>

text \<open>
  \<open>ok r k\<close> is the Go idiom \<open>if err != nil { return err }\<close> followed by \<open>k\<close>;
  \<open>okr\<close> is the same for code without effects. \<open>check e k\<close> is the idiom for an operation
  that returns an error only.
\<close>

abbreviation return :: "'a \<Rightarrow> ('s, 'a) state" where
  "return \<equiv> State_Monad.return"

abbreviation throw :: "err \<Rightarrow> ('s, err + 'a) state" where
  "throw e \<equiv> return (Inl e)"

definition ok :: "err + 'a \<Rightarrow> ('a \<Rightarrow> ('s, err + 'b) state) \<Rightarrow> ('s, err + 'b) state" where
  "ok r k = (case r of Inl e \<Rightarrow> throw e | Inr x \<Rightarrow> k x)"

definition okr :: "err + 'a \<Rightarrow> ('a \<Rightarrow> err + 'b) \<Rightarrow> err + 'b" where
  "okr r k = (case r of Inl e \<Rightarrow> Inl e | Inr x \<Rightarrow> k x)"

definition check :: "err option \<Rightarrow> ('s, err + 'b) state \<Rightarrow> ('s, err + 'b) state" where
  "check e k = (case e of Some e \<Rightarrow> throw e | None \<Rightarrow> k)"

lemma ok_simps [simp]: "ok (Inl e) k = throw e" "ok (Inr x) k = k x"
  by (simp_all add: ok_def)

lemma okr_simps [simp]: "okr (Inl e) k = Inl e" "okr (Inr x) k = k x"
  by (simp_all add: okr_def)

lemma okr_eq_Inr [simp]: "okr r k = Inr y \<longleftrightarrow> (\<exists>x. r = Inr x \<and> k x = Inr y)"
  by (cases r) auto

lemma check_simps [simp]: "check (Some e) k = throw e" "check None k = k"
  by (simp_all add: check_def)

subsection \<open>Weakest preconditions\<close>

text \<open>
  \<open>wp m Q s\<close>: running \<open>m\<close> from \<open>s\<close> gives a result and a state that satisfy
  \<open>Q\<close>. Effects always return, so this is total correctness. The equations below take a
  program apart; an operation of the environment is left as it is, and \<open>wp_op\<close> then
  considers every answer it can give.
\<close>

definition wp :: "('s, 'a) state \<Rightarrow> ('a \<Rightarrow> 's \<Rightarrow> bool) \<Rightarrow> 's \<Rightarrow> bool" where
  "wp m Q s = (case run_state m s of (a, s') \<Rightarrow> Q a s')"

named_theorems wp_simps \<open>weakest preconditions of the program constructors\<close>
named_theorems wp_intros \<open>weakest preconditions of operations, as introduction rules\<close>

lemma wp_return [wp_simps, simp]: "wp (return x) Q s = Q x s"
  by (simp add: wp_def)

lemma wp_bind [wp_simps]: "wp (State_Monad.bind m f) Q s = wp m (\<lambda>a. wp (f a) Q) s"
  by (simp add: wp_def split: prod.splits)

text \<open>The same equations below an abstraction over the state.\<close>

lemma wp_return_fun: "wp (return x) Q = Q x"
  by (rule ext) simp

lemma wp_bind_fun: "wp (State_Monad.bind m f) Q = wp m (\<lambda>a. wp (f a) Q)"
  by (rule ext) (simp add: wp_bind)

lemma wp_if [wp_simps]:
  "wp (if b then m else m') Q s = ((b \<longrightarrow> wp m Q s) \<and> (\<not> b \<longrightarrow> wp m' Q s))"
  by simp

lemma wp_ok [wp_simps]:
  "wp (ok r k) Q s = ((\<forall>e. r = Inl e \<longrightarrow> Q (Inl e) s) \<and> (\<forall>x. r = Inr x \<longrightarrow> wp (k x) Q s))"
  by (cases r) auto

lemma wp_check [wp_simps]:
  "wp (check e k) Q s = ((\<forall>x. e = Some x \<longrightarrow> Q (Inl x) s) \<and> (e = None \<longrightarrow> wp k Q s))"
  by (cases e) auto

lemma wp_get [wp_simps]: "wp State_Monad.get Q s = Q s s"
  by (simp add: wp_def State_Monad.get_def)

lemma wp_State [wp_simps]: "wp (State f) Q s = (case f s of (a, s') \<Rightarrow> Q a s')"
  by (simp add: wp_def)

lemma wp_op: "(\<And>a s'. run_state m s = (a, s') \<Longrightarrow> Q a s') \<Longrightarrow> wp m Q s"
  by (simp add: wp_def split: prod.splits)

lemma wp_conseq: "wp m P s \<Longrightarrow> (\<And>a s'. P a s' \<Longrightarrow> Q a s') \<Longrightarrow> wp m Q s"
  by (auto simp: wp_def split: prod.splits)

lemma wp_fst: "fst (run_state m s) = a \<Longrightarrow> (\<And>s'. Q a s') \<Longrightarrow> wp m Q s"
  by (auto simp: wp_def split: prod.splits)

lemma wp_option [wp_simps]:
  "wp (case x of None \<Rightarrow> m | Some y \<Rightarrow> f y) Q s =
     ((x = None \<longrightarrow> wp m Q s) \<and> (\<forall>y. x = Some y \<longrightarrow> wp (f y) Q s))"
  by (cases x) auto

lemma wp_sum [wp_simps]:
  "wp (case x of Inl e \<Rightarrow> g e | Inr y \<Rightarrow> f y) Q s =
     ((\<forall>e. x = Inl e \<longrightarrow> wp (g e) Q s) \<and> (\<forall>y. x = Inr y \<longrightarrow> wp (f y) Q s))"
  by (cases x) auto

lemma wp_run: "wp m Q s \<Longrightarrow> run_state m s = (a, s') \<Longrightarrow> Q a s'"
  by (simp add: wp_def)

lemma wp_conj: "wp m P s \<Longrightarrow> wp m Q s \<Longrightarrow> wp m (\<lambda>a s'. P a s' \<and> Q a s') s"
  by (auto simp: wp_def split: prod.splits)

text \<open>An invariant of the state that an operation keeps, whatever it returns.\<close>

definition keeps :: "('s \<Rightarrow> bool) \<Rightarrow> ('s, 'a) state \<Rightarrow> bool" where
  "keeps I m = (\<forall>s. I s \<longrightarrow> wp m (\<lambda>_. I) s)"

lemma keepsI: "(\<And>s. I s \<Longrightarrow> wp m (\<lambda>_. I) s) \<Longrightarrow> keeps I m"
  by (simp add: keeps_def)

lemma keepsD: "keeps I m \<Longrightarrow> run_state m s = (a, s') \<Longrightarrow> I s \<Longrightarrow> I s'"
  by (auto simp: keeps_def wp_def split: prod.splits)

lemma keeps_return [simp, intro]: "keeps I (return x)"
  by (simp add: keeps_def)

lemma keeps_bind [intro]: "keeps I m \<Longrightarrow> (\<And>a. keeps I (f a)) \<Longrightarrow> keeps I (State_Monad.bind m f)"
  unfolding keeps_def wp_bind by (auto intro: wp_conseq)

lemma keeps_ok [intro]: "(\<And>x. r = Inr x \<Longrightarrow> keeps I (k x)) \<Longrightarrow> keeps I (ok r k)"
  by (cases r) auto

lemma keeps_check [intro]: "(e = None \<Longrightarrow> keeps I k) \<Longrightarrow> keeps I (check e k)"
  by (cases e) auto

lemma keeps_if [intro]:
  "(b \<Longrightarrow> keeps I m) \<Longrightarrow> (\<not> b \<Longrightarrow> keeps I m') \<Longrightarrow> keeps I (if b then m else m')"
  by simp

text \<open>What an operation returns when it succeeds, in any environment.\<close>

definition returns :: "('a \<Rightarrow> bool) \<Rightarrow> ('s, err + 'a) state \<Rightarrow> bool" where
  "returns P m \<longleftrightarrow> (\<forall>s. wp m (\<lambda>r _. \<forall>x. r = Inr x \<longrightarrow> P x) s)"

lemma returns_throw: "returns P (throw e)" and returns_return: "P x \<Longrightarrow> returns P (return (Inr x))"
  by (simp_all add: returns_def)

lemma returnsD: "\<lbrakk>returns P m; run_state m s = (Inr x, s')\<rbrakk> \<Longrightarrow> P x"
  unfolding returns_def using wp_run by fastforce

lemma returns_conseq: "\<lbrakk>returns P m; \<And>x. P x \<Longrightarrow> Q x\<rbrakk> \<Longrightarrow> returns Q m"
  unfolding returns_def by (blast intro: wp_conseq)

lemma returns_bind: "(\<And>a. returns P (f a)) \<Longrightarrow> returns P (State_Monad.bind m f)"
  unfolding returns_def wp_bind by (blast intro: wp_op)

lemma returns_keep: "returns P m \<Longrightarrow> returns P (do { r \<leftarrow> m; _ \<leftarrow> n; return r })"
  unfolding returns_def wp_bind wp_return
proof
  fix s assume "\<forall>s. wp m (\<lambda>r _. \<forall>x. r = Inr x \<longrightarrow> P x) s"
  then have "wp m (\<lambda>r _. \<forall>x. r = Inr x \<longrightarrow> P x) s" by simp
  then show "wp m (\<lambda>r. wp n (\<lambda>_ _. \<forall>x. r = Inr x \<longrightarrow> P x)) s" by (rule wp_conseq) (rule wp_op)
qed

lemma returns_ok: "(\<And>x. r = Inr x \<Longrightarrow> returns P (k x)) \<Longrightarrow> returns P (ok r k)"
  by (cases r) (simp_all add: returns_throw)

lemma returns_check: "(e = None \<Longrightarrow> returns P k) \<Longrightarrow> returns P (check e k)"
  by (cases e) (simp_all add: returns_throw)

lemma returns_if: "\<lbrakk>b \<Longrightarrow> returns P m; \<not> b \<Longrightarrow> returns P n\<rbrakk> \<Longrightarrow> returns P (if b then m else n)"
  by simp

lemma returns_seq: "\<lbrakk>returns P m; \<And>x. P x \<Longrightarrow> returns Q (k x)\<rbrakk> \<Longrightarrow> returns Q (do { r \<leftarrow> m; ok r k })"
  unfolding returns_def wp_bind wp_ok by (blast intro: wp_conseq)

lemma returns_option: "\<lbrakk>x = None \<Longrightarrow> returns P m; \<And>y. x = Some y \<Longrightarrow> returns P (f y)\<rbrakk> \<Longrightarrow> returns P (case x of None \<Rightarrow> m | Some y \<Rightarrow> f y)"
  by (cases x) simp_all

lemma returns_sum: "\<lbrakk>\<And>e. x = Inl e \<Longrightarrow> returns P (g e); \<And>y. x = Inr y \<Longrightarrow> returns P (f y)\<rbrakk> \<Longrightarrow> returns P (case x of Inl e \<Rightarrow> g e | Inr y \<Rightarrow> f y)"
  by (cases x) simp_all

lemma returns_prod: "(\<And>a b. x = (a, b) \<Longrightarrow> returns P (f a b)) \<Longrightarrow> returns P (case x of (a, b) \<Rightarrow> f a b)"
  by (cases x) simp_all

lemmas returns_rules = returns_throw returns_ok returns_check returns_if returns_option returns_sum returns_prod returns_bind

subsection \<open>Machine integers\<close>

text \<open>The signed 64-bit value of an integer: \<open>int64\<close> arithmetic of Go wraps around.\<close>

definition wrap64 :: "int \<Rightarrow> int" where
  "wrap64 x = (x + 2 ^ 63) mod 2 ^ 64 - 2 ^ 63"

definition maxInt64 :: int where
  "maxInt64 = 2 ^ 63 - 1"

definition is_int64 :: "int \<Rightarrow> bool" where
  "is_int64 x \<longleftrightarrow> - (2 ^ 63) \<le> x \<and> x \<le> maxInt64"

lemma wrap64_id [simp]: "is_int64 x \<Longrightarrow> wrap64 x = x"
  by (simp add: wrap64_def is_int64_def maxInt64_def)

lemma is_int64_wrap64 [simp]: "is_int64 (wrap64 x)"
proof -
  have "0 \<le> (x + 2 ^ 63) mod 2 ^ 64" "(x + 2 ^ 63) mod 2 ^ 64 < 2 ^ 64" by simp_all
  then show ?thesis unfolding wrap64_def is_int64_def maxInt64_def by auto
qed

lemma wrap64_overflow:
  assumes "maxInt64 < x" and "x \<le> 2 * maxInt64 + 1"
  shows "wrap64 x < 0"
proof -
  have "(x + 2 ^ 63) mod 2 ^ 64 = (x + 2 ^ 63 - 2 ^ 64) mod 2 ^ 64"
    by (simp only: minus_mod_self2)
  also have "\<dots> = x + 2 ^ 63 - 2 ^ 64"
    using assms by (intro mod_pos_pos_trivial) (auto simp: maxInt64_def)
  finally show ?thesis using assms by (simp add: wrap64_def maxInt64_def)
qed

text \<open>Counting a \<open>uint64\<close> down, as the ancestry loops do.\<close>

lemma unat_pred_less [simp]: "(a :: u64) < g \<Longrightarrow> unat (g - 1) < unat g"
  by (metis measure_unat word_not_simps(1))

end
