(* ===== verification/Sha256.thy ===== *)
theory Sha256
  imports Prelude
begin

section \<open>SHA-256\<close>

text \<open>
  The function of Go's \<open>crypto/sha256\<close> (FIPS 180-4), executable. The object digests of
  \<open>digest.go\<close>, the signing messages and the journal checksums are built on it. Nothing in
  the development assumes that it has no collisions; a theorem that needs two given inputs not
  to collide says so.
\<close>

unbundle bit_operations_syntax

text \<open>
  The constants of the standard are the first 32 bits of the fractional parts of the cube roots
  of the first 64 primes, and of the square roots of the first eight for the initial state. They
  are computed here from this description: \<open>root f b n r\<close> finds the largest \<open>r\<close> with
  \<open>f r \<le> n\<close> bit by bit, from the bit \<open>b\<close> downwards, and \<open>word_of_int\<close> drops the
  integer part.
\<close>

function root :: "(int \<Rightarrow> int) \<Rightarrow> int \<Rightarrow> int \<Rightarrow> int \<Rightarrow> int" where
  "root f b n r =
     (if b \<le> 0 then r else root f (b div 2) n (if f (r + b) \<le> n then r + b else r))"
  by auto
termination by (relation "measure (\<lambda>(f, b, n, r). nat b)") auto

declare root.simps [simp del]

definition primes64 :: "int list" where
  "primes64 = [
     2, 3, 5, 7, 11, 13, 17, 19, 23, 29, 31, 37, 41, 43, 47, 53,
     59, 61, 67, 71, 73, 79, 83, 89, 97, 101, 103, 107, 109, 113, 127, 131,
     137, 139, 149, 151, 157, 163, 167, 173, 179, 181, 191, 193, 197, 199, 211, 223,
     227, 229, 233, 239, 241, 251, 257, 263, 269, 271, 277, 281, 283, 293, 307, 311]"

definition cbrt_bits :: "int \<Rightarrow> 32 word" where
  "cbrt_bits p = word_of_int (root (\<lambda>x. x * x * x) 0x400000000 (p * 0x1000000000000000000000000) 0)"

definition sqrt_bits :: "int \<Rightarrow> 32 word" where
  "sqrt_bits p = word_of_int (root (\<lambda>x. x * x) 0x400000000 (p * 0x10000000000000000) 0)"

definition sha256_k :: "32 word list" where
  "sha256_k = map cbrt_bits primes64"

definition rotr32 :: "nat \<Rightarrow> 32 word \<Rightarrow> 32 word" where
  "rotr32 n x = drop_bit n x OR push_bit (32 - n) x"

definition small_sigma0 :: "32 word \<Rightarrow> 32 word" where
  "small_sigma0 x = rotr32 7 x XOR rotr32 18 x XOR drop_bit 3 x"

definition small_sigma1 :: "32 word \<Rightarrow> 32 word" where
  "small_sigma1 x = rotr32 17 x XOR rotr32 19 x XOR drop_bit 10 x"

text \<open>
  One round takes the eight working variables and the window of the next sixteen schedule words;
  the window moves on by the recurrence of the message schedule.
\<close>

fun sha256_round :: "32 word list \<Rightarrow> 32 word \<Rightarrow> 32 word \<Rightarrow> 32 word list" where
  "sha256_round [a, b, c, d, e, f, g, h] k w =
     (let s1 = rotr32 6 e XOR rotr32 11 e XOR rotr32 25 e;
          ch = (e AND f) XOR (NOT e AND g);
          t1 = h + s1 + ch + k + w;
          s0 = rotr32 2 a XOR rotr32 13 a XOR rotr32 22 a;
          maj = (a AND b) XOR (a AND c) XOR (b AND c)
      in [t1 + (s0 + maj), a, b, c, d + t1, e, f, g])"
| "sha256_round v k w = v"

definition schedule_next :: "32 word list \<Rightarrow> 32 word list" where
  "schedule_next ws = tl ws @ [small_sigma1 (ws ! 14) + ws ! 9 + small_sigma0 (ws ! 1) + hd ws]"

fun sha256_rounds :: "32 word list \<Rightarrow> 32 word list \<Rightarrow> 32 word list \<Rightarrow> 32 word list" where
  "sha256_rounds [] v ws = v"
| "sha256_rounds (k # ks) v ws = sha256_rounds ks (sha256_round v k (hd ws)) (schedule_next ws)"

definition sha256_block :: "32 word list \<Rightarrow> 32 word list \<Rightarrow> 32 word list" where
  "sha256_block v ws = map2 (+) v (sha256_rounds sha256_k v ws)"

fun be_words :: "bytes \<Rightarrow> 32 word list" where
  "be_words (a # b # c # d # r) =
     word_of_int (((of_char a * 256 + of_char b) * 256 + of_char c) * 256 + of_char d) # be_words r"
| "be_words _ = []"

primrec be_bytes :: "nat \<Rightarrow> nat \<Rightarrow> bytes" where
  "be_bytes 0 n = []"
| "be_bytes (Suc k) n = be_bytes k (n div 256) @ [char_of n]"

definition sha256_pad :: "bytes \<Rightarrow> bytes" where
  "sha256_pad m = m @ char_of (128 :: nat) #
     replicate (nat ((55 - int (length m)) mod 64)) (char_of (0 :: nat)) @ be_bytes 8 (8 * length m)"

function sha256_blocks :: "32 word list \<Rightarrow> 32 word list \<Rightarrow> 32 word list" where
  "sha256_blocks v ws = (if ws = [] then v else sha256_blocks (sha256_block v (take 16 ws)) (drop 16 ws))"
  by auto
termination by (relation "measure (\<lambda>(v, ws). length ws)") auto

declare sha256_blocks.simps [simp del]

definition sha256_init :: "32 word list" where
  "sha256_init = map sqrt_bits (take 8 primes64)"

definition sha256 :: "bytes \<Rightarrow> digest" where
  "sha256 m = foldl (\<lambda>acc w. push_bit 32 acc OR ucast w) 0
     (sha256_blocks sha256_init (be_words (sha256_pad m)))"

end
