(* ===== verification/Go_Lib.thy ===== *)
theory Go_Lib
  imports Prelude "HOL-Library.Char_ord" "HOL-Library.List_Lexorder"
begin

section \<open>The parts of the Go standard library the code uses\<close>

text \<open>
  Executable models of the functions of \<open>encoding/hex\<close>, \<open>encoding/base64\<close>,
  \<open>strconv\<close>, \<open>unicode/utf8\<close>, \<open>strings\<close>, \<open>path\<close> and \<open>sort\<close> that the modelled
  code calls, with the laws the components rest on: the encodings round-trip, binary search
  finds the least index, a cleaned relative path is a list of plain components.
  Strings are compared byte by byte (\<open>bytes.Compare\<close>), which is the lexicographic order of
  the library on lists of characters.
\<close>

subsection \<open>Hexadecimal\<close>

definition hexdigit :: "nat \<Rightarrow> char" where
  "hexdigit n = (if n < 10 then char_of (48 + n) else char_of (87 + n))"

definition hexval :: "char \<Rightarrow> nat option" where
  "hexval c = (let n = of_char c in
     if 48 \<le> n \<and> n \<le> 57 then Some (n - 48)
     else if 97 \<le> n \<and> n \<le> 102 then Some (n - 87)
     else if 65 \<le> n \<and> n \<le> 70 then Some (n - 55)
     else None)"

primrec hex_fixed :: "nat \<Rightarrow> nat \<Rightarrow> bytes" where
  "hex_fixed 0 n = []"
| "hex_fixed (Suc k) n = hex_fixed k (n div 16) @ [hexdigit (n mod 16)]"

fun hex_value :: "nat \<Rightarrow> bytes \<Rightarrow> nat option" where
  "hex_value acc [] = Some acc"
| "hex_value acc (c # cs) =
     (case hexval c of None \<Rightarrow> None | Some v \<Rightarrow> hex_value (16 * acc + v) cs)"

lemma hexval_hexdigit [simp]: "n < 16 \<Longrightarrow> hexval (hexdigit n) = Some n"
  by (auto simp: hexval_def hexdigit_def Let_def)

lemma length_hex_fixed [simp]: "length (hex_fixed k n) = k"
  by (induction k arbitrary: n) auto

lemma hex_value_append:
  "hex_value acc (xs @ ys) = (case hex_value acc xs of None \<Rightarrow> None | Some a \<Rightarrow> hex_value a ys)"
  by (induction xs arbitrary: acc) (auto split: option.splits)

lemma hex_value_hex_fixed: "hex_value acc (hex_fixed k n) = Some (16 ^ k * acc + n mod 16 ^ k)"
proof (induction k arbitrary: n)
  case (Suc k)
  have "n mod (16 * 16 ^ k) = 16 * (n div 16 mod 16 ^ k) + n mod 16"
    by (simp add: mod_mult2_eq)
  then show ?case by (simp add: Suc hex_value_append algebra_simps)
qed simp

text \<open>\<open>hex.EncodeToString\<close> and \<open>hex.DecodeString\<close> at the 32 bytes of a digest.\<close>

definition hex256 :: "256 word \<Rightarrow> bytes" where
  "hex256 d = hex_fixed 64 (unat d)"

definition parse_hex256 :: "bytes \<Rightarrow> 256 word option" where
  "parse_hex256 s = (if length s = 64 then map_option of_nat (hex_value 0 s) else None)"

lemma length_hex256 [simp]: "length (hex256 d) = 64"
  by (simp add: hex256_def)

lemma parse_hex256_hex256 [simp]: "parse_hex256 (hex256 d) = Some d"
proof -
  have "unat d < 16 ^ 64" using unsigned_less [of d] by simp
  then show ?thesis by (simp add: parse_hex256_def hex256_def hex_value_hex_fixed)
qed

lemma hex256_inject [simp]: "hex256 d = hex256 e \<longleftrightarrow> d = e"
  by (metis option.inject parse_hex256_hex256)

subsection \<open>Decimal numbers\<close>

fun dec :: "nat \<Rightarrow> bytes" where
  "dec n = (if n < 10 then [char_of (48 + n)] else dec (n div 10) @ [char_of (48 + n mod 10)])"

declare dec.simps [simp del]

definition is_digit :: "char \<Rightarrow> bool" where
  "is_digit c \<longleftrightarrow> 48 \<le> (of_char c :: nat) \<and> of_char c \<le> (57 :: nat)"

fun dec_value :: "nat \<Rightarrow> bytes \<Rightarrow> nat" where
  "dec_value acc [] = acc"
| "dec_value acc (c # cs) = dec_value (10 * acc + (of_char c - 48)) cs"

lemma dec_value_append: "dec_value acc (xs @ ys) = dec_value (dec_value acc xs) ys"
  by (induction xs arbitrary: acc) auto

lemma dec_value_dec [simp]: "dec_value 0 (dec n) = n"
proof (induction n rule: dec.induct)
  case (1 n)
  show ?case
    by (cases "n < 10") (use 1 in \<open>simp_all add: dec.simps [of n] dec_value_append\<close>)
qed

lemma dec_digits: "list_all is_digit (dec n)"
proof (induction n rule: dec.induct)
  case (1 n)
  show ?case
    by (cases "n < 10") (use 1 in \<open>simp_all add: dec.simps [of n] is_digit_def\<close>)
qed

lemma dec_nonempty [simp]: "dec n \<noteq> []"
  by (subst dec.simps) simp

lemma dec_inject [simp]: "dec m = dec n \<longleftrightarrow> m = n"
  by (metis dec_value_dec)

lemma length_dec: "n < 10 ^ k \<Longrightarrow> 0 < k \<Longrightarrow> length (dec n) \<le> k"
proof (induction n arbitrary: k rule: dec.induct)
  case (1 n)
  show ?case
  proof (cases "n < 10")
    case False
    with "1.prems" obtain j where k: "k = Suc j" "0 < j" by (cases k; cases "k - 1") auto
    then have "length (dec (n div 10)) \<le> j" using 1 False by (simp add: less_mult_imp_div_less mult.commute)
    then show ?thesis using False k by (simp add: dec.simps [of n])
  qed (use "1.prems" in \<open>simp add: dec.simps [of n]\<close>)
qed

definition dec_int :: "int \<Rightarrow> bytes" where
  "dec_int i = (if i < 0 then CHR ''-'' # dec (nat (- i)) else dec (nat i))"

subsection \<open>Base64\<close>

definition b64_std :: "nat \<Rightarrow> char" where
  "b64_std v = (if v < 26 then char_of (65 + v) else if v < 52 then char_of (71 + v)
     else if v < 62 then char_of (v - 4) else if v = 62 then CHR ''+'' else CHR ''/'')"

definition b64_url :: "nat \<Rightarrow> char" where
  "b64_url v = (if v = 62 then CHR ''-'' else if v = 63 then CHR ''_'' else b64_std v)"

definition b64_std_val :: "char \<Rightarrow> nat option" where
  "b64_std_val c = (let n = of_char c in
     if 65 \<le> n \<and> n \<le> 90 then Some (n - 65)
     else if 97 \<le> n \<and> n \<le> 122 then Some (n - 71)
     else if 48 \<le> n \<and> n \<le> 57 then Some (n + 4)
     else if n = 43 then Some 62 else if n = 47 then Some 63 else None)"

fun b64_encode :: "(nat \<Rightarrow> char) \<Rightarrow> bytes \<Rightarrow> bytes \<Rightarrow> bytes" where
  "b64_encode e pad [] = []"
| "b64_encode e pad [a] =
     [e (of_char a div 4), e (of_char a mod 4 * 16)] @ pad @ pad"
| "b64_encode e pad [a, b] =
     [e (of_char a div 4), e (of_char a mod 4 * 16 + of_char b div 16),
      e (of_char b mod 16 * 4)] @ pad"
| "b64_encode e pad (a # b # c # r) =
     [e (of_char a div 4), e (of_char a mod 4 * 16 + of_char b div 16),
      e (of_char b mod 16 * 4 + of_char c div 64), e (of_char c mod 64)] @ b64_encode e pad r"

text \<open>\<open>base64.StdEncoding\<close>, which \<open>encoding/json\<close> uses for \<open>[]byte\<close>, and
  \<open>base64.RawURLEncoding\<close>, which the repository uses for channel names in keys.\<close>

definition b64_std_encode :: "bytes \<Rightarrow> bytes" where
  "b64_std_encode = b64_encode b64_std ''=''"

definition b64_rawurl_encode :: "bytes \<Rightarrow> bytes" where
  "b64_rawurl_encode = b64_encode b64_url []"

fun b64_std_decode :: "bytes \<Rightarrow> bytes option" where
  "b64_std_decode [] = Some []"
| "b64_std_decode (w # x # y # z # r) =
     (case (b64_std_val w, b64_std_val x) of
        (Some p, Some q) \<Rightarrow>
          if y = CHR ''='' \<and> z = CHR ''='' \<and> r = [] then Some [char_of (p * 4 + q div 16)]
          else (case b64_std_val y of None \<Rightarrow> None | Some s \<Rightarrow>
            if z = CHR ''='' \<and> r = [] then
              Some [char_of (p * 4 + q div 16), char_of (q mod 16 * 16 + s div 4)]
            else (case b64_std_val z of None \<Rightarrow> None | Some t \<Rightarrow>
              map_option (\<lambda>bs. char_of (p * 4 + q div 16) # char_of (q mod 16 * 16 + s div 4)
                # char_of (s mod 4 * 64 + t) # bs) (b64_std_decode r)))
      | _ \<Rightarrow> None)"
| "b64_std_decode _ = None"

lemma b64_std_val_b64_std [simp]: "v < 64 \<Longrightarrow> b64_std_val (b64_std v) = Some v"
  by (auto simp: b64_std_val_def b64_std_def Let_def)

lemma b64_std_val_pad [simp]: "b64_std_val CHR ''='' = None"
  by (simp add: b64_std_val_def)

lemma b64_std_not_pad [simp]: "v < 64 \<Longrightarrow> b64_std v \<noteq> CHR ''=''"
  using b64_std_val_b64_std [of v] b64_std_val_pad by (metis option.distinct(1))

lemma b64_group_bounds [simp]:
  "of_char a div 4 < (64 :: nat)"
  "of_char a mod 4 * 16 < (64 :: nat)"
  "of_char a mod 4 * 16 + of_char b div 16 < (64 :: nat)"
  "of_char b mod 16 * 4 < (64 :: nat)"
  "of_char b mod 16 * 4 + of_char c div 64 < (64 :: nat)"
  using nat_of_char_less_256 [of a] nat_of_char_less_256 [of b] nat_of_char_less_256 [of c] by linarith+

lemma of_char_div_simps [simp]:
  "of_char b div 16 div 16 = (0 :: nat)"
  "of_char b div 16 mod 16 = (of_char b div 16 :: nat)"
  "of_char c div 64 div 4 = (0 :: nat)"
  "of_char c div 64 mod 4 = (of_char c div 64 :: nat)"
proof -
  have "of_char b div 16 < (16 :: nat)" "of_char c div 64 < (4 :: nat)"
    using nat_of_char_less_256 [of b] nat_of_char_less_256 [of c] by linarith+
  then show "of_char b div 16 div 16 = (0 :: nat)"
    "of_char b div 16 mod 16 = (of_char b div 16 :: nat)"
    "of_char c div 64 div 4 = (0 :: nat)"
    "of_char c div 64 mod 4 = (of_char c div 64 :: nat)" by simp_all
qed

lemma b64_mid_div [simp]: "(of_char b mod 16 * 4 + of_char c div 64) div 4 = (of_char b mod 16 :: nat)"
  by (subst add.commute) (simp only: div_mult_self1 of_char_div_simps zero_neq_numeral not_False_eq_True add_0_right add_0_left)

lemma b64_std_decode_encode [simp]: "b64_std_decode (b64_std_encode bs) = Some bs"
proof -
  have "b64_std_decode (b64_encode e pad bs) = Some bs" if "e = b64_std" "pad = ''=''" for e pad
    using that by (induction e pad bs rule: b64_encode.induct) simp_all
  then show ?thesis by (simp add: b64_std_encode_def)
qed

text \<open>The raw URL alphabet, decoded through the standard one: other characters become a blank,
  which is in neither.\<close>

definition b64_url_to_std :: "char \<Rightarrow> char" where
  "b64_url_to_std c = (if c = CHR ''-'' then CHR ''+'' else if c = CHR ''_'' then CHR ''/''
     else if c = CHR ''+'' \<or> c = CHR ''/'' \<or> c = CHR ''='' then CHR '' '' else c)"

definition b64_rawurl_decode :: "bytes \<Rightarrow> bytes option" where
  "b64_rawurl_decode s =
     b64_std_decode (map b64_url_to_std s @ replicate ((4 - length s mod 4) mod 4) (CHR ''=''))"

lemma b64_url_to_std_b64_url [simp]: "v < 64 \<Longrightarrow> b64_url_to_std (b64_url v) = b64_std v"
proof -
  assume v: "v < 64"
  have "b64_std v \<noteq> CHR ''-'' \<and> b64_std v \<noteq> CHR ''_'' \<and> (v < 62 \<longrightarrow> b64_std v \<noteq> CHR ''+'' \<and> b64_std v \<noteq> CHR ''/'')"
    using b64_std_val_b64_std [OF v] by (auto simp: b64_std_val_def)
  with v b64_std_not_pad [OF v] show ?thesis
    by (cases "v = 62"; cases "v = 63") (simp_all add: b64_url_to_std_def b64_url_def, simp_all add: b64_std_def)
qed

lemma b64_rawurl_std:
  "map b64_url_to_std (b64_rawurl_encode bs)
     @ replicate ((4 - length (b64_rawurl_encode bs) mod 4) mod 4) (CHR ''='') = b64_std_encode bs"
proof -
  have "map b64_url_to_std (b64_encode e pad bs)
     @ replicate ((4 - length (b64_encode e pad bs) mod 4) mod 4) (CHR ''='') = b64_encode b64_std ''='' bs"
    if "e = b64_url" "pad = []" for e pad
    using that by (induction e pad bs rule: b64_encode.induct) (simp_all add: replicate_add [symmetric] numeral_2_eq_2)
  then show ?thesis by (simp add: b64_rawurl_encode_def b64_std_encode_def)
qed

lemma b64_rawurl_decode_encode [simp]: "b64_rawurl_decode (b64_rawurl_encode bs) = Some bs"
  by (simp only: b64_rawurl_decode_def b64_rawurl_std b64_std_decode_encode)

lemma b64_rawurl_encode_inject [simp]: "b64_rawurl_encode a = b64_rawurl_encode b \<longleftrightarrow> a = b"
  by (metis b64_rawurl_decode_encode option.inject)

subsection \<open>UTF-8\<close>

text \<open>
  \<open>rune_len bs\<close> is the length of the well-formed rune at the head of \<open>bs\<close>, and 0 where
  \<open>utf8.DecodeRune\<close> reports an error: the table of the Unicode standard with its tighter
  bounds on the second byte after E0, ED, F0 and F4.
\<close>

definition utf8_cont :: "nat \<Rightarrow> bool" where
  "utf8_cont b \<longleftrightarrow> 128 \<le> b \<and> b \<le> 191"

definition utf8_lo :: "nat \<Rightarrow> nat" where
  "utf8_lo b = (if b = 224 then 160 else if b = 240 then 144 else 128)"

definition utf8_hi :: "nat \<Rightarrow> nat" where
  "utf8_hi b = (if b = 237 then 159 else if b = 244 then 143 else 191)"

fun rune_len_n :: "nat list \<Rightarrow> nat" where
  "rune_len_n [] = 0"
| "rune_len_n (b # r) =
     (if b < 128 then 1
      else if b \<le> 193 then 0
      else if b \<le> 223 then (case r of c # _ \<Rightarrow> if utf8_cont c then 2 else 0 | _ \<Rightarrow> 0)
      else if b \<le> 239 then (case r of c # d # _ \<Rightarrow>
        if utf8_lo b \<le> c \<and> c \<le> utf8_hi b \<and> utf8_cont d then 3 else 0 | _ \<Rightarrow> 0)
      else if b \<le> 244 then (case r of c # d # e # _ \<Rightarrow>
        if utf8_lo b \<le> c \<and> c \<le> utf8_hi b \<and> utf8_cont d \<and> utf8_cont e then 4 else 0 | _ \<Rightarrow> 0)
      else 0)"

definition rune_len :: "bytes \<Rightarrow> nat" where
  "rune_len bs = rune_len_n (map of_char (take 4 bs))"

function utf8_valid :: "bytes \<Rightarrow> bool" where
  "utf8_valid bs =
     (if bs = [] then True
      else if rune_len bs = 0 then False
      else utf8_valid (drop (rune_len bs) bs))"
  by pat_completeness auto
termination
  by (relation "measure length") auto

declare utf8_valid.simps [simp del]

lemma utf8_lo_ge: "128 \<le> utf8_lo b"
  by (simp add: utf8_lo_def)

lemma rune_len_n_le: "rune_len_n ns \<le> length ns"
  by (cases ns rule: rune_len_n.cases) (simp_all split: list.splits)

lemma rune_len_le: "rune_len bs \<le> length bs"
  using rune_len_n_le [of "map of_char (take 4 bs)"] by (simp add: rune_len_def)

lemma rune_len_ascii [simp]: "of_char c < (128 :: nat) \<Longrightarrow> rune_len (c # cs) = 1"
  by (simp add: rune_len_def)

lemma rune_len_n_wide:
  assumes "128 \<le> b" and "n \<in> set (take (rune_len_n (b # r)) (b # r))"
  shows "128 \<le> n"
proof -
  have lo: "128 \<le> c" if "utf8_lo b \<le> c" for c using that utf8_lo_ge le_trans by blast
  have "rune_len_n (b # r) \<le> 1 \<or> (\<forall>c \<in> set (take (rune_len_n (b # r) - 1) r). 128 \<le> c)"
  proof (cases r)
    case r: (Cons c r1)
    show ?thesis
    proof (cases r1)
      case Nil
      with r show ?thesis by (simp add: utf8_cont_def)
    next
      case r1: (Cons d r2)
      show ?thesis
        by (cases r2) (use lo in \<open>simp_all add: r r1 utf8_cont_def\<close>)
    qed
  qed simp
  moreover have "take (rune_len_n (b # r)) (b # r) = take 1 (b # r) \<or>
      take (rune_len_n (b # r)) (b # r) = [] \<or>
      take (rune_len_n (b # r)) (b # r) = b # take (rune_len_n (b # r) - 1) r"
    by (cases "rune_len_n (b # r)") auto
  ultimately show ?thesis
    using assms by (cases "rune_len_n (b # r) \<le> 1") (auto simp del: rune_len_n.simps simp: le_Suc_eq)
qed

lemma rune_len_wide:
  assumes "128 \<le> (of_char c :: nat)" and "x \<in> set (take (rune_len (c # cs)) (c # cs))"
  shows "128 \<le> (of_char x :: nat)"
proof -
  let ?ns = "map of_char (take 4 (c # cs)) :: nat list"
  have ns: "?ns = of_char c # map of_char (take 3 cs)" by simp
  have le: "rune_len (c # cs) \<le> 4" unfolding rune_len_def
    using rune_len_n_le [of ?ns] by (metis le_trans length_map length_take min.cobounded2)
  have "take (rune_len (c # cs)) (take 4 (c # cs)) = take (rune_len (c # cs)) (c # cs)"
    by (simp only: take_take min_absorb1 [OF le])
  then have "of_char x \<in> of_char ` set (take (rune_len (c # cs)) (take 4 (c # cs)))"
    using assms(2) by (simp only: imageI)
  then have "of_char x \<in> set (take (rune_len_n ?ns) ?ns)"
    by (simp only: rune_len_def set_map take_map)
  then show ?thesis
    unfolding ns using rune_len_n_wide [OF assms(1)] by blast
qed

lemma utf8_valid_Nil [simp]: "utf8_valid []"
  by (simp add: utf8_valid.simps)

lemma utf8_valid_ascii_Cons [simp]:
  "of_char c < (128 :: nat) \<Longrightarrow> utf8_valid (c # cs) = utf8_valid cs"
  by (subst utf8_valid.simps) simp

definition ascii :: "bytes \<Rightarrow> bool" where
  "ascii bs = list_all (\<lambda>c. of_char c < (128 :: nat)) bs"

lemma ascii_simps [simp]:
  "ascii []" "ascii (c # cs) = (of_char c < (128 :: nat) \<and> ascii cs)"
  "ascii (xs @ ys) = (ascii xs \<and> ascii ys)"
  by (simp_all add: ascii_def)

lemma ascii_utf8_valid: "ascii bs \<Longrightarrow> utf8_valid bs"
  by (induction bs) auto

lemma ascii_hex_fixed [simp]: "ascii (hex_fixed k n)"
  by (induction k arbitrary: n) (auto simp: hexdigit_def)

lemma ascii_hex256 [simp]: "ascii (hex256 d)"
  by (simp add: hex256_def)

lemma ascii_dec [simp]: "ascii (dec n)"
  using dec_digits [of n] by (auto simp: ascii_def is_digit_def list_all_iff)

lemma ascii_b64_std [simp]: "v < 64 \<Longrightarrow> of_char (b64_std v) < (128 :: nat)"
  by (auto simp: b64_std_def)

lemma ascii_b64_std_encode [simp]: "ascii (b64_std_encode bs)"
proof -
  have "ascii (b64_encode e pad bs)" if "e = b64_std" "pad = ''=''" for e pad
    using that by (induction e pad bs rule: b64_encode.induct) simp_all
  then show ?thesis by (simp add: b64_std_encode_def)
qed

subsection \<open>sort.Search\<close>

function search_loop :: "(nat \<Rightarrow> bool) \<Rightarrow> nat \<Rightarrow> nat \<Rightarrow> nat" where
  "search_loop f i j =
     (if i < j then
        (let h = (i + j) div 2 in if \<not> f h then search_loop f (h + 1) j else search_loop f i h)
      else i)"
  by pat_completeness auto
termination
  by (relation "measure (\<lambda>(f, i, j). j - i)") auto

declare search_loop.simps [simp del]

definition sort_Search :: "nat \<Rightarrow> (nat \<Rightarrow> bool) \<Rightarrow> nat" where
  "sort_Search n f = search_loop f 0 n"

definition upward :: "nat \<Rightarrow> (nat \<Rightarrow> bool) \<Rightarrow> bool" where
  "upward n f = (\<forall>a b. a \<le> b \<longrightarrow> b < n \<longrightarrow> f a \<longrightarrow> f b)"

definition least_in :: "nat \<Rightarrow> (nat \<Rightarrow> bool) \<Rightarrow> nat \<Rightarrow> bool" where
  "least_in n f k \<longleftrightarrow> k \<le> n \<and> (\<forall>i<k. \<not> f i) \<and> (k < n \<longrightarrow> f k)"

lemma least_inD:
  assumes "least_in n f k"
  shows "k \<le> n" and "i < k \<Longrightarrow> \<not> f i" and "k < n \<Longrightarrow> f k"
  using assms by (auto simp: least_in_def)

lemma search_loop_correct:
  assumes "upward n f" and "i \<le> j" and "j \<le> n" and "\<forall>k<i. \<not> f k" and "j < n \<longrightarrow> f j"
  shows "least_in n f (search_loop f i j)"
  using assms
proof (induction f i j rule: search_loop.induct)
  case (1 f i j)
  let ?h = "(i + j) div 2"
  show ?case
  proof (cases "i < j")
    case False
    with 1(4-) have "i = j" "\<forall>k<i. \<not> f k" "j < n \<longrightarrow> f j" "j \<le> n" by auto
    with False show ?thesis unfolding search_loop.simps [of f i j] least_in_def by auto
  next
    case True
    then have h: "i \<le> ?h" "?h < j" by auto
    show ?thesis
    proof (cases "f ?h")
      case f: False
      have "\<forall>k < ?h + 1. \<not> f k"
      proof (intro allI impI notI)
        fix k assume k: "k < ?h + 1" "f k"
        then have "k \<le> ?h" by simp
        moreover have "?h < n" using h(2) 1(5) by (rule less_le_trans)
        ultimately show False using k(2) f 1(3) unfolding upward_def by blast
      qed
      then have "least_in n f (search_loop f (?h + 1) j)"
        using 1(1) [OF True refl f] 1(3,5,7) h by simp
      with True f show ?thesis by (simp add: search_loop.simps [of f i j] Let_def)
    next
      case f: True
      have "least_in n f (search_loop f i ?h)"
        by (rule 1(2) [OF True refl]) (use f h 1(3,5,6) in auto)
      with True f show ?thesis by (simp add: search_loop.simps [of f i j] Let_def)
    qed
  qed
qed

lemma sort_Search_least: "upward n f \<Longrightarrow> least_in n f (sort_Search n f)"
  unfolding sort_Search_def by (rule search_loop_correct) auto

end
