(* ===== verification/Go_Json.thy ===== *)
theory Go_Json
  imports Go_Lib
begin

section \<open>JSON as \<open>encoding/json\<close> writes it\<close>

text \<open>
  \<open>json_print\<close> is the compact text \<open>json.Marshal\<close> produces: Go's escapes in strings
  (control characters, the HTML characters, U+2028 and U+2029, U+FFFD for a byte that is not
  UTF-8), decimal integers, no white space. \<open>json_parse\<close> reads exactly this compact syntax.
  \<open>json.Unmarshal\<close> accepts more (white space, other escapes, other field orders), but the
  protocol always compares its input with the re-encoded value and rejects any difference with
  the same error, so a text outside the compact syntax is rejected either way.
  The main result is the round trip: \<open>json_parse (json_print j) = Some (repair j)\<close>, where \<open>repair\<close>
  is the identity on values whose strings are UTF-8.
\<close>

datatype json =
    JNull
  | JBool bool
  | JNum int
  | JStr bytes
  | JArr "json list"
  | JObj "(bytes \<times> json) list"

abbreviation quote :: char where
  "quote \<equiv> CHR 0x22"

abbreviation bslash :: char where
  "bslash \<equiv> CHR 0x5C"

subsection \<open>Strings\<close>

definition u_escape :: "bytes \<Rightarrow> bytes" where
  "u_escape h = bslash # CHR ''u'' # h"

definition short_escape :: "nat \<Rightarrow> nat option" where
  "short_escape n =
     (if n = 34 \<or> n = 92 then Some n
      else if n = 8 then Some 98
      else if n = 12 then Some 102
      else if n = 10 then Some 110
      else if n = 13 then Some 114
      else if n = 9 then Some 116
      else None)"

definition esc_ascii :: "char \<Rightarrow> bytes" where
  "esc_ascii c = (let n = of_char c :: nat in
     case short_escape n of
       Some e \<Rightarrow> [bslash, char_of e]
     | None \<Rightarrow> if n < 32 \<or> n = 60 \<or> n = 62 \<or> n = 38 then u_escape (hex_fixed 4 n) else [c])"

definition line_sep :: bytes where
  "line_sep = [char_of (226 :: nat), char_of (128 :: nat), char_of (168 :: nat)]"

definition para_sep :: bytes where
  "para_sep = [char_of (226 :: nat), char_of (128 :: nat), char_of (169 :: nat)]"

function json_escape :: "bytes \<Rightarrow> bytes" where
  "json_escape [] = []"
| "json_escape (c # cs) =
     (if of_char c < (128 :: nat) then esc_ascii c @ json_escape cs
      else if rune_len (c # cs) = 0 then u_escape ''fffd'' @ json_escape cs
      else if take 3 (c # cs) = line_sep then u_escape ''2028'' @ json_escape (drop 3 (c # cs))
      else if take 3 (c # cs) = para_sep then u_escape ''2029'' @ json_escape (drop 3 (c # cs))
      else take (rune_len (c # cs)) (c # cs) @ json_escape (drop (rune_len (c # cs)) (c # cs)))"
  by pat_completeness auto
termination
  by (relation "measure length") auto

declare json_escape.simps(2) [simp del]

text \<open>The UTF-8 bytes of a code point of the basic plane; a lone surrogate becomes U+FFFD.\<close>

definition utf8_encode :: "nat \<Rightarrow> bytes" where
  "utf8_encode v =
     (if v < 128 then [char_of v]
      else if v < 2048 then [char_of (192 + v div 64), char_of (128 + v mod 64)]
      else if 55296 \<le> v \<and> v < 57344 then [char_of (239 :: nat), char_of (191 :: nat), char_of (189 :: nat)]
      else [char_of (224 + v div 4096), char_of (128 + v div 64 mod 64), char_of (128 + v mod 64)])"

definition unesc :: "char \<Rightarrow> char option" where
  "unesc e = (let n = of_char e :: nat in
     if n = 34 \<or> n = 92 \<or> n = 47 then Some e
     else if n = 98 then Some (char_of (8 :: nat))
     else if n = 102 then Some (char_of (12 :: nat))
     else if n = 110 then Some (char_of (10 :: nat))
     else if n = 114 then Some (char_of (13 :: nat))
     else if n = 116 then Some (char_of (9 :: nat))
     else None)"

fun json_unescape :: "bytes \<Rightarrow> (bytes \<times> bytes) option" where
  "json_unescape [] = None"
| "json_unescape (c # cs) =
     (if c = quote then Some ([], cs)
      else if c \<noteq> bslash then map_option (apfst (Cons c)) (json_unescape cs)
      else (case cs of [] \<Rightarrow> None | e # r \<Rightarrow>
        if e = CHR ''u'' then
          (if length r < 4 then None
           else (case hex_value 0 (take 4 r) of None \<Rightarrow> None | Some v \<Rightarrow>
             map_option (apfst ((@) (utf8_encode v))) (json_unescape (drop 4 r))))
        else (case unesc e of None \<Rightarrow> None | Some x \<Rightarrow>
          map_option (apfst (Cons x)) (json_unescape r))))"

lemma json_unescape_raw:
  assumes "\<And>c. c \<in> set xs \<Longrightarrow> 128 \<le> (of_char c :: nat)"
  shows "json_unescape (xs @ ys) = map_option (apfst ((@) xs)) (json_unescape ys)"
  using assms
proof (induction xs)
  case Nil
  then show ?case by (cases "json_unescape ys") auto
next
  case (Cons c cs)
  then have "128 \<le> (of_char c :: nat)" by simp
  then have "c \<noteq> quote" "c \<noteq> bslash" by auto
  with Cons show ?case by (cases "json_unescape ys") auto
qed

lemma json_unescape_u:
  assumes "hex_value 0 h = Some v" "length h = 4"
  shows "json_unescape (u_escape h @ ys) = map_option (apfst ((@) (utf8_encode v))) (json_unescape ys)"
  using assms by (simp add: u_escape_def)

lemma of_char_eqD: "of_char c = (n :: nat) \<Longrightarrow> char_of n = c"
  by auto

lemma unesc_short_escape:
  assumes "short_escape (of_char c) = Some e"
  shows "unesc (char_of e) = Some c" and "char_of e \<noteq> CHR ''u''"
proof -
  show "unesc (char_of e) = Some c"
    using assms by (auto simp: short_escape_def unesc_def of_char_eqD split: if_splits)
  have "e \<noteq> 117" "e < 256" using assms by (auto simp: short_escape_def split: if_splits)
  then have "of_char (char_of e) \<noteq> (of_char CHR ''u'' :: nat)" by simp
  then show "char_of e \<noteq> CHR ''u''" by metis
qed

lemma json_unescape_esc_ascii:
  assumes "of_char c < (128 :: nat)"
  shows "json_unescape (esc_ascii c @ ys) = map_option (apfst (Cons c)) (json_unescape ys)"
proof (cases "short_escape (of_char c)")
  case (Some e)
  then show ?thesis using unesc_short_escape [OF Some] by (simp add: esc_ascii_def)
next
  case None
  then have c: "c \<noteq> quote" "c \<noteq> bslash" by (auto simp: short_escape_def)
  have "hex_value 0 (hex_fixed 4 (of_char c)) = Some (of_char c)"
    using assms by (simp add: hex_value_hex_fixed)
  moreover have "(@) (utf8_encode (of_char c)) = Cons c"
    using assms by (simp add: utf8_encode_def fun_eq_iff)
  ultimately have "json_unescape (u_escape (hex_fixed 4 (of_char c)) @ ys)
      = map_option (apfst (Cons c)) (json_unescape ys)"
    by (simp only: json_unescape_u length_hex_fixed)
  with c None show ?thesis by (simp add: esc_ascii_def Let_def)
qed

lemma hex_2028: "hex_value 0 ''2028'' = Some 8232" "length ''2028'' = 4"
  by (simp_all add: hexval_def)

lemma hex_2029: "hex_value 0 ''2029'' = Some 8233" "length ''2029'' = 4"
  by (simp_all add: hexval_def)

lemma utf8_valid_Cons:
  "utf8_valid (c # cs) \<Longrightarrow> rune_len (c # cs) \<noteq> 0 \<and> utf8_valid (drop (rune_len (c # cs)) (c # cs))"
  by (subst (asm) utf8_valid.simps) (auto split: if_splits)

lemma rune_len_sep: "take 3 bs = line_sep \<or> take 3 bs = para_sep \<Longrightarrow> rune_len bs = 3"
proof -
  assume sep: "take 3 bs = line_sep \<or> take 3 bs = para_sep"
  then have len: "3 \<le> length bs"
    by (metis One_nat_def length_Cons length_take line_sep_def list.size(3) min_def nat_le_linear
        numeral_3_eq_3 para_sep_def)
  then obtain x y z r where bs: "bs = x # y # z # r"
    by (metis Suc_le_length_iff numeral_3_eq_3)
  show ?thesis using sep
    by (auto simp: bs rune_len_def line_sep_def para_sep_def utf8_cont_def utf8_lo_def utf8_hi_def)
qed

text \<open>What is read back of a string: every byte that is not part of a rune has become U+FFFD.\<close>

definition replacement_char :: bytes where
  "replacement_char = [char_of (239 :: nat), char_of (191 :: nat), char_of (189 :: nat)]"

function to_valid :: "bytes \<Rightarrow> bytes" where
  "to_valid [] = []"
| "to_valid (c # cs) =
     (if rune_len (c # cs) = 0 then replacement_char @ to_valid cs
      else take (rune_len (c # cs)) (c # cs) @ to_valid (drop (rune_len (c # cs)) (c # cs)))"
  by pat_completeness auto
termination
  by (relation "measure length") auto

declare to_valid.simps(2) [simp del]

lemma to_valid_id [simp]: "utf8_valid s \<Longrightarrow> to_valid s = s"
proof (induction s rule: to_valid.induct)
  case (2 c cs)
  note v = utf8_valid_Cons [OF "2.prems"]
  then have "to_valid (drop (rune_len (c # cs)) (c # cs)) = drop (rune_len (c # cs)) (c # cs)" using "2.IH"(2) by blast
  then show ?case using v by (simp only: to_valid.simps if_False append_take_drop_id)
qed simp

lemma hex_fffd: "hex_value 0 ''fffd'' = Some 65533" "length ''fffd'' = 4"
  by (simp_all add: hexval_def)

lemma json_unescape_escape [simp]:
  "json_unescape (json_escape s @ quote # rest) = Some (to_valid s, rest)"
proof (induction s rule: json_escape.induct)
  case (2 c cs)
  let ?bs = "c # cs"
  show ?case
  proof (cases "of_char c < (128 :: nat)")
    case True
    then show ?thesis
      using 2(1) by (simp add: json_escape.simps json_unescape_esc_ascii to_valid.simps)
  next
    case wide: False
    show ?thesis
    proof (cases "rune_len ?bs = 0")
      case True
      then have "json_unescape (json_escape cs @ quote # rest) = Some (to_valid cs, rest)"
        using 2(2) wide by blast
      moreover have "json_escape ?bs = u_escape ''fffd'' @ json_escape cs"
        using wide True by (simp add: json_escape.simps)
      moreover have "utf8_encode 65533 = replacement_char" by (simp add: utf8_encode_def replacement_char_def)
      ultimately show ?thesis
        using True by (simp only: append_assoc json_unescape_u [OF hex_fffd] to_valid.simps) simp
    next
      case valid: False
      have sep_len: "rune_len ?bs = 3" if "take 3 ?bs = line_sep \<or> take 3 ?bs = para_sep"
        using that rune_len_sep by metis
      have tv: "to_valid ?bs = take (rune_len ?bs) ?bs @ to_valid (drop (rune_len ?bs) ?bs)"
        using valid by (simp only: to_valid.simps if_False)
      consider (l) "take 3 ?bs = line_sep" | (p) "take 3 ?bs = para_sep" "take 3 ?bs \<noteq> line_sep"
        | (r) "take 3 ?bs \<noteq> line_sep" "take 3 ?bs \<noteq> para_sep" by blast
      then show ?thesis
      proof cases
        case l
        have IH: "json_unescape (json_escape (drop 3 ?bs) @ quote # rest) = Some (to_valid (drop 3 ?bs), rest)"
          using 2(3) wide valid l by blast
        have "json_escape ?bs = u_escape ''2028'' @ json_escape (drop 3 ?bs)"
          using wide valid l by (simp add: json_escape.simps)
        moreover have "utf8_encode 8232 = take 3 ?bs" using l by (simp add: utf8_encode_def line_sep_def)
        ultimately show ?thesis
          using IH l sep_len by (simp only: append_assoc json_unescape_u [OF hex_2028] tv) simp
      next
        case p
        have IH: "json_unescape (json_escape (drop 3 ?bs) @ quote # rest) = Some (to_valid (drop 3 ?bs), rest)"
          using 2(4) wide valid p by blast
        have "json_escape ?bs = u_escape ''2029'' @ json_escape (drop 3 ?bs)"
          using wide valid p by (simp add: json_escape.simps)
        moreover have "utf8_encode 8233 = take 3 ?bs" using p by (simp add: utf8_encode_def para_sep_def)
        ultimately show ?thesis
          using IH p sep_len by (simp only: append_assoc json_unescape_u [OF hex_2029] tv) simp
      next
        case r
        have IH: "json_unescape (json_escape (drop (rune_len ?bs) ?bs) @ quote # rest)
            = Some (to_valid (drop (rune_len ?bs) ?bs), rest)"
          using 2(5) wide valid r by blast
        have raw: "json_unescape (take (rune_len ?bs) ?bs @ ys)
            = map_option (apfst ((@) (take (rune_len ?bs) ?bs))) (json_unescape ys)" for ys
          by (rule json_unescape_raw) (use wide rune_len_wide [of c _ cs] in simp)
        have "json_escape ?bs = take (rune_len ?bs) ?bs @ json_escape (drop (rune_len ?bs) ?bs)"
          using wide valid r by (simp add: json_escape.simps)
        then show ?thesis using IH by (simp only: append_assoc raw tv) simp
      qed
    qed
  qed
qed simp

subsection \<open>Values\<close>

fun join_comma :: "bytes list \<Rightarrow> bytes" where
  "join_comma [] = []"
| "join_comma [x] = x"
| "join_comma (x # y # r) = x @ CHR '','' # join_comma (y # r)"

definition print_string :: "bytes \<Rightarrow> bytes" where
  "print_string s = quote # json_escape s @ [quote]"

fun json_print :: "json \<Rightarrow> bytes" where
  "json_print JNull = ''null''"
| "json_print (JBool b) = (if b then ''true'' else ''false'')"
| "json_print (JNum i) = dec_int i"
| "json_print (JStr s) = print_string s"
| "json_print (JArr xs) = CHR ''['' # join_comma (map json_print xs) @ [CHR '']'']"
| "json_print (JObj kvs) =
     CHR ''{'' # join_comma (map (\<lambda>(k, v). print_string k @ CHR '':'' # json_print v) kvs) @ [CHR ''}'']"

definition parse_num :: "bytes \<Rightarrow> (json \<times> bytes) option" where
  "parse_num s = (let neg = (s \<noteq> [] \<and> hd s = CHR ''-''); t = (if neg then tl s else s);
     ds = takeWhile is_digit t; v = int (dec_value 0 ds)
     in if ds = [] then None
        else Some (JNum (if neg then - v else v), dropWhile is_digit t))"

text \<open>
  One unit of fuel per call; \<open>json_parse\<close> gives twice the length of the text, and
  \<open>json_parse_print\<close> shows that this is enough for every printed value.
\<close>

fun parse_val :: "nat \<Rightarrow> bytes \<Rightarrow> (json \<times> bytes) option"
  and parse_elems :: "nat \<Rightarrow> bytes \<Rightarrow> (json list \<times> bytes) option"
  and parse_members :: "nat \<Rightarrow> bytes \<Rightarrow> ((bytes \<times> json) list \<times> bytes) option" where
  "parse_val 0 s = None"
| "parse_val (Suc n) s =
     (case s of [] \<Rightarrow> None | c # r \<Rightarrow>
       if c = quote then map_option (apfst JStr) (json_unescape r)
       else if c = CHR ''['' then
         (if r \<noteq> [] \<and> hd r = CHR '']'' then Some (JArr [], tl r)
          else map_option (apfst JArr) (parse_elems n r))
       else if c = CHR ''{'' then
         (if r \<noteq> [] \<and> hd r = CHR ''}'' then Some (JObj [], tl r)
          else map_option (apfst JObj) (parse_members n r))
       else if take 4 s = ''null'' then Some (JNull, drop 4 s)
       else if take 4 s = ''true'' then Some (JBool True, drop 4 s)
       else if take 5 s = ''false'' then Some (JBool False, drop 5 s)
       else parse_num s)"
| "parse_elems 0 s = None"
| "parse_elems (Suc n) s =
     (case parse_val n s of None \<Rightarrow> None | Some (v, r) \<Rightarrow>
       (case r of [] \<Rightarrow> None | c # r' \<Rightarrow>
         if c = CHR '']'' then Some ([v], r')
         else if c = CHR '','' then map_option (apfst (Cons v)) (parse_elems n r')
         else None))"
| "parse_members 0 s = None"
| "parse_members (Suc n) s =
     (case s of [] \<Rightarrow> None | c # r \<Rightarrow>
       if c \<noteq> quote then None
       else (case json_unescape r of None \<Rightarrow> None | Some (k, r1) \<Rightarrow>
         if r1 = [] \<or> hd r1 \<noteq> CHR '':'' then None
         else (case parse_val n (tl r1) of None \<Rightarrow> None | Some (v, r2) \<Rightarrow>
           (case r2 of [] \<Rightarrow> None | d # r3 \<Rightarrow>
             if d = CHR ''}'' then Some ([(k, v)], r3)
             else if d = CHR '','' then map_option (apfst (Cons (k, v))) (parse_members n r3)
             else None))))"

definition json_parse :: "bytes \<Rightarrow> json option" where
  "json_parse data =
     (case parse_val (2 * length data) data of Some (j, []) \<Rightarrow> Some j | _ \<Rightarrow> None)"

text \<open>A value whose strings are all UTF-8.\<close>

fun json_ok :: "json \<Rightarrow> bool" where
  "json_ok (JStr s) = utf8_valid s"
| "json_ok (JArr xs) = list_all json_ok xs"
| "json_ok (JObj kvs) = list_all (\<lambda>(k, v). utf8_valid k \<and> json_ok v) kvs"
| "json_ok _ = True"

text \<open>What is read back of a printed value.\<close>

fun repair :: "json \<Rightarrow> json" where
  "repair (JStr s) = JStr (to_valid s)"
| "repair (JArr xs) = JArr (map repair xs)"
| "repair (JObj kvs) = JObj (map (\<lambda>(k, v). (to_valid k, repair v)) kvs)"
| "repair j = j"

lemma repair_id [simp]: "json_ok j \<Longrightarrow> repair j = j"
proof (induction j)
  case (JArr xs)
  then show ?case by (simp add: list_all_iff map_idI)
next
  case (JObj kvs)
  have "(\<lambda>(k, v). (to_valid k, repair v)) kv = kv" if "kv \<in> set kvs" for kv
    using JObj that by (cases kv) (fastforce simp: list_all_iff)
  then show ?case by (simp add: map_idI)
qed auto

definition stops :: "bytes \<Rightarrow> bool" where
  "stops rest = (rest = [] \<or> \<not> is_digit (hd rest))"

lemma stops_simps [simp]:
  "stops []" "stops (CHR '','' # r)" "stops (CHR '']'' # r)" "stops (CHR ''}'' # r)"
  by (simp_all add: stops_def is_digit_def)

lemma takeWhile_digits:
  assumes "list_all is_digit ds" "stops rest"
  shows "takeWhile is_digit (ds @ rest) = ds" "dropWhile is_digit (ds @ rest) = rest"
proof -
  have "takeWhile is_digit rest = []" "dropWhile is_digit rest = rest"
    using assms(2) by (cases rest; simp add: stops_def)+
  with assms(1) show "takeWhile is_digit (ds @ rest) = ds" "dropWhile is_digit (ds @ rest) = rest"
    by (simp_all add: list_all_iff)
qed

lemma dec_hd_digit: "is_digit (hd (dec n))"
  using dec_digits [of n] dec_nonempty [of n] by (cases "dec n") auto

lemma parse_num_dec_int:
  assumes "stops rest"
  shows "parse_num (dec_int i @ rest) = Some (JNum i, rest)"
proof (cases "i < 0")
  case True
  then show ?thesis
    using takeWhile_digits [OF dec_digits assms, of "nat (- i)"]
    by (simp add: parse_num_def dec_int_def Let_def)
next
  case False
  have "hd (dec (nat i) @ rest) \<noteq> CHR ''-''"
    using dec_hd_digit [of "nat i"] by (auto simp: is_digit_def)
  with False show ?thesis
    using takeWhile_digits [OF dec_digits assms, of "nat i"]
    by (simp add: parse_num_def dec_int_def Let_def)
qed

lemma dec_int_hd: "dec_int i \<noteq> [] \<and> (is_digit (hd (dec_int i)) \<or> hd (dec_int i) = CHR ''-'')"
  using dec_hd_digit [of "nat i"] dec_nonempty [of "nat i"] by (simp add: dec_int_def)

lemma json_print_nonempty: "json_print j \<noteq> []"
  by (cases j) (simp_all add: print_string_def dec_int_hd)

lemma json_print_hd: "hd (json_print j) \<noteq> CHR '']''"
proof (cases j)
  case (JNum i)
  then show ?thesis using dec_int_hd [of i] by (auto simp: is_digit_def)
qed (simp_all add: print_string_def)

lemma num_start:
  assumes "is_digit c \<or> c = CHR ''-''"
  shows "c \<noteq> quote" "c \<noteq> CHR ''[''" "c \<noteq> CHR ''{''" "c \<noteq> CHR ''n''" "c \<noteq> CHR ''t''" "c \<noteq> CHR ''f''"
  using assms by (auto simp: is_digit_def)

lemma parse_val_num:
  assumes "stops rest"
  shows "parse_val (Suc m) (dec_int i @ rest) = Some (JNum i, rest)"
proof -
  obtain c r where c: "dec_int i = c # r" and "is_digit c \<or> c = CHR ''-''"
    using dec_int_hd [of i] by (cases "dec_int i") auto
  note num_start [OF this(2)]
  then show ?thesis
    using parse_num_dec_int [OF assms, of i] by (simp add: c)
qed

lemma join_comma_Cons:
  "join_comma (x # xs) = x @ (if xs = [] then [] else CHR '','' # join_comma xs)"
  by (cases xs) auto

text \<open>What the induction hypothesis says of one value.\<close>

definition parses :: "json \<Rightarrow> bool" where
  "parses j = (\<forall>n rest. 2 * length (json_print j) \<le> n \<longrightarrow> stops rest \<longrightarrow>
     parse_val n (json_print j @ rest) = Some (repair j, rest))"

lemma parse_elems_print:
  "\<lbrakk>xs \<noteq> []; \<forall>x \<in> set xs. parses x; 2 * length (join_comma (map json_print xs)) < n\<rbrakk>
   \<Longrightarrow> parse_elems n (join_comma (map json_print xs) @ CHR '']'' # rest) = Some (map repair xs, rest)"
proof (induction xs arbitrary: n)
  case (Cons x xs)
  from Cons.prems(3) obtain m where n: "n = Suc m" by (cases n) auto
  show ?case
  proof (cases "xs = []")
    case True
    with Cons.prems n show ?thesis by (auto simp: parses_def)
  next
    case False
    let ?tail = "CHR '','' # join_comma (map json_print xs) @ CHR '']'' # rest"
    have "parse_val m (json_print x @ ?tail) = Some (repair x, ?tail)"
      using Cons.prems False n by (auto simp: parses_def join_comma_Cons)
    moreover have "parse_elems m (join_comma (map json_print xs) @ CHR '']'' # rest) = Some (map repair xs, rest)"
      using Cons.prems False n by (intro Cons.IH) (auto simp: join_comma_Cons)
    ultimately show ?thesis using False n by (simp add: join_comma_Cons)
  qed
qed simp

abbreviation repair_member :: "bytes \<times> json \<Rightarrow> bytes \<times> json" where
  "repair_member \<equiv> (\<lambda>(k, v). (to_valid k, repair v))"

abbreviation print_member :: "bytes \<times> json \<Rightarrow> bytes" where
  "print_member \<equiv> (\<lambda>(k, v). print_string k @ CHR '':'' # json_print v)"

lemma parse_members_print:
  "\<lbrakk>kvs \<noteq> []; \<forall>(k, v) \<in> set kvs. parses v; 2 * length (join_comma (map print_member kvs)) < n\<rbrakk>
   \<Longrightarrow> parse_members n (join_comma (map print_member kvs) @ CHR ''}'' # rest) = Some (map repair_member kvs, rest)"
proof (induction kvs arbitrary: n)
  case (Cons kv kvs)
  obtain k v where kv: "kv = (k, v)" by (cases kv)
  from Cons.prems(3) obtain m where n: "n = Suc m" by (cases n) auto
  have v: "parses v" using Cons.prems(2) kv by auto
  show ?case
  proof (cases "kvs = []")
    case True
    have "parse_val m (json_print v @ CHR ''}'' # rest) = Some (repair v, CHR ''}'' # rest)"
      using Cons.prems(3) True kv n v by (auto simp: parses_def)
    with True kv n show ?thesis by (simp add: print_string_def)
  next
    case False
    let ?tail = "CHR '','' # join_comma (map print_member kvs) @ CHR ''}'' # rest"
    have "parse_val m (json_print v @ ?tail) = Some (repair v, ?tail)"
      using Cons.prems(3) False kv n v by (auto simp: parses_def join_comma_Cons)
    moreover have "parse_members m (join_comma (map print_member kvs) @ CHR ''}'' # rest) = Some (map repair_member kvs, rest)"
      using Cons.prems False kv n by (intro Cons.IH) (auto simp: join_comma_Cons)
    ultimately show ?thesis using False kv n by (simp add: join_comma_Cons print_string_def)
  qed
qed simp

lemma join_comma_hd:
  "\<lbrakk>xs \<noteq> []; hd xs \<noteq> []\<rbrakk> \<Longrightarrow> join_comma xs \<noteq> [] \<and> hd (join_comma xs) = hd (hd xs)"
  by (cases xs) (auto simp: join_comma_Cons)

lemma parsesI:
  assumes "\<And>m rest. \<lbrakk>2 * length (json_print j) \<le> Suc m; stops rest\<rbrakk>
    \<Longrightarrow> parse_val (Suc m) (json_print j @ rest) = Some (repair j, rest)"
  shows "parses j"
  unfolding parses_def
proof (intro allI impI)
  fix n rest
  assume n: "2 * length (json_print j) \<le> n" and "stops rest"
  moreover obtain m where "n = Suc m"
    using n json_print_nonempty [of j] by (cases n) auto
  ultimately show "parse_val n (json_print j @ rest) = Some (repair j, rest)" using assms by blast
qed

lemma json_parses: "parses j"
proof (induction j)
  case (JNum i)
  show ?case by (rule parsesI) (simp add: parse_val_num del: parse_val.simps)
next
  case (JArr xs)
  show ?case
  proof (cases "xs = []")
    case False
    have "\<forall>x \<in> set xs. parses x" using JArr by auto
    note P = parse_elems_print [OF False this]
    have "join_comma (map json_print xs) \<noteq> [] \<and> hd (join_comma (map json_print xs)) \<noteq> CHR '']''"
      using join_comma_hd [of "map json_print xs"] False json_print_nonempty json_print_hd
      by (simp add: hd_map)
    then show ?thesis by (intro parsesI) (simp add: P)
  qed (rule parsesI, simp)
next
  case (JObj kvs)
  show ?case
  proof (cases "kvs = []")
    case False
    have "\<forall>(k, v) \<in> set kvs. parses v" using JObj by fastforce
    note P = parse_members_print [OF False this]
    have "join_comma (map print_member kvs) \<noteq> [] \<and> hd (join_comma (map print_member kvs)) = quote"
      using join_comma_hd [of "map print_member kvs"] False
      by (auto simp: hd_map print_string_def split: prod.splits)
    then show ?thesis by (intro parsesI) (simp add: P)
  qed (rule parsesI, simp)
qed (rule parsesI, simp add: print_string_def)+

lemma json_parse_print [simp]: "json_parse (json_print j) = Some (repair j)"
proof -
  have "parse_val (2 * length (json_print j)) (json_print j @ []) = Some (repair j, [])"
    by (rule json_parses [unfolded parses_def, rule_format]) simp_all
  then show ?thesis by (simp add: json_parse_def)
qed

subsection \<open>Text that cannot be read back\<close>

text \<open>
  A value with a string that is not UTF-8 is read back as another value, which is printed shorter. The
  comparison with the re-encoded value therefore always fails for such a text.
\<close>

lemma rune_len_n_prefix: "rune_len_n ns \<noteq> 0 \<Longrightarrow> rune_len_n (take (rune_len_n ns) ns @ ys) = rune_len_n ns"
proof (cases ns)
  case (Cons b r)
  assume n: "rune_len_n ns \<noteq> 0"
  show ?thesis
  proof (cases r)
    case Nil
    then show ?thesis using n Cons by (simp split: if_splits)
  next
    case r: (Cons c r1)
    show ?thesis
    proof (cases r1)
      case Nil
      then show ?thesis using n Cons r by (simp split: if_splits)
    next
      case r1: (Cons d r2)
      show ?thesis using n Cons r r1 by (cases r2) (simp_all split: if_splits)
    qed
  qed
qed simp

lemma rune_len_n_4: "rune_len_n ns \<le> 4"
  by (cases ns) (simp_all split: list.splits)

lemma rune_len_prefix:
  assumes "rune_len bs \<noteq> 0"
  shows "rune_len (take (rune_len bs) bs @ ys) = rune_len bs"
proof -
  let ?ns = "map of_char (take 4 bs) :: nat list" and ?n = "rune_len bs"
  have n: "?n = rune_len_n ?ns" "?n \<le> 4" "?n \<le> length bs" by (simp_all add: rune_len_def rune_len_n_4 rune_len_le [unfolded rune_len_def])
  then have t: "take 4 (take ?n bs @ ys) = take ?n (take 4 bs) @ take (4 - ?n) ys" by simp
  show ?thesis
    using assms rune_len_n_prefix [of ?ns "map of_char (take (4 - ?n) ys)"] n(1)
    unfolding rune_len_def [of "take ?n bs @ ys"] t map_append take_map by simp
qed

definition esc_rune :: "bytes \<Rightarrow> bytes" where
  "esc_rune t = (if of_char (hd t) < (128 :: nat) then esc_ascii (hd t)
     else if t = line_sep then u_escape ''2028'' else if t = para_sep then u_escape ''2029'' else t)"

lemma json_escape_rune:
  assumes "rune_len (t @ x) = length t" "t \<noteq> []"
  shows "json_escape (t @ x) = esc_rune t @ json_escape x"
proof -
  obtain c cs where t: "t = c # cs" using assms(2) by (cases t) auto
  have sep: "take 3 (t @ x) = l \<longleftrightarrow> t = l" if "l = line_sep \<or> l = para_sep" for l
  proof
    assume "take 3 (t @ x) = l"
    moreover from this have "length t = 3" using rune_len_sep [of "t @ x"] that assms(1) by auto
    ultimately show "t = l" by simp
  next
    assume "t = l"
    then have "length t = 3" using that by (auto simp: line_sep_def para_sep_def)
    then show "take 3 (t @ x) = l" using \<open>t = l\<close> by simp
  qed
  have l3: "length line_sep = 3" "length para_sep = 3" by (simp_all add: line_sep_def para_sep_def)
  show ?thesis
  proof (cases "of_char c < (128 :: nat)")
    case True
    then have "cs = []" using assms(1) t by simp
    then show ?thesis using True t by (simp add: json_escape.simps esc_rune_def)
  next
    case False
    have ne: "rune_len (c # cs @ x) \<noteq> 0" using assms t by simp
    have dr: "drop 3 (t @ x) = x" if "t = line_sep \<or> t = para_sep" using that l3 by auto
    have tk: "take (length t) (t @ x) = t" "drop (length t) (t @ x) = x" by simp_all
    show ?thesis
      using False ne assms(1) sep [of line_sep] sep [of para_sep] dr tk unfolding t append_Cons
      by (simp only: json_escape.simps if_False esc_rune_def list.sel simp_thms split: if_split) simp
  qed
qed

lemma replacement_rune [simp]: "rune_len (replacement_char @ x) = 3"
  by (simp add: replacement_char_def rune_len_def utf8_cont_def utf8_lo_def utf8_hi_def)

lemma esc_replacement: "esc_rune replacement_char = replacement_char"
  by (simp add: esc_rune_def replacement_char_def line_sep_def para_sep_def)

lemma escape_to_valid:
  "length (json_escape (to_valid s)) + (if utf8_valid s then 0 else 1) \<le> length (json_escape s)"
proof (induction s rule: to_valid.induct)
  case (2 c cs)
  let ?bs = "c # cs"
  show ?case
  proof (cases "rune_len ?bs = 0")
    case True
    then have "\<not> of_char c < (128 :: nat)" using rune_len_ascii by fastforce
    then have "length (json_escape ?bs) = 6 + length (json_escape cs)"
      using True by (simp add: json_escape.simps u_escape_def)
    moreover have "length (json_escape (to_valid ?bs)) = 3 + length (json_escape (to_valid cs))"
      using True json_escape_rune [of replacement_char "to_valid cs"]
      by (simp add: to_valid.simps esc_replacement) (simp add: replacement_char_def)
    ultimately show ?thesis using "2.IH"(1) [OF True] by (simp split: if_splits)
  next
    case False
    let ?t = "take (rune_len ?bs) ?bs" and ?d = "drop (rune_len ?bs) ?bs"
    have l: "length ?t = rune_len ?bs" using rune_len_le [of ?bs] by simp
    then have ne: "?t \<noteq> []" using False by (metis list.size(3))
    have "json_escape (?t @ ?d) = esc_rune ?t @ json_escape ?d"
      by (rule json_escape_rune) (use ne l in \<open>simp_all only: append_take_drop_id not_False_eq_True\<close>)
    then have 1: "json_escape ?bs = esc_rune ?t @ json_escape ?d" by (simp only: append_take_drop_id)
    have tv: "to_valid ?bs = ?t @ to_valid ?d" using False by (simp only: to_valid.simps if_False)
    have 2: "json_escape (to_valid ?bs) = esc_rune ?t @ json_escape (to_valid ?d)"
      unfolding tv by (rule json_escape_rune) (use ne l rune_len_prefix [OF False] in \<open>simp_all only: not_False_eq_True\<close>)
    have "utf8_valid ?bs = utf8_valid ?d" using False by (subst utf8_valid.simps) simp
    then show ?thesis using "2.IH"(2) [OF False] unfolding 1 2 by simp
  qed
qed simp

lemma join_comma_length: "length (join_comma xs) = sum_list (map length xs) + (length xs - 1)"
  by (induction xs rule: join_comma.induct) auto

lemma sum_list_less:
  assumes "\<And>x. x \<in> set xs \<Longrightarrow> f x + (if P x then 0 else 1) \<le> (g x :: nat)"
  shows "sum_list (map f xs) + (if list_all P xs then 0 else 1) \<le> sum_list (map g xs)"
  using assms
proof (induction xs)
  case (Cons x xs)
  have "f x + (if P x then 0 else 1) \<le> g x"
    "sum_list (map f xs) + (if list_all P xs then 0 else 1) \<le> sum_list (map g xs)"
    using Cons by auto
  then show ?case by (simp split: if_splits)
qed simp

lemma print_repair: "length (json_print (repair j)) + (if json_ok j then 0 else 1) \<le> length (json_print j)"
proof (induction j)
  case (JStr s)
  then show ?case using escape_to_valid [of s] by (simp add: print_string_def split: if_splits)
next
  case (JArr xs)
  have "sum_list (map (\<lambda>x. length (json_print (repair x))) xs) + (if list_all json_ok xs then 0 else 1)
      \<le> sum_list (map (\<lambda>x. length (json_print x)) xs)"
    by (rule sum_list_less) (rule JArr)
  then show ?case by (simp add: join_comma_length comp_def split: if_splits)
next
  case (JObj kvs)
  have m: "length (print_member (repair_member kv)) + (if (\<lambda>(k, v). utf8_valid k \<and> json_ok v) kv then 0 else 1)
      \<le> length (print_member kv)" if "kv \<in> set kvs" for kv
  proof (cases kv)
    case (Pair k v)
    then have "length (json_print (repair v)) + (if json_ok v then 0 else 1) \<le> length (json_print v)"
      using JObj that by (metis snds.intros snd_conv)
    then show ?thesis using Pair escape_to_valid [of k] by (simp add: print_string_def split: if_splits)
  qed
  have "sum_list (map (\<lambda>kv. length (print_member (repair_member kv))) kvs) + (if list_all (\<lambda>(k, v). utf8_valid k \<and> json_ok v) kvs then 0 else 1)
      \<le> sum_list (map (\<lambda>kv. length (print_member kv)) kvs)"
    by (rule sum_list_less) (rule m)
  then show ?case by (simp add: join_comma_length comp_def split: if_splits)
qed simp_all

lemma print_repair_neq: "\<not> json_ok j \<Longrightarrow> json_print (repair j) \<noteq> json_print j"
  using print_repair [of j] by auto

end
