(* ===== verification/Protocol_Model.thy ===== *)
theory Protocol_Model
  imports Sha256 Go_Json "HOL-Library.Monad_Syntax"
begin

section \<open>The protocol structures\<close>

text \<open>
  \<open>model.go\<close> and \<open>digest.go\<close>: the structures stored in the repository, their canonical
  JSON, the object digest, and the chunking options. A structure is a \<open>record\<close> with the
  fields of the Go struct behind a two-letter prefix. A Go slice that JSON can see is a
  \<open>slice\<close>, because \<open>encoding/json\<close> writes a nil slice as \<open>null\<close> and an empty one as
  \<open>[]\<close> (or \<open>""\<close>), and reads both back as they were.

  The decoder \<open>decodeJSON\<close> is the decoder of \<open>model.go\<close>: the parsed value is encoded again
  and must give the very same bytes. Go's parser is more liberal than the readers below
  (whitespace, another order of the members, unknown members, escapes), but all that it
  accepts beyond them is rejected by that comparison, with the same sentinel.
\<close>

subsection \<open>Limits and slices\<close>

definition objectFormatVersion :: int where "objectFormatVersion = 1"
definition maxReferenceBytes :: int where "maxReferenceBytes = 4 * 2 ^ 10"
definition maxMetadataObjectBytes :: int where "maxMetadataObjectBytes = 16 * 2 ^ 20"
definition maxChunkObjectBytes :: int where "maxChunkObjectBytes = 64 * 2 ^ 20"
definition maxDirectoryEntries :: nat where "maxDirectoryEntries = 250000"
definition maxFileChunks :: nat where "maxFileChunks = 250000"
definition maxEntryNameBytes :: nat where "maxEntryNameBytes = 255"
definition maxSymlinkTargetBytes :: nat where "maxSymlinkTargetBytes = 64 * 2 ^ 10"
definition maxLookupPathBytes :: nat where "maxLookupPathBytes = 2 ^ 20"
definition maxLookupDepth :: nat where "maxLookupDepth = 4096"
definition maxCommitWalk :: nat where "maxCommitWalk = 1000000"
definition defaultPolynomial :: u64 where "defaultPolynomial = 0x3DA3358B4DC173"

named_theorems limits \<open>the numeric limits of the protocol\<close>

lemmas protocol_limits [limits] =
  objectFormatVersion_def maxReferenceBytes_def maxMetadataObjectBytes_def maxChunkObjectBytes_def
  maxDirectoryEntries_def maxFileChunks_def maxEntryNameBytes_def maxSymlinkTargetBytes_def
  maxLookupPathBytes_def maxLookupDepth_def maxCommitWalk_def

type_synonym 'a slice = "'a list option"

definition elems :: "'a slice \<Rightarrow> 'a list" where
  "elems s = (case s of None \<Rightarrow> [] | Some xs \<Rightarrow> xs)"

definition append_slice :: "'a slice \<Rightarrow> 'a \<Rightarrow> 'a slice" where
  "append_slice s x = Some (elems s @ [x])"

lemma elems_simps [simp]:
  "elems None = []" "elems (Some xs) = xs" "elems (append_slice s x) = elems s @ [x]"
  by (simp_all add: elems_def append_slice_def)

abbreviation len :: "'a list \<Rightarrow> int" where
  "len xs \<equiv> int (length xs)"

subsection \<open>Structures\<close>

abbreviation EntryFile :: bytes where "EntryFile \<equiv> ''file''"
abbreviation EntryDir :: bytes where "EntryDir \<equiv> ''directory''"
abbreviation EntrySymlink :: bytes where "EntrySymlink \<equiv> ''symlink''"

datatype SymlinkPolicy = SymlinkRejectExternal | SymlinkPreserve

record ChunkingOptions =
  co_MinSize :: int
  co_AverageSize :: int
  co_MaxSize :: int
  co_Polynomial :: u64

record chunkRef =
  cr_Offset :: int
  cr_Size :: int
  cr_Digest :: digest

record fileManifest =
  fm_Format :: int
  fm_Algorithm :: bytes
  fm_MinSize :: int
  fm_AvgSize :: int
  fm_MaxSize :: int
  fm_Polynomial :: u64
  fm_Size :: int
  fm_Chunks :: "chunkRef slice"

record symlinkManifest =
  sm_Format :: int
  sm_Target :: "char slice"

record dirEntry =
  de_Name :: "char slice"
  de_Type :: bytes
  de_Node :: digest
  de_Mode :: "32 word"
  de_Size :: int
  de_ModTimeUnixNano :: int

record dirManifest =
  dm_Format :: int
  dm_Entries :: "dirEntry slice"

record commitManifest =
  cm_Format :: int
  cm_Generation :: u64
  cm_Parent :: "digest option"
  cm_Root :: digest
  cm_PublishedAtUnix :: int
  cm_ResetChanges :: bool

record snapshotReference =
  sr_Format :: int
  sr_Generation :: u64
  sr_Commit :: digest

text \<open>A \<open>time.Time\<close> of the model is its Unix time in nanoseconds.\<close>

record Snapshot =
  ss_Generation :: u64
  ss_Commit :: digest
  ss_Root :: digest
  ss_PublishedAt :: int

record Entry =
  en_Name :: bytes
  en_Type :: bytes
  en_Size :: int
  en_Mode :: "32 word"
  en_ModTime :: int

definition readonlyMode :: "32 word \<Rightarrow> 32 word" where
  "readonlyMode mode = mode AND NOT 0x92"

subsection \<open>Digests\<close>

text \<open>\<open>Digest.String\<close> is \<open>hex256\<close> and \<open>ParseDigest\<close> is \<open>parse_hex256\<close> with its error.\<close>

definition object_preimage :: "bytes \<Rightarrow> bytes \<Rightarrow> bytes" where
  "object_preimage kind data =
     ''s3disk'' @ CHR 0x00 # ''v1'' @ CHR 0x00 # kind @ CHR 0x00 # data"

definition digestObject :: "bytes \<Rightarrow> bytes \<Rightarrow> digest" where
  "digestObject kind data = sha256 (object_preimage kind data)"

definition ParseDigest :: "bytes \<Rightarrow> err + digest" where
  "ParseDigest value = (case parse_hex256 value of None \<Rightarrow> Inl [ErrCorruptObject] | Some d \<Rightarrow> Inr d)"

subsection \<open>Reading JSON values into Go types\<close>

fun as_int64 :: "json \<Rightarrow> int option" where
  "as_int64 (JNum i) = (if is_int64 i then Some i else None)"
| "as_int64 _ = None"

fun as_uint64 :: "json \<Rightarrow> u64 option" where
  "as_uint64 (JNum i) = (if 0 \<le> i \<and> i < 2 ^ 64 then Some (word_of_int i) else None)"
| "as_uint64 _ = None"

fun as_uint32 :: "json \<Rightarrow> 32 word option" where
  "as_uint32 (JNum i) = (if 0 \<le> i \<and> i < 2 ^ 32 then Some (word_of_int i) else None)"
| "as_uint32 _ = None"

fun as_bool :: "json \<Rightarrow> bool option" where
  "as_bool (JBool b) = Some b"
| "as_bool _ = None"

text \<open>Go replaces a byte that is not UTF-8 and then fails the comparison with the original.\<close>

fun as_string :: "json \<Rightarrow> bytes option" where
  "as_string (JStr s) = (if utf8_valid s then Some s else None)"
| "as_string _ = None"

fun as_digest :: "json \<Rightarrow> digest option" where
  "as_digest (JStr s) = parse_hex256 s"
| "as_digest _ = None"

fun as_bytes :: "json \<Rightarrow> char slice option" where
  "as_bytes JNull = Some None"
| "as_bytes (JStr s) = map_option Some (b64_std_decode s)"
| "as_bytes _ = None"

fun as_slice :: "(json \<Rightarrow> 'a option) \<Rightarrow> json \<Rightarrow> 'a slice option" where
  "as_slice f JNull = Some None"
| "as_slice f (JArr js) = map_option Some (those (map f js))"
| "as_slice f _ = None"

definition digest_json :: "digest \<Rightarrow> json" where
  "digest_json d = JStr (hex256 d)"

definition uint_json :: "'a::len word \<Rightarrow> json" where
  "uint_json w = JNum (uint w)"

definition bytes_json :: "char slice \<Rightarrow> json" where
  "bytes_json b = (case b of None \<Rightarrow> JNull | Some bs \<Rightarrow> JStr (b64_std_encode bs))"

definition slice_json :: "('a \<Rightarrow> json) \<Rightarrow> 'a slice \<Rightarrow> json" where
  "slice_json f s = (case s of None \<Rightarrow> JNull | Some xs \<Rightarrow> JArr (map f xs))"

text \<open>The values of the members of an object that has exactly the named members.\<close>

fun members :: "bytes list \<Rightarrow> json \<Rightarrow> json list option" where
  "members ns (JObj kvs) = (if map fst kvs = ns then Some (map snd kvs) else None)"
| "members ns _ = None"

named_theorems codec \<open>reading back what was written\<close>

lemma as_int64_JNum [codec]: "is_int64 i \<Longrightarrow> as_int64 (JNum i) = Some i"
  by simp

lemma as_uint64_uint_json [codec]: "as_uint64 (uint_json w) = Some w"
  using uint_lt2p [of w] by (simp add: uint_json_def)

lemma as_uint32_uint_json [codec]: "as_uint32 (uint_json w) = Some w"
  using uint_lt2p [of w] by (simp add: uint_json_def)

lemma as_digest_digest_json [codec]: "as_digest (digest_json d) = Some d"
  by (simp add: digest_json_def)

lemma as_bytes_bytes_json [codec]: "as_bytes (bytes_json b) = Some b"
  by (simp add: bytes_json_def split: option.split)

lemma those_map: "\<forall>x \<in> set xs. f (g x) = Some x \<Longrightarrow> those (map (f \<circ> g) xs) = Some xs"
  by (induction xs) auto

lemma as_slice_slice_json [codec]:
  "\<forall>x \<in> set (elems s). f (g x) = Some x \<Longrightarrow> as_slice f (slice_json g s) = Some s"
  by (simp add: slice_json_def those_map split: option.split)

lemma json_ok_simps [simp]:
  "json_ok (digest_json d)" "json_ok (uint_json w)" "json_ok (bytes_json b)"
  by (auto simp: digest_json_def uint_json_def bytes_json_def ascii_utf8_valid split: option.split)

lemma json_ok_slice [simp]:
  "\<forall>x \<in> set (elems s). json_ok (f x) \<Longrightarrow> json_ok (slice_json f s)"
  by (simp add: slice_json_def list_all_iff split: option.split)

lemma as_int64_Some: "as_int64 j = Some i \<Longrightarrow> is_int64 i"
  by (cases j) (auto split: if_splits)

lemma as_string_Some: "as_string j = Some s \<Longrightarrow> utf8_valid s"
  by (cases j) (auto split: if_splits)

lemma those_Some: "those xs = Some ys \<longleftrightarrow> xs = map Some ys"
  by (induction xs arbitrary: ys) (auto split: option.splits simp: Cons_eq_map_conv)

lemma as_slice_Some:
  assumes "as_slice f j = Some s" and "\<And>j x. f j = Some x \<Longrightarrow> P x" and "x \<in> set (elems s)"
  shows "P x"
proof -
  obtain js xs where "s = Some xs" "map f js = map Some xs"
    using assms(1,3) by (cases j) (auto simp: those_Some)
  with assms(3) have "Some x \<in> f ` set js" by (metis elems_simps(2) image_eqI list.set_map)
  then show ?thesis using assms(2) by auto
qed

subsection \<open>Encoding and decoding\<close>

definition canonicalJSON :: "('a \<Rightarrow> json) \<Rightarrow> 'a \<Rightarrow> bytes" where
  "canonicalJSON to_json v = json_print (to_json v)"

definition decodeJSON :: "('a \<Rightarrow> json) \<Rightarrow> (json \<Rightarrow> 'a option) \<Rightarrow> bytes \<Rightarrow> err + 'a" where
  "decodeJSON to_json of_json data =
     (if len data > maxMetadataObjectBytes then Inl [ErrCorruptObject, ErrResourceLimit]
      else case Option.bind (json_parse data) of_json of
        None \<Rightarrow> Inl [ErrCorruptObject]
      | Some v \<Rightarrow> if data = canonicalJSON to_json v then Inr v else Inl [ErrCorruptObject])"

text \<open>
  What a structure promises to \<open>canonicalJSON\<close> and \<open>decodeJSON\<close>: values of its Go type
  (\<open>wf\<close>) are read back, and everything read is such a value.
\<close>

locale json_codec =
  fixes to_json :: "'a \<Rightarrow> json" and of_json :: "json \<Rightarrow> 'a option" and wf :: "'a \<Rightarrow> bool"
  assumes of_to: "wf v \<Longrightarrow> of_json (to_json v) = Some v"
    and to_ok: "wf v \<Longrightarrow> json_ok (to_json v)"
    and of_wf: "of_json j = Some v \<Longrightarrow> wf v"
begin

lemma decode_canonical:
  assumes "wf v" "len (canonicalJSON to_json v) \<le> maxMetadataObjectBytes"
  shows "decodeJSON to_json of_json (canonicalJSON to_json v) = Inr v"
  using assms(2) by (simp add: decodeJSON_def canonicalJSON_def to_ok of_to assms(1))

lemma decode_InrD:
  "decodeJSON to_json of_json data = Inr v
   \<Longrightarrow> wf v \<and> data = canonicalJSON to_json v \<and> len data \<le> maxMetadataObjectBytes"
  by (auto simp: decodeJSON_def split: option.splits if_splits bind_splits dest: of_wf)

lemma decode_iff:
  "decodeJSON to_json of_json data = Inr v \<longleftrightarrow>
     wf v \<and> data = canonicalJSON to_json v \<and> len data \<le> maxMetadataObjectBytes"
  using decode_canonical decode_InrD by blast

lemma decode_error:
  "decodeJSON to_json of_json data = Inl e \<Longrightarrow> errors_Is e ErrCorruptObject"
  by (auto simp: decodeJSON_def split: option.splits if_splits)

text \<open>A text with a string that was not UTF-8 is never accepted.\<close>

lemma decode_not_ok:
  assumes "\<not> json_ok j" "len (json_print j) \<le> maxMetadataObjectBytes"
  shows "decodeJSON to_json of_json (json_print j) = Inl [ErrCorruptObject]"
proof -
  have "json_print j \<noteq> canonicalJSON to_json v" if "of_json (repair j) = Some v" for v
  proof
    assume eq: "json_print j = canonicalJSON to_json v"
    have "json_ok (to_json v)" using to_ok of_wf [OF that] by blast
    moreover have "json_parse (json_print j) = json_parse (json_print (to_json v))" using eq by (simp add: canonicalJSON_def)
    ultimately have "repair j = to_json v" by simp
    then show False using eq print_repair_neq [OF assms(1)] by (simp add: canonicalJSON_def)
  qed
  then show ?thesis using assms(2) by (simp add: decodeJSON_def split: option.split)
qed

lemma canonical_inject:
  assumes "wf v" "wf w" "canonicalJSON to_json v = canonicalJSON to_json w"
  shows "v = w"
proof -
  have "json_parse (json_print (to_json v)) = json_parse (json_print (to_json w))"
    using assms(3) by (simp add: canonicalJSON_def)
  then have "to_json v = to_json w" by (simp add: to_ok assms)
  then show ?thesis using of_to [OF assms(1)] of_to [OF assms(2)] by (metis option.inject)
qed

end

subsection \<open>The stored structures in JSON\<close>

definition chunkRef_to_json :: "chunkRef \<Rightarrow> json" where
  "chunkRef_to_json c = JObj [(''offset'', JNum (cr_Offset c)), (''size'', JNum (cr_Size c)),
     (''digest'', digest_json (cr_Digest c))]"

definition chunkRef_of_json :: "json \<Rightarrow> chunkRef option" where
  "chunkRef_of_json j = do {
     vs \<leftarrow> members [''offset'', ''size'', ''digest''] j;
     offset \<leftarrow> as_int64 (vs ! 0);
     size \<leftarrow> as_int64 (vs ! 1);
     digest \<leftarrow> as_digest (vs ! 2);
     Some \<lparr>cr_Offset = offset, cr_Size = size, cr_Digest = digest\<rparr> }"

definition wf_chunkRef :: "chunkRef \<Rightarrow> bool" where
  "wf_chunkRef c \<longleftrightarrow> is_int64 (cr_Offset c) \<and> is_int64 (cr_Size c)"

definition fileManifest_to_json :: "fileManifest \<Rightarrow> json" where
  "fileManifest_to_json m = JObj [(''format'', JNum (fm_Format m)), (''algorithm'', JStr (fm_Algorithm m)),
     (''min_size'', JNum (fm_MinSize m)), (''average_size'', JNum (fm_AvgSize m)),
     (''max_size'', JNum (fm_MaxSize m)), (''polynomial'', uint_json (fm_Polynomial m)),
     (''size'', JNum (fm_Size m)), (''chunks'', slice_json chunkRef_to_json (fm_Chunks m))]"

definition fileManifest_of_json :: "json \<Rightarrow> fileManifest option" where
  "fileManifest_of_json j = do {
     vs \<leftarrow> members [''format'', ''algorithm'', ''min_size'', ''average_size'', ''max_size'',
                  ''polynomial'', ''size'', ''chunks''] j;
     format \<leftarrow> as_int64 (vs ! 0);
     algorithm \<leftarrow> as_string (vs ! 1);
     min_size \<leftarrow> as_int64 (vs ! 2);
     average_size \<leftarrow> as_int64 (vs ! 3);
     max_size \<leftarrow> as_int64 (vs ! 4);
     polynomial \<leftarrow> as_uint64 (vs ! 5);
     size \<leftarrow> as_int64 (vs ! 6);
     chunks \<leftarrow> as_slice chunkRef_of_json (vs ! 7);
     Some \<lparr>fm_Format = format, fm_Algorithm = algorithm, fm_MinSize = min_size, fm_AvgSize = average_size,
       fm_MaxSize = max_size, fm_Polynomial = polynomial, fm_Size = size, fm_Chunks = chunks\<rparr> }"

definition wf_fileManifest :: "fileManifest \<Rightarrow> bool" where
  "wf_fileManifest m \<longleftrightarrow> is_int64 (fm_Format m) \<and> utf8_valid (fm_Algorithm m) \<and> is_int64 (fm_MinSize m)
     \<and> is_int64 (fm_AvgSize m) \<and> is_int64 (fm_MaxSize m) \<and> is_int64 (fm_Size m)
     \<and> (\<forall>c \<in> set (elems (fm_Chunks m)). wf_chunkRef c)"

definition symlinkManifest_to_json :: "symlinkManifest \<Rightarrow> json" where
  "symlinkManifest_to_json m = JObj [(''format'', JNum (sm_Format m)), (''target'', bytes_json (sm_Target m))]"

definition symlinkManifest_of_json :: "json \<Rightarrow> symlinkManifest option" where
  "symlinkManifest_of_json j = do {
     vs \<leftarrow> members [''format'', ''target''] j;
     format \<leftarrow> as_int64 (vs ! 0);
     target \<leftarrow> as_bytes (vs ! 1);
     Some \<lparr>sm_Format = format, sm_Target = target\<rparr> }"

definition wf_symlinkManifest :: "symlinkManifest \<Rightarrow> bool" where
  "wf_symlinkManifest m \<longleftrightarrow> is_int64 (sm_Format m)"

definition dirEntry_to_json :: "dirEntry \<Rightarrow> json" where
  "dirEntry_to_json e = JObj [(''name'', bytes_json (de_Name e)), (''type'', JStr (de_Type e)),
     (''node'', digest_json (de_Node e)), (''mode'', uint_json (de_Mode e)), (''size'', JNum (de_Size e)),
     (''mtime_unix_nano'', JNum (de_ModTimeUnixNano e))]"

definition dirEntry_of_json :: "json \<Rightarrow> dirEntry option" where
  "dirEntry_of_json j = do {
     vs \<leftarrow> members [''name'', ''type'', ''node'', ''mode'', ''size'', ''mtime_unix_nano''] j;
     name \<leftarrow> as_bytes (vs ! 0);
     type \<leftarrow> as_string (vs ! 1);
     node \<leftarrow> as_digest (vs ! 2);
     mode \<leftarrow> as_uint32 (vs ! 3);
     size \<leftarrow> as_int64 (vs ! 4);
     mtime \<leftarrow> as_int64 (vs ! 5);
     Some \<lparr>de_Name = name, de_Type = type, de_Node = node, de_Mode = mode, de_Size = size,
       de_ModTimeUnixNano = mtime\<rparr> }"

definition wf_dirEntry :: "dirEntry \<Rightarrow> bool" where
  "wf_dirEntry e \<longleftrightarrow> utf8_valid (de_Type e) \<and> is_int64 (de_Size e) \<and> is_int64 (de_ModTimeUnixNano e)"

definition dirManifest_to_json :: "dirManifest \<Rightarrow> json" where
  "dirManifest_to_json m = JObj [(''format'', JNum (dm_Format m)),
     (''entries'', slice_json dirEntry_to_json (dm_Entries m))]"

definition dirManifest_of_json :: "json \<Rightarrow> dirManifest option" where
  "dirManifest_of_json j = do {
     vs \<leftarrow> members [''format'', ''entries''] j;
     format \<leftarrow> as_int64 (vs ! 0);
     entries \<leftarrow> as_slice dirEntry_of_json (vs ! 1);
     Some \<lparr>dm_Format = format, dm_Entries = entries\<rparr> }"

definition wf_dirManifest :: "dirManifest \<Rightarrow> bool" where
  "wf_dirManifest m \<longleftrightarrow> is_int64 (dm_Format m) \<and> (\<forall>e \<in> set (elems (dm_Entries m)). wf_dirEntry e)"

text \<open>The member \<open>parent\<close> is left out when the pointer is nil (\<open>omitempty\<close>).\<close>

definition commitManifest_to_json :: "commitManifest \<Rightarrow> json" where
  "commitManifest_to_json m = JObj ([(''format'', JNum (cm_Format m)), (''generation'', uint_json (cm_Generation m))]
     @ (case cm_Parent m of None \<Rightarrow> [] | Some p \<Rightarrow> [(''parent'', digest_json p)])
     @ [(''root'', digest_json (cm_Root m)), (''published_at_unix_nano'', JNum (cm_PublishedAtUnix m)),
        (''reset_changes'', JBool (cm_ResetChanges m))])"

definition commitManifest_of_json :: "json \<Rightarrow> commitManifest option" where
  "commitManifest_of_json j = (case members [''format'', ''generation'', ''parent'', ''root'',
        ''published_at_unix_nano'', ''reset_changes''] j of
     Some vs \<Rightarrow> do {
       format \<leftarrow> as_int64 (vs ! 0);
       generation \<leftarrow> as_uint64 (vs ! 1);
       parent \<leftarrow> as_digest (vs ! 2);
       root \<leftarrow> as_digest (vs ! 3);
       published \<leftarrow> as_int64 (vs ! 4);
       reset \<leftarrow> as_bool (vs ! 5);
       Some \<lparr>cm_Format = format, cm_Generation = generation, cm_Parent = Some parent, cm_Root = root,
         cm_PublishedAtUnix = published, cm_ResetChanges = reset\<rparr> }
   | None \<Rightarrow> do {
       vs \<leftarrow> members [''format'', ''generation'', ''root'', ''published_at_unix_nano'', ''reset_changes''] j;
       format \<leftarrow> as_int64 (vs ! 0);
       generation \<leftarrow> as_uint64 (vs ! 1);
       root \<leftarrow> as_digest (vs ! 2);
       published \<leftarrow> as_int64 (vs ! 3);
       reset \<leftarrow> as_bool (vs ! 4);
       Some \<lparr>cm_Format = format, cm_Generation = generation, cm_Parent = None, cm_Root = root,
         cm_PublishedAtUnix = published, cm_ResetChanges = reset\<rparr> })"

definition wf_commitManifest :: "commitManifest \<Rightarrow> bool" where
  "wf_commitManifest m \<longleftrightarrow> is_int64 (cm_Format m) \<and> is_int64 (cm_PublishedAtUnix m)"

definition snapshotReference_to_json :: "snapshotReference \<Rightarrow> json" where
  "snapshotReference_to_json r = JObj [(''format'', JNum (sr_Format r)),
     (''generation'', uint_json (sr_Generation r)), (''commit'', digest_json (sr_Commit r))]"

definition snapshotReference_of_json :: "json \<Rightarrow> snapshotReference option" where
  "snapshotReference_of_json j = do {
     vs \<leftarrow> members [''format'', ''generation'', ''commit''] j;
     format \<leftarrow> as_int64 (vs ! 0);
     generation \<leftarrow> as_uint64 (vs ! 1);
     commit \<leftarrow> as_digest (vs ! 2);
     Some \<lparr>sr_Format = format, sr_Generation = generation, sr_Commit = commit\<rparr> }"

definition wf_snapshotReference :: "snapshotReference \<Rightarrow> bool" where
  "wf_snapshotReference r \<longleftrightarrow> is_int64 (sr_Format r)"

lemma bind_Some: "Option.bind x f = Some y \<longleftrightarrow> (\<exists>a. x = Some a \<and> f a = Some y)"
  by (cases x) auto

lemmas codec_dest = as_int64_Some as_string_Some

interpretation cr: json_codec chunkRef_to_json chunkRef_of_json wf_chunkRef
  by unfold_locales
    (auto simp: chunkRef_to_json_def chunkRef_of_json_def wf_chunkRef_def bind_Some
      as_digest_digest_json dest: codec_dest)

interpretation fm: json_codec fileManifest_to_json fileManifest_of_json wf_fileManifest
proof
  fix m assume "wf_fileManifest m"
  then show "fileManifest_of_json (fileManifest_to_json m) = Some m" "json_ok (fileManifest_to_json m)"
    by (simp_all add: fileManifest_to_json_def fileManifest_of_json_def wf_fileManifest_def
        as_slice_slice_json cr.of_to cr.to_ok as_uint64_uint_json)
next
  fix j m assume "fileManifest_of_json j = Some m"
  then show "wf_fileManifest m"
    by (auto simp: fileManifest_of_json_def wf_fileManifest_def bind_Some
        dest: codec_dest as_slice_Some [OF _ cr.of_wf])
qed

interpretation sm: json_codec symlinkManifest_to_json symlinkManifest_of_json wf_symlinkManifest
  by unfold_locales
    (auto simp: symlinkManifest_to_json_def symlinkManifest_of_json_def wf_symlinkManifest_def bind_Some
      as_bytes_bytes_json dest: codec_dest)

interpretation de: json_codec dirEntry_to_json dirEntry_of_json wf_dirEntry
  by unfold_locales
    (auto simp: dirEntry_to_json_def dirEntry_of_json_def wf_dirEntry_def bind_Some
      as_bytes_bytes_json as_digest_digest_json as_uint32_uint_json dest: codec_dest)

interpretation dm: json_codec dirManifest_to_json dirManifest_of_json wf_dirManifest
proof
  fix m assume "wf_dirManifest m"
  then show "dirManifest_of_json (dirManifest_to_json m) = Some m" "json_ok (dirManifest_to_json m)"
    by (simp_all add: dirManifest_to_json_def dirManifest_of_json_def wf_dirManifest_def
        as_slice_slice_json de.of_to de.to_ok)
next
  fix j m assume "dirManifest_of_json j = Some m"
  then show "wf_dirManifest m"
    by (auto simp: dirManifest_of_json_def wf_dirManifest_def bind_Some
        dest: codec_dest as_slice_Some [OF _ de.of_wf])
qed

interpretation cm: json_codec commitManifest_to_json commitManifest_of_json wf_commitManifest
  by unfold_locales
    (auto simp: commitManifest_to_json_def commitManifest_of_json_def wf_commitManifest_def bind_Some
      as_digest_digest_json as_uint64_uint_json split: option.splits dest: codec_dest)

interpretation sr: json_codec snapshotReference_to_json snapshotReference_of_json wf_snapshotReference
  by unfold_locales
    (auto simp: snapshotReference_to_json_def snapshotReference_of_json_def wf_snapshotReference_def bind_Some
      as_digest_digest_json as_uint64_uint_json dest: codec_dest)

subsection \<open>Chunking options\<close>

text \<open>
  The degree and the irreducibility test of a polynomial are methods of the chunker package,
  which is not part of the repository: they are the parameters \<open>deg\<close> and \<open>irreducible\<close>.
\<close>

definition ChunkingOptions_normalized ::
  "(u64 \<Rightarrow> int) \<Rightarrow> (u64 \<Rightarrow> bool) \<Rightarrow> ChunkingOptions \<Rightarrow> err + ChunkingOptions" where
  "ChunkingOptions_normalized deg irreducible options = (
     let options = (if co_MinSize options = 0 then options\<lparr>co_MinSize := 256 * 2 ^ 10\<rparr> else options);
         options = (if co_AverageSize options = 0 then options\<lparr>co_AverageSize := 2 ^ 20\<rparr> else options);
         options = (if co_MaxSize options = 0 then options\<lparr>co_MaxSize := 4 * 2 ^ 20\<rparr> else options);
         options = (if co_Polynomial options = 0 then options\<lparr>co_Polynomial := defaultPolynomial\<rparr> else options)
     in if co_MinSize options < 64 \<or> co_MinSize options \<ge> co_AverageSize options
           \<or> co_AverageSize options \<ge> co_MaxSize options then Inl [ErrInvalidChunking]
        else if co_AverageSize options AND (co_AverageSize options - 1) \<noteq> 0 then Inl [ErrInvalidChunking]
        else if co_MaxSize options > 64 * 2 ^ 20 then Inl [ErrInvalidChunking]
        else if deg (co_Polynomial options) \<noteq> 53 \<or> \<not> irreducible (co_Polynomial options)
          then Inl [ErrInvalidChunking]
        else Inr options)"

text \<open>\<open>bits.TrailingZeros64\<close>.\<close>

fun trailing_zeros :: "nat \<Rightarrow> nat" where
  "trailing_zeros n = (if n = 0 then 64 else if odd n then 0 else Suc (trailing_zeros (n div 2)))"

declare trailing_zeros.simps [simp del]

definition averageBits :: "ChunkingOptions \<Rightarrow> nat" where
  "averageBits options = trailing_zeros (nat (co_AverageSize options))"

lemma and_pred_power2:
  assumes "0 < x" "x AND (x - 1) = 0"
  shows "x = 2 ^ trailing_zeros (nat x)"
  using assms
proof (induction "nat x" arbitrary: x rule: trailing_zeros.induct)
  case 1
  show ?case
  proof (cases "odd x")
    case True
    have "x AND (x - 1) = 2 * (x div 2 AND (x - 1) div 2)"
      using True by (subst and_rec) simp
    moreover have "(x - 1) div 2 = x div 2" using True by presburger
    ultimately have "x div 2 = 0" using "1.prems"(2) by simp
    with True "1.prems"(1) have "x = 1" by presburger
    then show ?thesis by (simp add: trailing_zeros.simps)
  next
    case False
    have "x AND (x - 1) = 2 * (x div 2 AND (x - 1) div 2)"
      using False by (subst and_rec) simp
    moreover have "(x - 1) div 2 = x div 2 - 1" using False by presburger
    ultimately have "x div 2 AND (x div 2 - 1) = 0" using "1.prems"(2) by simp
    moreover have "0 < x div 2" using False "1.prems"(1) by presburger
    moreover have n: "nat (x div 2) = nat x div 2" by simp
    ultimately have "x div 2 = 2 ^ trailing_zeros (nat x div 2)"
      using "1.hyps" [of "x div 2"] False "1.prems"(1) by (simp add: even_nat_iff)
    moreover have "trailing_zeros (nat x) = Suc (trailing_zeros (nat x div 2))"
      using False "1.prems"(1) by (subst trailing_zeros.simps) (simp add: even_nat_iff)
    moreover have "x = 2 * (x div 2)" using False by simp
    ultimately show ?thesis by (metis power_Suc)
  qed
qed

lemma normalized_Inr:
  assumes "ChunkingOptions_normalized deg irreducible options = Inr result"
  shows "64 \<le> co_MinSize result \<and> co_MinSize result < co_AverageSize result
    \<and> co_AverageSize result < co_MaxSize result \<and> co_MaxSize result \<le> maxChunkObjectBytes
    \<and> co_AverageSize result AND (co_AverageSize result - 1) = 0
    \<and> co_Polynomial result \<noteq> 0 \<and> deg (co_Polynomial result) = 53 \<and> irreducible (co_Polynomial result)"
  using assms
  by (auto simp: ChunkingOptions_normalized_def Let_def maxChunkObjectBytes_def defaultPolynomial_def
      split: if_splits)

lemma normalized_fixed:
  assumes "64 \<le> co_MinSize o'" "co_MinSize o' < co_AverageSize o'" "co_AverageSize o' < co_MaxSize o'"
    "co_MaxSize o' \<le> maxChunkObjectBytes" "co_AverageSize o' AND (co_AverageSize o' - 1) = 0"
    "co_Polynomial o' \<noteq> 0" "deg (co_Polynomial o') = 53" "irreducible (co_Polynomial o')"
  shows "ChunkingOptions_normalized deg irreducible o' = Inr o'"
  using assms by (auto simp: ChunkingOptions_normalized_def Let_def maxChunkObjectBytes_def)

lemma normalized_idem:
  "ChunkingOptions_normalized deg irreducible options = Inr result
   \<Longrightarrow> ChunkingOptions_normalized deg irreducible result = Inr result"
  by (drule normalized_Inr) (rule normalized_fixed; simp)

lemma normalized_average:
  assumes "ChunkingOptions_normalized deg irreducible options = Inr result"
  shows "co_AverageSize result = 2 ^ averageBits result"
  using normalized_Inr [OF assms] and_pred_power2 [of "co_AverageSize result"]
  by (simp add: averageBits_def)

subsection \<open>Domain separation of digests\<close>

text \<open>A kind without a NUL byte and the data are recovered from what is hashed.\<close>

lemma object_preimage_inject [simp]:
  "\<lbrakk>CHR 0x00 \<notin> set k; CHR 0x00 \<notin> set k'\<rbrakk>
   \<Longrightarrow> object_preimage k d = object_preimage k' d' \<longleftrightarrow> k = k' \<and> d = d'"
  by (simp add: object_preimage_def append_sep_inject)

end
