(* ===== verification/Go_Path.thy ===== *)
theory Go_Path
  imports Go_Lib "HOL-Library.Sublist"
begin

section \<open>Slash-separated paths: the functions of \<open>strings\<close> and \<open>path\<close>\<close>

text \<open>
  \<open>path.Clean\<close> is stated on the components between slashes: empty and \<open>.\<close> components
  vanish, a \<open>..\<close> cancels the component before it, is dropped at a root and is kept at the
  start of a relative path. \<open>walk d cs\<close> is the depth reached from a directory at depth
  \<open>d\<close> by following \<open>cs\<close>, and \<open>None\<close> as soon as a step leaves the root. The main
  lemma says that cleaning detects every such step, not only the final position.
\<close>

abbreviation slash :: char where
  "slash \<equiv> CHR ''/''"

subsection \<open>strings\<close>

fun split_slash :: "bytes \<Rightarrow> bytes list" where
  "split_slash [] = [[]]"
| "split_slash (c # cs) =
     (if c = slash then [] # split_slash cs
      else (case split_slash cs of [] \<Rightarrow> [[c]] | x # xs \<Rightarrow> (c # x) # xs))"

fun join_slash :: "bytes list \<Rightarrow> bytes" where
  "join_slash [] = []"
| "join_slash [x] = x"
| "join_slash (x # y # r) = x @ slash # join_slash (y # r)"

definition has_prefix :: "bytes \<Rightarrow> bytes \<Rightarrow> bool" where
  "has_prefix s p = (take (length p) s = p)"

text \<open>\<open>strings.Contains s p\<close>.\<close>

fun contains :: "bytes \<Rightarrow> bytes \<Rightarrow> bool" where
  "contains p [] = (p = [])"
| "contains p (c # s) = (has_prefix (c # s) p \<or> contains p s)"

definition trim_prefix :: "bytes \<Rightarrow> bytes \<Rightarrow> bytes" where
  "trim_prefix p s = (if has_prefix s p then drop (length p) s else s)"

definition trim_slashes :: "bytes \<Rightarrow> bytes" where
  "trim_slashes s = rev (dropWhile (\<lambda>c. c = slash) (rev (dropWhile (\<lambda>c. c = slash) s)))"

lemma split_slash_nonempty [simp]: "split_slash s \<noteq> []"
  by (cases s) (auto split: list.splits)

lemma split_slash_no_slash: "x \<in> set (split_slash s) \<Longrightarrow> slash \<notin> set x"
  by (induction s arbitrary: x) (auto split: list.splits if_splits)

lemma join_slash_Cons: "join_slash (x # xs) = (if xs = [] then x else x @ slash # join_slash xs)"
  by (cases xs) auto

lemma join_split [simp]: "join_slash (split_slash s) = s"
proof (induction s)
  case (Cons c cs)
  then show ?case
    by (cases "split_slash cs") (auto simp: join_slash_Cons split: if_splits)
qed simp

lemma split_no_slash: "slash \<notin> set x \<Longrightarrow> split_slash x = [x]"
  by (induction x) auto

lemma split_append_slash: "slash \<notin> set x \<Longrightarrow> split_slash (x @ slash # s) = x # split_slash s"
  by (induction x) auto

lemma split_join [simp]:
  "xs \<noteq> [] \<Longrightarrow> \<forall>x \<in> set xs. slash \<notin> set x \<Longrightarrow> split_slash (join_slash xs) = xs"
  by (induction xs) (auto simp: join_slash_Cons split_no_slash split_append_slash)

lemma split_append: "split_slash (s @ slash # t) = split_slash s @ split_slash t"
  by (induction s) (auto split: list.splits)

lemma slash_in_split: "slash \<in> set s \<longleftrightarrow> length (split_slash s) > 1"
  by (induction s) (auto split: list.splits)

subsection \<open>path\<close>

definition clean_step :: "bool \<Rightarrow> bytes \<Rightarrow> bytes list \<Rightarrow> bytes list" where
  "clean_step rooted c out =
     (if c = [] \<or> c = ''.'' then out
      else if c = ''..'' then
        (if out \<noteq> [] \<and> hd out \<noteq> ''..'' then tl out
         else if rooted then out else ''..'' # out)
      else c # out)"

definition clean_out :: "bool \<Rightarrow> bytes list \<Rightarrow> bytes list" where
  "clean_out rooted cs = rev (fold (clean_step rooted) cs [])"

definition path_IsAbs :: "bytes \<Rightarrow> bool" where
  "path_IsAbs p = (p \<noteq> [] \<and> hd p = slash)"

definition path_Clean :: "bytes \<Rightarrow> bytes" where
  "path_Clean p = (let out = clean_out (path_IsAbs p) (split_slash p) in
     if path_IsAbs p then slash # join_slash out
     else if out = [] then ''.'' else join_slash out)"

definition path_Join2 :: "bytes \<Rightarrow> bytes \<Rightarrow> bytes" where
  "path_Join2 a b =
     (if a = [] \<and> b = [] then []
      else if a = [] then path_Clean b
      else if b = [] then path_Clean a
      else path_Clean (a @ slash # b))"

definition path_Dir :: "bytes \<Rightarrow> bytes" where
  "path_Dir p = path_Clean (rev (dropWhile (\<lambda>c. c \<noteq> slash) (rev p)))"

subsection \<open>Following components\<close>

fun walk :: "nat \<Rightarrow> bytes list \<Rightarrow> nat option" where
  "walk d [] = Some d"
| "walk d (c # cs) =
     (if c = [] \<or> c = ''.'' then walk d cs
      else if c = ''..'' then (if d = 0 then None else walk (d - 1) cs)
      else walk (d + 1) cs)"

definition plain :: "bytes list \<Rightarrow> bool" where
  "plain cs = (\<forall>c \<in> set cs. c \<noteq> [] \<and> c \<noteq> ''.'' \<and> c \<noteq> ''..'' \<and> slash \<notin> set c)"

lemma plain_simps [simp]:
  "plain []"
  "plain (c # cs) = (c \<noteq> [] \<and> c \<noteq> ''.'' \<and> c \<noteq> ''..'' \<and> slash \<notin> set c \<and> plain cs)"
  "plain (xs @ ys) = (plain xs \<and> plain ys)"
  "plain (rev xs) = plain xs"
  by (auto simp: plain_def)

lemma walk_plain: "plain cs \<Longrightarrow> walk d cs = Some (d + length cs)"
  by (induction cs arbitrary: d) auto

lemma walk_append:
  "walk d (xs @ ys) = (case walk d xs of None \<Rightarrow> None | Some d' \<Rightarrow> walk d' ys)"
  by (induction xs arbitrary: d) auto

lemma last_clean_step:
  "st \<noteq> [] \<Longrightarrow> last st = ''..'' \<Longrightarrow> clean_step False c st \<noteq> [] \<and> last (clean_step False c st) = ''..''"
  by (cases st) (auto simp: clean_step_def last_tl split: if_splits)

lemma last_fold_clean_step:
  "st \<noteq> [] \<Longrightarrow> last st = ''..'' \<Longrightarrow>
     fold (clean_step False) cs st \<noteq> [] \<and> last (fold (clean_step False) cs st) = ''..''"
proof (induction cs arbitrary: st)
  case (Cons c cs)
  then show ?case using last_clean_step [of st c] by simp
qed simp

text \<open>Cleaning a relative path keeps a leading \<open>..\<close> exactly when some step left the root.\<close>

lemma fold_clean_step_walk:
  assumes "plain st" and "\<forall>c \<in> set cs. slash \<notin> set c"
  shows "case walk (length st) cs of
      None \<Rightarrow> fold (clean_step False) cs st \<noteq> [] \<and> last (fold (clean_step False) cs st) = ''..''
    | Some d \<Rightarrow> plain (fold (clean_step False) cs st)
        \<and> length (fold (clean_step False) cs st) = d"
  using assms
proof (induction cs arbitrary: st)
  case (Cons c cs)
  show ?case
  proof (cases "c = ''..'' \<and> st = []")
    case True
    then show ?thesis using last_fold_clean_step [of "[''..'']" cs] by (simp add: clean_step_def)
  next
    case False
    have st: "plain (clean_step False c st)"
      using Cons.prems False by (cases st) (auto simp: clean_step_def)
    have "walk (length st) (c # cs) = walk (length (clean_step False c st)) cs"
      using Cons.prems False by (cases st) (auto simp: clean_step_def)
    then show ?thesis using Cons.IH [OF st] Cons.prems by (simp split: option.splits)
  qed
qed simp

lemma clean_out_walk:
  assumes "\<forall>c \<in> set cs. slash \<notin> set c"
  shows "walk 0 cs = None \<Longrightarrow> clean_out False cs \<noteq> [] \<and> hd (clean_out False cs) = ''..''"
    and "walk 0 cs = Some d \<Longrightarrow> plain (clean_out False cs) \<and> length (clean_out False cs) = d"
  using fold_clean_step_walk [of "[]" cs] assms by (auto simp: clean_out_def hd_rev)

lemma fold_clean_plain: "plain cs \<Longrightarrow> fold (clean_step False) cs st = rev cs @ st"
  by (induction cs arbitrary: st) (auto simp: clean_step_def)

lemma clean_out_plain [simp]: "plain cs \<Longrightarrow> clean_out False cs = cs"
  by (simp add: clean_out_def fold_clean_plain)

lemma join_plain_not_abs: "plain cs \<Longrightarrow> \<not> path_IsAbs (join_slash cs)"
proof (cases cs)
  case (Cons c r)
  assume "plain cs"
  with Cons show ?thesis by (cases c) (auto simp: path_IsAbs_def join_slash_Cons)
qed (simp add: path_IsAbs_def)

lemma path_Clean_plain [simp]: "plain cs \<Longrightarrow> cs \<noteq> [] \<Longrightarrow> path_Clean (join_slash cs) = join_slash cs"
  using join_plain_not_abs [of cs] by (simp add: path_Clean_def plain_def)

lemma path_IsAbs_split: "path_IsAbs p \<longleftrightarrow> (\<exists>xs. xs \<noteq> [] \<and> split_slash p = [] # xs)"
  by (cases p) (auto simp: path_IsAbs_def split: list.splits)

lemma escapes_join:
  assumes "cs \<noteq> []" and "\<forall>c \<in> set cs. slash \<notin> set c"
  shows "join_slash cs = ''..'' \<or> has_prefix (join_slash cs) ''../'' \<longleftrightarrow> hd cs = ''..''"
proof (cases cs)
  case (Cons c r)
  have c: "slash \<notin> set c" using assms Cons by simp
  show ?thesis
  proof (cases r)
    case Nil
    have "has_prefix c ''../'' \<Longrightarrow> slash \<in> set c"
      unfolding has_prefix_def by (metis in_set_takeD list.set_intros)
    then show ?thesis using Cons Nil c by auto
  next
    case r: (Cons d s)
    have "has_prefix (c @ slash # x) ''../'' \<longleftrightarrow> c = ''..''" for x
    proof (cases c rule: list.exhaust)
      case Nil
      then show ?thesis by (simp add: has_prefix_def)
    next
      case c1: (Cons a as)
      show ?thesis
      proof (cases as)
        case Nil
        then show ?thesis using c1 by (simp add: has_prefix_def)
      next
        case c2: (Cons b bs)
        show ?thesis using c c1 c2 by (cases bs) (auto simp: has_prefix_def)
      qed
    qed
    moreover have "c @ slash # x \<noteq> ''..''" for x using c by (auto simp: append_eq_Cons_conv)
    ultimately show ?thesis using Cons r by simp
  qed
qed (use assms in simp)

text \<open>The test the code makes on a cleaned relative path, and what it means.\<close>

lemma clean_escapes:
  assumes "\<not> path_IsAbs p"
  shows "(path_Clean p = ''..'' \<or> has_prefix (path_Clean p) ''../'') \<longleftrightarrow> walk 0 (split_slash p) = None"
proof (cases "walk 0 (split_slash p)")
  case None
  have cs: "\<forall>c \<in> set (split_slash p). slash \<notin> set c" by (auto dest: split_slash_no_slash)
  note co = clean_out_walk(1) [OF cs None]
  have "\<forall>c \<in> set (clean_out False (split_slash p)). slash \<notin> set c"
  proof -
    have "set (fold (clean_step False) xs st) \<subseteq> set xs \<union> set st \<union> {''..''}" for xs st
    proof (induction xs arbitrary: st)
      case (Cons x xs)
      have "set (clean_step False x st) \<subseteq> {x} \<union> set st \<union> {''..''}"
        by (cases st) (auto simp: clean_step_def)
      with Cons [of "clean_step False x st"] show ?case by auto
    qed auto
    from this [of "split_slash p" "[]"] cs show ?thesis by (auto simp: clean_out_def)
  qed
  then show ?thesis using None co escapes_join [of "clean_out False (split_slash p)"] assms
    by (simp add: path_Clean_def)
next
  case (Some d)
  have cs: "\<forall>c \<in> set (split_slash p). slash \<notin> set c" by (auto dest: split_slash_no_slash)
  note co = clean_out_walk(2) [OF cs Some]
  show ?thesis
  proof (cases "clean_out False (split_slash p)")
    case Nil
    then show ?thesis using Some assms by (simp add: path_Clean_def has_prefix_def)
  next
    case (Cons c r)
    then show ?thesis using co Some escapes_join [of "clean_out False (split_slash p)"] assms
      by (auto simp: path_Clean_def plain_def)
  qed
qed

end
