(* ===== verification/Symlink.thy ===== *)
theory Symlink
  imports Protocol_Model Go_Path
begin

section \<open>Symbolic links\<close>

text \<open>
  \<open>symlink.go\<close>. The publisher applies \<open>validateSafeSymlink\<close> to a link it stages, the
  consumer to a link it reads. The test is lexical: it cleans the target joined to the
  directory of the link and looks for a leading \<open>..\<close>. The theorem below says what this
  gives to a file system that follows the target one component at a time.
\<close>

definition validateSafeSymlink :: "bytes \<Rightarrow> bytes \<Rightarrow> err option" where
  "validateSafeSymlink linkPath target =
     (if target = [] \<or> \<not> utf8_valid target \<or> CHR 0x00 \<in> set target then Some [ErrUnsafeSymlink]
      else if CHR 0x5C \<in> set target \<or> path_IsAbs target \<or> has_prefix target ''//'' then Some [ErrUnsafeSymlink]
      else let first = takeWhile (\<lambda>c. c \<noteq> slash) target in
        if CHR '':'' \<in> set first then Some [ErrUnsafeSymlink]
        else let resolved = path_Clean (path_Join2 (path_Dir linkPath) target) in
          if resolved = ''..'' \<or> has_prefix resolved ''../'' then Some [ErrUnsafeSymlink]
          else None)"

lemma escape_starts:
  assumes "p = ''..'' \<or> has_prefix p ''../''"
  shows "\<exists>r. split_slash p = ''..'' # r"
proof (cases "p = ''..''")
  case False
  with assms have "p = ''..'' @ slash # drop 3 p"
    by (metis append_Cons append_Nil append_take_drop_id has_prefix_def length_Cons list.size(3) numeral_3_eq_3)
  then show ?thesis using split_append_slash [of "''..''" "drop 3 p"] by auto
qed simp

lemma path_Clean_dot [simp]: "path_Clean ''.'' = ''.''" "path_Clean [] = ''.''"
  by (simp_all add: path_Clean_def path_IsAbs_def clean_out_def clean_step_def)

lemma clean_clean_escapes:
  assumes "\<not> path_IsAbs p"
  shows "(path_Clean (path_Clean p) = ''..'' \<or> has_prefix (path_Clean (path_Clean p)) ''../'')
    \<longleftrightarrow> walk 0 (split_slash p) = None"
proof (cases "walk 0 (split_slash p)")
  case None
  then obtain r where r: "split_slash (path_Clean p) = ''..'' # r"
    using clean_escapes [OF assms] escape_starts by blast
  then have "\<not> path_IsAbs (path_Clean p)" by (auto simp: path_IsAbs_split)
  with r None show ?thesis using clean_escapes [of "path_Clean p"] by simp
next
  case (Some d)
  have "\<forall>c \<in> set (split_slash p). slash \<notin> set c" by (auto dest: split_slash_no_slash)
  note co = clean_out_walk(2) [OF this Some]
  have "path_Clean (path_Clean p) = path_Clean p"
    using assms co path_Clean_plain [of "clean_out False (split_slash p)"]
    by (simp add: path_Clean_def [of p] Let_def)
  then show ?thesis using clean_escapes [OF assms] by simp
qed

lemma join_slash_snoc: "join_slash (xs @ [x]) = (if xs = [] then x else join_slash xs @ slash # x)"
  by (induction xs) (auto simp: join_slash_Cons)

text \<open>The directory of a plain path, as \<open>path.Join\<close> sees it.\<close>

lemma path_Dir_plain:
  assumes "plain (ds @ [name])"
  shows "path_Dir (join_slash (ds @ [name])) = (if ds = [] then ''.'' else join_slash ds)"
proof -
  have n: "slash \<notin> set name" using assms by simp
  have "rev (dropWhile (\<lambda>c. c \<noteq> slash) (rev (join_slash (ds @ [name])))) =
      (if ds = [] then [] else join_slash ds @ [slash])"
    using n by (auto simp: join_slash_snoc dropWhile_append3 dropWhile_eq_Nil_conv)
  moreover have "path_Clean (join_slash ds @ [slash]) = join_slash ds" if "ds \<noteq> []"
  proof -
    have "split_slash (join_slash ds @ [slash]) = ds @ [[]]"
      using split_append [of "join_slash ds" "[]"] assms that by (simp add: plain_def)
    moreover have "\<not> path_IsAbs (join_slash ds @ [slash])"
    proof -
      have "join_slash ds \<noteq> []" using that assms by (cases ds) (auto simp: join_slash_Cons)
      then show ?thesis using join_plain_not_abs [of ds] assms by (auto simp: path_IsAbs_def)
    qed
    ultimately show ?thesis using that assms
      by (simp add: path_Clean_def clean_out_def fold_clean_plain clean_step_def)
  qed
  ultimately show ?thesis by (simp add: path_Dir_def)
qed

lemma join_dir_walk:
  assumes "plain (ds @ [name])" "target \<noteq> []"
  shows "(let r = path_Clean (path_Join2 (path_Dir (join_slash (ds @ [name]))) target)
     in r = ''..'' \<or> has_prefix r ''../'') \<longleftrightarrow> walk (length ds) (split_slash target) = None"
proof -
  define dir where "dir = (if ds = [] then ''.'' else join_slash ds)"
  have dir: "dir \<noteq> []" "\<not> path_IsAbs dir" "split_slash dir = (if ds = [] then [''.''] else ds)"
  proof -
    show "dir \<noteq> []" using assms(1) by (cases ds) (auto simp: dir_def join_slash_Cons)
    show "\<not> path_IsAbs dir" using assms(1) join_plain_not_abs [of ds] by (auto simp: dir_def path_IsAbs_def)
    show "split_slash dir = (if ds = [] then [''.''] else ds)"
      using assms(1) split_join [of ds] by (simp add: dir_def plain_def)
  qed
  have "\<not> path_IsAbs (dir @ slash # target)" using dir by (auto simp: path_IsAbs_def)
  moreover have "walk 0 (split_slash (dir @ slash # target)) = walk (length ds) (split_slash target)"
    using dir(3) assms(1) by (simp add: split_append walk_append walk_plain)
  ultimately show ?thesis
    using clean_clean_escapes [of "dir @ slash # target"] path_Dir_plain [OF assms(1)] dir(1) assms(2)
    by (simp add: path_Join2_def dir_def Let_def)
qed

lemma walk_prefixes: "walk d cs \<noteq> None \<longleftrightarrow> (\<forall>k. walk d (take k cs) \<noteq> None)"
proof
  assume "walk d cs \<noteq> None"
  then show "\<forall>k. walk d (take k cs) \<noteq> None"
    by (metis append_take_drop_id option.simps(4) walk_append)
next
  assume "\<forall>k. walk d (take k cs) \<noteq> None"
  from spec [OF this, of "length cs"] show "walk d cs \<noteq> None" by simp
qed

lemma validateSafeSymlink_error: "validateSafeSymlink l t = Some e \<Longrightarrow> e = [ErrUnsafeSymlink]"
  by (auto simp: validateSafeSymlink_def Let_def split: if_splits)

text \<open>
  C16. For a link at a path below the root of the snapshot, \<open>validateSafeSymlink\<close> accepts a
  target exactly when it is a non-empty portable relative path and following it component by
  component from the directory of the link stays inside the snapshot root at every step.
\<close>

theorem safe_symlink_stays_inside:
  assumes "plain (ds @ [name])"
  shows "validateSafeSymlink (join_slash (ds @ [name])) target = None \<longleftrightarrow>
    target \<noteq> [] \<and> utf8_valid target \<and> CHR 0x00 \<notin> set target \<and> CHR 0x5C \<notin> set target
    \<and> \<not> path_IsAbs target \<and> CHR '':'' \<notin> set (hd (split_slash target))
    \<and> (\<forall>k. walk (length ds) (take k (split_slash target)) \<noteq> None)"
proof -
  have first: "takeWhile (\<lambda>c. c \<noteq> slash) target = hd (split_slash target)"
    by (induction target) (auto split: list.splits)
  have abs: "has_prefix target ''//'' \<Longrightarrow> path_IsAbs target"
    by (cases target) (auto simp: has_prefix_def path_IsAbs_def)
  show ?thesis
    using join_dir_walk [OF assms, of target] abs
    unfolding walk_prefixes [symmetric] validateSafeSymlink_def first Let_def by (auto simp del: join_slash.simps)
qed

theorem safe_symlink_stays_inside_witness:
  "plain ([''a'', ''b''] @ [''l'']) \<and> validateSafeSymlink ''a/b/l'' ''../../c'' = None"
proof -
  have "plain ([''a'', ''b''] @ [''l''])" by simp
  moreover have "\<forall>k. walk (Suc (Suc 0)) (take k [''..'', ''..'', ''c'']) \<noteq> None"
    unfolding walk_prefixes [symmetric] by simp
  ultimately show ?thesis
    using safe_symlink_stays_inside [of "[''a'', ''b'']" "''l''" "''../../c''"]
    by (simp add: path_IsAbs_def)
qed

end
