(* ===== verification/Object_Store.thy ===== *)
theory Object_Store
  imports Protocol_Model
begin

section \<open>The object store contract\<close>

text \<open>
  \<open>store.go\<close>. The interfaces \<open>ObjectReader\<close> and \<open>Store\<close> are records of operations on
  the state \<open>'w\<close> of the world outside the program. The context argument of every method is a
  part of that world: an operation may return the context's error whenever it likes, and
  \<open>ctx_err\<close> is the method \<open>Err\<close> that the code polls itself.

  Most theorems of the development are about every such record. Where the contract written in
  the comments of \<open>store.go\<close> matters, the theorem is proved in the locale \<open>object_store\<close>,
  which states that contract; \<open>Mem_Store\<close> interprets it on the in-memory store.
\<close>

definition MaxStoreVersionTokenBytes :: int where
  "MaxStoreVersionTokenBytes = 4 * 2 ^ 10"

record Version =
  v_ETag :: bytes
  v_VersionID :: bytes

definition validateStoreVersion :: "Version \<Rightarrow> err option" where
  "validateStoreVersion version =
     (if v_ETag version = [] then Some [ErrStoreIncompatible]
      else if len (v_ETag version) > MaxStoreVersionTokenBytes
        \<or> len (v_VersionID version) > MaxStoreVersionTokenBytes then Some [ErrStoreIncompatible]
      else None)"

record GetOptions =
  go_IfNoneMatch :: bytes
  go_MaxBytes :: int

record Object =
  ob_Data :: bytes
  ob_Version :: Version

record 'w ObjectReader =
  Get :: "bytes \<Rightarrow> GetOptions \<Rightarrow> ('w, err + Object) state"

record 'w Store =
  store_Get :: "bytes \<Rightarrow> GetOptions \<Rightarrow> ('w, err + Object) state"
  store_Head :: "bytes \<Rightarrow> ('w, err + Version) state"
  store_PutIfAbsent :: "bytes \<Rightarrow> bytes \<Rightarrow> ('w, err + Version) state"
  store_CompareAndSwap :: "bytes \<Rightarrow> Version option \<Rightarrow> bytes \<Rightarrow> ('w, err + Version) state"

definition Store_reader :: "'w Store \<Rightarrow> 'w ObjectReader" where
  "Store_reader st = \<lparr>Get = store_Get st\<rparr>"

lemma Get_Store_reader [simp]: "Get (Store_reader st) = store_Get st"
  by (simp add: Store_reader_def)

lemma validateStoreVersion_cases [simp]:
  "validateStoreVersion v = None \<longleftrightarrow>
     v_ETag v \<noteq> [] \<and> len (v_ETag v) \<le> MaxStoreVersionTokenBytes
     \<and> len (v_VersionID v) \<le> MaxStoreVersionTokenBytes"
  by (auto simp: validateStoreVersion_def)

lemma validateStoreVersion_Some:
  "validateStoreVersion v = Some e \<Longrightarrow> e = [ErrStoreIncompatible]"
  by (auto simp: validateStoreVersion_def split: if_splits)

subsection \<open>What a store promises\<close>

text \<open>
  \<open>objects w\<close> is the content of the store in the state \<open>w\<close>. A read or \<open>Head\<close> that
  succeeds reports the current object and changes nothing. A successful \<open>PutIfAbsent\<close>
  creates, a successful \<open>CompareAndSwap\<close> replaces the object whose ETag was expected (or
  creates when none was). \<open>ErrObjectNotFound\<close>, \<open>ErrNotModified\<close> and \<open>ErrPrecondition\<close>
  are facts about the object, and the last one promises that nothing changed. With any other
  error a write may or may not have been applied: a response can be lost.
\<close>

definition store_write ::
  "(bytes \<Rightarrow> Object option) \<Rightarrow> bytes \<Rightarrow> bytes \<Rightarrow> (bytes \<Rightarrow> Object option) \<Rightarrow> bool" where
  "store_write obs k data obs' \<longleftrightarrow>
     (\<exists>v. obs' = obs(k \<mapsto> \<lparr>ob_Data = data, ob_Version = v\<rparr>) \<and> validateStoreVersion v = None)"

definition cas_matches :: "Object option \<Rightarrow> Version option \<Rightarrow> bool" where
  "cas_matches cur expected \<longleftrightarrow>
     (case expected of None \<Rightarrow> cur = None
      | Some v \<Rightarrow> (\<exists>ob. cur = Some ob \<and> v_ETag (ob_Version ob) = v_ETag v))"

definition write_outcome ::
  "Version option \<Rightarrow> (bytes \<Rightarrow> Object option) \<Rightarrow> bytes \<Rightarrow> bytes \<Rightarrow> (bytes \<Rightarrow> Object option) \<Rightarrow> err + Version \<Rightarrow> bool" where
  "write_outcome expected obs k data obs' r \<longleftrightarrow> (case r of
     Inr v \<Rightarrow> cas_matches (obs k) expected \<and> obs' = obs(k \<mapsto> \<lparr>ob_Data = data, ob_Version = v\<rparr>)
   | Inl e \<Rightarrow>
       if errors_Is e ErrPrecondition then \<not> cas_matches (obs k) expected \<and> obs' = obs
       else obs' = obs \<or> (cas_matches (obs k) expected \<and> store_write obs k data obs'))"

definition read_outcome :: "(bytes \<Rightarrow> Object option) \<Rightarrow> bytes \<Rightarrow> GetOptions \<Rightarrow> err + Object \<Rightarrow> bool" where
  "read_outcome obs k opt r \<longleftrightarrow> (case r of
     Inr ob \<Rightarrow> obs k = Some ob \<and> (go_MaxBytes opt > 0 \<longrightarrow> len (ob_Data ob) \<le> go_MaxBytes opt)
   | Inl e \<Rightarrow> (errors_Is e ErrObjectNotFound \<longrightarrow> obs k = None)
       \<and> (errors_Is e ErrNotModified \<longrightarrow>
           (\<exists>ob. obs k = Some ob \<and> v_ETag (ob_Version ob) = go_IfNoneMatch opt)))"

definition head_outcome :: "(bytes \<Rightarrow> Object option) \<Rightarrow> bytes \<Rightarrow> err + Version \<Rightarrow> bool" where
  "head_outcome obs k r \<longleftrightarrow> (case r of
     Inr v \<Rightarrow> (\<exists>ob. obs k = Some ob \<and> ob_Version ob = v)
   | Inl e \<Rightarrow> (errors_Is e ErrObjectNotFound \<longrightarrow> obs k = None))"

lemmas store_outcomes = write_outcome_def read_outcome_def head_outcome_def

locale object_store =
  fixes st :: "'w Store" and objects :: "'w \<Rightarrow> bytes \<Rightarrow> Object option" and inv :: "'w \<Rightarrow> bool"
  assumes Get_contract:
    "\<lbrakk>inv w; run_state (store_Get st k opt) w = (r, w')\<rbrakk> \<Longrightarrow>
       inv w' \<and> objects w' = objects w \<and> read_outcome (objects w) k opt r"
    and Head_contract:
    "\<lbrakk>inv w; run_state (store_Head st k) w = (r', w')\<rbrakk> \<Longrightarrow>
       inv w' \<and> objects w' = objects w \<and> head_outcome (objects w) k r'"
    and PutIfAbsent_contract:
    "\<lbrakk>inv w; run_state (store_PutIfAbsent st k data) w = (r', w')\<rbrakk> \<Longrightarrow>
       inv w' \<and> write_outcome None (objects w) k data (objects w') r'"
    and CompareAndSwap_contract:
    "\<lbrakk>inv w; run_state (store_CompareAndSwap st k expected data) w = (r', w')\<rbrakk> \<Longrightarrow>
       inv w' \<and> write_outcome expected (objects w) k data (objects w') r'"
    and version_valid:
    "\<lbrakk>inv w; objects w k = Some ob\<rbrakk> \<Longrightarrow> validateStoreVersion (ob_Version ob) = None"
begin

lemma wp_Get:
  assumes "inv w"
    and "\<And>ob w'. \<lbrakk>inv w'; objects w' = objects w; objects w k = Some ob;
        go_MaxBytes opt > 0 \<Longrightarrow> len (ob_Data ob) \<le> go_MaxBytes opt\<rbrakk> \<Longrightarrow> Q (Inr ob) w'"
    and "\<And>e w'. \<lbrakk>inv w'; objects w' = objects w; errors_Is e ErrObjectNotFound \<Longrightarrow> objects w k = None\<rbrakk> \<Longrightarrow> Q (Inl e) w'"
  shows "wp (store_Get st k opt) Q w"
proof (rule wp_op)
  fix r w' assume "run_state (store_Get st k opt) w = (r, w')"
  from Get_contract [OF assms(1) this] show "Q r w'"
    using assms(2,3) by (auto simp: store_outcomes split: sum.splits)
qed

lemma wp_Head:
  assumes "inv w"
    and "\<And>ob w'. \<lbrakk>inv w'; objects w' = objects w; objects w k = Some ob\<rbrakk> \<Longrightarrow> Q (Inr (ob_Version ob)) w'"
    and "\<And>e w'. \<lbrakk>inv w'; objects w' = objects w; errors_Is e ErrObjectNotFound \<Longrightarrow> objects w k = None\<rbrakk> \<Longrightarrow> Q (Inl e) w'"
  shows "wp (store_Head st k) Q w"
proof (rule wp_op)
  fix r w' assume "run_state (store_Head st k) w = (r, w')"
  from Head_contract [OF assms(1) this] show "Q r w'"
    using assms(2,3) by (auto simp: store_outcomes split: sum.splits)
qed

end

end
