(* ===== verification/Mem_Store.thy ===== *)
theory Mem_Store
  imports Object_Store Go_Path
begin

section \<open>The in-memory store\<close>

text \<open>
  \<open>memstore/memstore.go\<close>, with its counters. The world of this store also holds the caller's
  context: \<open>mw_cancel_at\<close> is the poll at which the context is found done (never, when it is
  \<open>None\<close>) and \<open>mw_polls\<close> counts the polls. Every operation holds the mutex throughout, so
  it is one step.
\<close>

record memrecord =
  mr_data :: bytes
  mr_version :: Version

record Stats =
  Gets :: int
  Heads :: int
  Puts :: int
  BytesRead :: int
  BytesWritten :: int
  ChunkGets :: int
  ChunkBytesRead :: int
  ChunkPuts :: int

record memworld =
  mw_objects :: "bytes \<Rightarrow> memrecord option"
  mw_serial :: u64
  mw_stats :: Stats
  mw_cancel_at :: "nat option"
  mw_polls :: nat

definition zero_stats :: Stats where
  "zero_stats = \<lparr>Gets = 0, Heads = 0, Puts = 0, BytesRead = 0, BytesWritten = 0,
     ChunkGets = 0, ChunkBytesRead = 0, ChunkPuts = 0\<rparr>"

definition mem_New :: "nat option \<Rightarrow> memworld" where
  "mem_New cancel_at = \<lparr>mw_objects = (\<lambda>_. None), mw_serial = 0, mw_stats = zero_stats,
     mw_cancel_at = cancel_at, mw_polls = 0\<rparr>"

definition ctx_done :: "memworld \<Rightarrow> bool" where
  "ctx_done w = (case mw_cancel_at w of None \<Rightarrow> False | Some n \<Rightarrow> n \<le> mw_polls w)"

definition mem_ctx_err :: "(memworld, err option) state" where
  "mem_ctx_err = State (\<lambda>w.
     (if ctx_done w then Some [ErrContext] else None,
      w\<lparr>mw_polls := mw_polls w + 1\<rparr>))"

definition isChunk :: "bytes \<Rightarrow> bool" where
  "isChunk key = contains ''/objects/chunk/'' key"

definition maxObjectBytes :: int where
  "maxObjectBytes = 64 * 2 ^ 20 + (8 + 16 + 12 + 16)"

definition checkObjectSize :: "bytes \<Rightarrow> err option" where
  "checkObjectSize data = (if len data > maxObjectBytes then Some [ErrResourceLimit] else None)"

definition count_get :: "bytes \<Rightarrow> bytes \<Rightarrow> Stats \<Rightarrow> Stats" where
  "count_get key data s =
     (let s = s\<lparr>Gets := wrap64 (Gets s + 1), BytesRead := wrap64 (BytesRead s + len data)\<rparr>
      in if isChunk key
         then s\<lparr>ChunkGets := wrap64 (ChunkGets s + 1), ChunkBytesRead := wrap64 (ChunkBytesRead s + len data)\<rparr>
         else s)"

definition count_put :: "bytes \<Rightarrow> bytes \<Rightarrow> Stats \<Rightarrow> Stats" where
  "count_put key data s =
     (let s = s\<lparr>Puts := wrap64 (Puts s + 1), BytesWritten := wrap64 (BytesWritten s + len data)\<rparr>
      in if isChunk key then s\<lparr>ChunkPuts := wrap64 (ChunkPuts s + 1)\<rparr> else s)"

definition putLocked :: "bytes \<Rightarrow> bytes \<Rightarrow> (memworld, Version) state" where
  "putLocked key data = State (\<lambda>w.
     let serial = mw_serial w + 1;
         version = \<lparr>v_ETag = quote # hex256 (sha256 data) @ [quote],
                    v_VersionID = ''memory-'' @ dec (unat serial)\<rparr>
     in (version, w\<lparr>mw_serial := serial,
           mw_objects := (mw_objects w)(key \<mapsto> \<lparr>mr_data = data, mr_version = version\<rparr>),
           mw_stats := count_put key data (mw_stats w)\<rparr>))"

definition mem_Get :: "bytes \<Rightarrow> GetOptions \<Rightarrow> (memworld, err + Object) state" where
  "mem_Get key options = do {
     e \<leftarrow> mem_ctx_err;
     check e (State (\<lambda>w.
       case mw_objects w key of
         None \<Rightarrow> (Inl [ErrObjectNotFound], w)
       | Some record \<Rightarrow>
           if go_IfNoneMatch options \<noteq> [] \<and> go_IfNoneMatch options = v_ETag (mr_version record)
           then (Inl [ErrNotModified], w)
           else if go_MaxBytes options < 0 then (Inl [ErrResourceLimit], w)
           else if go_MaxBytes options > 0 \<and> len (mr_data record) > go_MaxBytes options
           then (Inl [ErrResourceLimit], w)
           else (Inr \<lparr>ob_Data = mr_data record, ob_Version = mr_version record\<rparr>,
                 w\<lparr>mw_stats := count_get key (mr_data record) (mw_stats w)\<rparr>))) }"

definition mem_Head :: "bytes \<Rightarrow> (memworld, err + Version) state" where
  "mem_Head key = do {
     e \<leftarrow> mem_ctx_err;
     check e (State (\<lambda>w.
       (case mw_objects w key of None \<Rightarrow> Inl [ErrObjectNotFound] | Some record \<Rightarrow> Inr (mr_version record),
        w\<lparr>mw_stats := (mw_stats w)\<lparr>Heads := wrap64 (Heads (mw_stats w) + 1)\<rparr>\<rparr>))) }"

definition mem_PutIfAbsent :: "bytes \<Rightarrow> bytes \<Rightarrow> (memworld, err + Version) state" where
  "mem_PutIfAbsent key data = do {
     e \<leftarrow> mem_ctx_err;
     check e (check (checkObjectSize data) (do {
       w \<leftarrow> State_Monad.get;
       if mw_objects w key \<noteq> None then throw [ErrPrecondition]
       else do { v \<leftarrow> putLocked key data; return (Inr v) } })) }"

definition mem_CompareAndSwap :: "bytes \<Rightarrow> Version option \<Rightarrow> bytes \<Rightarrow> (memworld, err + Version) state" where
  "mem_CompareAndSwap key expected data = do {
     e \<leftarrow> mem_ctx_err;
     check e (check (checkObjectSize data) (do {
       w \<leftarrow> State_Monad.get;
       case expected of
         None \<Rightarrow>
           if mw_objects w key \<noteq> None then throw [ErrPrecondition]
           else do { v \<leftarrow> putLocked key data; return (Inr v) }
       | Some ex \<Rightarrow>
           if v_ETag ex = [] then throw plain_error
           else (case mw_objects w key of
               None \<Rightarrow> throw [ErrPrecondition]
             | Some current \<Rightarrow>
                 if v_ETag (mr_version current) \<noteq> v_ETag ex then throw [ErrPrecondition]
                 else do { v \<leftarrow> putLocked key data; return (Inr v) }) })) }"

definition mem_Delete :: "bytes \<Rightarrow> (memworld, err option) state" where
  "mem_Delete key = do {
     e \<leftarrow> mem_ctx_err;
     case e of Some x \<Rightarrow> return (Some x)
     | None \<Rightarrow> State (\<lambda>w. (None, w\<lparr>mw_objects := (mw_objects w)(key := None)\<rparr>)) }"

definition mem_ForcePut :: "bytes \<Rightarrow> bytes \<Rightarrow> (memworld, unit) state" where
  "mem_ForcePut key data = do { v \<leftarrow> putLocked key data; return () }"

definition mem_ResetStats :: "(memworld, unit) state" where
  "mem_ResetStats = State (\<lambda>w. ((), w\<lparr>mw_stats := zero_stats\<rparr>))"

definition mem_store :: "memworld Store" where
  "mem_store = \<lparr>store_Get = mem_Get, store_Head = mem_Head, store_PutIfAbsent = mem_PutIfAbsent,
     store_CompareAndSwap = mem_CompareAndSwap\<rparr>"

subsection \<open>The contract holds\<close>

definition mem_objects :: "memworld \<Rightarrow> bytes \<Rightarrow> Object option" where
  "mem_objects w k = map_option (\<lambda>r. \<lparr>ob_Data = mr_data r, ob_Version = mr_version r\<rparr>) (mw_objects w k)"

definition mem_inv :: "memworld \<Rightarrow> bool" where
  "mem_inv w \<longleftrightarrow> (\<forall>k r. mw_objects w k = Some r \<longrightarrow>
     validateStoreVersion (mr_version r) = None \<and> v_ETag (mr_version r) = quote # hex256 (sha256 (mr_data r)) @ [quote])"

lemma mem_inv_New [simp]: "mem_inv (mem_New c)"
  by (simp add: mem_inv_def mem_New_def)

lemma wp_mem_ctx_err [wp_simps]:
  "wp mem_ctx_err Q w =
     Q (if ctx_done w then Some [ErrContext] else None)
       (w\<lparr>mw_polls := mw_polls w + 1\<rparr>)"
  by (simp add: wp_def mem_ctx_err_def)

definition mem_version :: "memworld \<Rightarrow> bytes \<Rightarrow> Version" where
  "mem_version w data = \<lparr>v_ETag = quote # hex256 (sha256 data) @ [quote],
     v_VersionID = ''memory-'' @ dec (unat (mw_serial w + 1))\<rparr>"

lemma mem_version_valid: "validateStoreVersion (mem_version w data) = None"
proof -
  have "unat (mw_serial w + 1) < 2 ^ 64" using unsigned_less [of "mw_serial w + 1"] by simp
  also have "(2 :: nat) ^ 64 < 10 ^ 20" by simp
  finally have "length (dec (unat (mw_serial w + 1))) \<le> 20" by (intro length_dec) auto
  then show ?thesis by (simp add: mem_version_def MaxStoreVersionTokenBytes_def)
qed

lemma wp_putLocked [wp_simps]:
  "wp (putLocked key data) Q w = Q (mem_version w data)
     (w\<lparr>mw_serial := mw_serial w + 1,
        mw_objects := (mw_objects w)(key \<mapsto> \<lparr>mr_data = data, mr_version = mem_version w data\<rparr>),
        mw_stats := count_put key data (mw_stats w)\<rparr>)"
  by (simp add: wp_def putLocked_def mem_version_def Let_def)

lemma mem_objects_put [simp]:
  "mem_objects (w\<lparr>mw_objects := (mw_objects w')(key \<mapsto> r)\<rparr>) =
     (mem_objects w')(key \<mapsto> \<lparr>ob_Data = mr_data r, ob_Version = mr_version r\<rparr>)"
  by (auto simp: mem_objects_def)

lemma mem_objects_same [simp]:
  "mem_objects (w\<lparr>mw_polls := n\<rparr>) = mem_objects w" "mem_objects (w\<lparr>mw_stats := t\<rparr>) = mem_objects w"
  "mem_inv (w\<lparr>mw_polls := n\<rparr>) = mem_inv w" "mem_inv (w\<lparr>mw_stats := t\<rparr>) = mem_inv w"
  by (auto simp: mem_objects_def mem_inv_def)

lemma mem_inv_put [simp]:
  "mem_inv w \<Longrightarrow> mem_inv (w''\<lparr>mw_objects := (mw_objects w)(key \<mapsto> \<lparr>mr_data = data, mr_version = mem_version w' data\<rparr>)\<rparr>)"
  using mem_version_valid [of w' data] by (auto simp: mem_inv_def mem_version_def)

lemmas mem_ops = mem_Get_def mem_Head_def mem_PutIfAbsent_def mem_CompareAndSwap_def

lemma mem_Get_wp:
  "mem_inv w \<Longrightarrow> wp (mem_Get k opt) (\<lambda>r w'.
     mem_inv w' \<and> mem_objects w' = mem_objects w \<and> read_outcome (mem_objects w) k opt r) w"
  by (auto simp: mem_Get_def wp_simps read_outcome_def mem_objects_def [of w] split: option.splits)

lemma mem_Head_wp:
  "mem_inv w \<Longrightarrow> wp (mem_Head k) (\<lambda>r w'.
     mem_inv w' \<and> mem_objects w' = mem_objects w \<and> head_outcome (mem_objects w) k r) w"
  by (auto simp: mem_Head_def wp_simps head_outcome_def mem_objects_def [of w] split: option.splits)

lemma checkObjectSize_Some: "checkObjectSize d = Some e \<Longrightarrow> e = [ErrResourceLimit]"
  by (auto simp: checkObjectSize_def split: if_splits)

lemma mem_PutIfAbsent_wp:
  "mem_inv w \<Longrightarrow> wp (mem_PutIfAbsent k data) (\<lambda>r w'.
     mem_inv w' \<and> write_outcome None (mem_objects w) k data (mem_objects w') r) w"
  by (auto simp: mem_PutIfAbsent_def wp_simps write_outcome_def cas_matches_def mem_objects_def [of _ k]
      dest: checkObjectSize_Some)

lemma mem_CompareAndSwap_wp:
  "mem_inv w \<Longrightarrow> wp (mem_CompareAndSwap k expected data) (\<lambda>r w'.
     mem_inv w' \<and> write_outcome expected (mem_objects w) k data (mem_objects w') r) w"
  by (cases expected; cases "mw_objects w k")
    (auto simp: mem_CompareAndSwap_def wp_simps write_outcome_def cas_matches_def mem_objects_def [of _ k]
      dest: checkObjectSize_Some)

interpretation mem: object_store mem_store mem_objects mem_inv
proof
  fix w k opt r w'
  assume "mem_inv w" "run_state (store_Get mem_store k opt) w = (r, w')"
  then show "mem_inv w' \<and> mem_objects w' = mem_objects w \<and> read_outcome (mem_objects w) k opt r"
    using wp_run [OF mem_Get_wp] by (simp add: mem_store_def)
next
  fix w k r' w'
  assume "mem_inv w" "run_state (store_Head mem_store k) w = (r', w')"
  then show "mem_inv w' \<and> mem_objects w' = mem_objects w \<and> head_outcome (mem_objects w) k r'"
    using wp_run [OF mem_Head_wp] by (simp add: mem_store_def)
next
  fix w k data r' w'
  assume "mem_inv w" "run_state (store_PutIfAbsent mem_store k data) w = (r', w')"
  then show "mem_inv w' \<and> write_outcome None (mem_objects w) k data (mem_objects w') r'"
    using wp_run [OF mem_PutIfAbsent_wp] by (simp add: mem_store_def)
next
  fix w k expected data r' w'
  assume "mem_inv w" "run_state (store_CompareAndSwap mem_store k expected data) w = (r', w')"
  then show "mem_inv w' \<and> write_outcome expected (mem_objects w) k data (mem_objects w') r'"
    using wp_run [OF mem_CompareAndSwap_wp] by (simp add: mem_store_def)
next
  fix w k ob
  assume "mem_inv w" "mem_objects w k = Some ob"
  then show "validateStoreVersion (ob_Version ob) = None"
    by (auto simp: mem_inv_def mem_objects_def MaxStoreVersionTokenBytes_def)
qed

end
