(* ===== verification/Crypto.thy ===== *)
theory Crypto
  imports Sha256
begin

section \<open>Keyed hashing\<close>

text \<open>
  \<open>crypto/hmac\<close> and \<open>crypto/hkdf\<close> over SHA-256, as \<open>client_encryption.go\<close> and
  \<open>trust.go\<close> use them. \<open>array32\<close> is the slice \<open>a[:]\<close> of a Go array of 32 bytes.
\<close>

definition array32 :: "256 word \<Rightarrow> bytes" where
  "array32 w = be_bytes 32 (unat w)"

definition xor_byte :: "nat \<Rightarrow> char \<Rightarrow> char" where
  "xor_byte p c = char_of ((of_char c :: nat) XOR p)"

definition hmac_pad :: "bytes \<Rightarrow> bytes" where
  "hmac_pad key = (let k = (if length key > 64 then array32 (sha256 key) else key)
     in k @ replicate (64 - length k) (char_of (0 :: nat)))"

definition hmac_sha256 :: "bytes \<Rightarrow> bytes \<Rightarrow> digest" where
  "hmac_sha256 key msg = (let k = hmac_pad key
     in sha256 (map (xor_byte 0x5c) k @ array32 (sha256 (map (xor_byte 0x36) k @ msg))))"

text \<open>\<open>hkdf.Key\<close> for a key of 32 bytes, the only length the code asks for: one block.\<close>

definition hkdf_key32 :: "bytes \<Rightarrow> bytes \<Rightarrow> bytes \<Rightarrow> digest" where
  "hkdf_key32 secret salt info =
     hmac_sha256 (array32 (hmac_sha256 salt secret)) (info @ [char_of (1 :: nat)])"

lemma length_be_bytes [simp]: "length (be_bytes k n) = k"
  by (induction k arbitrary: n) auto

lemma length_array32 [simp]: "length (array32 w) = 32"
  by (simp add: array32_def)

primrec be_value :: "bytes \<Rightarrow> nat \<Rightarrow> nat" where
  "be_value [] acc = acc"
| "be_value (c # cs) acc = be_value cs (256 * acc + of_char c)"

lemma be_value_append: "be_value (xs @ ys) acc = be_value ys (be_value xs acc)"
  by (induction xs arbitrary: acc) auto

lemma be_value_be_bytes: "be_value (be_bytes k n) 0 = n mod 256 ^ k"
proof (induction k arbitrary: n)
  case (Suc k)
  have "n mod (256 * 256 ^ k) = 256 * (n div 256 mod 256 ^ k) + n mod 256" by (rule mod_mult2_eq)
  then show ?case by (simp add: be_value_append Suc)
qed simp

lemma be_bytes_inject: "\<lbrakk>m < 256 ^ k; n < 256 ^ k\<rbrakk> \<Longrightarrow> be_bytes k m = be_bytes k n \<longleftrightarrow> m = n"
  by (metis be_value_be_bytes mod_less)

lemma array32_inject [simp]: "array32 a = array32 b \<longleftrightarrow> a = b"
proof -
  have "unat x < 256 ^ 32" for x :: "256 word" using unsigned_less [of x] by simp
  then show ?thesis by (simp add: array32_def be_bytes_inject word_unat_eq_iff)
qed

lemma char_of_add_mult: "char_of (256 * n + of_char x :: nat) = x"
proof -
  have "of_char (char_of (256 * n + of_char x :: nat)) = (of_char x :: nat)" by simp
  then show ?thesis by (simp only: of_char_eq_iff)
qed

lemma be_bytes_be_value: "be_bytes (length bs) (be_value bs 0) = bs"
  by (induction bs rule: rev_induct) (simp_all add: be_value_append char_of_add_mult)

lemma be_value_less: "be_value bs 0 < 256 ^ length bs"
proof (induction bs rule: rev_induct)
  case (snoc x xs)
  have "256 * be_value xs 0 + of_char x < 256 * (be_value xs 0 + 1)" by simp
  also have "\<dots> \<le> 256 * 256 ^ length xs" using snoc by (intro mult_le_mono2) simp
  finally show ?case by (simp add: be_value_append)
qed simp

lemma array32_of_nat: "length bs = 32 \<Longrightarrow> array32 (of_nat (be_value bs 0)) = bs"
  using be_value_less [of bs] be_bytes_be_value [of bs]
  by (simp add: array32_def unsigned_of_nat take_bit_eq_mod)

lemma be_value_array32: "be_value (array32 w) 0 = unat w"
proof -
  have "unat w < 256 ^ 32" using unsigned_less [of w] by simp
  then show ?thesis unfolding array32_def be_value_be_bytes by (rule mod_less)
qed

end
