(* ===== verification/Trust.thy ===== *)
theory Trust
  imports Protocol_Model Crypto
begin

section \<open>Signed references\<close>

text \<open>
  \<open>trust.go\<close> and \<open>reference_identity.go\<close>: the signed envelope around a snapshot reference,
  and the check of reference bytes that every reader performs. A signer and a verifier are
  records of their methods; the identity and the key name of a signer are fixed, as the comment
  on the interface demands. Ed25519 itself is not part of the repository: \<open>ed25519_sign\<close> and
  \<open>ed25519_verify\<close> are parameters of the built-in signer and verifier. A typed nil, which the
  code rejects with a plain error, has no counterpart in the model.
\<close>

type_synonym 'w ctx = "('w, err option) state"

definition maxReferenceKeyIDBytes :: int where "maxReferenceKeyIDBytes = 128"
definition maxReferenceSignatureSize :: int where "maxReferenceSignatureSize = 512"

definition signedReferenceDomain :: bytes where
  "signedReferenceDomain = ''s3disk'' @ CHR 0x00 # ''signed-reference'' @ CHR 0x00 # ''v1'' @ [CHR 0x00]"

text \<open>\<open>RepositoryID.String\<close> and \<open>ParseRepositoryID\<close>.\<close>

definition ParseRepositoryID :: "bytes \<Rightarrow> err + repository_id" where
  "ParseRepositoryID value = (case parse_hex256 value of None \<Rightarrow> Inl plain_error | Some i \<Rightarrow> Inr i)"

record 'w ReferenceSigner =
  sg_RepositoryID :: repository_id
  sg_KeyID :: bytes
  sg_Sign :: "bytes \<Rightarrow> ('w, err + bytes) state"

record 'w ReferenceVerifier =
  rv_RepositoryID :: repository_id
  rv_Verify :: "bytes \<Rightarrow> bytes \<Rightarrow> bytes \<Rightarrow> ('w, err option) state"

record signedReferencePayload =
  sp_Format :: int
  sp_RepositoryID :: repository_id
  sp_Channel :: bytes
  sp_Generation :: u64
  sp_Commit :: digest
  sp_KeyID :: bytes

record signedReferenceEnvelope =
  se_Format :: int
  se_Reference :: signedReferencePayload
  se_Signature :: "char slice"

definition payload_to_json :: "signedReferencePayload \<Rightarrow> json" where
  "payload_to_json p = JObj [(''format'', JNum (sp_Format p)), (''repository_id'', digest_json (sp_RepositoryID p)),
     (''channel'', JStr (sp_Channel p)), (''generation'', uint_json (sp_Generation p)),
     (''commit'', digest_json (sp_Commit p)), (''key_id'', JStr (sp_KeyID p))]"

definition payload_of_json :: "json \<Rightarrow> signedReferencePayload option" where
  "payload_of_json j = do {
     vs \<leftarrow> members [''format'', ''repository_id'', ''channel'', ''generation'', ''commit'', ''key_id''] j;
     format \<leftarrow> as_int64 (vs ! 0);
     repository \<leftarrow> as_digest (vs ! 1);
     channel \<leftarrow> as_string (vs ! 2);
     generation \<leftarrow> as_uint64 (vs ! 3);
     commit \<leftarrow> as_digest (vs ! 4);
     key \<leftarrow> as_string (vs ! 5);
     Some \<lparr>sp_Format = format, sp_RepositoryID = repository, sp_Channel = channel,
       sp_Generation = generation, sp_Commit = commit, sp_KeyID = key\<rparr> }"

definition wf_payload :: "signedReferencePayload \<Rightarrow> bool" where
  "wf_payload p \<longleftrightarrow> is_int64 (sp_Format p) \<and> utf8_valid (sp_Channel p) \<and> utf8_valid (sp_KeyID p)"

definition envelope_to_json :: "signedReferenceEnvelope \<Rightarrow> json" where
  "envelope_to_json e = JObj [(''format'', JNum (se_Format e)), (''reference'', payload_to_json (se_Reference e)),
     (''signature'', bytes_json (se_Signature e))]"

definition envelope_of_json :: "json \<Rightarrow> signedReferenceEnvelope option" where
  "envelope_of_json j = do {
     vs \<leftarrow> members [''format'', ''reference'', ''signature''] j;
     format \<leftarrow> as_int64 (vs ! 0);
     reference \<leftarrow> payload_of_json (vs ! 1);
     signature \<leftarrow> as_bytes (vs ! 2);
     Some \<lparr>se_Format = format, se_Reference = reference, se_Signature = signature\<rparr> }"

definition wf_envelope :: "signedReferenceEnvelope \<Rightarrow> bool" where
  "wf_envelope e \<longleftrightarrow> is_int64 (se_Format e) \<and> wf_payload (se_Reference e)"

definition referenceSigningMessage :: "bytes \<Rightarrow> bytes" where
  "referenceSigningMessage payload =
     signedReferenceDomain @ be_bytes 8 (unat (of_nat (length payload) :: u64)) @ payload"

definition key_id_chars :: bytes where
  "key_id_chars = ''abcdefghijklmnopqrstuvwxyzABCDEFGHIJKLMNOPQRSTUVWXYZ0123456789._:-''"

definition validateReferenceKeyID :: "bytes \<Rightarrow> err option" where
  "validateReferenceKeyID keyID =
     (if keyID = [] \<or> len keyID > maxReferenceKeyIDBytes then Some [ErrUntrustedReference]
      else if \<not> list_all (\<lambda>c. c \<in> set key_id_chars) keyID then Some [ErrUntrustedReference]
      else None)"

text \<open>\<open>repository.go\<close>: the channel name check that does not depend on the repository.\<close>

definition validateChannel :: "bytes \<Rightarrow> err option" where
  "validateChannel channel =
     (if channel = [] \<or> \<not> utf8_valid channel \<or> CHR 0x00 \<in> set channel \<or> length channel > 1024
      then Some [ErrInvalidPath] else None)"

definition signSnapshotReference ::
  "bytes \<Rightarrow> snapshotReference \<Rightarrow> 'w ReferenceSigner option \<Rightarrow> 'w ReferenceVerifier option
   \<Rightarrow> ('w, err + bytes) state" where
  "signSnapshotReference channel reference signer verifier = (case (signer, verifier) of
     (Some signer, Some verifier) \<Rightarrow>
       if sg_RepositoryID signer = 0 \<or> sg_RepositoryID signer \<noteq> rv_RepositoryID verifier
       then throw [ErrUntrustedReference]
       else check (validateReferenceKeyID (sg_KeyID signer)) (
         let payload = \<lparr>sp_Format = objectFormatVersion, sp_RepositoryID = sg_RepositoryID signer,
               sp_Channel = channel, sp_Generation = sr_Generation reference,
               sp_Commit = sr_Commit reference, sp_KeyID = sg_KeyID signer\<rparr>;
             message = referenceSigningMessage (canonicalJSON payload_to_json payload)
         in do {
           r \<leftarrow> sg_Sign signer message;
           ok r (\<lambda>signature.
             if signature = [] \<or> len signature > maxReferenceSignatureSize then throw [ErrUntrustedReference]
             else do {
               e \<leftarrow> rv_Verify verifier (sp_KeyID payload) message signature;
               check e (return (Inr (canonicalJSON envelope_to_json
                 \<lparr>se_Format = objectFormatVersion, se_Reference = payload, se_Signature = Some signature\<rparr>))) }) })
   | _ \<Rightarrow> throw [ErrUntrustedReference])"

definition verifySignedSnapshotReference ::
  "bytes \<Rightarrow> bytes \<Rightarrow> 'w ReferenceVerifier option \<Rightarrow> ('w, err + snapshotReference) state" where
  "verifySignedSnapshotReference data channel verifier = (case verifier of
     None \<Rightarrow> throw [ErrUntrustedReference]
   | Some verifier \<Rightarrow>
       if rv_RepositoryID verifier = 0 then throw [ErrUntrustedReference]
       else (case decodeJSON envelope_to_json envelope_of_json data of
         Inl e \<Rightarrow> throw (ErrInvalidReference # e)
       | Inr envelope \<Rightarrow>
           let payload = se_Reference envelope; signature = elems (se_Signature envelope) in
           if se_Format envelope \<noteq> objectFormatVersion \<or> sp_Format payload \<noteq> objectFormatVersion
             \<or> sp_RepositoryID payload \<noteq> rv_RepositoryID verifier \<or> sp_Channel payload \<noteq> channel
             \<or> sp_Generation payload = 0 \<or> sp_Commit payload = 0 \<or> signature = []
             \<or> len signature > maxReferenceSignatureSize
           then throw [ErrInvalidReference, ErrUntrustedReference]
           else (case validateReferenceKeyID (sp_KeyID payload) of
             Some e \<Rightarrow> throw (ErrInvalidReference # e)
           | None \<Rightarrow> do {
               v \<leftarrow> rv_Verify verifier (sp_KeyID payload)
                 (referenceSigningMessage (canonicalJSON payload_to_json payload)) signature;
               case v of
                 Some e \<Rightarrow> throw (ErrInvalidReference # e)
               | None \<Rightarrow> return (Inr \<lparr>sr_Format = sp_Format payload, sr_Generation = sp_Generation payload,
                   sr_Commit = sp_Commit payload\<rparr>) })))"

record SnapshotReferenceIdentity =
  si_RepositoryID :: repository_id
  si_Generation :: u64
  si_Commit :: digest
  si_Authenticated :: bool

definition VerifySnapshotReference ::
  "'w ctx \<Rightarrow> bytes \<Rightarrow> bytes \<Rightarrow> 'w ReferenceVerifier option \<Rightarrow> ('w, err + SnapshotReferenceIdentity) state" where
  "VerifySnapshotReference ctx data channel verifier = do {
     e \<leftarrow> ctx;
     check e (check (validateChannel channel) (
       if data = [] \<or> len data > maxReferenceBytes then throw [ErrInvalidReference]
       else do {
         r \<leftarrow> (case verifier of
             None \<Rightarrow> return (case decodeJSON snapshotReference_to_json snapshotReference_of_json data of
                 Inl e \<Rightarrow> Inl [ErrInvalidReference] | Inr reference \<Rightarrow> Inr reference)
           | Some v \<Rightarrow> verifySignedSnapshotReference data channel verifier);
         ok r (\<lambda>reference.
           if sr_Format reference \<noteq> objectFormatVersion \<or> sr_Generation reference = 0 \<or> sr_Commit reference = 0
           then throw [ErrInvalidReference]
           else return (Inr \<lparr>
             si_RepositoryID = (case verifier of None \<Rightarrow> 0 | Some v \<Rightarrow> rv_RepositoryID v),
             si_Generation = sr_Generation reference, si_Commit = sr_Commit reference,
             si_Authenticated = (verifier \<noteq> None)\<rparr>)) })) }"

subsection \<open>The built-in Ed25519 signer and verifier\<close>

definition NewEd25519ReferenceSigner ::
  "'w ctx \<Rightarrow> (bytes \<Rightarrow> bytes \<Rightarrow> bytes) \<Rightarrow> repository_id \<Rightarrow> bytes \<Rightarrow> bytes \<Rightarrow> err + 'w ReferenceSigner" where
  "NewEd25519ReferenceSigner ctx ed25519_sign repositoryID keyID privateKey =
     (if repositoryID = 0 then Inl plain_error
      else case validateReferenceKeyID keyID of Some e \<Rightarrow> Inl e | None \<Rightarrow>
        if length privateKey \<noteq> 64 then Inl plain_error
        else Inr \<lparr>sg_RepositoryID = repositoryID, sg_KeyID = keyID,
          sg_Sign = (\<lambda>message. do { e \<leftarrow> ctx; check e (return (Inr (ed25519_sign privateKey message))) })\<rparr>)"

text \<open>The keyring is an association list; the order in which Go ranges over it only selects
  which of several errors is reported.\<close>

definition NewEd25519ReferenceVerifier ::
  "'w ctx \<Rightarrow> (bytes \<Rightarrow> bytes \<Rightarrow> bytes \<Rightarrow> bool) \<Rightarrow> repository_id \<Rightarrow> (bytes \<times> bytes) list
   \<Rightarrow> err + 'w ReferenceVerifier" where
  "NewEd25519ReferenceVerifier ctx ed25519_verify repositoryID publicKeys =
     (if repositoryID = 0 then Inl plain_error
      else if publicKeys = [] \<or> length publicKeys > 1024 then Inl plain_error
      else case find (\<lambda>(k, pk). validateReferenceKeyID k \<noteq> None \<or> length pk \<noteq> 32) publicKeys of
        Some (k, pk) \<Rightarrow> Inl (case validateReferenceKeyID k of Some e \<Rightarrow> e | None \<Rightarrow> plain_error)
      | None \<Rightarrow> Inr \<lparr>rv_RepositoryID = repositoryID,
          rv_Verify = (\<lambda>keyID message signature. do {
            e \<leftarrow> ctx;
            case e of Some x \<Rightarrow> return (Some x)
            | None \<Rightarrow> (case map_of publicKeys keyID of
                None \<Rightarrow> return (Some [ErrUntrustedReference])
              | Some publicKey \<Rightarrow>
                  if length signature \<noteq> 64 \<or> \<not> ed25519_verify publicKey message signature
                  then return (Some [ErrUntrustedReference]) else return None) })\<rparr>)"

subsection \<open>Encoding of the envelope\<close>

lemma objectFormatVersion_int64 [simp]: "is_int64 objectFormatVersion"
  by (simp add: objectFormatVersion_def is_int64_def maxInt64_def)

interpretation sp: json_codec payload_to_json payload_of_json wf_payload
  by unfold_locales
    (auto simp: payload_to_json_def payload_of_json_def wf_payload_def bind_Some
      as_digest_digest_json as_uint64_uint_json dest: codec_dest)

interpretation se: json_codec envelope_to_json envelope_of_json wf_envelope
  by unfold_locales
    (auto simp: envelope_to_json_def envelope_of_json_def wf_envelope_def bind_Some
      as_bytes_bytes_json sp.of_to sp.to_ok dest: codec_dest sp.of_wf)

lemma referenceSigningMessage_inject [simp]:
  "referenceSigningMessage a = referenceSigningMessage b \<longleftrightarrow> a = b"
  by (auto simp: referenceSigningMessage_def append_eq_append_conv)

lemma key_id_ascii: "validateReferenceKeyID k = None \<Longrightarrow> ascii k"
proof -
  assume "validateReferenceKeyID k = None"
  then have "\<forall>c \<in> set k. c \<in> set key_id_chars"
    by (auto simp: validateReferenceKeyID_def list_all_iff split: if_splits)
  moreover have "\<forall>c \<in> set key_id_chars. of_char c < (128 :: nat)" by (simp add: key_id_chars_def)
  ultimately show ?thesis by (auto simp: ascii_def list_all_iff)
qed

lemma key_id_utf8: "validateReferenceKeyID k = None \<Longrightarrow> utf8_valid k"
  by (simp add: key_id_ascii ascii_utf8_valid)

lemma elems_SomeI: "elems s \<noteq> [] \<Longrightarrow> s = Some (elems s)"
  by (cases s) auto

subsection \<open>What an accepted reference is\<close>

definition accepted_payload :: "'w ReferenceVerifier \<Rightarrow> bytes \<Rightarrow> bytes \<Rightarrow> snapshotReference \<Rightarrow> signedReferencePayload" where
  "accepted_payload v channel key ref = \<lparr>sp_Format = objectFormatVersion, sp_RepositoryID = rv_RepositoryID v,
     sp_Channel = channel, sp_Generation = sr_Generation ref, sp_Commit = sr_Commit ref, sp_KeyID = key\<rparr>"

lemma accepted_payload_simps [simp]:
  "sp_Format (accepted_payload v c k ref) = objectFormatVersion"
  "sp_RepositoryID (accepted_payload v c k ref) = rv_RepositoryID v"
  "sp_Channel (accepted_payload v c k ref) = c"
  "sp_Generation (accepted_payload v c k ref) = sr_Generation ref"
  "sp_Commit (accepted_payload v c k ref) = sr_Commit ref"
  "sp_KeyID (accepted_payload v c k ref) = k"
  by (simp_all add: accepted_payload_def)

definition accepted :: "'w ReferenceVerifier \<Rightarrow> bytes \<Rightarrow> bytes \<Rightarrow> 'w \<Rightarrow> 'w \<Rightarrow> snapshotReference \<Rightarrow> bool" where
  "accepted v channel data w w' ref \<longleftrightarrow> (\<exists>key sig.
     run_state (rv_Verify v key
       (referenceSigningMessage (canonicalJSON payload_to_json (accepted_payload v channel key ref))) sig) w = (None, w')
     \<and> data = canonicalJSON envelope_to_json \<lparr>se_Format = objectFormatVersion,
         se_Reference = accepted_payload v channel key ref, se_Signature = Some sig\<rparr>
     \<and> wf_payload (accepted_payload v channel key ref)
     \<and> rv_RepositoryID v \<noteq> 0 \<and> sr_Generation ref \<noteq> 0 \<and> sr_Commit ref \<noteq> 0
     \<and> sr_Format ref = objectFormatVersion)"

lemma acceptedI:
  assumes dec: "decodeJSON envelope_to_json envelope_of_json data = Inr env"
    and fmt: "se_Format env = objectFormatVersion" "sp_Format (se_Reference env) = objectFormatVersion"
    and ctx: "sp_RepositoryID (se_Reference env) = rv_RepositoryID v" "sp_Channel (se_Reference env) = channel"
    and sig: "elems (se_Signature env) \<noteq> []"
    and nz: "rv_RepositoryID v \<noteq> 0" "sp_Generation (se_Reference env) \<noteq> 0" "sp_Commit (se_Reference env) \<noteq> 0"
    and run: "run_state (rv_Verify v (sp_KeyID (se_Reference env))
       (referenceSigningMessage (canonicalJSON payload_to_json (se_Reference env))) (elems (se_Signature env))) w = (None, w')"
  shows "accepted v channel data w w' \<lparr>sr_Format = objectFormatVersion,
    sr_Generation = sp_Generation (se_Reference env), sr_Commit = sp_Commit (se_Reference env)\<rparr>"
proof -
  let ?p = "se_Reference env"
  let ?ref = "\<lparr>sr_Format = objectFormatVersion, sr_Generation = sp_Generation ?p, sr_Commit = sp_Commit ?p\<rparr>"
  have p: "accepted_payload v channel (sp_KeyID ?p) ?ref = ?p"
    using fmt ctx by (simp add: accepted_payload_def)
  have "env = \<lparr>se_Format = objectFormatVersion, se_Reference = ?p, se_Signature = Some (elems (se_Signature env))\<rparr>"
    using fmt elems_SomeI [OF sig] by (auto intro!: signedReferenceEnvelope.equality)
  moreover have "data = canonicalJSON envelope_to_json env" "wf_payload ?p"
    using se.decode_InrD [OF dec] by (auto simp: wf_envelope_def)
  ultimately show ?thesis
    unfolding accepted_def using run nz p
    by (intro exI [of _ "sp_KeyID ?p"] exI [of _ "elems (se_Signature env)"]) auto
qed

lemmas wp_Verify = wp_op [where m = "rv_Verify v k m sig" for v k m sig]
lemmas wp_Sign = wp_op [where m = "sg_Sign s m" for s m]

lemma verifySigned_accepts:
  "wp (verifySignedSnapshotReference data channel (Some v))
     (\<lambda>r w'. \<forall>ref. r = Inr ref \<longrightarrow> accepted v channel data w w' ref) w"
  unfolding verifySignedSnapshotReference_def Let_def
  by (auto simp: wp_simps intro!: wp_Verify acceptedI)

lemma VerifySnapshotReference_accepts:
  "wp (VerifySnapshotReference ctx data channel (Some v))
     (\<lambda>r w'. \<forall>i. r = Inr i \<longrightarrow> (\<exists>w0 ref. accepted v channel data w0 w' ref \<and> validateChannel channel = None
        \<and> i = \<lparr>si_RepositoryID = rv_RepositoryID v, si_Generation = sr_Generation ref,
               si_Commit = sr_Commit ref, si_Authenticated = True\<rparr>)) w"
  unfolding VerifySnapshotReference_def
  by (auto simp: wp_simps intro!: wp_op [of ctx] wp_conseq [OF verifySigned_accepts]) blast

text \<open>
  C13. A verifier that accepts a message only if it is the signing message of a payload the
  publisher signed binds every accepted reference to that publication: whatever bytes the
  store returns, the identity reported as authenticated is the generation and the commit of a
  payload that was signed for this repository and for this channel.
\<close>

theorem signed_reference_authentic:
  assumes sound: "\<And>key m sig w1 w2. run_state (rv_Verify v key m sig) w1 = (None, w2) \<Longrightarrow>
      \<exists>p \<in> published. wf_payload p \<and> sp_KeyID p = key \<and> m = referenceSigningMessage (canonicalJSON payload_to_json p)"
    and run: "run_state (VerifySnapshotReference ctx data channel (Some v)) w = (Inr identity, w')"
  shows "si_Authenticated identity \<and> si_RepositoryID identity = rv_RepositoryID v \<and>
    (\<exists>p \<in> published. sp_RepositoryID p = rv_RepositoryID v \<and> sp_Channel p = channel
       \<and> sp_Generation p = si_Generation identity \<and> sp_Commit p = si_Commit identity)"
proof -
  from wp_run [OF VerifySnapshotReference_accepts run] obtain w0 ref key sig where
    i: "identity = \<lparr>si_RepositoryID = rv_RepositoryID v, si_Generation = sr_Generation ref,
          si_Commit = sr_Commit ref, si_Authenticated = True\<rparr>"
    and v: "run_state (rv_Verify v key (referenceSigningMessage
          (canonicalJSON payload_to_json (accepted_payload v channel key ref))) sig) w0 = (None, w')"
    and wf: "wf_payload (accepted_payload v channel key ref)"
    by (auto simp: accepted_def)
  from sound [OF v] obtain p where "p \<in> published" "wf_payload p"
    "canonicalJSON payload_to_json (accepted_payload v channel key ref) = canonicalJSON payload_to_json p"
    by auto
  with sp.canonical_inject [OF wf] have "accepted_payload v channel key ref \<in> published" by blast
  then show ?thesis using i by (intro conjI bexI) (auto simp: accepted_payload_def)
qed

subsection \<open>Signing, then verifying\<close>

lemma VerifySnapshotReference_canonical:
  assumes data: "data = canonicalJSON envelope_to_json \<lparr>se_Format = objectFormatVersion,
            se_Reference = accepted_payload v channel key ref, se_Signature = Some sig\<rparr>"
    and sig: "sig \<noteq> []" "len sig \<le> maxReferenceSignatureSize"
    and key: "validateReferenceKeyID key = None" and id: "rv_RepositoryID v \<noteq> 0"
    and ref: "sr_Generation ref \<noteq> 0" "sr_Commit ref \<noteq> 0"
    and chan: "validateChannel channel = None"
    and fits: "len data \<le> maxReferenceBytes"
    and live: "fst (run_state ctx w1) = None"
    and acc: "\<And>w2. fst (run_state (rv_Verify v key (referenceSigningMessage
          (canonicalJSON payload_to_json (accepted_payload v channel key ref))) sig) w2) = None"
  shows "fst (run_state (VerifySnapshotReference ctx data channel (Some v)) w1) =
    Inr \<lparr>si_RepositoryID = rv_RepositoryID v, si_Generation = sr_Generation ref,
         si_Commit = sr_Commit ref, si_Authenticated = True\<rparr>"
proof -
  have "wf_payload (accepted_payload v channel key ref)"
    using chan key_id_utf8 [OF key]
    by (auto simp: wf_payload_def accepted_payload_def validateChannel_def split: if_splits)
  moreover have "len data \<le> maxMetadataObjectBytes" using fits by (simp add: limits)
  ultimately have dec: "decodeJSON envelope_to_json envelope_of_json data = Inr \<lparr>se_Format = objectFormatVersion,
            se_Reference = accepted_payload v channel key ref, se_Signature = Some sig\<rparr>"
    unfolding data using se.decode_canonical by (simp add: wf_envelope_def)
  have ne: "data \<noteq> []" unfolding data canonicalJSON_def by (rule json_print_nonempty)
  have "wp (VerifySnapshotReference ctx data channel (Some v)) (\<lambda>r _. r = Inr \<lparr>si_RepositoryID = rv_RepositoryID v,
      si_Generation = sr_Generation ref, si_Commit = sr_Commit ref, si_Authenticated = True\<rparr>) w1"
    unfolding VerifySnapshotReference_def verifySignedSnapshotReference_def Let_def
    using ref id sig key ne fits chan
    by (auto simp: wp_simps dec not_less intro!: wp_fst [OF live] wp_fst [OF acc])
  then show ?thesis by (simp add: wp_def split: prod.splits)
qed

lemma signSnapshotReference_Inr:
  "wp (signSnapshotReference channel ref (Some s) (Some v)) (\<lambda>r w'. \<forall>data. r = Inr data \<longrightarrow>
     (\<exists>sig w0. run_state (rv_Verify v (sg_KeyID s) (referenceSigningMessage
          (canonicalJSON payload_to_json (accepted_payload v channel (sg_KeyID s) ref))) sig) w0 = (None, w')
        \<and> data = canonicalJSON envelope_to_json \<lparr>se_Format = objectFormatVersion,
            se_Reference = accepted_payload v channel (sg_KeyID s) ref, se_Signature = Some sig\<rparr>
        \<and> sig \<noteq> [] \<and> len sig \<le> maxReferenceSignatureSize \<and> validateReferenceKeyID (sg_KeyID s) = None
        \<and> rv_RepositoryID v \<noteq> 0)) w"
  unfolding signSnapshotReference_def Let_def
  by (auto simp: wp_simps accepted_payload_def intro!: wp_Verify wp_Sign)
    (intro exI conjI, assumption, simp_all)

text \<open>
  C18. Bytes produced by \<open>signSnapshotReference\<close> are accepted by \<open>VerifySnapshotReference\<close>
  with the same verifier and give back the signed generation and commit, as long as the
  context is live, the envelope fits the reference limit and the verifier answers the same
  question in the same way.
\<close>

theorem sign_verify_roundtrip:
  assumes run: "run_state (signSnapshotReference channel ref (Some s) (Some v)) w = (Inr data, w')"
    and ref: "sr_Generation ref \<noteq> 0" "sr_Commit ref \<noteq> 0"
    and chan: "validateChannel channel = None"
    and fits: "len data \<le> maxReferenceBytes"
    and live: "fst (run_state ctx w1) = None"
    and stable: "\<And>k m sig w2 w3. fst (run_state (rv_Verify v k m sig) w2) = fst (run_state (rv_Verify v k m sig) w3)"
  shows "fst (run_state (VerifySnapshotReference ctx data channel (Some v)) w1) =
    Inr \<lparr>si_RepositoryID = rv_RepositoryID v, si_Generation = sr_Generation ref,
         si_Commit = sr_Commit ref, si_Authenticated = True\<rparr>"
proof -
  from wp_run [OF signSnapshotReference_Inr run] obtain sig w0 where
    v: "run_state (rv_Verify v (sg_KeyID s) (referenceSigningMessage
          (canonicalJSON payload_to_json (accepted_payload v channel (sg_KeyID s) ref))) sig) w0 = (None, w')"
    and rest: "data = canonicalJSON envelope_to_json \<lparr>se_Format = objectFormatVersion,
            se_Reference = accepted_payload v channel (sg_KeyID s) ref, se_Signature = Some sig\<rparr>"
    "sig \<noteq> []" "len sig \<le> maxReferenceSignatureSize"
    "validateReferenceKeyID (sg_KeyID s) = None" "rv_RepositoryID v \<noteq> 0"
    by auto
  have "fst (run_state (rv_Verify v (sg_KeyID s) (referenceSigningMessage
          (canonicalJSON payload_to_json (accepted_payload v channel (sg_KeyID s) ref))) sig) w2) = None" for w2
    using v stable by (metis fst_conv)
  from VerifySnapshotReference_canonical [OF rest ref chan fits live this] show ?thesis .
qed

text \<open>A small publication: generation 1 of the channel \<open>main\<close> under a key that signs everything
  with one byte.\<close>

definition demo_ref :: snapshotReference where
  "demo_ref = \<lparr>sr_Format = 1, sr_Generation = 1, sr_Commit = 1\<rparr>"

definition demo_payload :: signedReferencePayload where
  "demo_payload = \<lparr>sp_Format = 1, sp_RepositoryID = 1, sp_Channel = ''main'', sp_Generation = 1,
     sp_Commit = 1, sp_KeyID = ''k''\<rparr>"

definition demo_signer :: "unit ReferenceSigner" where
  "demo_signer = \<lparr>sg_RepositoryID = 1, sg_KeyID = ''k'', sg_Sign = (\<lambda>_. return (Inr ''s''))\<rparr>"

definition demo_verifier :: "unit ReferenceVerifier" where
  "demo_verifier = \<lparr>rv_RepositoryID = 1, rv_Verify = (\<lambda>key m sig. return (
     if key = ''k'' \<and> m = referenceSigningMessage (canonicalJSON payload_to_json demo_payload) \<and> sig = ''s''
     then None else Some [ErrUntrustedReference]))\<rparr>"

definition demo_data :: bytes where
  "demo_data = canonicalJSON envelope_to_json
     \<lparr>se_Format = objectFormatVersion, se_Reference = demo_payload, se_Signature = Some ''s''\<rparr>"

lemma demo_fits: "len demo_data \<le> maxReferenceBytes"
  by code_simp

lemma demo_accepted_payload [simp]: "accepted_payload demo_verifier ''main'' ''k'' demo_ref = demo_payload"
  by (simp add: accepted_payload_def demo_payload_def demo_verifier_def demo_ref_def objectFormatVersion_def)

lemma demo_verify: "fst (run_state (VerifySnapshotReference (return None) demo_data ''main'' (Some demo_verifier)) ()) =
    Inr \<lparr>si_RepositoryID = rv_RepositoryID demo_verifier, si_Generation = sr_Generation demo_ref,
         si_Commit = sr_Commit demo_ref, si_Authenticated = True\<rparr>"
  by (rule VerifySnapshotReference_canonical [where key = "''k''" and sig = "''s''"])
    (use demo_fits in \<open>simp_all add: demo_data_def, simp_all add: demo_verifier_def demo_ref_def
      maxReferenceSignatureSize_def validateReferenceKeyID_def key_id_chars_def maxReferenceKeyIDBytes_def
      validateChannel_def demo_payload_def\<close>)

theorem signed_reference_authentic_witness:
  "\<exists>identity. run_state (VerifySnapshotReference (return None) demo_data ''main'' (Some demo_verifier)) () = (Inr identity, ())
     \<and> si_Authenticated identity \<and> (\<exists>p \<in> {demo_payload}. sp_Channel p = ''main'' \<and> sp_Commit p = si_Commit identity)"
proof -
  obtain identity where run: "run_state (VerifySnapshotReference (return None) demo_data ''main'' (Some demo_verifier)) () = (Inr identity, ())"
    using demo_verify by (metis prod.collapse old.unit.exhaust)
  have "\<exists>p \<in> {demo_payload}. wf_payload p \<and> sp_KeyID p = key \<and> m = referenceSigningMessage (canonicalJSON payload_to_json p)"
    if "run_state (rv_Verify demo_verifier key m sig) w1 = (None, w2)" for key m sig w1 w2
    using that by (auto simp: demo_verifier_def demo_payload_def wf_payload_def is_int64_def maxInt64_def split: if_splits)
  note sound = this
  have "si_Authenticated identity \<and> si_RepositoryID identity = rv_RepositoryID demo_verifier \<and>
    (\<exists>p \<in> {demo_payload}. sp_RepositoryID p = rv_RepositoryID demo_verifier \<and> sp_Channel p = ''main''
       \<and> sp_Generation p = si_Generation identity \<and> sp_Commit p = si_Commit identity)"
    by (rule signed_reference_authentic [OF sound run])
  with run show ?thesis by blast
qed

theorem sign_verify_roundtrip_witness:
  "run_state (signSnapshotReference ''main'' demo_ref (Some demo_signer) (Some demo_verifier)) () = (Inr demo_data, ())
   \<and> fst (run_state (VerifySnapshotReference (return None) demo_data ''main'' (Some demo_verifier)) ()) =
    Inr \<lparr>si_RepositoryID = 1, si_Generation = 1, si_Commit = 1, si_Authenticated = True\<rparr>"
proof -
  have run: "run_state (signSnapshotReference ''main'' demo_ref (Some demo_signer) (Some demo_verifier)) () = (Inr demo_data, ())"
    by (simp add: signSnapshotReference_def demo_signer_def demo_verifier_def demo_ref_def demo_data_def demo_payload_def
        Let_def objectFormatVersion_def maxReferenceSignatureSize_def validateReferenceKeyID_def key_id_chars_def
        maxReferenceKeyIDBytes_def)
  have "fst (run_state (VerifySnapshotReference (return None) demo_data ''main'' (Some demo_verifier)) ()) =
    Inr \<lparr>si_RepositoryID = rv_RepositoryID demo_verifier, si_Generation = sr_Generation demo_ref,
         si_Commit = sr_Commit demo_ref, si_Authenticated = True\<rparr>"
    by (rule sign_verify_roundtrip [OF run])
      (simp_all add: demo_fits demo_ref_def validateChannel_def demo_verifier_def)
  then show ?thesis using run by (simp add: demo_ref_def demo_verifier_def)
qed

end
