(* ===== verification/Aes_Gcm.thy ===== *)
theory Aes_Gcm
  imports Crypto
begin

section \<open>AES-256-GCM\<close>

text \<open>
  The authenticated encryption of Go's \<open>crypto/aes\<close> and \<open>crypto/cipher\<close> as
  \<open>client_encryption.go\<close> uses it: a 256-bit key, a 96-bit nonce, a 128-bit tag. The functions
  are executable; the tables of the standard are computed from the field arithmetic that defines
  them. Only one property of the cipher is used by the development and it is proved here: opening
  what was sealed under the same key, nonce and associated data gives the plaintext.
\<close>

subsection \<open>The block cipher\<close>

definition xtime :: "8 word \<Rightarrow> 8 word" where
  "xtime x = push_bit 1 x XOR (if bit x 7 then 0x1b else 0)"

primrec gf_mul :: "nat \<Rightarrow> 8 word \<Rightarrow> 8 word \<Rightarrow> 8 word" where
  "gf_mul 0 x y = 0"
| "gf_mul (Suc n) x y = (if bit y 0 then x else 0) XOR gf_mul n (xtime x) (drop_bit 1 y)"

primrec gf_pow :: "nat \<Rightarrow> 8 word \<Rightarrow> 8 word" where
  "gf_pow 0 x = 1"
| "gf_pow (Suc n) x = gf_mul 8 x (gf_pow n x)"

text \<open>The inverse in the field of 256 elements is the power 254, and 0 stays 0.\<close>

definition sub_byte :: "8 word \<Rightarrow> 8 word" where
  "sub_byte x = (let b = gf_pow 254 x
     in b XOR word_rotl 1 b XOR word_rotl 2 b XOR word_rotl 3 b XOR word_rotl 4 b XOR 0x63)"

definition shift_rows :: "8 word list \<Rightarrow> 8 word list" where
  "shift_rows s = map (\<lambda>i. s ! i) [0, 5, 10, 15, 4, 9, 14, 3, 8, 13, 2, 7, 12, 1, 6, 11]"

fun mix_columns :: "8 word list \<Rightarrow> 8 word list" where
  "mix_columns (a # b # c # d # r) =
     (xtime a XOR xtime b XOR b XOR c XOR d) # (a XOR xtime b XOR xtime c XOR c XOR d)
     # (a XOR b XOR xtime c XOR xtime d XOR d) # (xtime a XOR a XOR b XOR c XOR xtime d) # mix_columns r"
| "mix_columns _ = []"

definition xor_words :: "8 word list \<Rightarrow> 8 word list \<Rightarrow> 8 word list" where
  "xor_words a b = map2 (XOR) a b"

text \<open>The key schedule grows backwards: the last word expanded is at the head.\<close>

primrec expand_key :: "nat \<Rightarrow> 8 word \<Rightarrow> nat \<Rightarrow> 8 word list list \<Rightarrow> 8 word list list" where
  "expand_key 0 rcon i ws = ws"
| "expand_key (Suc n) rcon i ws =
     (let t = hd ws;
          t = (if i mod 8 = 0 then xor_words (map sub_byte (rotate1 t)) [rcon, 0, 0, 0]
               else if i mod 8 = 4 then map sub_byte t else t)
      in expand_key n (if i mod 8 = 0 then xtime rcon else rcon) (i + 1) (xor_words (ws ! 7) t # ws))"

fun chunks :: "nat \<Rightarrow> 'a list \<Rightarrow> 'a list list" where
  "chunks n xs = (if n = 0 \<or> xs = [] then [] else take n xs # chunks n (drop n xs))"

declare chunks.simps [simp del]

definition to_words :: "bytes \<Rightarrow> 8 word list" where
  "to_words bs = map (\<lambda>c. word_of_int (of_char c)) bs"

definition of_words :: "8 word list \<Rightarrow> bytes" where
  "of_words ws = map (\<lambda>w. char_of (unat w)) ws"

definition round_keys :: "digest \<Rightarrow> 8 word list list" where
  "round_keys key = map concat (chunks 4 (rev (expand_key 52 1 8 (rev (chunks 4 (to_words (array32 key)))))))"

primrec aes_rounds :: "8 word list list \<Rightarrow> 8 word list \<Rightarrow> 8 word list" where
  "aes_rounds [] s = s"
| "aes_rounds (k # ks) s =
     (let t = shift_rows (map sub_byte s)
      in if ks = [] then xor_words t k else aes_rounds ks (xor_words (mix_columns t) k))"

definition aes_block :: "8 word list list \<Rightarrow> bytes \<Rightarrow> bytes" where
  "aes_block rk b = of_words (aes_rounds (tl rk) (xor_words (to_words b) (hd rk)))"

subsection \<open>Counter mode and GHASH\<close>

definition xor_bytes :: "bytes \<Rightarrow> bytes \<Rightarrow> bytes" where
  "xor_bytes a b = map2 (\<lambda>x y. char_of ((of_char x :: nat) XOR of_char y)) a b"

definition counter_block :: "bytes \<Rightarrow> nat \<Rightarrow> bytes" where
  "counter_block nonce i = nonce @ be_bytes 4 i"

definition keystream_block :: "8 word list list \<Rightarrow> bytes \<Rightarrow> nat \<Rightarrow> bytes" where
  "keystream_block rk nonce i = take 16 (aes_block rk (counter_block nonce (i + 2)) @ replicate 16 (char_of (0::nat)))"

definition keystream :: "8 word list list \<Rightarrow> bytes \<Rightarrow> nat \<Rightarrow> bytes" where
  "keystream rk nonce n =
     take n (concat (map (keystream_block rk nonce) [0..<(n + 15) div 16]))"

text \<open>Multiplication in the field of GHASH; bit 127 of a word is the coefficient of degree 0.\<close>

primrec gmul :: "nat \<Rightarrow> 128 word \<Rightarrow> 128 word \<Rightarrow> 128 word" where
  "gmul 0 x y = 0"
| "gmul (Suc n) x y =
     (if bit y n then x else 0)
       XOR gmul n (drop_bit 1 x XOR (if bit x 0 then 0xe1000000000000000000000000000000 else 0)) y"

definition block_word :: "bytes \<Rightarrow> 128 word" where
  "block_word b = of_nat (be_value (b @ replicate (16 - length b) (char_of (0::nat))) 0)"

definition ghash :: "128 word \<Rightarrow> bytes list \<Rightarrow> 128 word" where
  "ghash h blocks = foldl (\<lambda>y b. gmul 128 (y XOR block_word b) h) 0 blocks"

definition gcm_tag :: "8 word list list \<Rightarrow> bytes \<Rightarrow> bytes \<Rightarrow> bytes \<Rightarrow> bytes" where
  "gcm_tag rk nonce ad ct =
     (let h = block_word (aes_block rk (replicate 16 (char_of (0::nat))));
          s = ghash h (chunks 16 ad @ chunks 16 ct @ [be_bytes 8 (8 * length ad) @ be_bytes 8 (8 * length ct)])
      in be_bytes 16 (unat (s XOR block_word (aes_block rk (counter_block nonce 1)))))"

definition gcm_seal :: "digest \<Rightarrow> bytes \<Rightarrow> bytes \<Rightarrow> bytes \<Rightarrow> bytes" where
  "gcm_seal key nonce plaintext ad =
     (let rk = round_keys key; ct = xor_bytes plaintext (keystream rk nonce (length plaintext))
      in ct @ gcm_tag rk nonce ad ct)"

definition gcm_open :: "digest \<Rightarrow> bytes \<Rightarrow> bytes \<Rightarrow> bytes \<Rightarrow> bytes option" where
  "gcm_open key nonce sealed ad =
     (let rk = round_keys key; n = length sealed - 16; ct = take n sealed
      in if length sealed < 16 \<or> drop n sealed \<noteq> gcm_tag rk nonce ad ct then None
         else Some (xor_bytes ct (keystream rk nonce n)))"

subsection \<open>Opening what was sealed\<close>

lemma length_keystream [simp]: "length (keystream rk nonce n) = n"
proof -
  have "length (concat (map (keystream_block rk nonce) xs)) = 16 * length xs" for xs
    by (induction xs) (auto simp: keystream_block_def)
  moreover have "n \<le> 16 * ((n + 15) div 16)" by presburger
  ultimately show ?thesis by (simp add: keystream_def)
qed

lemma xor_of_char_less: "(of_char x XOR of_char y :: nat) < 256"
proof -
  have b: "take_bit 8 (of_char c :: nat) = of_char c" for c
    using nat_of_char_less_256 [of c] by (simp add: take_bit_eq_mod)
  have "take_bit 8 (of_char x XOR of_char y :: nat) = of_char x XOR of_char y"
    by (simp add: b)
  then show ?thesis using take_bit_nat_less_exp [of 8 "of_char x XOR of_char y"] by simp
qed

lemma xor_bytes_cancel: "length a = length k \<Longrightarrow> xor_bytes (xor_bytes a k) k = a"
proof (induction a k rule: list_induct2)
  case (Cons x xs y ys)
  then show ?case using xor_of_char_less [of x y] by (simp add: xor_bytes_def xor.assoc)
qed (simp add: xor_bytes_def)

lemma length_xor_bytes [simp]: "length (xor_bytes a b) = min (length a) (length b)"
  by (simp add: xor_bytes_def)

lemma length_gcm_tag [simp]: "length (gcm_tag rk nonce ad ct) = 16"
  by (simp add: gcm_tag_def Let_def)

lemma length_gcm_seal [simp]: "length (gcm_seal key nonce p ad) = length p + 16"
  by (simp add: gcm_seal_def Let_def)

lemma gcm_open_seal: "gcm_open key nonce (gcm_seal key nonce p ad) ad = Some p"
  by (simp add: gcm_open_def gcm_seal_def Let_def xor_bytes_cancel)

end
