(* ===== verification/Client_Encryption.thy ===== *)
theory Client_Encryption
  imports Mem_Store Trust Aes_Gcm
begin

section \<open>Client-side encryption\<close>

text \<open>
  \<open>client_encryption.go\<close>: keys, the derived profile, the object envelope, and the store that
  encrypts every object body. A 32-byte array is a \<open>256 word\<close>; the random salt and nonce
  come from the world (\<open>rand_salt\<close>, \<open>rand_nonce\<close>). A profile pointer is an option.

  The encrypted store is shown to be an object store again: \<open>encrypted_store\<close> extends the
  contract of \<open>Object_Store\<close> by what the wrapper needs of the random source and the context,
  and the contract of the wrapper follows as a \<open>sublocale\<close>.
\<close>

definition maxObjectKeyBytes :: nat where "maxObjectKeyBytes = 1024"
definition ClientEncryptionMaxPlaintextBytes :: int where "ClientEncryptionMaxPlaintextBytes = 64 * 2 ^ 20"
definition ClientEncryptionCiphertextOverhead :: int where "ClientEncryptionCiphertextOverhead = 8 + 16 + 12 + 16"

definition clientEncryptionSecretPrefix :: bytes where
  "clientEncryptionSecretPrefix = ''s3disk-client-encryption-v1.''"

definition clientEncryptionEnvelopeHeader :: bytes where
  "clientEncryptionEnvelopeHeader = ''s3dce'' @ [CHR 0x00, CHR 0x01, CHR 0x00]"

definition encryption_domain :: "bytes \<Rightarrow> bytes" where
  "encryption_domain name = ''s3disk'' @ CHR 0x00 # ''client-encryption'' @ CHR 0x00 # name @ CHR 0x00 # ''v1'' @ [CHR 0x00]"

definition clientEncryptionMasterDomain :: bytes where
  "clientEncryptionMasterDomain = encryption_domain ''master''"
definition clientEncryptionIndexDomain :: bytes where
  "clientEncryptionIndexDomain = encryption_domain ''index''"
definition clientEncryptionObjectDomain :: bytes where
  "clientEncryptionObjectDomain = encryption_domain ''object''"
definition clientEncryptionClosureDomain :: bytes where
  "clientEncryptionClosureDomain = encryption_domain ''snapshot-closure''"

subsection \<open>Keys\<close>

type_synonym ClientEncryptionKey = "256 word"

definition GenerateClientEncryptionKey :: "('w, err + 256 word) state \<Rightarrow> ('w, err + ClientEncryptionKey) state" where
  "GenerateClientEncryptionKey rand = do {
     r \<leftarrow> rand;
     ok r (\<lambda>key. if key = 0 then throw plain_error else return (Inr key)) }"

definition ParseClientEncryptionKey :: "bytes \<Rightarrow> err + ClientEncryptionKey" where
  "ParseClientEncryptionKey secret =
     (if take (length clientEncryptionSecretPrefix) secret \<noteq> clientEncryptionSecretPrefix then Inl plain_error
      else let encoded = drop (length clientEncryptionSecretPrefix) secret in
        case b64_rawurl_decode encoded of None \<Rightarrow> Inl plain_error
        | Some decoded \<Rightarrow>
            if length decoded \<noteq> 32 \<or> b64_rawurl_encode decoded \<noteq> encoded then Inl plain_error
            else let key = of_nat (be_value decoded 0) in
              if key = 0 then Inl plain_error else Inr key)"

definition ExportSecret :: "ClientEncryptionKey \<Rightarrow> bytes" where
  "ExportSecret key =
     (if key = 0 then [] else clientEncryptionSecretPrefix @ b64_rawurl_encode (array32 key))"

subsection \<open>Profiles\<close>

record ClientEncryptionProfile =
  cp_repositoryID :: repository_id
  cp_encryptionMaster :: "256 word"
  cp_indexKey :: "256 word"

definition NewClientEncryptionProfile :: "repository_id \<Rightarrow> ClientEncryptionKey \<Rightarrow> err + ClientEncryptionProfile" where
  "NewClientEncryptionProfile repositoryID key =
     (if repositoryID = 0 then Inl plain_error
      else if key = 0 then Inl plain_error
      else Inr \<lparr>cp_repositoryID = repositoryID,
        cp_encryptionMaster = hkdf_key32 (array32 key) (array32 repositoryID) clientEncryptionMasterDomain,
        cp_indexKey = hkdf_key32 (array32 key) (array32 repositoryID) clientEncryptionIndexDomain\<rparr>)"

definition configured :: "ClientEncryptionProfile option \<Rightarrow> bool" where
  "configured profile = (case profile of None \<Rightarrow> False
     | Some p \<Rightarrow> cp_repositoryID p \<noteq> 0 \<and> cp_encryptionMaster p \<noteq> 0 \<and> cp_indexKey p \<noteq> 0)"

definition profile_RepositoryID :: "ClientEncryptionProfile option \<Rightarrow> repository_id" where
  "profile_RepositoryID profile = (case profile of None \<Rightarrow> 0 | Some p \<Rightarrow> cp_repositoryID p)"

definition Equivalent :: "ClientEncryptionProfile option \<Rightarrow> ClientEncryptionProfile option \<Rightarrow> bool" where
  "Equivalent profile other = (case (profile, other) of
     (Some p, Some q) \<Rightarrow> configured profile \<and> configured other \<and> cp_repositoryID p = cp_repositoryID q
       \<and> cp_encryptionMaster p = cp_encryptionMaster q \<and> cp_indexKey p = cp_indexKey q
   | _ \<Rightarrow> False)"

definition validateClientEncryptionObjectKey :: "bytes \<Rightarrow> err option" where
  "validateClientEncryptionObjectKey objectKey =
     (if objectKey = [] \<or> length objectKey > maxObjectKeyBytes \<or> \<not> utf8_valid objectKey \<or> CHR 0x00 \<in> set objectKey
      then Some [ErrInvalidPath] else None)"

definition objectAssociatedData :: "ClientEncryptionProfile \<Rightarrow> bytes \<Rightarrow> bytes \<Rightarrow> bytes" where
  "objectAssociatedData p objectKey messageSalt =
     clientEncryptionObjectDomain @ array32 (cp_repositoryID p) @ messageSalt
     @ be_bytes 4 (length objectKey) @ objectKey"

text \<open>The key of the AEAD of one message.\<close>

definition objectAEAD :: "ClientEncryptionProfile \<Rightarrow> bytes \<Rightarrow> bytes \<Rightarrow> err + digest" where
  "objectAEAD p objectKey messageSalt =
     (if \<not> configured (Some p) then Inl plain_error
      else case validateClientEncryptionObjectKey objectKey of Some e \<Rightarrow> Inl e
      | None \<Rightarrow> if length messageSalt \<noteq> 16 then Inl plain_error
          else Inr (hkdf_key32 (array32 (cp_encryptionMaster p)) messageSalt
            (objectAssociatedData p objectKey messageSalt)))"

record 'w Random =
  rand_salt :: "('w, err + 128 word) state"
  rand_nonce :: "('w, 96 word) state"

definition seal_envelope :: "digest \<Rightarrow> ClientEncryptionProfile \<Rightarrow> bytes \<Rightarrow> bytes \<Rightarrow> bytes \<Rightarrow> bytes \<Rightarrow> bytes" where
  "seal_envelope key p objectKey messageSalt nonce plaintext =
     clientEncryptionEnvelopeHeader @ messageSalt @ nonce
     @ gcm_seal key nonce plaintext (objectAssociatedData p objectKey messageSalt)"

definition SealObject ::
  "'w Random \<Rightarrow> ClientEncryptionProfile \<Rightarrow> bytes \<Rightarrow> bytes \<Rightarrow> ('w, err + bytes) state" where
  "SealObject rnd p objectKey plaintext =
     (if len plaintext > ClientEncryptionMaxPlaintextBytes then throw [ErrResourceLimit]
      else do {
        r \<leftarrow> rand_salt rnd;
        ok r (\<lambda>salt. let messageSalt = be_bytes 16 (unat salt) in
          ok (objectAEAD p objectKey messageSalt) (\<lambda>key. do {
            nonce \<leftarrow> rand_nonce rnd;
            return (Inr (seal_envelope key p objectKey messageSalt (be_bytes 12 (unat nonce)) plaintext)) })) })"

definition OpenObject :: "ClientEncryptionProfile \<Rightarrow> bytes \<Rightarrow> bytes \<Rightarrow> err + bytes" where
  "OpenObject p objectKey envelope =
     (if len envelope > ClientEncryptionMaxPlaintextBytes + ClientEncryptionCiphertextOverhead
      then Inl [ErrResourceLimit]
      else if len envelope < ClientEncryptionCiphertextOverhead
        \<or> take 8 envelope \<noteq> clientEncryptionEnvelopeHeader then Inl [ErrCorruptObject]
      else let messageSalt = take 16 (drop 8 envelope) in
        okr (objectAEAD p objectKey messageSalt) (\<lambda>key.
          case gcm_open key (take 12 (drop 24 envelope)) (drop 36 envelope)
            (objectAssociatedData p objectKey messageSalt) of
            None \<Rightarrow> Inl [ErrCorruptObject]
          | Some plaintext \<Rightarrow>
              if len plaintext > ClientEncryptionMaxPlaintextBytes then Inl [ErrResourceLimit]
              else Inr plaintext))"

definition opaqueObjectID :: "ClientEncryptionProfile \<Rightarrow> bytes \<Rightarrow> digest \<Rightarrow> bytes" where
  "opaqueObjectID p kind digest = hex256 (hmac_sha256 (array32 (cp_indexKey p))
     (clientEncryptionIndexDomain @ kind @ CHR 0x00 # array32 digest))"

definition snapshotClosureBinding :: "ClientEncryptionProfile option \<Rightarrow> digest" where
  "snapshotClosureBinding profile = (case profile of None \<Rightarrow> 0
     | Some p \<Rightarrow> if \<not> configured profile then 0
         else hmac_sha256 (array32 (cp_encryptionMaster p))
           (clientEncryptionClosureDomain @ array32 (cp_repositoryID p) @ array32 (cp_indexKey p)))"

subsection \<open>The encrypting store\<close>

definition encrypted_Get ::
  "'w ctx \<Rightarrow> ClientEncryptionProfile \<Rightarrow> 'w ObjectReader \<Rightarrow> bytes \<Rightarrow> GetOptions \<Rightarrow> ('w, err + Object) state" where
  "encrypted_Get ctx p reader objectKey options = do {
     e \<leftarrow> ctx;
     check e (if go_MaxBytes options < 0 then throw [ErrResourceLimit]
       else let limit = (if go_MaxBytes options = 0 \<or> go_MaxBytes options > ClientEncryptionMaxPlaintextBytes
                         then ClientEncryptionMaxPlaintextBytes else go_MaxBytes options)
         in do {
           r \<leftarrow> Get reader objectKey \<lparr>go_IfNoneMatch = go_IfNoneMatch options,
                  go_MaxBytes = limit + ClientEncryptionCiphertextOverhead\<rparr>;
           ok r (\<lambda>object. ok (OpenObject p objectKey (ob_Data object)) (\<lambda>plaintext.
             if go_MaxBytes options > 0 \<and> len plaintext > go_MaxBytes options then throw [ErrResourceLimit]
             else do {
               e \<leftarrow> ctx;
               check e (return (Inr \<lparr>ob_Data = plaintext, ob_Version = ob_Version object\<rparr>)) })) }) }"

definition encrypted_PutIfAbsent ::
  "'w ctx \<Rightarrow> 'w Random \<Rightarrow> ClientEncryptionProfile \<Rightarrow> 'w Store \<Rightarrow> bytes \<Rightarrow> bytes \<Rightarrow> ('w, err + Version) state" where
  "encrypted_PutIfAbsent ctx rnd p store objectKey plaintext = do {
     e \<leftarrow> ctx;
     check e (do {
       r \<leftarrow> SealObject rnd p objectKey plaintext;
       ok r (\<lambda>envelope. do {
         e \<leftarrow> ctx;
         check e (store_PutIfAbsent store objectKey envelope) }) }) }"

definition encrypted_CompareAndSwap ::
  "'w ctx \<Rightarrow> 'w Random \<Rightarrow> ClientEncryptionProfile \<Rightarrow> 'w Store \<Rightarrow> bytes \<Rightarrow> Version option \<Rightarrow> bytes
   \<Rightarrow> ('w, err + Version) state" where
  "encrypted_CompareAndSwap ctx rnd p store objectKey expected plaintext = do {
     e \<leftarrow> ctx;
     check e (do {
       r \<leftarrow> SealObject rnd p objectKey plaintext;
       ok r (\<lambda>envelope. do {
         e \<leftarrow> ctx;
         check e (store_CompareAndSwap store objectKey expected envelope) }) }) }"

definition ClientEncryptedStore :: "'w ctx \<Rightarrow> 'w Random \<Rightarrow> ClientEncryptionProfile \<Rightarrow> 'w Store \<Rightarrow> 'w Store" where
  "ClientEncryptedStore ctx rnd p store = \<lparr>store_Get = encrypted_Get ctx p (Store_reader store),
     store_Head = store_Head store,
     store_PutIfAbsent = encrypted_PutIfAbsent ctx rnd p store,
     store_CompareAndSwap = encrypted_CompareAndSwap ctx rnd p store\<rparr>"

subsection \<open>Keys\<close>

lemma ParseClientEncryptionKey_Export:
  "key \<noteq> 0 \<Longrightarrow> ParseClientEncryptionKey (ExportSecret key) = Inr key"
  by (simp add: ParseClientEncryptionKey_def ExportSecret_def be_value_array32)

lemma ParseClientEncryptionKey_InrD:
  assumes "ParseClientEncryptionKey secret = Inr key"
  shows "key \<noteq> 0 \<and> secret = ExportSecret key"
proof -
  let ?p = clientEncryptionSecretPrefix
  from assms obtain decoded where p: "take (length ?p) secret = ?p"
    and d: "length decoded = 32" "b64_rawurl_encode decoded = drop (length ?p) secret"
    and k: "key = of_nat (be_value decoded 0)" "key \<noteq> 0"
    by (auto simp: ParseClientEncryptionKey_def Let_def split: if_splits option.splits)
  have "secret = ?p @ b64_rawurl_encode decoded" using p d(2) by (metis append_take_drop_id)
  then show ?thesis using k array32_of_nat [OF d(1)] by (simp add: ExportSecret_def)
qed

text \<open>
  C21. The secret form of a client encryption key is canonical: a text is accepted exactly when it
  is what \<open>ExportSecret\<close> writes for the key it is parsed to, and the zero key is never accepted.
\<close>

theorem client_key_roundtrip:
  "ParseClientEncryptionKey secret = Inr key \<longleftrightarrow> key \<noteq> 0 \<and> secret = ExportSecret key"
  using ParseClientEncryptionKey_Export ParseClientEncryptionKey_InrD by blast

subsection \<open>Envelopes\<close>

lemma length_header [simp]: "length clientEncryptionEnvelopeHeader = 8"
  by (simp add: clientEncryptionEnvelopeHeader_def)

lemma OpenObject_seal_envelope:
  assumes "objectAEAD p k salt = Inr key" "length nonce = 12" "len pt \<le> ClientEncryptionMaxPlaintextBytes"
  shows "OpenObject p k (seal_envelope key p k salt nonce pt) = Inr pt"
proof -
  have salt: "length salt = 16"
    using assms(1) by (auto simp: objectAEAD_def split: if_splits option.splits)
  have parts: "take 16 (drop 8 (seal_envelope key p k salt nonce pt)) = salt"
    "take 12 (drop 24 (seal_envelope key p k salt nonce pt)) = nonce"
    "drop 36 (seal_envelope key p k salt nonce pt) = gcm_seal key nonce pt (objectAssociatedData p k salt)"
    "take 8 (seal_envelope key p k salt nonce pt) = clientEncryptionEnvelopeHeader"
    "len (seal_envelope key p k salt nonce pt) = len pt + 52"
    using salt assms(2) by (simp_all add: seal_envelope_def)
  show ?thesis
    unfolding OpenObject_def Let_def parts
    using assms by (simp add: gcm_open_seal ClientEncryptionCiphertextOverhead_def)
qed

lemma wp_SealObject:
  assumes "\<And>r w'. run_state (rand_salt rnd) w = (r, w') \<Longrightarrow> I w'"
    and "\<And>r w1 w2. I w1 \<Longrightarrow> run_state (rand_nonce rnd) w1 = (r, w2) \<Longrightarrow> I w2" and "I w"
  shows "wp (SealObject rnd p k pt) (\<lambda>r w'. I w' \<and> (\<forall>env. r = Inr env \<longrightarrow> OpenObject p k env = Inr pt)
    \<and> (\<forall>e. r = Inl e \<longrightarrow> run_state (rand_salt rnd) w = (Inl e, w') \<or> e \<in> {[ErrResourceLimit], plain_error, [ErrInvalidPath]})) w"
proof -
  have e: "e \<in> {plain_error, [ErrInvalidPath]}" if "objectAEAD p k s = Inl e" for s e
    using that by (auto simp: objectAEAD_def validateClientEncryptionObjectKey_def split: if_splits)
  show ?thesis
    unfolding SealObject_def Let_def using assms
    by (auto simp: wp_simps not_less OpenObject_seal_envelope dest!: e
        intro!: wp_op [of "rand_salt rnd"] wp_op [of "rand_nonce rnd"])
qed

lemma OpenObject_Inl: "OpenObject p k env = Inl e
    \<Longrightarrow> e \<in> {[ErrResourceLimit], [ErrCorruptObject], plain_error, [ErrInvalidPath]}"
  by (auto simp: OpenObject_def Let_def objectAEAD_def validateClientEncryptionObjectKey_def
      split: if_splits option.splits)

subsection \<open>The encrypting store is an object store\<close>

text \<open>The objects as the wrapper shows them, and the invariant that every stored body opens.\<close>

definition plain_view :: "ClientEncryptionProfile \<Rightarrow> (bytes \<Rightarrow> Object option) \<Rightarrow> bytes \<Rightarrow> Object option" where
  "plain_view p obs k = (case obs k of None \<Rightarrow> None
     | Some ob \<Rightarrow> (case OpenObject p k (ob_Data ob) of Inl _ \<Rightarrow> None
         | Inr pt \<Rightarrow> Some \<lparr>ob_Data = pt, ob_Version = ob_Version ob\<rparr>))"

definition sealed_inv :: "ClientEncryptionProfile \<Rightarrow> ('w \<Rightarrow> bool) \<Rightarrow> ('w \<Rightarrow> bytes \<Rightarrow> Object option) \<Rightarrow> 'w \<Rightarrow> bool" where
  "sealed_inv p I objects w \<longleftrightarrow> I w \<and>
     (\<forall>k ob. objects w k = Some ob \<longrightarrow> (\<exists>pt. OpenObject p k (ob_Data ob) = Inr pt))"

lemma plain_view_None: "sealed_inv p I objects w \<Longrightarrow> plain_view p (objects w) k = None \<longleftrightarrow> objects w k = None"
  by (fastforce simp: sealed_inv_def plain_view_def split: option.splits sum.splits)

lemma plain_view_Some:
  "objects w k = Some ob \<Longrightarrow> OpenObject p k (ob_Data ob) = Inr pt \<Longrightarrow>
     plain_view p (objects w) k = Some \<lparr>ob_Data = pt, ob_Version = ob_Version ob\<rparr>"
  by (simp add: plain_view_def)

lemma plain_view_upd:
  "OpenObject p k data = Inr pt \<Longrightarrow>
     plain_view p (obs(k \<mapsto> \<lparr>ob_Data = data, ob_Version = v\<rparr>)) = (plain_view p obs)(k \<mapsto> \<lparr>ob_Data = pt, ob_Version = v\<rparr>)"
  by (auto simp: plain_view_def)

lemma plain_view_cas:
  assumes "sealed_inv p I objects w"
  shows "cas_matches (plain_view p (objects w) k) expected = cas_matches (objects w k) expected"
  using assms
  by (cases expected; cases "objects w k")
    (fastforce simp: cas_matches_def plain_view_def sealed_inv_def split: sum.splits)+

lemma store_write_plain_view:
  "store_write obs k data obs' \<Longrightarrow> OpenObject p k data = Inr pt \<Longrightarrow>
     store_write (plain_view p obs) k pt (plain_view p obs')"
  by (auto simp: store_write_def plain_view_upd)

locale encrypted_store = object_store st objects inv
  for st :: "'w Store" and objects :: "'w \<Rightarrow> bytes \<Rightarrow> Object option" and inv :: "'w \<Rightarrow> bool" +
  fixes ctx :: "'w ctx" and rnd :: "'w Random" and p :: ClientEncryptionProfile
  assumes ctx_contract: "\<lbrakk>inv w; run_state ctx w = (e, w')\<rbrakk> \<Longrightarrow>
      inv w' \<and> objects w' = objects w \<and> (e = None \<or> e = Some [ErrContext])"
    and salt_contract: "\<lbrakk>inv w; run_state (rand_salt rnd) w = (s, w')\<rbrakk> \<Longrightarrow>
      inv w' \<and> objects w' = objects w \<and> (\<forall>e. s = Inl e \<longrightarrow> e = plain_error)"
    and nonce_contract: "\<lbrakk>inv w; run_state (rand_nonce rnd) w = (n, w')\<rbrakk> \<Longrightarrow>
      inv w' \<and> objects w' = objects w"
begin

abbreviation sealed :: "'w \<Rightarrow> bool" where
  "sealed \<equiv> sealed_inv p inv objects"

lemma sealed_same: "\<lbrakk>sealed w; inv w'; objects w' = objects w\<rbrakk> \<Longrightarrow> sealed w'"
  by (simp add: sealed_inv_def)

lemma sealed_put:
  "\<lbrakk>sealed w; inv w'; objects w' = (objects w)(k \<mapsto> \<lparr>ob_Data = env, ob_Version = v\<rparr>); OpenObject p k env = Inr pt\<rbrakk>
   \<Longrightarrow> sealed w'"
  by (auto simp: sealed_inv_def)

lemma wp_ctx:
  assumes "sealed w"
    and "\<And>w' e. \<lbrakk>sealed w'; objects w' = objects w; e = None \<or> e = Some [ErrContext]\<rbrakk> \<Longrightarrow> Q e w'"
  shows "wp ctx Q w"
proof (rule wp_op)
  fix e w' assume "run_state ctx w = (e, w')"
  moreover have "inv w" using assms(1) by (simp add: sealed_inv_def)
  ultimately show "Q e w'" using ctx_contract [of w e w'] sealed_same [OF assms(1)] assms(2) by blast
qed

lemma wp_seal:
  assumes "sealed w"
    and "\<And>env w'. \<lbrakk>sealed w'; objects w' = objects w; OpenObject p k env = Inr pt\<rbrakk> \<Longrightarrow> Q (Inr env) w'"
    and "\<And>e w'. \<lbrakk>sealed w'; objects w' = objects w; e \<in> {plain_error, [ErrResourceLimit], [ErrInvalidPath]}\<rbrakk> \<Longrightarrow> Q (Inl e) w'"
  shows "wp (SealObject rnd p k pt) Q w"
proof -
  have i: "inv w" using assms(1) by (simp add: sealed_inv_def)
  have "wp (SealObject rnd p k pt) (\<lambda>r w'. (inv w' \<and> objects w' = objects w) \<and> (\<forall>env. r = Inr env \<longrightarrow> OpenObject p k env = Inr pt)
    \<and> (\<forall>e. r = Inl e \<longrightarrow> run_state (rand_salt rnd) w = (Inl e, w') \<or> e \<in> {[ErrResourceLimit], plain_error, [ErrInvalidPath]})) w"
  proof (rule wp_SealObject [where I = "\<lambda>w'. inv w' \<and> objects w' = objects w"])
    fix r w' assume "run_state (rand_salt rnd) w = (r, w')"
    from salt_contract [OF i this] show "inv w' \<and> objects w' = objects w" by simp
  next
    fix r w1 w2 assume "inv w1 \<and> objects w1 = objects w" "run_state (rand_nonce rnd) w1 = (r, w2)"
    then show "inv w2 \<and> objects w2 = objects w" using nonce_contract [of w1 r w2] by simp
  qed (simp add: i)
  then show ?thesis
  proof (rule wp_conseq)
    fix r w'
    assume A: "(inv w' \<and> objects w' = objects w) \<and> (\<forall>env. r = Inr env \<longrightarrow> OpenObject p k env = Inr pt)
      \<and> (\<forall>e. r = Inl e \<longrightarrow> run_state (rand_salt rnd) w = (Inl e, w') \<or> e \<in> {[ErrResourceLimit], plain_error, [ErrInvalidPath]})"
    then have "sealed w'" using sealed_same [OF assms(1)] by simp
    then show "Q r w'"
    proof (cases r)
      case (Inl e)
      then have "e \<in> {plain_error, [ErrResourceLimit], [ErrInvalidPath]}"
        using A salt_contract [OF i] by blast
      then show ?thesis using assms(3) A Inl \<open>sealed w'\<close> by blast
    next
      case (Inr env)
      then show ?thesis using assms(2) A \<open>sealed w'\<close> by blast
    qed
  qed
qed

lemma encrypted_Get_wp:
  assumes "sealed w"
  shows "wp (encrypted_Get ctx p (Store_reader st) k opt) (\<lambda>r w'. sealed w' \<and> objects w' = objects w \<and>
     read_outcome (plain_view p (objects w)) k opt r) w" (is "wp _ ?Q w")
proof -
  note none = plain_view_None [OF assms]
  have get: "wp (store_Get st k \<lparr>go_IfNoneMatch = go_IfNoneMatch opt, go_MaxBytes = m\<rparr>)
      (\<lambda>r. wp (ok r f) ?Q) w1"
    if w1: "sealed w1" "objects w1 = objects w"
      and f: "\<And>ob w2. \<lbrakk>sealed w2; objects w2 = objects w; objects w k = Some ob\<rbrakk> \<Longrightarrow> wp (f ob) ?Q w2" for w1 f m
  proof (rule wp_op)
    fix r w2 assume run: "run_state (store_Get st k \<lparr>go_IfNoneMatch = go_IfNoneMatch opt, go_MaxBytes = m\<rparr>) w1 = (r, w2)"
    have "inv w1" using w1(1) by (simp add: sealed_inv_def)
    note C = Get_contract [OF this run]
    then have w2: "sealed w2" "objects w2 = objects w" using w1 sealed_same by auto
    show "wp (ok r f) ?Q w2"
    proof (cases r)
      case (Inl e)
      have "\<exists>ob'. plain_view p (objects w) k = Some ob' \<and> v_ETag (ob_Version ob') = go_IfNoneMatch opt"
        if "objects w k = Some ob" "v_ETag (ob_Version ob) = go_IfNoneMatch opt" for ob
        using assms that by (auto simp: sealed_inv_def plain_view_def split: sum.splits) fastforce
      then show ?thesis using C w1 w2 Inl none by (auto simp: wp_simps read_outcome_def)
    next
      case (Inr ob)
      then show ?thesis using C w1 w2 f by (auto simp: read_outcome_def)
    qed
  qed
  have "wp (ok (OpenObject p k (ob_Data ob)) (\<lambda>plaintext.
             if go_MaxBytes opt > 0 \<and> len plaintext > go_MaxBytes opt then throw [ErrResourceLimit]
             else do {
               e \<leftarrow> ctx;
               check e (return (Inr \<lparr>ob_Data = plaintext, ob_Version = ob_Version ob\<rparr>)) })) ?Q w2"
    if "sealed w2" "objects w2 = objects w" "objects w k = Some ob" for ob w2
    using that by (auto simp: wp_simps read_outcome_def plain_view_Some dest: OpenObject_Inl intro!: wp_ctx)
  then show ?thesis
    unfolding encrypted_Get_def Let_def Get_Store_reader
    using assms by (auto simp: wp_simps read_outcome_def intro!: wp_ctx get [unfolded read_outcome_def])
qed

text \<open>Writing a sealed envelope below is writing the plaintext above.\<close>

lemma write_outcome_plain:
  assumes "sealed w" "inv w'" "write_outcome expected (objects w) k env (objects w') r" "OpenObject p k env = Inr pt"
  shows "sealed w' \<and> write_outcome expected (plain_view p (objects w)) k pt (plain_view p (objects w')) r"
proof (cases r)
  case (Inl e)
  have "sealed w'" if "store_write (objects w) k env (objects w')"
    using that assms(1,2,4) sealed_put by (auto simp: store_write_def)
  then show ?thesis using assms Inl sealed_same [of w w']
    by (auto simp: write_outcome_def plain_view_cas [OF assms(1)] store_write_plain_view split: if_splits)
next
  case (Inr v)
  then show ?thesis using assms sealed_put [of w w' k env v pt]
    by (simp add: write_outcome_def plain_view_cas [OF assms(1)] plain_view_upd)
qed

lemma write_outcome_unchanged:
  "e \<in> {plain_error, [ErrResourceLimit], [ErrInvalidPath], [ErrContext]} \<Longrightarrow> write_outcome expected obs k d obs (Inl e)"
  by (auto simp: write_outcome_def)

abbreviation written :: "'w \<Rightarrow> Version option \<Rightarrow> bytes \<Rightarrow> bytes \<Rightarrow> err + Version \<Rightarrow> 'w \<Rightarrow> bool" where
  "written w expected k pt r w' \<equiv>
     sealed w' \<and> write_outcome expected (plain_view p (objects w)) k pt (plain_view p (objects w')) r"

lemma put_wp:
  assumes "sealed w1" "objects w1 = objects w" "OpenObject p k env = Inr pt"
    and contract: "\<And>r w2. \<lbrakk>inv w1; run_state m w1 = (r, w2)\<rbrakk> \<Longrightarrow> inv w2 \<and> write_outcome expected (objects w1) k env (objects w2) r"
  shows "wp m (written w expected k pt) w1"
proof (rule wp_op)
  fix r w2 assume run: "run_state m w1 = (r, w2)"
  have "inv w1" using assms(1) by (simp add: sealed_inv_def)
  from contract [OF this run] write_outcome_plain [OF assms(1) _ _ assms(3), of w2 expected r] assms(2)
  show "written w expected k pt r w2" by simp
qed

lemma put_absent_wp:
  assumes "sealed w1" "objects w1 = objects w" "OpenObject p k env = Inr pt"
  shows "wp (store_PutIfAbsent st k env) (written w None k pt) w1"
  by (rule put_wp [OF assms PutIfAbsent_contract])

lemma put_swap_wp:
  assumes "sealed w1" "objects w1 = objects w" "OpenObject p k env = Inr pt"
  shows "wp (store_CompareAndSwap st k expected env) (written w expected k pt) w1"
  by (rule put_wp [OF assms CompareAndSwap_contract])

lemma encrypted_PutIfAbsent_wp:
  "sealed w \<Longrightarrow> wp (encrypted_PutIfAbsent ctx rnd p st k pt) (written w None k pt) w"
  unfolding encrypted_PutIfAbsent_def
  by (auto simp: wp_simps intro!: wp_ctx wp_seal put_absent_wp write_outcome_unchanged)

lemma encrypted_CompareAndSwap_wp:
  "sealed w \<Longrightarrow> wp (encrypted_CompareAndSwap ctx rnd p st k expected pt) (written w expected k pt) w"
  unfolding encrypted_CompareAndSwap_def
  by (auto simp: wp_simps intro!: wp_ctx wp_seal put_swap_wp write_outcome_unchanged)

end

sublocale encrypted_store \<subseteq> enc: object_store "ClientEncryptedStore ctx rnd p st"
  "\<lambda>w. plain_view p (objects w)" "sealed_inv p inv objects"
proof
  fix w k opt r w'
  assume "sealed w" "run_state (store_Get (ClientEncryptedStore ctx rnd p st) k opt) w = (r, w')"
  then show "sealed w' \<and> plain_view p (objects w') = plain_view p (objects w)
      \<and> read_outcome (plain_view p (objects w)) k opt r"
    using wp_run [OF encrypted_Get_wp] by (simp add: ClientEncryptedStore_def)
next
  fix w k r' w'
  assume s: "sealed w" and "run_state (store_Head (ClientEncryptedStore ctx rnd p st) k) w = (r', w')"
  moreover have "inv w" using s by (simp add: sealed_inv_def)
  ultimately have C: "inv w'" "objects w' = objects w" "head_outcome (objects w) k r'"
    using Head_contract by (auto simp: ClientEncryptedStore_def)
  moreover have "head_outcome (plain_view p (objects w)) k r'"
  proof (cases r')
    case (Inr v)
    then show ?thesis using C(3) s by (fastforce simp: head_outcome_def sealed_inv_def plain_view_def split: sum.splits)
  qed (use C(3) plain_view_None [OF s] in \<open>auto simp: head_outcome_def\<close>)
  ultimately show "sealed w' \<and> plain_view p (objects w') = plain_view p (objects w)
      \<and> head_outcome (plain_view p (objects w)) k r'"
    using sealed_same [OF s] by simp
next
  fix w k data r' w'
  assume "sealed w" "run_state (store_PutIfAbsent (ClientEncryptedStore ctx rnd p st) k data) w = (r', w')"
  then show "written w None k data r' w'"
    using wp_run [OF encrypted_PutIfAbsent_wp] by (simp add: ClientEncryptedStore_def)
next
  fix w k expected data r' w'
  assume "sealed w" "run_state (store_CompareAndSwap (ClientEncryptedStore ctx rnd p st) k expected data) w = (r', w')"
  then show "written w expected k data r' w'"
    using wp_run [OF encrypted_CompareAndSwap_wp] by (simp add: ClientEncryptedStore_def)
next
  fix w k ob
  assume "sealed w" "plain_view p (objects w) k = Some ob"
  then show "validateStoreVersion (ob_Version ob) = None"
    using version_valid by (fastforce simp: sealed_inv_def plain_view_def split: option.splits sum.splits)
qed

context encrypted_store
begin

lemma wrapper_is_store:
  "object_store (ClientEncryptedStore ctx rnd p st) (\<lambda>w. plain_view p (objects w)) sealed"
  by (rule enc.object_store_axioms)

end


text \<open>A random source for the in-memory world: it counts.\<close>

definition mem_random :: "memworld Random" where
  "mem_random = \<lparr>rand_salt = State (\<lambda>w. (Inr (of_nat (mw_polls w)), w\<lparr>mw_polls := mw_polls w + 1\<rparr>)),
     rand_nonce = State (\<lambda>w. (of_nat (mw_polls w), w\<lparr>mw_polls := mw_polls w + 1\<rparr>))\<rparr>"

interpretation enc_mem: encrypted_store mem_store mem_objects mem_inv mem_ctx_err mem_random p for p
  by unfold_locales (auto simp: mem_ctx_err_def mem_random_def)


end
