(* ===== verification/Repo.thy ===== *)
theory Repo
  imports Client_Encryption Go_Path
begin

section \<open>The repository\<close>

text \<open>
  \<open>repository.go\<close>: the mapping of protocol objects to store keys, and the reads and writes of
  immutable objects and of the mutable reference. A repository constructed for reading only has
  no store; the writing operations would dereference a nil interface there, which
  \<open>with_store\<close> renders as a plain error, and \<open>NewPublisher\<close> refuses such a repository.

  Go inspects the dynamic type of the store or reader it is given to find its own encrypting
  wrappers; \<open>StoreValue\<close> and \<open>ReaderValue\<close> carry that type. A reader of another package may
  offer the method \<open>ClientEncryptionApplied\<close>; it is the second component of
  \<open>ForeignReader\<close>, constantly false when the method is missing.
\<close>

subsection \<open>Structures\<close>

record RepositoryChunkingDescriptor =
  rc_Algorithm :: bytes
  rc_MinSize :: int
  rc_AverageSize :: int
  rc_MaxSize :: int
  rc_Polynomial :: u64

record RepositoryDescriptor =
  rd_Format :: int
  rd_RepositoryID :: repository_id
  rd_RepositoryPrefix :: bytes
  rd_StorageProfile :: bytes
  rd_Chunking :: RepositoryChunkingDescriptor

record 'w Repository =
  rp_reader :: "'w ObjectReader"
  rp_store :: "'w Store option"
  rp_prefix :: bytes
  rp_clientEncryption :: "ClientEncryptionProfile option"
  rp_descriptor :: "RepositoryDescriptor option"

datatype 'w StoreValue = ForeignStore "'w Store" | EncryptedStore ClientEncryptionProfile "'w Store"

datatype 'w ReaderValue =
    ForeignReader "'w ObjectReader" "ClientEncryptionProfile option \<Rightarrow> bool"
  | StoreAsReader "'w StoreValue"
  | EncryptedReader ClientEncryptionProfile "'w ObjectReader"

subsection \<open>Keys\<close>

definition repositoryNamespace :: bytes where
  "repositoryNamespace = ''.s3disk/v1''"

definition repository_key :: "'w Repository \<Rightarrow> bytes \<Rightarrow> bytes" where
  "repository_key repository relative =
     (let base = (if rp_prefix repository \<noteq> [] then rp_prefix repository @ slash # repositoryNamespace
                  else repositoryNamespace)
      in base @ slash # relative)"

definition DescriptorKey :: "'w Repository option \<Rightarrow> bytes" where
  "DescriptorKey repository =
     (case repository of None \<Rightarrow> [] | Some r \<Rightarrow> repository_key r ''repository'')"

definition Descriptor :: "'w Repository option \<Rightarrow> RepositoryDescriptor option" where
  "Descriptor repository = (case repository of None \<Rightarrow> None | Some r \<Rightarrow> rp_descriptor r)"

definition ReferenceKey :: "'w Repository \<Rightarrow> bytes \<Rightarrow> bytes" where
  "ReferenceKey repository channel = repository_key repository (''refs/'' @ b64_rawurl_encode channel)"

definition SignedReferenceKey :: "'w Repository \<Rightarrow> bytes \<Rightarrow> bytes" where
  "SignedReferenceKey repository channel =
     repository_key repository (''signed-refs/v1/'' @ b64_rawurl_encode channel)"

definition repository_validateChannel :: "'w Repository \<Rightarrow> bytes \<Rightarrow> err option" where
  "repository_validateChannel repository channel = (case validateChannel channel of
     Some e \<Rightarrow> Some e
   | None \<Rightarrow> if length (SignedReferenceKey repository channel) > maxObjectKeyBytes
       then Some [ErrInvalidPath] else None)"

definition objectKey :: "'w Repository \<Rightarrow> bytes \<Rightarrow> digest \<Rightarrow> bytes" where
  "objectKey repository kind digest = (case rp_clientEncryption repository of
     Some profile \<Rightarrow>
       let value = opaqueObjectID profile kind digest
       in repository_key repository (''objects/'' @ kind @ ''/hmac-sha256/'' @ take 2 value @ slash # value)
   | None \<Rightarrow>
       let value = hex256 digest
       in repository_key repository (''objects/'' @ kind @ ''/sha256/'' @ take 2 value @ slash # value))"

subsection \<open>Construction\<close>

definition newRepository ::
  "'w ObjectReader \<Rightarrow> 'w Store option \<Rightarrow> bytes \<Rightarrow> ClientEncryptionProfile option \<Rightarrow> err + 'w Repository" where
  "newRepository reader store pfx encryption =
     (let pfx = trim_slashes pfx in
      if \<not> utf8_valid pfx \<or> CHR 0x00 \<in> set pfx then Inl [ErrInvalidPath]
      else if encryption \<noteq> None \<and> pfx = [] then Inl [ErrInvalidPath]
      else if encryption \<noteq> None \<and> \<not> configured encryption then Inl plain_error
      else let repository = \<lparr>rp_reader = reader, rp_store = store, rp_prefix = pfx,
                 rp_clientEncryption = encryption, rp_descriptor = None\<rparr>
        in if length (objectKey repository ''symlink'' 0) > maxObjectKeyBytes then Inl [ErrInvalidPath]
           else Inr repository)"

definition store_value :: "'w ctx \<Rightarrow> 'w Random \<Rightarrow> 'w StoreValue \<Rightarrow> 'w Store" where
  "store_value ctx rnd v = (case v of ForeignStore st \<Rightarrow> st
     | EncryptedStore p st \<Rightarrow> ClientEncryptedStore ctx rnd p st)"

definition reader_value :: "'w ctx \<Rightarrow> 'w Random \<Rightarrow> 'w ReaderValue \<Rightarrow> 'w ObjectReader" where
  "reader_value ctx rnd v = (case v of ForeignReader rd _ \<Rightarrow> rd
     | StoreAsReader sv \<Rightarrow> Store_reader (store_value ctx rnd sv)
     | EncryptedReader p rd \<Rightarrow> \<lparr>Get = encrypted_Get ctx p rd\<rparr>)"

fun builtInClientEncryptionWrapper :: "'w ReaderValue \<Rightarrow> bool" where
  "builtInClientEncryptionWrapper (StoreAsReader (EncryptedStore p st)) = True"
| "builtInClientEncryptionWrapper (EncryptedReader p rd) = True"
| "builtInClientEncryptionWrapper _ = False"

fun clientEncryptionAlreadyApplied :: "'w ReaderValue \<Rightarrow> ClientEncryptionProfile option \<Rightarrow> bool" where
  "clientEncryptionAlreadyApplied (ForeignReader rd applied) profile = applied profile"
| "clientEncryptionAlreadyApplied (StoreAsReader (EncryptedStore p st)) profile = Equivalent (Some p) profile"
| "clientEncryptionAlreadyApplied _ profile = False"

definition NewClientEncryptedStore ::
  "'w StoreValue \<Rightarrow> ClientEncryptionProfile option \<Rightarrow> err + 'w StoreValue" where
  "NewClientEncryptedStore store profile = (case store of
     EncryptedStore p st \<Rightarrow>
       if Equivalent (Some p) profile then Inr store else Inl [ErrStoreMisconfigured]
   | ForeignStore st \<Rightarrow> (case profile of
       Some p \<Rightarrow> if configured profile then Inr (EncryptedStore p st) else Inl plain_error
     | None \<Rightarrow> Inl plain_error))"

definition NewRepositoryWithOptions ::
  "'w ctx \<Rightarrow> 'w Random \<Rightarrow> 'w StoreValue option \<Rightarrow> bytes \<Rightarrow> ClientEncryptionProfile option \<Rightarrow> err + 'w Repository" where
  "NewRepositoryWithOptions ctx rnd store pfx encryption = (case store of
     None \<Rightarrow> Inl plain_error
   | Some store \<Rightarrow>
       if encryption = None \<and> builtInClientEncryptionWrapper (StoreAsReader store)
       then Inl [ErrStoreMisconfigured, ErrRepositoryConfigurationMismatch]
       else okr (if encryption \<noteq> None then NewClientEncryptedStore store encryption else Inr store) (\<lambda>s.
         let st = store_value ctx rnd s in newRepository (Store_reader st) (Some st) pfx encryption))"

definition NewReadOnlyRepositoryWithOptions ::
  "'w ctx \<Rightarrow> 'w Random \<Rightarrow> 'w ReaderValue option \<Rightarrow> bytes \<Rightarrow> ClientEncryptionProfile option \<Rightarrow> err + 'w Repository" where
  "NewReadOnlyRepositoryWithOptions ctx rnd reader pfx encryption = (case reader of
     None \<Rightarrow> Inl plain_error
   | Some reader \<Rightarrow>
       if encryption = None \<and> builtInClientEncryptionWrapper reader
       then Inl [ErrStoreMisconfigured, ErrRepositoryConfigurationMismatch]
       else okr (case encryption of
           None \<Rightarrow> Inr (reader_value ctx rnd reader)
         | Some p \<Rightarrow>
             if clientEncryptionAlreadyApplied reader encryption then Inr (reader_value ctx rnd reader)
             else if \<not> configured encryption then Inl plain_error
             else Inr \<lparr>Get = encrypted_Get ctx p (reader_value ctx rnd reader)\<rparr>) (\<lambda>rd.
         newRepository rd None pfx encryption))"

subsection \<open>Immutable objects\<close>

definition with_store :: "'w Repository \<Rightarrow> ('w Store \<Rightarrow> ('w, err + 'a) state) \<Rightarrow> ('w, err + 'a) state" where
  "with_store repository f = (case rp_store repository of None \<Rightarrow> throw plain_error | Some st \<Rightarrow> f st)"

definition putImmutable :: "'w Repository \<Rightarrow> bytes \<Rightarrow> bytes \<Rightarrow> ('w, err + digest) state" where
  "putImmutable repository kind data = with_store repository (\<lambda>store.
     let digest = digestObject kind data; key = objectKey repository kind digest
     in do {
       head \<leftarrow> store_Head store key;
       case head of
         Inr version \<Rightarrow> check (validateStoreVersion version) (return (Inr digest))
       | Inl e \<Rightarrow>
           if \<not> errors_Is e ErrObjectNotFound then throw e
           else do {
             put \<leftarrow> store_PutIfAbsent store key data;
             case put of
               Inr version \<Rightarrow> check (validateStoreVersion version) (return (Inr digest))
             | Inl e \<Rightarrow>
                 if \<not> errors_Is e ErrPrecondition then throw e
                 else do {
                   r \<leftarrow> store_Head store key;
                   ok r (\<lambda>version. check (validateStoreVersion version) (return (Inr digest))) } } })"

definition putManifest :: "'w Repository \<Rightarrow> ('m \<Rightarrow> json) \<Rightarrow> bytes \<Rightarrow> 'm \<Rightarrow> ('w, err + digest) state" where
  "putManifest repository to_json kind value =
     (let data = canonicalJSON to_json value
      in if len data > maxMetadataObjectBytes then throw [ErrResourceLimit]
         else putImmutable repository kind data)"

definition getImmutableLimited :: "'w Repository \<Rightarrow> bytes \<Rightarrow> digest \<Rightarrow> int \<Rightarrow> ('w, err + bytes) state" where
  "getImmutableLimited repository kind digest limit = do {
     r \<leftarrow> Get (rp_reader repository) (objectKey repository kind digest) \<lparr>go_IfNoneMatch = [], go_MaxBytes = limit\<rparr>;
     ok r (\<lambda>object.
       check (validateStoreVersion (ob_Version object)) (
         if len (ob_Data object) > limit then throw [ErrResourceLimit]
         else if digestObject kind (ob_Data object) \<noteq> digest then throw [ErrCorruptObject]
         else return (Inr (ob_Data object)))) }"

definition object_limit :: "bytes \<Rightarrow> int" where
  "object_limit kind = (if kind = ''chunk'' then maxChunkObjectBytes else maxMetadataObjectBytes)"

definition getImmutable :: "'w Repository \<Rightarrow> bytes \<Rightarrow> digest \<Rightarrow> ('w, err + bytes) state" where
  "getImmutable repository kind digest = getImmutableLimited repository kind digest (object_limit kind)"

definition getImmutableExact :: "'w Repository \<Rightarrow> bytes \<Rightarrow> digest \<Rightarrow> int \<Rightarrow> ('w, err + bytes) state" where
  "getImmutableExact repository kind digest expectedSize =
     (if expectedSize < 1 \<or> expectedSize > object_limit kind then throw [ErrResourceLimit]
      else do {
        r \<leftarrow> getImmutableLimited repository kind digest expectedSize;
        ok r (\<lambda>data. if len data \<noteq> expectedSize then throw [ErrCorruptObject] else return (Inr data)) })"

definition getManifest ::
  "'w Repository \<Rightarrow> ('m \<Rightarrow> json) \<Rightarrow> (json \<Rightarrow> 'm option) \<Rightarrow> bytes \<Rightarrow> digest \<Rightarrow> ('w, err + 'm) state" where
  "getManifest repository to_json of_json kind digest = do {
     r \<leftarrow> getImmutable repository kind digest;
     ok r (\<lambda>data. return (decodeJSON to_json of_json data)) }"

subsection \<open>The mutable reference\<close>

definition getReferenceWithVerifier ::
  "'w ctx \<Rightarrow> 'w Repository \<Rightarrow> bytes \<Rightarrow> bytes \<Rightarrow> 'w ReferenceVerifier option
   \<Rightarrow> ('w, err + snapshotReference \<times> Object) state" where
  "getReferenceWithVerifier ctx repository channel ifNoneMatch verifier =
     (let key = (if verifier = None then ReferenceKey repository channel else SignedReferenceKey repository channel)
      in do {
        r \<leftarrow> Get (rp_reader repository) key \<lparr>go_IfNoneMatch = ifNoneMatch, go_MaxBytes = maxReferenceBytes\<rparr>;
        ok r (\<lambda>object. check (validateStoreVersion (ob_Version object)) (do {
          i \<leftarrow> VerifySnapshotReference ctx (ob_Data object) channel verifier;
          ok i (\<lambda>identity. return (Inr (\<lparr>sr_Format = objectFormatVersion,
            sr_Generation = si_Generation identity, sr_Commit = si_Commit identity\<rparr>, object))) })) })"

definition compareAndSwap ::
  "'w Repository \<Rightarrow> bytes \<Rightarrow> Version option \<Rightarrow> bytes \<Rightarrow> ('w, err + Version) state" where
  "compareAndSwap repository key expected data = with_store repository (\<lambda>store. do {
     r \<leftarrow> store_CompareAndSwap store key expected data;
     ok r (\<lambda>version. check (validateStoreVersion version) (return (Inr version))) })"

subsection \<open>Keys are distinct and fit the key limit\<close>

text \<open>The five kinds of immutable object the protocol stores.\<close>

definition object_kinds :: "bytes set" where
  "object_kinds = {''commit'', ''dir'', ''file'', ''symlink'', ''chunk''}"

datatype address = ADescriptor | AReference bytes | ASignedReference bytes | AObject bytes digest

primrec address_key :: "'w Repository \<Rightarrow> address \<Rightarrow> bytes" where
  "address_key r ADescriptor = DescriptorKey (Some r)"
| "address_key r (AReference c) = ReferenceKey r c"
| "address_key r (ASignedReference c) = SignedReferenceKey r c"
| "address_key r (AObject kind d) = objectKey r kind d"

primrec valid_address :: "address \<Rightarrow> bool" where
  "valid_address ADescriptor = True"
| "valid_address (AReference c) = True"
| "valid_address (ASignedReference c) = True"
| "valid_address (AObject kind d) = (kind \<in> object_kinds)"

definition object_id :: "'w Repository \<Rightarrow> bytes \<Rightarrow> digest \<Rightarrow> bytes" where
  "object_id r kind d = (case rp_clientEncryption r of None \<Rightarrow> hex256 d | Some p \<Rightarrow> opaqueObjectID p kind d)"

lemma length_object_id [simp]: "length (object_id r kind d) = 64"
  by (simp add: object_id_def opaqueObjectID_def split: option.split)

lemma objectKey_eq:
  "objectKey r kind d = repository_key r (''objects/'' @ kind @
     (if rp_clientEncryption r = None then ''/sha256/'' else ''/hmac-sha256/'')
     @ take 2 (object_id r kind d) @ slash # object_id r kind d)"
  by (simp add: objectKey_def object_id_def Let_def split: option.split)

lemma repository_key_inject [simp]: "repository_key r a = repository_key r b \<longleftrightarrow> a = b"
  by (simp add: repository_key_def Let_def)

lemma kind_no_slash: "kind \<in> object_kinds \<Longrightarrow> slash \<notin> set kind"
  by (auto simp: object_kinds_def)

lemma objectKey_inject:
  assumes "kind \<in> object_kinds" "kind' \<in> object_kinds"
  shows "objectKey r kind d = objectKey r kind' d' \<longleftrightarrow> kind = kind' \<and> object_id r kind d = object_id r kind' d'"
proof -
  have "objectKey r kind d = objectKey r kind' d' \<longleftrightarrow>
    kind = kind' \<and> take 2 (object_id r kind d) @ slash # object_id r kind d
      = take 2 (object_id r kind' d') @ slash # object_id r kind' d'"
    using append_sep_inject [OF kind_no_slash [OF assms(1)] kind_no_slash [OF assms(2)]]
    by (auto simp: objectKey_eq)
  also have "\<dots> \<longleftrightarrow> kind = kind' \<and> object_id r kind d = object_id r kind' d'"
    by (auto simp: append_eq_append_conv)
  finally show ?thesis .
qed

lemma namespaces_distinct:
  "objectKey r kind d \<noteq> ReferenceKey r c" "objectKey r kind d \<noteq> SignedReferenceKey r c"
  "objectKey r kind d \<noteq> DescriptorKey (Some r)" "ReferenceKey r c \<noteq> SignedReferenceKey r c'"
  "ReferenceKey r c \<noteq> DescriptorKey (Some r)" "SignedReferenceKey r c \<noteq> DescriptorKey (Some r)"
  by (simp_all add: objectKey_eq ReferenceKey_def SignedReferenceKey_def DescriptorKey_def)

text \<open>
  C19. The store keys of a repository never clash: the descriptor, the references of all
  channels, the signed references of all channels and the immutable objects of all kinds have
  different keys unless they are the same thing (in an encrypted repository: unless the keyed
  identifiers of two objects of the same kind coincide).
\<close>

theorem protocol_keys_distinct:
  assumes "valid_address a" "valid_address b"
  shows "address_key r a = address_key r b \<longleftrightarrow>
    (a = b \<or> (\<exists>kind d d'. a = AObject kind d \<and> b = AObject kind d' \<and> rp_clientEncryption r \<noteq> None
       \<and> object_id r kind d = object_id r kind d'))"
proof -
  note N = namespaces_distinct namespaces_distinct [symmetric]
  have "ReferenceKey r c = ReferenceKey r c' \<longleftrightarrow> c = c'" "SignedReferenceKey r c = SignedReferenceKey r c' \<longleftrightarrow> c = c'" for c c'
    by (simp_all add: ReferenceKey_def SignedReferenceKey_def)
  moreover have "object_id r kind d = object_id r kind d' \<longleftrightarrow> d = d'" if "rp_clientEncryption r = None" for kind d d'
    using that by (simp add: object_id_def)
  ultimately show ?thesis
    using assms by (cases a; cases b; cases "rp_clientEncryption r") (auto simp: N objectKey_inject)
qed

theorem protocol_keys_distinct_witness:
  "let r = \<lparr>rp_reader = undefined, rp_store = None, rp_prefix = ''p'', rp_clientEncryption = None, rp_descriptor = None\<rparr>
   in valid_address (AObject ''dir'' 1) \<and> address_key r (AObject ''dir'' 1) \<noteq> address_key r (AReference ''main'')"
proof -
  have "valid_address (AObject ''dir'' 1)" by (simp add: object_kinds_def)
  then show ?thesis
    unfolding Let_def
    by (subst protocol_keys_distinct) (simp_all)
qed

lemma newRepository_Inr:
  assumes "newRepository reader store pfx encryption = Inr r"
  shows "rp_prefix r = trim_slashes pfx \<and> utf8_valid (rp_prefix r) \<and> rp_clientEncryption r = encryption
    \<and> length (objectKey r ''symlink'' 0) \<le> maxObjectKeyBytes \<and> rp_store r = store \<and> rp_reader r = reader
    \<and> rp_descriptor r = None"
  using assms by (auto simp: newRepository_def Let_def split: if_splits)

text \<open>
  C20. A repository that could be constructed never produces an object key over the store's limit
  of 1,024 bytes: the constructor measures one key, of kind \<open>symlink\<close> with the zero digest,
  and every other object key of the protocol is at most as long.
\<close>

theorem object_keys_fit:
  assumes "newRepository reader store pfx encryption = Inr r" "kind \<in> object_kinds"
  shows "length (objectKey r kind d) \<le> maxObjectKeyBytes"
proof -
  have "length (objectKey r kind d) + 7 = length (objectKey r ''symlink'' 0) + length kind"
    by (simp add: objectKey_eq repository_key_def Let_def)
  moreover have "length kind \<le> 7" using assms(2) by (auto simp: object_kinds_def)
  ultimately show ?thesis using newRepository_Inr [OF assms(1)] by linarith
qed

theorem object_keys_fit_witness:
  "\<exists>r. newRepository (Store_reader mem_store) (Some mem_store) ''/team/'' None = Inr r
     \<and> length (objectKey r ''commit'' 5) \<le> maxObjectKeyBytes"
proof -
  have "\<exists>r. newRepository (Store_reader mem_store) (Some mem_store) ''/team/'' None = Inr r"
    by (simp add: newRepository_def trim_slashes_def objectKey_eq repository_key_def repositoryNamespace_def maxObjectKeyBytes_def)
  then obtain r where r: "newRepository (Store_reader mem_store) (Some mem_store) ''/team/'' None = Inr r" ..
  then show ?thesis using object_keys_fit [OF r, of "''commit''" 5] by (auto simp: object_kinds_def)
qed

subsection \<open>Reads are verified\<close>

text \<open>Every answer an operation of the environment can give.\<close>

lemmas wp_reader_Get = wp_op [where m = "Get rd k opt" for rd k opt]

lemma getImmutableLimited_verified:
  "wp (getImmutableLimited r kind d limit)
     (\<lambda>res w'. \<forall>data. res = Inr data \<longrightarrow> digestObject kind data = d \<and> len data \<le> limit) w"
  unfolding getImmutableLimited_def by (auto simp: wp_simps intro!: wp_reader_Get)

lemma getImmutable_verified:
  "wp (getImmutable r kind d)
     (\<lambda>res w'. \<forall>data. res = Inr data \<longrightarrow> digestObject kind data = d \<and> len data \<le> object_limit kind) w"
  unfolding getImmutable_def by (rule getImmutableLimited_verified)

lemma getImmutableExact_verified:
  "wp (getImmutableExact r kind d n)
     (\<lambda>res w'. \<forall>data. res = Inr data \<longrightarrow> digestObject kind data = d \<and> len data = n \<and> 1 \<le> n \<and> n \<le> object_limit kind) w"
  unfolding getImmutableExact_def
  by (auto simp: wp_simps intro!: wp_conseq [OF getImmutableLimited_verified])

lemma getManifest_verified:
  assumes "json_codec to_json of_json wfm"
  shows "wp (getManifest r to_json of_json kind d)
     (\<lambda>res w'. \<forall>m. res = Inr m \<longrightarrow> wfm m \<and> digestObject kind (canonicalJSON to_json m) = d) w"
  unfolding getManifest_def
  using json_codec.decode_InrD [OF assms]
  by (auto simp: wp_simps intro!: wp_conseq [OF getImmutable_verified])

text \<open>
  C12. Whatever the store answers, bytes returned by \<open>getImmutable\<close> hash to the requested digest
  under the requested kind, so two successful reads of one identifier return the same bytes
  unless they exhibit a SHA-256 collision; and a manifest returned by \<open>getManifest\<close> is the one
  value whose canonical encoding has that digest.
\<close>

theorem immutable_reads_verified:
  fixes r :: "'w Repository"
  assumes "run_state (getImmutable r kind d) w = (Inr data, w')"
  shows "digestObject kind data = d \<and> len data \<le> object_limit kind
    \<and> (\<forall>(r2 :: 'w Repository) w2 data2 w3. run_state (getImmutable r2 kind d) w2 = (Inr data2, w3) \<longrightarrow>
         data2 = data \<or> (object_preimage kind data2 \<noteq> object_preimage kind data
           \<and> sha256 (object_preimage kind data2) = sha256 (object_preimage kind data)))"
proof -
  have "data2 = data \<or> (object_preimage kind data2 \<noteq> object_preimage kind data
      \<and> sha256 (object_preimage kind data2) = sha256 (object_preimage kind data))"
    if "digestObject kind data2 = digestObject kind data" for data2
    using that by (auto simp: digestObject_def object_preimage_def)
  moreover note A = wp_run [OF getImmutable_verified assms]
  moreover have "digestObject kind data2 = d" if "run_state (getImmutable r2 kind d) w2 = (Inr data2, w3)" for r2 :: "'w Repository" and w2 data2 w3
    using wp_run [OF getImmutable_verified that] by simp
  ultimately show ?thesis by blast
qed

text \<open>A plaintext repository over the in-memory store.\<close>

definition mem_repository :: "bytes \<Rightarrow> memworld Repository" where
  "mem_repository pfx = \<lparr>rp_reader = Store_reader mem_store, rp_store = Some mem_store, rp_prefix = pfx,
     rp_clientEncryption = None, rp_descriptor = None\<rparr>"

subsection \<open>Writing and reading back\<close>

text \<open>Every object stored under an object key has the content its key names.\<close>

definition content_ok :: "'w Repository \<Rightarrow> (bytes \<Rightarrow> Object option) \<Rightarrow> bool" where
  "content_ok repo obs \<longleftrightarrow> (\<forall>kind \<in> object_kinds. \<forall>d ob.
     obs (objectKey repo kind d) = Some ob \<longrightarrow> digestObject kind (ob_Data ob) = d)"

text \<open>What one write leaves alone: nothing that was stored changes.\<close>

definition extends_store :: "(bytes \<Rightarrow> Object option) \<Rightarrow> (bytes \<Rightarrow> Object option) \<Rightarrow> bool" where
  "extends_store obs obs' \<longleftrightarrow> (\<forall>k ob. obs k = Some ob \<longrightarrow> obs' k = Some ob)"

lemma extends_store_refl [simp]: "extends_store obs obs"
  by (simp add: extends_store_def)

locale repository_store = object_store st objects inv
  for st :: "'w Store" and objects :: "'w \<Rightarrow> bytes \<Rightarrow> Object option" and inv :: "'w \<Rightarrow> bool" +
  fixes repo :: "'w Repository"
  assumes reader: "rp_reader repo = Store_reader st"
    and store: "rp_store repo = Some st"
    and key_inj: "\<lbrakk>kind \<in> object_kinds; kind' \<in> object_kinds; objectKey repo kind d = objectKey repo kind' d'\<rbrakk>
      \<Longrightarrow> kind = kind' \<and> d = d'"
begin

lemma content_ok_put:
  assumes "content_ok repo obs" "kind \<in> object_kinds"
  shows "content_ok repo (obs(objectKey repo kind (digestObject kind data) \<mapsto> \<lparr>ob_Data = data, ob_Version = v\<rparr>))"
  unfolding content_ok_def
proof (intro ballI allI impI)
  fix kind' d ob
  assume k: "kind' \<in> object_kinds"
    and ob: "(obs(objectKey repo kind (digestObject kind data) \<mapsto> \<lparr>ob_Data = data, ob_Version = v\<rparr>))
      (objectKey repo kind' d) = Some ob"
  show "digestObject kind' (ob_Data ob) = d"
  proof (cases "objectKey repo kind' d = objectKey repo kind (digestObject kind data)")
    case True
    then show ?thesis using key_inj [OF k assms(2) True] ob by auto
  next
    case False
    then show ?thesis using ob assms(1) k by (auto simp: content_ok_def)
  qed
qed

definition put_result :: "bytes \<Rightarrow> bytes \<Rightarrow> 'w \<Rightarrow> err + digest \<Rightarrow> 'w \<Rightarrow> bool" where
  "put_result kind data w res w' \<longleftrightarrow> inv w' \<and> content_ok repo (objects w') \<and> extends_store (objects w) (objects w')
     \<and> (\<forall>d. res = Inr d \<longrightarrow> d = digestObject kind data \<and> objects w' (objectKey repo kind d) \<noteq> None)"

lemma put_result_written:
  assumes "content_ok repo (objects w)" "kind \<in> object_kinds" "inv w'" "objects w1 = objects w"
    "write_outcome None (objects w1) (objectKey repo kind (digestObject kind data)) data (objects w') r"
    "\<And>d. res = Inr d \<Longrightarrow> d = digestObject kind data \<and> (\<exists>v. r = Inr v)"
  shows "put_result kind data w res w'"
  using assms content_ok_put [OF assms(1,2), of data]
  by (auto simp: put_result_def write_outcome_def cas_matches_def store_write_def extends_store_def split: if_splits sum.splits)

lemma putImmutable_wp:
  assumes "inv w" "content_ok repo (objects w)" "kind \<in> object_kinds"
  shows "wp (putImmutable repo kind data) (put_result kind data w) w"
proof -
  let ?key = "objectKey repo kind (digestObject kind data)"
  have same: "put_result kind data w res w'" if "inv w'" "objects w' = objects w"
      "\<And>d. res = Inr d \<Longrightarrow> d = digestObject kind data \<and> objects w ?key \<noteq> None" for res w'
    using that assms by (auto simp: put_result_def)
  have head2: "wp (store_Head st ?key) (\<lambda>r. wp (ok r (\<lambda>version. check (validateStoreVersion version)
      (return (Inr (digestObject kind data))))) (put_result kind data w)) w2"
    if "inv w2" "objects w2 = objects w" for w2
    using that by (intro wp_Head) (auto simp: wp_simps intro!: same)
  have put: "wp (do { put \<leftarrow> store_PutIfAbsent st ?key data;
      case put of
        Inr version \<Rightarrow> check (validateStoreVersion version) (return (Inr (digestObject kind data)))
      | Inl e \<Rightarrow> if \<not> errors_Is e ErrPrecondition then throw e
          else do { r \<leftarrow> store_Head st ?key;
                    ok r (\<lambda>version. check (validateStoreVersion version) (return (Inr (digestObject kind data)))) } })
      (put_result kind data w) w1" if w1: "inv w1" "objects w1 = objects w" for w1
    unfolding wp_bind
  proof (rule wp_op)
    fix r w2 assume run: "run_state (store_PutIfAbsent st ?key data) w1 = (r, w2)"
    note C = PutIfAbsent_contract [OF w1(1) run]
    show "wp (case r of
        Inr version \<Rightarrow> check (validateStoreVersion version) (return (Inr (digestObject kind data)))
      | Inl e \<Rightarrow> if \<not> errors_Is e ErrPrecondition then throw e
          else do { r \<leftarrow> store_Head st ?key;
                    ok r (\<lambda>version. check (validateStoreVersion version) (return (Inr (digestObject kind data)))) })
      (put_result kind data w) w2"
    proof (cases r)
      case (Inl e)
      then show ?thesis using C w1 head2 [of w2] put_result_written [OF assms(2,3), of w2 w1 data r]
        by (auto simp: wp_simps write_outcome_def)
    next
      case (Inr v)
      then show ?thesis using C w1 put_result_written [OF assms(2,3), of w2 w1 data r]
        by (auto simp: wp_simps)
    qed
  qed
  show ?thesis
    unfolding putImmutable_def with_store_def store option.case Let_def wp_bind
    by (rule wp_Head [OF assms(1)]) (auto simp: wp_return wp_sum wp_if wp_check intro!: same put)
qed

lemma getImmutable_wp:
  assumes "inv w"
  shows "wp (getImmutable repo kind d) (\<lambda>res w'. inv w' \<and> objects w' = objects w
     \<and> (\<forall>data. res = Inr data \<longrightarrow> (\<exists>ob. objects w (objectKey repo kind d) = Some ob \<and> data = ob_Data ob))
     \<and> (\<forall>e. res = Inl e \<longrightarrow> errors_Is e ErrObjectNotFound \<longrightarrow> objects w (objectKey repo kind d) = None)) w"
  unfolding getImmutable_def getImmutableLimited_def reader Get_Store_reader wp_bind
  by (rule wp_Get [OF assms]) (auto simp: wp_simps dest: validateStoreVersion_Some)

end

interpretation mem_repo: repository_store mem_store mem_objects mem_inv "mem_repository pfx" for pfx
  by unfold_locales (auto simp: mem_repository_def objectKey_inject object_id_def)


lemma run_state_ok [simp]: "run_state (ok r k) s = (case r of Inl e \<Rightarrow> (Inl e, s) | Inr x \<Rightarrow> run_state (k x) s)"
  by (cases r) auto

lemma run_state_check [simp]: "run_state (check e k) s = (case e of Some x \<Rightarrow> (Inl x, s) | None \<Rightarrow> run_state k s)"
  by (cases e) auto

lemmas mem_run = mem_repository_def mem_store_def mem_ops mem_ctx_err_def ctx_done_def mem_New_def
  putLocked_def checkObjectSize_def maxObjectBytes_def State_Monad.get_def

lemma mem_put_demo:
  "\<exists>w1. run_state (putImmutable (mem_repository ''p'') ''dir'' ''x'') (mem_New None) = (Inr (digestObject ''dir'' ''x''), w1)
     \<and> mem_objects w1 (objectKey (mem_repository ''p'') ''dir'' (digestObject ''dir'' ''x'')) \<noteq> None"
  by (simp add: putImmutable_def with_store_def Let_def mem_run mem_objects_def MaxStoreVersionTokenBytes_def
      validateStoreVersion_def dec.simps)

lemma mem_get_demo:
  "\<exists>w1 w2. run_state (putImmutable (mem_repository ''p'') ''dir'' ''x'') (mem_New None) = (Inr (digestObject ''dir'' ''x''), w1)
     \<and> run_state (getImmutable (mem_repository ''p'') ''dir'' (digestObject ''dir'' ''x'')) w1 = (Inr ''x'', w2)"
  by (simp add: putImmutable_def getImmutable_def getImmutableLimited_def with_store_def Let_def mem_run
      MaxStoreVersionTokenBytes_def validateStoreVersion_def dec.simps object_limit_def limits)


theorem immutable_reads_verified_witness:
  "\<exists>w1 w2. run_state (getImmutable (mem_repository ''p'') ''dir'' (digestObject ''dir'' ''x'')) w1 = (Inr ''x'', w2)
     \<and> len ''x'' \<le> object_limit ''dir''"
proof -
  obtain w1 w2 where get: "run_state (getImmutable (mem_repository ''p'') ''dir'' (digestObject ''dir'' ''x'')) w1 = (Inr ''x'', w2)"
    using mem_get_demo by blast
  from immutable_reads_verified [OF get] get show ?thesis by blast
qed

end
