(* ===== verification/Repo_Descriptor.thy ===== *)
theory Repo_Descriptor
  imports Repo
begin

section \<open>The repository descriptor\<close>

text \<open>
  \<open>repository_descriptor.go\<close>: the write-once record that commissions a repository prefix, and
  the operations that create it or open a repository against it. \<open>deg\<close> and \<open>irreducible\<close>
  are the polynomial tests of the chunker package, as in \<open>Protocol_Model\<close>.
\<close>

definition RepositoryDescriptorFormat :: int where "RepositoryDescriptorFormat = 1"
definition MaximumRepositoryDescriptorBytes :: int where "MaximumRepositoryDescriptorBytes = 16 * 2 ^ 10"
definition repositoryChunkingAlgorithm :: bytes where "repositoryChunkingAlgorithm = ''rabin-v1''"
definition RepositoryStorageProfilePlaintextV1 :: bytes where
  "RepositoryStorageProfilePlaintextV1 = ''plaintext-v1''"
definition RepositoryStorageProfileStrictShareIsolationV1 :: bytes where
  "RepositoryStorageProfileStrictShareIsolationV1 = ''strict-share-isolation-v1''"

record RepositoryConfig =
  cf_RepositoryID :: repository_id
  cf_ClientEncryption :: "ClientEncryptionProfile option"
  cf_Chunking :: ChunkingOptions

definition chunkingDescriptor_to_json :: "RepositoryChunkingDescriptor \<Rightarrow> json" where
  "chunkingDescriptor_to_json c = JObj [(''algorithm'', JStr (rc_Algorithm c)), (''minimum_size'', JNum (rc_MinSize c)),
     (''average_size'', JNum (rc_AverageSize c)), (''maximum_size'', JNum (rc_MaxSize c)),
     (''polynomial'', uint_json (rc_Polynomial c))]"

definition chunkingDescriptor_of_json :: "json \<Rightarrow> RepositoryChunkingDescriptor option" where
  "chunkingDescriptor_of_json j = do {
     vs \<leftarrow> members [''algorithm'', ''minimum_size'', ''average_size'', ''maximum_size'', ''polynomial''] j;
     algorithm \<leftarrow> as_string (vs ! 0);
     min_size \<leftarrow> as_int64 (vs ! 1);
     average \<leftarrow> as_int64 (vs ! 2);
     max_size \<leftarrow> as_int64 (vs ! 3);
     polynomial \<leftarrow> as_uint64 (vs ! 4);
     Some \<lparr>rc_Algorithm = algorithm, rc_MinSize = min_size, rc_AverageSize = average, rc_MaxSize = max_size,
       rc_Polynomial = polynomial\<rparr> }"

definition wf_chunkingDescriptor :: "RepositoryChunkingDescriptor \<Rightarrow> bool" where
  "wf_chunkingDescriptor c \<longleftrightarrow> utf8_valid (rc_Algorithm c) \<and> is_int64 (rc_MinSize c)
     \<and> is_int64 (rc_AverageSize c) \<and> is_int64 (rc_MaxSize c)"

definition descriptor_to_json :: "RepositoryDescriptor \<Rightarrow> json" where
  "descriptor_to_json d = JObj [(''format'', JNum (rd_Format d)), (''repository_id'', digest_json (rd_RepositoryID d)),
     (''repository_prefix'', JStr (rd_RepositoryPrefix d)), (''storage_profile'', JStr (rd_StorageProfile d)),
     (''chunking'', chunkingDescriptor_to_json (rd_Chunking d))]"

definition descriptor_of_json :: "json \<Rightarrow> RepositoryDescriptor option" where
  "descriptor_of_json j = do {
     vs \<leftarrow> members [''format'', ''repository_id'', ''repository_prefix'', ''storage_profile'', ''chunking''] j;
     format \<leftarrow> as_int64 (vs ! 0);
     repository \<leftarrow> as_digest (vs ! 1);
     pfx \<leftarrow> as_string (vs ! 2);
     profile \<leftarrow> as_string (vs ! 3);
     chunking \<leftarrow> chunkingDescriptor_of_json (vs ! 4);
     Some \<lparr>rd_Format = format, rd_RepositoryID = repository, rd_RepositoryPrefix = pfx, rd_StorageProfile = profile,
       rd_Chunking = chunking\<rparr> }"

definition wf_descriptor :: "RepositoryDescriptor \<Rightarrow> bool" where
  "wf_descriptor d \<longleftrightarrow> is_int64 (rd_Format d) \<and> utf8_valid (rd_RepositoryPrefix d)
     \<and> utf8_valid (rd_StorageProfile d) \<and> wf_chunkingDescriptor (rd_Chunking d)"

definition descriptor_ChunkingOptions :: "RepositoryDescriptor \<Rightarrow> ChunkingOptions" where
  "descriptor_ChunkingOptions d = \<lparr>co_MinSize = rc_MinSize (rd_Chunking d), co_AverageSize = rc_AverageSize (rd_Chunking d),
     co_MaxSize = rc_MaxSize (rd_Chunking d), co_Polynomial = rc_Polynomial (rd_Chunking d)\<rparr>"

definition validateRepositoryDescriptor ::
  "(u64 \<Rightarrow> int) \<Rightarrow> (u64 \<Rightarrow> bool) \<Rightarrow> RepositoryDescriptor \<Rightarrow> err option" where
  "validateRepositoryDescriptor deg irreducible d =
     (if rd_Format d \<noteq> RepositoryDescriptorFormat \<or> rd_RepositoryID d = 0 then Some [ErrCorruptObject]
      else if rd_RepositoryPrefix d \<noteq> trim_slashes (rd_RepositoryPrefix d)
        \<or> \<not> utf8_valid (rd_RepositoryPrefix d) \<or> CHR 0x00 \<in> set (rd_RepositoryPrefix d) then Some [ErrCorruptObject]
      else if rd_StorageProfile d = RepositoryStorageProfileStrictShareIsolationV1 \<and> rd_RepositoryPrefix d = []
        then Some [ErrCorruptObject]
      else if rd_StorageProfile d \<noteq> RepositoryStorageProfilePlaintextV1
        \<and> rd_StorageProfile d \<noteq> RepositoryStorageProfileStrictShareIsolationV1 then Some [ErrCorruptObject]
      else if rc_Algorithm (rd_Chunking d) \<noteq> repositoryChunkingAlgorithm then Some [ErrCorruptObject]
      else if ChunkingOptions_normalized deg irreducible (descriptor_ChunkingOptions d)
        \<noteq> Inr (descriptor_ChunkingOptions d) then Some [ErrCorruptObject]
      else None)"

definition loadDescriptor ::
  "(u64 \<Rightarrow> int) \<Rightarrow> (u64 \<Rightarrow> bool) \<Rightarrow> 'w Repository \<Rightarrow> ('w, err + RepositoryDescriptor option) state" where
  "loadDescriptor deg irreducible repository = do {
     r \<leftarrow> Get (rp_reader repository) (DescriptorKey (Some repository))
            \<lparr>go_IfNoneMatch = [], go_MaxBytes = MaximumRepositoryDescriptorBytes\<rparr>;
     case r of
       Inl e \<Rightarrow> if errors_Is e ErrObjectNotFound then return (Inr None) else throw e
     | Inr object \<Rightarrow> check (validateStoreVersion (ob_Version object)) (
         if ob_Data object = [] \<or> len (ob_Data object) > MaximumRepositoryDescriptorBytes then throw [ErrCorruptObject]
         else ok (decodeJSON descriptor_to_json descriptor_of_json (ob_Data object)) (\<lambda>d.
           check (validateRepositoryDescriptor deg irreducible d) (return (Inr (Some d))))) }"

definition acceptRepositoryDescriptor ::
  "'w Repository \<Rightarrow> RepositoryDescriptor \<Rightarrow> RepositoryDescriptor \<Rightarrow> err + ('w Repository \<times> RepositoryDescriptor)" where
  "acceptRepositoryDescriptor repository expected actual =
     (if actual \<noteq> expected then Inl [ErrRepositoryConfigurationMismatch]
      else Inr (repository\<lparr>rp_descriptor := Some actual\<rparr>, actual))"

definition openConfiguredRepository ::
  "(u64 \<Rightarrow> int) \<Rightarrow> (u64 \<Rightarrow> bool) \<Rightarrow> 'w Repository \<Rightarrow> RepositoryDescriptor
   \<Rightarrow> ('w, err + ('w Repository \<times> RepositoryDescriptor)) state" where
  "openConfiguredRepository deg irreducible repository expected = do {
     r \<leftarrow> loadDescriptor deg irreducible repository;
     ok r (\<lambda>found. case found of
         None \<Rightarrow> throw [ErrRepositoryNotInitialized]
       | Some actual \<Rightarrow> return (acceptRepositoryDescriptor repository expected actual)) }"

definition descriptorConfiguration ::
  "(u64 \<Rightarrow> int) \<Rightarrow> (u64 \<Rightarrow> bool) \<Rightarrow> bytes \<Rightarrow> RepositoryConfig
   \<Rightarrow> err + (RepositoryDescriptor \<times> ClientEncryptionProfile option)" where
  "descriptorConfiguration deg irreducible pfx config =
     (if cf_RepositoryID config = 0 then Inl [ErrRepositoryConfigurationMismatch]
      else okr (ChunkingOptions_normalized deg irreducible (cf_Chunking config)) (\<lambda>chunking.
        if cf_ClientEncryption config \<noteq> None
          \<and> (\<not> configured (cf_ClientEncryption config)
             \<or> profile_RepositoryID (cf_ClientEncryption config) \<noteq> cf_RepositoryID config)
        then Inl [ErrRepositoryConfigurationMismatch]
        else let profile = (if cf_ClientEncryption config = None then RepositoryStorageProfilePlaintextV1
                            else RepositoryStorageProfileStrictShareIsolationV1)
          in Inr (\<lparr>rd_Format = RepositoryDescriptorFormat, rd_RepositoryID = cf_RepositoryID config,
              rd_RepositoryPrefix = trim_slashes pfx, rd_StorageProfile = profile,
              rd_Chunking = \<lparr>rc_Algorithm = repositoryChunkingAlgorithm, rc_MinSize = co_MinSize chunking,
                rc_AverageSize = co_AverageSize chunking, rc_MaxSize = co_MaxSize chunking,
                rc_Polynomial = co_Polynomial chunking\<rparr>\<rparr>, cf_ClientEncryption config)))"

definition configuredWritableRepository ::
  "'w ctx \<Rightarrow> 'w Random \<Rightarrow> (u64 \<Rightarrow> int) \<Rightarrow> (u64 \<Rightarrow> bool) \<Rightarrow> 'w StoreValue option \<Rightarrow> bytes \<Rightarrow> RepositoryConfig
   \<Rightarrow> err + ('w Repository \<times> RepositoryDescriptor)" where
  "configuredWritableRepository ctx rnd deg irreducible store pfx config =
     okr (descriptorConfiguration deg irreducible pfx config) (\<lambda>(expected, encryption).
     okr (NewRepositoryWithOptions ctx rnd store pfx encryption) (\<lambda>repository.
       Inr (repository, expected\<lparr>rd_RepositoryPrefix := rp_prefix repository\<rparr>)))"

definition configuredReadOnlyRepository ::
  "'w ctx \<Rightarrow> 'w Random \<Rightarrow> (u64 \<Rightarrow> int) \<Rightarrow> (u64 \<Rightarrow> bool) \<Rightarrow> 'w ReaderValue option \<Rightarrow> bytes \<Rightarrow> RepositoryConfig
   \<Rightarrow> err + ('w Repository \<times> RepositoryDescriptor)" where
  "configuredReadOnlyRepository ctx rnd deg irreducible reader pfx config =
     okr (descriptorConfiguration deg irreducible pfx config) (\<lambda>(expected, encryption).
     okr (NewReadOnlyRepositoryWithOptions ctx rnd reader pfx encryption) (\<lambda>repository.
       Inr (repository, expected\<lparr>rd_RepositoryPrefix := rp_prefix repository\<rparr>)))"

definition OpenRepository ::
  "'w ctx \<Rightarrow> 'w Random \<Rightarrow> (u64 \<Rightarrow> int) \<Rightarrow> (u64 \<Rightarrow> bool) \<Rightarrow> 'w StoreValue option \<Rightarrow> bytes \<Rightarrow> RepositoryConfig
   \<Rightarrow> ('w, err + ('w Repository \<times> RepositoryDescriptor)) state" where
  "OpenRepository ctx rnd deg irreducible store pfx config =
     ok (configuredWritableRepository ctx rnd deg irreducible store pfx config) (\<lambda>(repository, expected).
       openConfiguredRepository deg irreducible repository expected)"

definition OpenReadOnlyRepository ::
  "'w ctx \<Rightarrow> 'w Random \<Rightarrow> (u64 \<Rightarrow> int) \<Rightarrow> (u64 \<Rightarrow> bool) \<Rightarrow> 'w ReaderValue option \<Rightarrow> bytes \<Rightarrow> RepositoryConfig
   \<Rightarrow> ('w, err + ('w Repository \<times> RepositoryDescriptor)) state" where
  "OpenReadOnlyRepository ctx rnd deg irreducible reader pfx config =
     ok (configuredReadOnlyRepository ctx rnd deg irreducible reader pfx config) (\<lambda>(repository, expected).
       openConfiguredRepository deg irreducible repository expected)"

text \<open>The body of \<open>InitializeRepository\<close> once the repository value exists.\<close>

definition initialize_configured ::
  "(u64 \<Rightarrow> int) \<Rightarrow> (u64 \<Rightarrow> bool) \<Rightarrow> 'w Repository \<Rightarrow> RepositoryDescriptor \<Rightarrow> bool
   \<Rightarrow> ('w, err + ('w Repository \<times> RepositoryDescriptor)) state" where
  "initialize_configured deg irreducible repository expected confirmEmptyPrefix = do {
     r \<leftarrow> loadDescriptor deg irreducible repository;
     ok r (\<lambda>found. case found of
         Some actual \<Rightarrow> return (acceptRepositoryDescriptor repository expected actual)
       | None \<Rightarrow>
           if \<not> confirmEmptyPrefix then throw [ErrRepositoryNotInitialized]
           else with_store repository (\<lambda>store. do {
             put \<leftarrow> store_PutIfAbsent store (DescriptorKey (Some repository)) (canonicalJSON descriptor_to_json expected);
             case put of
               Inr version \<Rightarrow> check (validateStoreVersion version)
                 (return (Inr (repository\<lparr>rp_descriptor := Some expected\<rparr>, expected)))
             | Inl putErr \<Rightarrow> do {
                 again \<leftarrow> loadDescriptor deg irreducible repository;
                 case again of
                   Inr (Some actual) \<Rightarrow> return (acceptRepositoryDescriptor repository expected actual)
                 | Inr None \<Rightarrow> throw (ErrRepositoryInitializationIndeterminate # putErr @ [ErrRepositoryNotInitialized])
                 | Inl readErr \<Rightarrow> throw (ErrRepositoryInitializationIndeterminate # putErr @ readErr) } })) }"

definition InitializeRepository ::
  "'w ctx \<Rightarrow> 'w Random \<Rightarrow> (u64 \<Rightarrow> int) \<Rightarrow> (u64 \<Rightarrow> bool) \<Rightarrow> 'w StoreValue option \<Rightarrow> bytes \<Rightarrow> RepositoryConfig \<Rightarrow> bool
   \<Rightarrow> ('w, err + ('w Repository \<times> RepositoryDescriptor)) state" where
  "InitializeRepository ctx rnd deg irreducible store pfx config confirmEmptyPrefix =
     ok (configuredWritableRepository ctx rnd deg irreducible store pfx config) (\<lambda>(repository, expected).
       initialize_configured deg irreducible repository expected confirmEmptyPrefix)"

subsection \<open>Encoding\<close>

interpretation rc: json_codec chunkingDescriptor_to_json chunkingDescriptor_of_json wf_chunkingDescriptor
  by unfold_locales
    (auto simp: chunkingDescriptor_to_json_def chunkingDescriptor_of_json_def wf_chunkingDescriptor_def bind_Some
      as_uint64_uint_json dest: codec_dest)

interpretation rd: json_codec descriptor_to_json descriptor_of_json wf_descriptor
  by unfold_locales
    (auto simp: descriptor_to_json_def descriptor_of_json_def wf_descriptor_def bind_Some
      as_digest_digest_json rc.of_to rc.to_ok dest: codec_dest rc.of_wf)

lemma descriptorConfiguration_Inr:
  assumes "descriptorConfiguration deg irreducible pfx config = Inr (expected, encryption)"
  shows "encryption = cf_ClientEncryption config \<and> rd_RepositoryID expected = cf_RepositoryID config
    \<and> cf_RepositoryID config \<noteq> 0 \<and> wf_chunkingDescriptor (rd_Chunking expected) \<and> rd_Format expected = 1
    \<and> utf8_valid (rd_StorageProfile expected)
    \<and> ChunkingOptions_normalized deg irreducible (cf_Chunking config) = Inr (descriptor_ChunkingOptions expected)"
proof -
  obtain x where x: "ChunkingOptions_normalized deg irreducible (cf_Chunking config) = Inr x"
    using assms by (auto simp: descriptorConfiguration_def split: if_splits)
  show ?thesis
    using assms normalized_Inr [OF x]
    by (auto simp: descriptorConfiguration_def x Let_def wf_chunkingDescriptor_def repositoryChunkingAlgorithm_def
        RepositoryDescriptorFormat_def RepositoryStorageProfilePlaintextV1_def descriptor_ChunkingOptions_def
        RepositoryStorageProfileStrictShareIsolationV1_def is_int64_def maxInt64_def maxChunkObjectBytes_def
        split: if_splits)
qed

lemma configuredWritable_wf:
  assumes "configuredWritableRepository ctx rnd deg irreducible (Some sv) pfx config = Inr (repo, expected)"
  shows "wf_descriptor expected"
  using assms
  by (auto simp: configuredWritableRepository_def NewRepositoryWithOptions_def wf_descriptor_def Let_def is_int64_def
      maxInt64_def dest!: descriptorConfiguration_Inr newRepository_Inr split: if_splits)

lemma configuredWritable_plain:
  assumes "configuredWritableRepository ctx rnd deg irreducible (Some (ForeignStore st)) pfx config = Inr (repo, expected)"
    and "cf_ClientEncryption config = None"
  shows "rp_reader repo = Store_reader st \<and> rp_store repo = Some st \<and> rp_prefix repo = trim_slashes pfx
    \<and> rd_RepositoryID expected = cf_RepositoryID config
    \<and> ChunkingOptions_normalized deg irreducible (cf_Chunking config) = Inr (descriptor_ChunkingOptions expected)"
  using assms
  by (auto simp: configuredWritableRepository_def NewRepositoryWithOptions_def Let_def store_value_def
      descriptor_ChunkingOptions_def dest!: descriptorConfiguration_Inr newRepository_Inr split: if_splits)

subsection \<open>The descriptor is written once\<close>

lemma DescriptorKey_update [simp]: "DescriptorKey (Some (repo\<lparr>rp_descriptor := d\<rparr>)) = DescriptorKey (Some repo)"
  by (simp add: DescriptorKey_def repository_key_def)

definition descriptor_stored :: "'w Repository \<Rightarrow> RepositoryDescriptor \<Rightarrow> (bytes \<Rightarrow> Object option) \<Rightarrow> bool" where
  "descriptor_stored repo d obs \<longleftrightarrow>
     (\<exists>ob. obs (DescriptorKey (Some repo)) = Some ob \<and> ob_Data ob = canonicalJSON descriptor_to_json d)"

context object_store
begin

lemma loadDescriptor_wp:
  assumes "inv w" "rp_reader repo = Store_reader st"
  shows "wp (loadDescriptor deg irreducible repo) (\<lambda>res w'. inv w' \<and> objects w' = objects w
     \<and> (\<forall>d. res = Inr (Some d) \<longrightarrow> wf_descriptor d \<and> descriptor_stored repo d (objects w))
     \<and> (res = Inr None \<longrightarrow> objects w (DescriptorKey (Some repo)) = None)) w"
  unfolding loadDescriptor_def assms(2) Get_Store_reader wp_bind
  by (rule wp_Get [OF assms(1)]) (auto simp: wp_simps descriptor_stored_def dest: rd.decode_InrD)

definition opened :: "'w Repository \<Rightarrow> RepositoryDescriptor \<Rightarrow> 'w \<Rightarrow> err + ('w Repository \<times> RepositoryDescriptor) \<Rightarrow> 'w \<Rightarrow> bool" where
  "opened repo expected w res w' \<longleftrightarrow> inv w' \<and> extends_store (objects w) (objects w')
     \<and> (\<forall>repo' d. res = Inr (repo', d) \<longrightarrow> d = expected \<and> repo' = repo\<lparr>rp_descriptor := Some expected\<rparr>
          \<and> descriptor_stored repo expected (objects w'))"

lemma openedI:
  assumes "inv w'" "extends_store (objects w) (objects w')" "descriptor_stored repo d (objects w')"
  shows "opened repo expected w (acceptRepositoryDescriptor repo expected d) w'"
  using assms by (auto simp: opened_def acceptRepositoryDescriptor_def)

lemma openConfiguredRepository_wp:
  assumes "inv w" "rp_reader repo = Store_reader st"
  shows "wp (openConfiguredRepository deg irreducible repo expected) (opened repo expected w) w"
  unfolding openConfiguredRepository_def wp_bind
  by (rule wp_conseq [OF loadDescriptor_wp [OF assms]])
    (auto simp: wp_simps intro!: openedI, auto simp: opened_def)

lemma initialize_configured_wp:
  assumes "inv w" and r: "rp_reader repo = Store_reader st" and s: "rp_store repo = Some st"
  shows "wp (initialize_configured deg irreducible repo expected confirm) (opened repo expected w) w"
proof -
  let ?data = "canonicalJSON descriptor_to_json expected" and ?key = "DescriptorKey (Some repo)"
  have again: "wp (do { again \<leftarrow> loadDescriptor deg irreducible repo;
       case again of
         Inr (Some actual) \<Rightarrow> return (acceptRepositoryDescriptor repo expected actual)
       | Inr None \<Rightarrow> throw (ErrRepositoryInitializationIndeterminate # putErr @ [ErrRepositoryNotInitialized])
       | Inl readErr \<Rightarrow> throw (ErrRepositoryInitializationIndeterminate # putErr @ readErr) })
      (opened repo expected w) w2" if "inv w2" "extends_store (objects w) (objects w2)" for putErr w2
    unfolding wp_bind
    by (rule wp_conseq [OF loadDescriptor_wp [OF that(1) r]])
      (use that in \<open>auto simp: wp_simps intro!: openedI, auto simp: opened_def\<close>)
  have put: "wp (do { put \<leftarrow> store_PutIfAbsent st ?key ?data;
      case put of
        Inr version \<Rightarrow> check (validateStoreVersion version) (return (Inr (repo\<lparr>rp_descriptor := Some expected\<rparr>, expected)))
      | Inl putErr \<Rightarrow> do { again \<leftarrow> loadDescriptor deg irreducible repo;
           case again of
             Inr (Some actual) \<Rightarrow> return (acceptRepositoryDescriptor repo expected actual)
           | Inr None \<Rightarrow> throw (ErrRepositoryInitializationIndeterminate # putErr @ [ErrRepositoryNotInitialized])
           | Inl readErr \<Rightarrow> throw (ErrRepositoryInitializationIndeterminate # putErr @ readErr) } })
      (opened repo expected w) w1" if w1: "inv w1" "objects w1 = objects w" for w1
    unfolding wp_bind
  proof (rule wp_op, goal_cases)
    case (1 put w2)
    from PutIfAbsent_contract [OF w1(1) 1] w1(2)
    have C: "inv w2" "extends_store (objects w) (objects w2)"
      "\<And>v. put = Inr v \<Longrightarrow> objects w2 ?key = Some \<lparr>ob_Data = ?data, ob_Version = v\<rparr>"
      by (auto simp: write_outcome_def cas_matches_def store_write_def extends_store_def split: sum.splits if_splits)
    show ?case
      using C again [OF C(1,2)]
      by (cases put) (auto simp: wp_return wp_check opened_def descriptor_stored_def wp_bind)
  qed
  show ?thesis
    unfolding initialize_configured_def wp_bind [of "loadDescriptor deg irreducible repo"] with_store_def s option.case
    by (rule wp_conseq [OF loadDescriptor_wp [OF assms(1) r]])
      (auto simp: wp_return wp_ok wp_if wp_option intro!: openedI put, auto simp: opened_def)
qed

end

lemma InitializeRepository_success:
  assumes S: "object_store st objects I" and "I w" "cf_ClientEncryption config = None"
    and run: "run_state (InitializeRepository ctx rnd deg irreducible (Some (ForeignStore st)) pfx config confirm) w
      = (Inr (repo, d), w')"
  shows "I w' \<and> extends_store (objects w) (objects w') \<and> descriptor_stored repo d (objects w') \<and> wf_descriptor d
    \<and> rp_descriptor repo = Some d \<and> rp_prefix repo = trim_slashes pfx \<and> rd_RepositoryID d = cf_RepositoryID config
    \<and> ChunkingOptions_normalized deg irreducible (cf_Chunking config) = Inr (descriptor_ChunkingOptions d)"
proof -
  obtain repo0 expected where c: "configuredWritableRepository ctx rnd deg irreducible (Some (ForeignStore st)) pfx config = Inr (repo0, expected)"
    using run by (auto simp: InitializeRepository_def split: sum.splits)
  note P = configuredWritable_plain [OF c assms(3)] and W = configuredWritable_wf [OF c]
  have "run_state (initialize_configured deg irreducible repo0 expected confirm) w = (Inr (repo, d), w')"
    using run by (simp add: InitializeRepository_def c)
  moreover have "wp (initialize_configured deg irreducible repo0 expected confirm)
      (object_store.opened objects I repo0 expected w) w"
    by (rule object_store.initialize_configured_wp [OF S assms(2)]) (use P in auto)
  ultimately have "object_store.opened objects I repo0 expected w (Inr (repo, d)) w'" by (rule wp_run [rotated])
  then show ?thesis using P W by (auto simp: object_store.opened_def [OF S] descriptor_stored_def)
qed

lemma trim_slashes_key: "rp_prefix r = rp_prefix r' \<Longrightarrow> DescriptorKey (Some r) = DescriptorKey (Some r')"
  by (simp add: DescriptorKey_def repository_key_def)


definition demo_config :: RepositoryConfig where
  "demo_config = \<lparr>cf_RepositoryID = 7, cf_ClientEncryption = None,
     cf_Chunking = \<lparr>co_MinSize = 64, co_AverageSize = 128, co_MaxSize = 256, co_Polynomial = 1\<rparr>\<rparr>"

definition demo_descriptor :: RepositoryDescriptor where
  "demo_descriptor = \<lparr>rd_Format = 1, rd_RepositoryID = 7, rd_RepositoryPrefix = ''t'', rd_StorageProfile = ''plaintext-v1'',
     rd_Chunking = \<lparr>rc_Algorithm = ''rabin-v1'', rc_MinSize = 64, rc_AverageSize = 128, rc_MaxSize = 256, rc_Polynomial = 1\<rparr>\<rparr>"

abbreviation demo_initialize :: "(memworld, err + (memworld Repository \<times> RepositoryDescriptor)) state" where
  "demo_initialize \<equiv> InitializeRepository mem_ctx_err mem_random (\<lambda>_. 53) (\<lambda>_. True) (Some (ForeignStore mem_store)) ''t'' demo_config True"

lemma demo_configured:
  "configuredWritableRepository mem_ctx_err mem_random (\<lambda>_. 53) (\<lambda>_. True) (Some (ForeignStore mem_store)) ''t'' demo_config
     = Inr (mem_repository ''t'', demo_descriptor)"
proof -
  have "ChunkingOptions_normalized (\<lambda>_. 53) (\<lambda>_. True) (cf_Chunking demo_config) = Inr (cf_Chunking demo_config)"
    by (simp add: demo_config_def ChunkingOptions_normalized_def Let_def)
  then have "descriptorConfiguration (\<lambda>_. 53) (\<lambda>_. True) ''t'' demo_config = Inr (demo_descriptor, None)"
    by (simp add: descriptorConfiguration_def demo_config_def demo_descriptor_def trim_slashes_def RepositoryDescriptorFormat_def
        RepositoryStorageProfilePlaintextV1_def repositoryChunkingAlgorithm_def)
  moreover have "NewRepositoryWithOptions mem_ctx_err mem_random (Some (ForeignStore mem_store)) ''t'' None = Inr (mem_repository ''t'')"
    by (simp add: NewRepositoryWithOptions_def newRepository_def trim_slashes_def objectKey_eq repository_key_def
        repositoryNamespace_def maxObjectKeyBytes_def Let_def mem_repository_def store_value_def)
  ultimately show ?thesis by (simp add: configuredWritableRepository_def demo_descriptor_def mem_repository_def)
qed

lemma demo_descriptor_fits: "len (canonicalJSON descriptor_to_json demo_descriptor) \<le> 1000"
  by code_simp

lemma demo_initialize_run: "\<exists>repo d w. run_state demo_initialize (mem_New None) = (Inr (repo, d), w) \<and> mem_inv w"
proof -
  have "len (canonicalJSON descriptor_to_json demo_descriptor) \<le> maxObjectBytes"
    using demo_descriptor_fits by (simp add: maxObjectBytes_def)
  then have "\<exists>d repo w. run_state (initialize_configured (\<lambda>_. 53) (\<lambda>_. True) (mem_repository ''t'') demo_descriptor True) (mem_New None)
    = (Inr (repo, d), w)"
    by (simp add: initialize_configured_def loadDescriptor_def with_store_def mem_run validateStoreVersion_def
        MaxStoreVersionTokenBytes_def dec.simps Let_def)
  then obtain repo d w where w: "run_state demo_initialize (mem_New None) = (Inr (repo, d), w)"
    by (auto simp: InitializeRepository_def demo_configured)
  from InitializeRepository_success [OF mem.object_store_axioms mem_inv_New _ w] have "mem_inv w"
    by (simp add: demo_config_def)
  then show ?thesis using w by blast
qed

lemma demo_reopen_run:
  assumes w: "run_state demo_initialize (mem_New None) = (Inr (repo, d), w)"
  shows "\<exists>repo2 d2 w2. run_state demo_initialize w = (Inr (repo2, d2), w2)"
proof -
  have "len (canonicalJSON descriptor_to_json demo_descriptor) \<le> maxObjectBytes"
    "len (canonicalJSON descriptor_to_json demo_descriptor) \<le> MaximumRepositoryDescriptorBytes"
    "len (canonicalJSON descriptor_to_json demo_descriptor) \<le> maxMetadataObjectBytes"
    using demo_descriptor_fits by (simp_all add: maxObjectBytes_def MaximumRepositoryDescriptorBytes_def limits)
  moreover have "wf_descriptor demo_descriptor" using configuredWritable_wf [OF demo_configured] .
  moreover have "canonicalJSON descriptor_to_json demo_descriptor \<noteq> []"
    by (simp add: canonicalJSON_def json_print_nonempty)
  moreover have "validateRepositoryDescriptor (\<lambda>_. 53) (\<lambda>_. True) demo_descriptor = None"
    by (simp add: validateRepositoryDescriptor_def demo_descriptor_def RepositoryDescriptorFormat_def trim_slashes_def
        RepositoryStorageProfilePlaintextV1_def RepositoryStorageProfileStrictShareIsolationV1_def repositoryChunkingAlgorithm_def
        descriptor_ChunkingOptions_def ChunkingOptions_normalized_def Let_def)
  ultimately show ?thesis
    using w unfolding InitializeRepository_def demo_configured ok_simps prod.case
    by (auto simp: initialize_configured_def loadDescriptor_def with_store_def mem_run
        validateStoreVersion_def MaxStoreVersionTokenBytes_def dec.simps Let_def rd.decode_canonical
        acceptRepositoryDescriptor_def not_less)
qed


end
