(* ===== verification/Flight.thy ===== *)
theory Flight
  imports Prelude "HOL-Library.Multiset"
begin

section \<open>Coalesced downloads\<close>

text \<open>
  \<open>internal/syncutil/flight.go\<close>: callers that ask for the same key share one load, and the
  reservation of the load is given back once, after the last of them has finished with the bytes. A
  call object is an index into \<open>fg_store\<close>. Every critical section of the source is one function
  here; the functions \<open>resourceRelease\<close> and \<open>afterRelease\<close> are represented by whether they are
  set, and a finalizer by the call it belongs to.

  The relation \<open>flight_step\<close> interleaves callers and loaders. Beside the group it keeps what the
  goroutines hold: \<open>waiting\<close> has a call once for every caller blocked on it, \<open>leases\<close> the leases
  returned, \<open>loading\<close> the calls whose loader runs, \<open>closing\<close> the loaders between their critical
  section and \<open>close(call.done)\<close>, \<open>finalizers\<close> the finalizers taken and not yet run by a caller,
  and \<open>released\<close> the calls whose finalizer has run.
\<close>

record 'k flightCall =
  fc_key :: 'k
  fc_done :: bool
  fc_data :: "bytes option"
  fc_err :: "err option"
  fc_cancelled :: bool
  fc_users :: int
  fc_completed :: bool
  fc_finalized :: bool
  fc_resourceRelease :: bool
  fc_afterRelease :: bool

record 'k FlightGroup =
  fg_calls :: "'k \<Rightarrow> nat option"
  fg_store :: "'k flightCall list"

record BytesLease =
  bl_call :: nat
  bl_data :: "bytes option"
  bl_fired :: bool

abbreviation set_call :: "nat \<Rightarrow> 'k flightCall \<Rightarrow> 'k FlightGroup \<Rightarrow> 'k FlightGroup" where
  "set_call i c grp \<equiv> grp\<lparr>fg_store := (fg_store grp)[i := c]\<rparr>"

text \<open>The critical section of \<open>Do\<close>: the call to wait for, and whether a loader is to be started.\<close>

definition start_call :: "'k \<Rightarrow> bool \<Rightarrow> 'k FlightGroup \<Rightarrow> nat \<times> bool \<times> 'k FlightGroup" where
  "start_call key afterRelease grp = (length (fg_store grp), True,
     grp\<lparr>fg_calls := (fg_calls grp)(key := Some (length (fg_store grp))),
       fg_store := fg_store grp @ [\<lparr>fc_key = key, fc_done = False, fc_data = None, fc_err = None, fc_cancelled = False,
         fc_users = 1, fc_completed = False, fc_finalized = False, fc_resourceRelease = False,
         fc_afterRelease = afterRelease\<rparr>]\<rparr>)"

definition Do_enter :: "'k \<Rightarrow> bool \<Rightarrow> 'k FlightGroup \<Rightarrow> nat \<times> bool \<times> 'k FlightGroup" where
  "Do_enter key afterRelease grp = (case fg_calls grp key of
     Some i \<Rightarrow> (let existing = fg_store grp ! i in
       if fc_users existing > 0 then (i, False, set_call i (existing\<lparr>fc_users := fc_users existing + 1\<rparr>) grp)
       else start_call key afterRelease (grp\<lparr>fg_calls := (fg_calls grp)(key := None)\<rparr>))
   | None \<Rightarrow> start_call key afterRelease grp)"

definition takeFinalizerLocked :: "nat \<Rightarrow> 'k FlightGroup \<Rightarrow> bool \<times> 'k FlightGroup" where
  "takeFinalizerLocked i grp = (let call = fg_store grp ! i in
     if fc_finalized call \<or> \<not> fc_completed call \<or> (fc_err call = None \<and> fc_users call > 0) then (False, grp)
     else (True, set_call i (call\<lparr>fc_finalized := True, fc_resourceRelease := False, fc_afterRelease := False\<rparr>) grp))"

text \<open>The critical section of \<open>run\<close>, given what the loader returned.\<close>

definition run_locked :: "nat \<Rightarrow> bytes option \<Rightarrow> bool \<Rightarrow> err option \<Rightarrow> 'k FlightGroup \<Rightarrow> bool \<times> 'k FlightGroup" where
  "run_locked i data resourceRelease loadErr grp = (
     let call = fg_store grp ! i;
         call = (if loadErr = None then call\<lparr>fc_data := data\<rparr> else call);
         call = call\<lparr>fc_err := loadErr, fc_resourceRelease := resourceRelease, fc_completed := True\<rparr>;
         grp = set_call i call grp;
         grp = (if fg_calls grp (fc_key call) = Some i
           then grp\<lparr>fg_calls := (fg_calls grp)(fc_key call := None)\<rparr> else grp)
     in takeFinalizerLocked i grp)"

text \<open>After the critical section \<open>run\<close> cancels the context of the load and closes \<open>done\<close>.\<close>

definition run_close :: "nat \<Rightarrow> 'k FlightGroup \<Rightarrow> 'k FlightGroup" where
  "run_close i grp = set_call i ((fg_store grp ! i)\<lparr>fc_cancelled := True, fc_done := True\<rparr>) grp"

text \<open>\<open>None\<close> is the panic of a release without a user.\<close>

definition releaseUser :: "nat \<Rightarrow> 'k FlightGroup \<Rightarrow> (bool \<times> 'k FlightGroup) option" where
  "releaseUser i grp = (let call = fg_store grp ! i in
     if fc_users call \<le> 0 then None
     else let call = call\<lparr>fc_users := fc_users call - 1\<rparr>;
              call = (if fc_users call = 0 then call\<lparr>fc_data := None\<rparr> else call)
       in Some (takeFinalizerLocked i (set_call i call grp)))"

definition abandon :: "nat \<Rightarrow> 'k FlightGroup \<Rightarrow> bool \<times> 'k FlightGroup" where
  "abandon i grp = (let call = fg_store grp ! i in
     if fc_users call \<le> 0 then (False, grp)
     else let call = call\<lparr>fc_users := fc_users call - 1\<rparr>;
              call = (if fc_completed call \<and> fc_users call = 0 then call\<lparr>fc_data := None\<rparr> else call);
              cancel = (\<not> fc_completed call \<and> fc_users call = 0);
              (finalize, grp) = takeFinalizerLocked i (set_call i call grp)
       in (finalize, if cancel then set_call i ((fg_store grp ! i)\<lparr>fc_cancelled := True\<rparr>) grp else grp))"

text \<open>The branch of \<open>wait\<close> for a closed \<open>done\<close>.\<close>

definition wait_done :: "nat \<Rightarrow> 'k FlightGroup \<Rightarrow> err + BytesLease" where
  "wait_done i grp = (case fc_err (fg_store grp ! i) of
     Some e \<Rightarrow> Inl e
   | None \<Rightarrow> Inr \<lparr>bl_call = i, bl_data = fc_data (fg_store grp ! i), bl_fired = False\<rparr>)"

text \<open>\<open>BytesLease.Release\<close>: whether the release function runs, and the lease afterwards.\<close>

definition lease_Release :: "BytesLease \<Rightarrow> bool \<times> BytesLease" where
  "lease_Release lease = (if bl_fired lease then (False, lease) else (True, lease\<lparr>bl_data := None, bl_fired := True\<rparr>))"

definition lease_Data :: "BytesLease option \<Rightarrow> bytes option" where
  "lease_Data lease = (case lease of None \<Rightarrow> None | Some l \<Rightarrow> bl_data l)"

definition flight_Users :: "'k \<Rightarrow> 'k FlightGroup \<Rightarrow> int" where
  "flight_Users key grp = (case fg_calls grp key of None \<Rightarrow> 0 | Some i \<Rightarrow> fc_users (fg_store grp ! i))"

subsection \<open>Interleaving\<close>

record 'k flight_system =
  fgroup :: "'k FlightGroup"
  waiting :: "nat list"
  leases :: "BytesLease list"
  loading :: "nat list"
  closing :: "(nat \<times> bool) list"
  finalizers :: "nat list"
  released :: "nat list"
  results :: "nat \<Rightarrow> bytes option"

abbreviation run_if :: "bool \<Rightarrow> nat \<Rightarrow> nat list" where
  "run_if b i \<equiv> (if b then [i] else [])"

text \<open>\<open>results\<close> records the bytes each loader returned, for the statements below; no step reads it.\<close>

inductive flight_step :: "'k flight_system \<Rightarrow> 'k flight_system \<Rightarrow> bool" where
  enters: "Do_enter key after (fgroup x) = (i, start, g)
    \<Longrightarrow> flight_step x (x\<lparr>fgroup := g, waiting := waiting x @ [i], loading := loading x @ run_if start i\<rparr>)"
| loads: "\<lbrakk>i \<in> set (loading x); loadErr = None \<or> data = None; run_locked i data resource loadErr (fgroup x) = (fin, g)\<rbrakk>
    \<Longrightarrow> flight_step x (x\<lparr>fgroup := g, loading := remove1 i (loading x), closing := closing x @ [(i, fin)],
          results := (results x)(i := data)\<rparr>)"
| closes: "(i, fin) \<in> set (closing x)
    \<Longrightarrow> flight_step x (x\<lparr>fgroup := run_close i (fgroup x), closing := remove1 (i, fin) (closing x),
          released := released x @ run_if fin i\<rparr>)"
| returns: "\<lbrakk>i \<in> set (waiting x); fc_done (fg_store (fgroup x) ! i); wait_done i (fgroup x) = Inr lease\<rbrakk>
    \<Longrightarrow> flight_step x (x\<lparr>waiting := remove1 i (waiting x), leases := leases x @ [lease]\<rparr>)"
| fails: "\<lbrakk>i \<in> set (waiting x); fc_done (fg_store (fgroup x) ! i); wait_done i (fgroup x) = Inl e\<rbrakk>
    \<Longrightarrow> flight_step x (x\<lparr>waiting := remove1 i (waiting x)\<rparr>)"
| abandons: "\<lbrakk>i \<in> set (waiting x); abandon i (fgroup x) = (fin, g)\<rbrakk>
    \<Longrightarrow> flight_step x (x\<lparr>fgroup := g, waiting := remove1 i (waiting x), finalizers := finalizers x @ run_if fin i\<rparr>)"
| lease_release: "\<lbrakk>n < length (leases x); lease_Release (leases x ! n) = (True, lease);
      releaseUser (bl_call lease) (fgroup x) = Some (fin, g)\<rbrakk>
    \<Longrightarrow> flight_step x (x\<lparr>fgroup := g, leases := (leases x)[n := lease], finalizers := finalizers x @ run_if fin (bl_call lease)\<rparr>)"
| lease_again: "\<lbrakk>n < length (leases x); lease_Release (leases x ! n) = (False, lease)\<rbrakk>
    \<Longrightarrow> flight_step x (x\<lparr>leases := (leases x)[n := lease]\<rparr>)"
| finalizes: "i \<in> set (finalizers x)
    \<Longrightarrow> flight_step x (x\<lparr>finalizers := remove1 i (finalizers x), released := released x @ [i]\<rparr>)"

definition flight_start :: "'k flight_system" where
  "flight_start = \<lparr>fgroup = \<lparr>fg_calls = (\<lambda>_. None), fg_store = []\<rparr>, waiting = [], leases = [], loading = [],
     closing = [], finalizers = [], released = [], results = (\<lambda>_. None)\<rparr>"

inductive flight_reachable :: "'k flight_system \<Rightarrow> bool" where
  start: "flight_reachable flight_start"
| step: "\<lbrakk>flight_reachable x; flight_step x y\<rbrakk> \<Longrightarrow> flight_reachable y"

subsection \<open>The invariant\<close>

definition open_leases :: "nat \<Rightarrow> BytesLease list \<Rightarrow> nat" where
  "open_leases i ls = length (filter (\<lambda>l. bl_call l = i \<and> \<not> bl_fired l) ls)"

abbreviation occ :: "nat \<Rightarrow> nat list \<Rightarrow> nat" where
  "occ i xs \<equiv> count (mset xs) i"

text \<open>What holds of one call, given its number of waiters and open leases, of loaders before and after
  their critical section, how often its finalizer was taken, and how often it has run.\<close>

definition call_ok :: "'k flightCall \<Rightarrow> nat \<Rightarrow> nat \<Rightarrow> nat \<Rightarrow> nat \<Rightarrow> nat \<Rightarrow> nat \<Rightarrow> bool" where
  "call_ok c W L loaders closers taken runs \<longleftrightarrow>
     (if fc_completed c \<and> fc_err c \<noteq> None then int W \<le> fc_users c \<and> L = 0 else fc_users c = int W + int L)
     \<and> (fc_finalized c \<longleftrightarrow> fc_completed c \<and> (fc_err c \<noteq> None \<or> fc_users c = 0))
     \<and> loaders = (if fc_completed c then 0 else 1)
     \<and> closers = (if fc_completed c \<and> \<not> fc_done c then 1 else 0)
     \<and> (fc_done c \<longrightarrow> fc_completed c) \<and> (L > 0 \<longrightarrow> fc_done c)
     \<and> (fc_cancelled c \<and> \<not> fc_completed c \<longrightarrow> fc_users c = 0)
     \<and> (\<not> fc_completed c \<longrightarrow> fc_err c = None)
     \<and> taken = (if fc_finalized c then 1 else 0)
     \<and> (fc_done c \<and> fc_err c \<noteq> None \<longrightarrow> runs = 1)"

abbreviation nclosing :: "nat \<Rightarrow> (nat \<times> bool) list \<Rightarrow> nat" where
  "nclosing i cs \<equiv> occ i (map fst cs)"

text \<open>A finalizer that was taken is held by its closing loader, waits to be run by a caller, or has run.\<close>

definition ntaken :: "'k flight_system \<Rightarrow> nat \<Rightarrow> nat" where
  "ntaken x i = occ i (map fst (filter snd (closing x))) + occ i (finalizers x) + occ i (released x)"

definition ok_at :: "'k flight_system \<Rightarrow> nat \<Rightarrow> bool" where
  "ok_at x i \<longleftrightarrow> call_ok (fg_store (fgroup x) ! i) (occ i (waiting x)) (open_leases i (leases x)) (occ i (loading x))
     (nclosing i (closing x)) (ntaken x i) (occ i (released x))
     \<and> (\<forall>fin. (i, fin) \<in> set (closing x) \<longrightarrow> fc_err (fg_store (fgroup x) ! i) \<noteq> None \<longrightarrow> fin \<and> occ i (released x) = 0)
     \<and> (fc_completed (fg_store (fgroup x) ! i) \<and> fc_err (fg_store (fgroup x) ! i) = None \<and> fc_users (fg_store (fgroup x) ! i) > 0
        \<longrightarrow> fc_data (fg_store (fgroup x) ! i) = results x i)
     \<and> (\<forall>l \<in> set (leases x). bl_call l = i \<and> \<not> bl_fired l \<longrightarrow> bl_data l = results x i)"

definition ids :: "'k flight_system \<Rightarrow> nat set" where
  "ids x = set (waiting x) \<union> set (loading x) \<union> fst ` set (closing x) \<union> set (finalizers x) \<union> set (released x) \<union> bl_call ` set (leases x)"

definition flight_inv :: "'k flight_system \<Rightarrow> bool" where
  "flight_inv x \<longleftrightarrow> (\<forall>i < length (fg_store (fgroup x)). ok_at x i) \<and> (\<forall>i \<in> ids x. i < length (fg_store (fgroup x)))
     \<and> (\<forall>k i. fg_calls (fgroup x) k = Some i \<longrightarrow> i < length (fg_store (fgroup x))
          \<and> fc_key (fg_store (fgroup x) ! i) = k \<and> \<not> fc_completed (fg_store (fgroup x) ! i))"

subsection \<open>Each operation changes one call\<close>

definition wants_final :: "'k flightCall \<Rightarrow> bool" where
  "wants_final c \<longleftrightarrow> \<not> fc_finalized c \<and> fc_completed c \<and> (fc_err c \<noteq> None \<or> fc_users c \<le> 0)"

definition finalized :: "'k flightCall \<Rightarrow> 'k flightCall" where
  "finalized c = (if wants_final c then c\<lparr>fc_finalized := True, fc_resourceRelease := False, fc_afterRelease := False\<rparr> else c)"

lemma takeFinalizer_eq:
  "i < length (fg_store g) \<Longrightarrow> takeFinalizerLocked i (set_call i c g) = (wants_final c, set_call i (finalized c) g)"
  by (auto simp: takeFinalizerLocked_def Let_def wants_final_def finalized_def)

definition completed_call :: "bytes option \<Rightarrow> bool \<Rightarrow> err option \<Rightarrow> 'k flightCall \<Rightarrow> 'k flightCall" where
  "completed_call data resource loadErr c =
     (if loadErr = None then c\<lparr>fc_data := data\<rparr> else c)\<lparr>fc_err := loadErr, fc_resourceRelease := resource, fc_completed := True\<rparr>"

definition left_call :: "'k flightCall \<Rightarrow> 'k flightCall" where
  "left_call c = (let c = c\<lparr>fc_users := fc_users c - 1\<rparr> in if fc_completed c \<and> fc_users c = 0 then c\<lparr>fc_data := None\<rparr> else c)"

lemma run_locked_eq:
  assumes "i < length (fg_store g)" "c = completed_call data resource loadErr (fg_store g ! i)"
  shows "run_locked i data resource loadErr g = (wants_final c, set_call i (finalized c)
      (g\<lparr>fg_calls := (if fg_calls g (fc_key c) = Some i then (fg_calls g)(fc_key c := None) else fg_calls g)\<rparr>))"
proof -
  let ?g = "g\<lparr>fg_calls := (if fg_calls g (fc_key c) = Some i then (fg_calls g)(fc_key c := None) else fg_calls g)\<rparr>"
  have "run_locked i data resource loadErr g = takeFinalizerLocked i (set_call i c ?g)"
    unfolding assms(2) by (cases g) (simp add: run_locked_def Let_def completed_call_def)
  then show ?thesis using takeFinalizer_eq [of i ?g c] assms(1) by simp
qed

lemma releaseUser_eq:
  assumes "i < length (fg_store g)" "0 < fc_users (fg_store g ! i)" "fc_completed (fg_store g ! i)"
    "c = left_call (fg_store g ! i)"
  shows "releaseUser i g = Some (wants_final c, set_call i (finalized c) g)"
  using assms takeFinalizer_eq [OF assms(1), of c] by (auto simp: releaseUser_def Let_def left_call_def)

lemma abandon_eq:
  assumes "i < length (fg_store g)" "0 < fc_users (fg_store g ! i)" "c = left_call (fg_store g ! i)"
  shows "abandon i g = (wants_final c, set_call i
    (if \<not> fc_completed c \<and> fc_users c = 0 then (finalized c)\<lparr>fc_cancelled := True\<rparr> else finalized c) g)"
  using assms takeFinalizer_eq [OF assms(1), of c]
  by (auto simp: abandon_def Let_def left_call_def split: prod.splits)

lemma left_call_simps [simp]:
  "fc_key (left_call c) = fc_key c" "fc_done (left_call c) = fc_done c" "fc_err (left_call c) = fc_err c"
  "fc_users (left_call c) = fc_users c - 1" "fc_completed (left_call c) = fc_completed c"
  "fc_finalized (left_call c) = fc_finalized c" "fc_cancelled (left_call c) = fc_cancelled c"
  "fc_users c \<noteq> 1 \<Longrightarrow> fc_data (left_call c) = fc_data c"
  by (auto simp: left_call_def Let_def)

lemma finalized_simps [simp]:
  "fc_key (finalized c) = fc_key c" "fc_done (finalized c) = fc_done c" "fc_err (finalized c) = fc_err c"
  "fc_users (finalized c) = fc_users c" "fc_completed (finalized c) = fc_completed c"
  "fc_cancelled (finalized c) = fc_cancelled c" "fc_data (finalized c) = fc_data c"
  "fc_finalized (finalized c) \<longleftrightarrow> fc_finalized c \<or> wants_final c"
  by (auto simp: finalized_def wants_final_def)

lemma completed_call_simps [simp]:
  "fc_key (completed_call d r e c) = fc_key c" "fc_done (completed_call d r e c) = fc_done c"
  "fc_err (completed_call d r e c) = e" "fc_users (completed_call d r e c) = fc_users c"
  "fc_completed (completed_call d r e c)" "fc_cancelled (completed_call d r e c) = fc_cancelled c"
  "e = None \<Longrightarrow> fc_data (completed_call d r e c) = d"
  "fc_finalized (completed_call d r e c) = fc_finalized c"
  by (auto simp: completed_call_def)

subsection \<open>Preservation\<close>

text \<open>A step that changes the call \<open>i\<close> only, and counts of \<open>i\<close> only, has to be checked at \<open>i\<close>.\<close>

lemma flight_inv_at:
  assumes "flight_inv x" "i < length (fg_store (fgroup x))"
    and store: "fg_store (fgroup y) = (fg_store (fgroup x))[i := c]"
    and calls: "\<forall>k j. fg_calls (fgroup y) k = Some j \<longrightarrow> fg_calls (fgroup x) k = Some j \<and> (j = i \<longrightarrow> \<not> fc_completed c)"
    and key: "fc_key c = fc_key (fg_store (fgroup x) ! i)"
    and others: "\<And>j. j \<noteq> i \<Longrightarrow> occ j (waiting y) = occ j (waiting x) \<and> open_leases j (leases y) = open_leases j (leases x)
      \<and> occ j (loading y) = occ j (loading x) \<and> nclosing j (closing y) = nclosing j (closing x)
      \<and> ntaken y j = ntaken x j \<and> occ j (released y) = occ j (released x)
      \<and> (\<forall>fin. (j, fin) \<in> set (closing y) \<longleftrightarrow> (j, fin) \<in> set (closing x)) \<and> results y j = results x j
      \<and> {l \<in> set (leases y). bl_call l = j \<and> \<not> bl_fired l} = {l \<in> set (leases x). bl_call l = j \<and> \<not> bl_fired l}"
    and here: "ok_at y i" and ids: "ids y \<subseteq> insert i (ids x)"
  shows "flight_inv y"
proof -
  have len: "length (fg_store (fgroup y)) = length (fg_store (fgroup x))" using store by simp
  have "ok_at y j" if "j < length (fg_store (fgroup y))" for j
  proof (cases "j = i")
    case False
    then have 1: "fg_store (fgroup y) ! j = fg_store (fgroup x) ! j" using store by simp
    have 2: "ok_at x j" using assms(1) that len by (simp add: flight_inv_def)
    have 3: "occ j (waiting y) = occ j (waiting x)" "open_leases j (leases y) = open_leases j (leases x)"
      "occ j (loading y) = occ j (loading x)" "nclosing j (closing y) = nclosing j (closing x)"
      "ntaken y j = ntaken x j" "occ j (released y) = occ j (released x)" "results y j = results x j"
      "\<And>fin. (j, fin) \<in> set (closing y) \<longleftrightarrow> (j, fin) \<in> set (closing x)"
      "\<And>P. (\<forall>l \<in> set (leases y). bl_call l = j \<and> \<not> bl_fired l \<longrightarrow> P l)
        \<longleftrightarrow> (\<forall>l \<in> set (leases x). bl_call l = j \<and> \<not> bl_fired l \<longrightarrow> P l)"
      using others [OF False] by blast+
    show ?thesis using 2 unfolding ok_at_def 1 3 .
  qed (use here in simp)
  moreover have "\<forall>j \<in> ids y. j < length (fg_store (fgroup y))"
    using ids assms(1,2) len by (auto simp: flight_inv_def)
  moreover have "j < length (fg_store (fgroup y)) \<and> fc_key (fg_store (fgroup y) ! j) = k \<and> \<not> fc_completed (fg_store (fgroup y) ! j)"
    if "fg_calls (fgroup y) k = Some j" for k j
  proof -
    have c: "fg_calls (fgroup x) k = Some j" "j = i \<Longrightarrow> \<not> fc_completed c" using that calls by blast+
    then have "j < length (fg_store (fgroup x))" "fc_key (fg_store (fgroup x) ! j) = k" "\<not> fc_completed (fg_store (fgroup x) ! j)"
      using assms(1) unfolding flight_inv_def by blast+
    then show ?thesis using c(2) key store by (cases "j = i") auto
  qed
  ultimately show ?thesis by (auto simp: flight_inv_def)
qed

lemma open_leases_simps [simp]:
  "open_leases i [] = 0" "open_leases i (ls @ [l]) = open_leases i ls + (if bl_call l = i \<and> \<not> bl_fired l then 1 else 0)"
  by (simp_all add: open_leases_def)

lemma open_leases_update:
  "\<lbrakk>n < length ls; bl_fired l\<rbrakk> \<Longrightarrow>
    open_leases i (ls[n := l]) = open_leases i ls - (if bl_call (ls ! n) = i \<and> \<not> bl_fired (ls ! n) then 1 else 0)"
proof (induction ls arbitrary: n)
  case (Cons a ls)
  show ?case
  proof (cases n)
    case (Suc m)
    have "0 < open_leases i ls" if "bl_call (ls ! m) = i" "\<not> bl_fired (ls ! m)"
      using that Cons.prems Suc by (auto simp: open_leases_def filter_empty_conv intro!: bexI [of _ "ls ! m"])
    then show ?thesis using Cons.IH [of m] Cons.prems Suc by (auto simp: open_leases_def)
  qed (use Cons.prems in \<open>auto simp: open_leases_def\<close>)
qed simp

lemma flight_inv_ids:
  assumes "flight_inv x"
  shows "i \<in> set (waiting x) \<Longrightarrow> i < length (fg_store (fgroup x))" "i \<in> set (loading x) \<Longrightarrow> i < length (fg_store (fgroup x))"
    "(i, fin) \<in> set (closing x) \<Longrightarrow> i < length (fg_store (fgroup x))" "l \<in> set (leases x) \<Longrightarrow> bl_call l < length (fg_store (fgroup x))"
    "i < length (fg_store (fgroup x)) \<Longrightarrow> ok_at x i"
proof -
  have I: "j \<in> ids x \<Longrightarrow> j < length (fg_store (fgroup x))" for j using assms by (simp add: flight_inv_def)
  show "i \<in> set (waiting x) \<Longrightarrow> i < length (fg_store (fgroup x))" by (rule I) (simp add: ids_def)
  show "i \<in> set (loading x) \<Longrightarrow> i < length (fg_store (fgroup x))" by (rule I) (simp add: ids_def)
  show "(i, fin) \<in> set (closing x) \<Longrightarrow> i < length (fg_store (fgroup x))" by (rule I) (force simp: ids_def)
  show "l \<in> set (leases x) \<Longrightarrow> bl_call l < length (fg_store (fgroup x))" by (rule I) (simp add: ids_def)
  show "i < length (fg_store (fgroup x)) \<Longrightarrow> ok_at x i" using assms by (simp add: flight_inv_def)
qed

lemma flight_inv_calls:
  assumes "flight_inv x" "fg_calls (fgroup x) k = Some i"
  shows "i < length (fg_store (fgroup x)) \<and> fc_key (fg_store (fgroup x) ! i) = k \<and> \<not> fc_completed (fg_store (fgroup x) ! i)"
  using assms unfolding flight_inv_def by blast

lemma nclosing_pos: "(i, b) \<in> set cs \<Longrightarrow> 0 < nclosing i cs"
  by (induction cs) auto

lemma occ_remove: "i \<in> set xs \<Longrightarrow> occ i xs = Suc (occ i (remove1 i xs))"
  by (simp add: Suc_pred)

text \<open>The transitions of one call, on its counts.\<close>

definition abandoned_call :: "'k flightCall \<Rightarrow> 'k flightCall" where
  "abandoned_call c = (let d = left_call c in
     if \<not> fc_completed d \<and> fc_users d = 0 then (finalized d)\<lparr>fc_cancelled := True\<rparr> else finalized d)"

lemma abandoned_call_simps [simp]:
  "fc_key (abandoned_call c) = fc_key c" "fc_done (abandoned_call c) = fc_done c" "fc_err (abandoned_call c) = fc_err c"
  "fc_users (abandoned_call c) = fc_users c - 1" "fc_completed (abandoned_call c) = fc_completed c"
  "fc_finalized (abandoned_call c) \<longleftrightarrow> fc_finalized c \<or> wants_final (left_call c)"
  "fc_cancelled (abandoned_call c) \<longleftrightarrow> fc_cancelled c \<or> \<not> fc_completed c \<and> fc_users c = 1"
  "fc_users c \<noteq> 1 \<Longrightarrow> fc_data (abandoned_call c) = fc_data c"
  by (auto simp: abandoned_call_def Let_def)

lemma call_ok_users: "call_ok c W L ld cl tk rn \<Longrightarrow> 0 < W + L \<Longrightarrow> 0 < fc_users c"
  unfolding call_ok_def by (cases "fc_completed c"; cases "fc_err c"; simp; linarith)

lemma call_ok_loading:
  "call_ok c W L (Suc ld) cl tk rn \<Longrightarrow> \<not> fc_completed c \<and> cl = 0 \<and> L = 0 \<and> tk = 0"
  unfolding call_ok_def by (cases "fc_completed c"; cases "fc_done c"; simp)

lemma call_ok_closing: "call_ok c W L ld (Suc cl) tk rn \<Longrightarrow> cl = 0"
  unfolding call_ok_def by (simp split: if_splits)

lemma call_ok_abandon:
  "call_ok c (Suc W) L ld cl tk rn \<Longrightarrow> call_ok (abandoned_call c) W L ld cl (tk + (if wants_final (left_call c) then 1 else 0)) rn"
  unfolding call_ok_def
  by (cases "fc_completed c"; cases "fc_err c"; cases "fc_users c = 1"; cases "fc_done c"; cases "fc_cancelled c"; simp add: wants_final_def)

lemma call_ok_release:
  "call_ok c W (Suc L) ld cl tk rn \<Longrightarrow>
    call_ok (finalized (left_call c)) W L ld cl (tk + (if wants_final (left_call c) then 1 else 0)) rn"
  unfolding call_ok_def
  by (cases "fc_completed c"; cases "fc_err c"; cases "fc_users c = 1"; cases "fc_done c"; simp add: wants_final_def)

lemma call_ok_load:
  "call_ok c W L (Suc ld) cl tk rn \<Longrightarrow>
    call_ok (finalized (completed_call d r e c)) W L ld (Suc cl) (tk + (if wants_final (completed_call d r e c) then 1 else 0)) rn"
  unfolding call_ok_def
  by (cases "fc_completed c"; cases e; cases "fc_users c = 0"; cases "fc_done c"; simp add: wants_final_def)

lemma call_ok_close:
  "call_ok c W L ld (Suc cl) tk rn \<Longrightarrow> (fc_err c \<noteq> None \<Longrightarrow> rn' = 1) \<Longrightarrow>
    call_ok (c\<lparr>fc_cancelled := True, fc_done := True\<rparr>) W L ld cl tk rn'"
  unfolding call_ok_def by (cases "fc_completed c"; cases "fc_err c"; cases "fc_done c"; simp add: wants_final_def)

lemma call_ok_join:
  "call_ok c W L ld cl tk rn \<Longrightarrow> \<not> fc_completed c \<Longrightarrow> 0 < fc_users c \<Longrightarrow> call_ok (c\<lparr>fc_users := fc_users c + 1\<rparr>) (Suc W) L ld cl tk rn"
  by (auto simp: call_ok_def)

lemma call_ok_return:
  "call_ok c (Suc W) L ld cl tk rn \<Longrightarrow> fc_done c \<Longrightarrow> fc_err c = None \<Longrightarrow> call_ok c W (Suc L) ld cl tk rn"
  by (auto simp: call_ok_def)

lemma call_ok_fail:
  "call_ok c (Suc W) L ld cl tk rn \<Longrightarrow> fc_done c \<Longrightarrow> fc_err c \<noteq> None \<Longrightarrow> call_ok c W L ld cl tk rn"
  by (auto simp: call_ok_def)

lemma call_ok_final: "call_ok c W L ld cl tk rn \<Longrightarrow> tk = (if fc_finalized c then 1 else 0)"
  unfolding call_ok_def by (elim conjE)

lemma call_ok_ran: "\<lbrakk>call_ok c W L ld cl tk rn; fc_done c; fc_err c \<noteq> None\<rbrakk> \<Longrightarrow> rn = 1"
  unfolding call_ok_def by (elim conjE) blast

lemma call_ok_rerun:
  "\<lbrakk>call_ok c W L ld cl tk rn; fc_done c \<longrightarrow> fc_err c = None\<rbrakk> \<Longrightarrow> call_ok c W L ld cl tk rn'"
proof -
  assume a: "call_ok c W L ld cl tk rn" and b: "fc_done c \<longrightarrow> fc_err c = None"
  from b have "\<not> (fc_done c \<and> fc_err c \<noteq> None)" by simp
  then have "fc_done c \<and> fc_err c \<noteq> None \<longrightarrow> rn' = 1" by (rule impI [OF notE])
  with a show ?thesis unfolding call_ok_def by (elim conjE, intro conjI) assumption+
qed

lemma call_ok_leased: "call_ok c W L ld cl tk rn \<Longrightarrow> 0 < L \<Longrightarrow> fc_done c \<and> fc_err c = None"
  unfolding call_ok_def by (cases "fc_completed c"; cases "fc_err c"; cases "fc_done c"; simp)

lemma call_ok_joined: "\<lbrakk>call_ok c W L ld cl tk rn; \<not> fc_completed c; 0 < fc_users c\<rbrakk> \<Longrightarrow> \<not> fc_cancelled c"
  unfolding call_ok_def by (cases "fc_cancelled c"; simp)

lemma ok_atI:
  assumes "call_ok c (occ i (waiting y)) (open_leases i (leases y)) (occ i (loading y)) (nclosing i (closing y)) (ntaken y i) (occ i (released y))"
    and "fg_store (fgroup y) ! i = c"
    and "\<And>fin. \<lbrakk>(i, fin) \<in> set (closing y); fc_err c \<noteq> None\<rbrakk> \<Longrightarrow> fin \<and> occ i (released y) = 0"
    and "\<lbrakk>fc_completed c; fc_err c = None; fc_users c > 0\<rbrakk> \<Longrightarrow> fc_data c = results y i"
    and "\<And>l. \<lbrakk>l \<in> set (leases y); bl_call l = i; \<not> bl_fired l\<rbrakk> \<Longrightarrow> bl_data l = results y i"
  shows "ok_at y i"
  unfolding ok_at_def assms(2) using assms(1,3-5) by blast

lemma ok_atD:
  assumes "ok_at x i"
  shows "call_ok (fg_store (fgroup x) ! i) (occ i (waiting x)) (open_leases i (leases x)) (occ i (loading x))
      (nclosing i (closing x)) (ntaken x i) (occ i (released x))"
    and "\<And>fin. \<lbrakk>(i, fin) \<in> set (closing x); fc_err (fg_store (fgroup x) ! i) \<noteq> None\<rbrakk> \<Longrightarrow> fin \<and> occ i (released x) = 0"
    and "\<lbrakk>fc_completed (fg_store (fgroup x) ! i); fc_err (fg_store (fgroup x) ! i) = None; fc_users (fg_store (fgroup x) ! i) > 0\<rbrakk>
      \<Longrightarrow> fc_data (fg_store (fgroup x) ! i) = results x i"
    and "\<And>l. \<lbrakk>l \<in> set (leases x); bl_call l = i; \<not> bl_fired l\<rbrakk> \<Longrightarrow> bl_data l = results x i"
  using assms unfolding ok_at_def by blast+

lemma step_abandons:
  assumes I: "flight_inv x" and w: "i \<in> set (waiting x)" and a: "abandon i (fgroup x) = (fin, g)"
  shows "flight_inv (x\<lparr>fgroup := g, waiting := remove1 i (waiting x), finalizers := finalizers x @ run_if fin i\<rparr>)" (is "flight_inv ?y")
proof -
  let ?c = "fg_store (fgroup x) ! i"
  have i: "i < length (fg_store (fgroup x))" using flight_inv_ids(1) [OF I w] .
  note ok = ok_atD [OF flight_inv_ids(5) [OF I i]]
  have W: "occ i (waiting x) = Suc (occ i (remove1 i (waiting x)))" using occ_remove [OF w] .
  have u: "0 < fc_users ?c" by (rule call_ok_users [OF ok(1) [unfolded W]]) simp
  have fin: "fin = wants_final (left_call ?c)" and g: "g = set_call i (abandoned_call ?c) (fgroup x)"
    using a abandon_eq [OF i u refl] by (simp_all add: abandoned_call_def Let_def)
  have "ntaken ?y i = ntaken x i + (if wants_final (left_call ?c) then 1 else 0)" by (simp add: ntaken_def fin)
  then have c: "call_ok (abandoned_call ?c) (occ i (waiting ?y)) (open_leases i (leases ?y)) (occ i (loading ?y))
      (nclosing i (closing ?y)) (ntaken ?y i) (occ i (released ?y))"
    using call_ok_abandon [OF ok(1) [unfolded W]] by simp
  show ?thesis
  proof (rule flight_inv_at [OF I i, where c = "abandoned_call ?c"])
    show "ok_at ?y i" by (rule ok_atI [OF c]) (use i g ok(2-4) u in auto)
  qed (use i g in \<open>auto simp: ntaken_def ids_def dest: set_remove1_subset [THEN subsetD] flight_inv_calls [OF I]\<close>)
qed

lemma step_lease_release:
  assumes I: "flight_inv x" and n: "n < length (leases x)" and r: "lease_Release (leases x ! n) = (True, lease)"
    and u: "releaseUser (bl_call lease) (fgroup x) = Some (fin, g)"
  shows "flight_inv (x\<lparr>fgroup := g, leases := (leases x)[n := lease], finalizers := finalizers x @ run_if fin (bl_call lease)\<rparr>)"
    (is "flight_inv ?y")
proof -
  let ?l = "leases x ! n"
  have l: "\<not> bl_fired ?l" "bl_call lease = bl_call ?l" "bl_fired lease"
    using r by (auto simp: lease_Release_def split: if_splits)
  define i where "i = bl_call ?l"
  let ?c = "fg_store (fgroup x) ! i"
  have i: "i < length (fg_store (fgroup x))" using flight_inv_ids(4) [OF I nth_mem [OF n]] by (simp add: i_def)
  note ok = ok_atD [OF flight_inv_ids(5) [OF I i]]
  have pos: "0 < open_leases i (leases x)"
    using nth_mem [OF n] l by (auto simp: open_leases_def i_def filter_empty_conv)
  have O: "open_leases j ((leases x)[n := lease]) = open_leases j (leases x) - (if i = j then 1 else 0)" for j
    using open_leases_update [OF n l(3), of j] l by (simp add: i_def)
  then have L: "open_leases i (leases x) = Suc (open_leases i (leases ?y))" using pos by simp
  have us: "0 < fc_users ?c" by (rule call_ok_users [OF ok(1) [unfolded L]]) simp
  have co: "fc_completed ?c" using ok(1) pos unfolding call_ok_def by blast
  have fin: "fin = wants_final (left_call ?c)" and g: "g = set_call i (finalized (left_call ?c)) (fgroup x)"
    using u releaseUser_eq [OF i us co refl] l by (simp_all add: i_def)
  have "ntaken ?y i = ntaken x i + (if wants_final (left_call ?c) then 1 else 0)"
    using l by (simp add: ntaken_def fin i_def)
  then have c: "call_ok (finalized (left_call ?c)) (occ i (waiting ?y)) (open_leases i (leases ?y)) (occ i (loading ?y))
      (nclosing i (closing ?y)) (ntaken ?y i) (occ i (released ?y))"
    using call_ok_release [OF ok(1) [unfolded L]] by simp
  have sub: "{l \<in> set (leases ?y). bl_call l = j \<and> \<not> bl_fired l} \<subseteq> {l \<in> set (leases x). bl_call l = j \<and> \<not> bl_fired l}" for j
    using set_update_subset_insert [of "leases x" n lease] l(3) by auto
  have same: "{l \<in> set (leases x). bl_call l = j \<and> \<not> bl_fired l} \<subseteq> {l \<in> set (leases ?y). bl_call l = j \<and> \<not> bl_fired l}" if "j \<noteq> i" for j
  proof
    fix m assume m: "m \<in> {l \<in> set (leases x). bl_call l = j \<and> \<not> bl_fired l}"
    then obtain k where k: "k < length (leases x)" "m = leases x ! k" by (auto simp: in_set_conv_nth)
    then have "k \<noteq> n" using m that by (auto simp: i_def)
    then have "m = (leases x)[n := lease] ! k" using k by simp
    then show "m \<in> {l \<in> set (leases ?y). bl_call l = j \<and> \<not> bl_fired l}" using k m by auto
  qed
  have li: "bl_call lease = i" using l by (simp add: i_def)
  show ?thesis
  proof (rule flight_inv_at [OF I i, where c = "finalized (left_call ?c)"])
    show "ok_at ?y i"
    proof (rule ok_atI [OF c])
      show "fg_store (fgroup ?y) ! i = finalized (left_call ?c)" using g i by simp
      show "bl_data m = results ?y i" if "m \<in> set (leases ?y)" "bl_call m = i" "\<not> bl_fired m" for m
        using sub [of i] that ok(4) by auto
    qed (use ok(2,3) us in auto)
    show "ids ?y \<subseteq> insert i (ids x)"
      using li set_update_subset_insert [of "leases x" n lease] by (auto simp: ids_def)
    show "occ j (waiting ?y) = occ j (waiting x) \<and> open_leases j (leases ?y) = open_leases j (leases x)
      \<and> occ j (loading ?y) = occ j (loading x) \<and> nclosing j (closing ?y) = nclosing j (closing x)
      \<and> ntaken ?y j = ntaken x j \<and> occ j (released ?y) = occ j (released x)
      \<and> (\<forall>fin. (j, fin) \<in> set (closing ?y) \<longleftrightarrow> (j, fin) \<in> set (closing x)) \<and> results ?y j = results x j
      \<and> {l \<in> set (leases ?y). bl_call l = j \<and> \<not> bl_fired l} = {l \<in> set (leases x). bl_call l = j \<and> \<not> bl_fired l}"
      if "j \<noteq> i" for j
      using that O [of j] same [OF that] sub [of j] li by (auto simp: ntaken_def)
  qed (use i g co I in \<open>auto simp: flight_inv_def\<close>)
qed

lemma step_loads:
  assumes I: "flight_inv x" and w: "i \<in> set (loading x)" and a: "run_locked i data resource loadErr (fgroup x) = (fin, g)"
  shows "flight_inv (x\<lparr>fgroup := g, loading := remove1 i (loading x), closing := closing x @ [(i, fin)],
    results := (results x)(i := data)\<rparr>)" (is "flight_inv ?y")
proof -
  let ?c = "fg_store (fgroup x) ! i" and ?d = "completed_call data resource loadErr (fg_store (fgroup x) ! i)"
  have i: "i < length (fg_store (fgroup x))" using flight_inv_ids(2) [OF I w] .
  note ok = ok_atD [OF flight_inv_ids(5) [OF I i]]
  have W: "occ i (loading x) = Suc (occ i (remove1 i (loading x)))" using occ_remove [OF w] .
  have nc: "\<not> fc_completed ?c" "nclosing i (closing x) = 0" "open_leases i (leases x) = 0" "ntaken x i = 0"
    using call_ok_loading [OF ok(1) [unfolded W]] by blast+
  have ncl: "(i, b) \<notin> set (closing x)" for b using nc(2) by (force simp: count_eq_zero_iff)
  have rel: "occ i (released x) = 0" using nc(4) by (simp add: ntaken_def)
  have nl: "\<not> (l \<in> set (leases x) \<and> bl_call l = i \<and> \<not> bl_fired l)" for l
    using nc(3) by (auto simp: open_leases_def filter_empty_conv)
  have fin: "fin = wants_final ?d" and g: "g = set_call i (finalized ?d)
      (fgroup x\<lparr>fg_calls := (if fg_calls (fgroup x) (fc_key ?d) = Some i then (fg_calls (fgroup x))(fc_key ?d := None) else fg_calls (fgroup x))\<rparr>)"
    using a run_locked_eq [OF i refl] by simp_all
  have "ntaken ?y i = ntaken x i + (if wants_final ?d then 1 else 0)" by (simp add: ntaken_def fin)
  moreover have "nclosing i (closing ?y) = Suc (nclosing i (closing x))" by simp
  ultimately have c: "call_ok (finalized ?d) (occ i (waiting ?y)) (open_leases i (leases ?y)) (occ i (loading ?y))
      (nclosing i (closing ?y)) (ntaken ?y i) (occ i (released ?y))"
    using call_ok_load [OF ok(1) [unfolded W], of data resource loadErr] by (simp del: mset_map)
  have wf: "loadErr \<noteq> None \<Longrightarrow> fin" using fin ok(1) nc(1) unfolding call_ok_def wants_final_def by simp
  show ?thesis
  proof (rule flight_inv_at [OF I i, where c = "finalized ?d"])
    show "ok_at ?y i" by (rule ok_atI [OF c]) (use i g wf ncl rel nl in auto)
    show "\<forall>k j. fg_calls (fgroup ?y) k = Some j \<longrightarrow> fg_calls (fgroup x) k = Some j \<and> (j = i \<longrightarrow> \<not> fc_completed (finalized ?d))"
    proof (intro allI impI)
      fix k j assume "fg_calls (fgroup ?y) k = Some j"
      then have k: "fg_calls (fgroup x) k = Some j" "j = i \<Longrightarrow> k \<noteq> fc_key ?c \<or> fg_calls (fgroup x) k \<noteq> Some i"
        by (simp_all add: g split: if_splits)
      then have "j \<noteq> i" using flight_inv_calls [OF I k(1)] by blast
      then show "fg_calls (fgroup x) k = Some j \<and> (j = i \<longrightarrow> \<not> fc_completed (finalized ?d))" using k(1) by simp
    qed
  qed (use i g in \<open>auto simp: ntaken_def ids_def dest: set_remove1_subset [THEN subsetD]\<close>)
qed

lemma step_closes:
  assumes I: "flight_inv x" and w: "(i, fin) \<in> set (closing x)"
  shows "flight_inv (x\<lparr>fgroup := run_close i (fgroup x), closing := remove1 (i, fin) (closing x),
    released := released x @ run_if fin i\<rparr>)" (is "flight_inv ?y")
proof -
  let ?c = "fg_store (fgroup x) ! i" and ?d = "(fg_store (fgroup x) ! i)\<lparr>fc_cancelled := True, fc_done := True\<rparr>"
  have i: "i < length (fg_store (fgroup x))" using flight_inv_ids(3) [OF I w] .
  note ok = ok_atD [OF flight_inv_ids(5) [OF I i]]
  have m: "mset (closing x) = add_mset (i, fin) (mset (remove1 (i, fin) (closing x)))" using w by simp
  have W: "nclosing j (closing x) = (if j = i then Suc (nclosing j (remove1 (i, fin) (closing x))) else nclosing j (remove1 (i, fin) (closing x)))" for j
  proof -
    have "mset (map fst (closing x)) = add_mset i (mset (map fst (remove1 (i, fin) (closing x))))"
      using arg_cong [OF m, of "image_mset fst"] by (simp del: mset_remove1)
    then show ?thesis by (simp del: mset_remove1 mset_map)
  qed
  have Wi: "nclosing i (closing x) = Suc (nclosing i (remove1 (i, fin) (closing x)))" using W [of i] by (simp del: mset_map)
  have one: "nclosing i (remove1 (i, fin) (closing x)) = 0" using call_ok_closing [OF ok(1) [unfolded Wi]] .
  have u: "b = fin" if "(i, b) \<in> set (closing x)" for b
  proof (rule ccontr)
    assume "b \<noteq> fin"
    then have "(i, b) \<in> set (remove1 (i, fin) (closing x))" using that by (simp add: in_set_remove1)
    then have "0 < nclosing i (remove1 (i, fin) (closing x))" by (rule nclosing_pos)
    then show False using one by (simp del: mset_map mset_remove1)
  qed
  have T: "ntaken ?y j = ntaken x j" for j
  proof -
    have "mset (filter snd (closing x)) = (if fin then {#(i, fin)#} else {#}) + mset (filter snd (remove1 (i, fin) (closing x)))"
      using arg_cong [OF m, of "filter_mset snd"] by (simp del: mset_remove1)
    then have "mset (map fst (filter snd (closing x))) = (if fin then {#i#} else {#}) + mset (map fst (filter snd (remove1 (i, fin) (closing x))))"
      by (simp del: mset_filter)
    then show ?thesis by (simp add: ntaken_def del: mset_map mset_filter)
  qed
  have e: "fc_err ?c \<noteq> None \<Longrightarrow> occ i (released ?y) = 1" using ok(2) [OF w] by simp
  have c: "call_ok ?d (occ i (waiting ?y)) (open_leases i (leases ?y)) (occ i (loading ?y))
      (nclosing i (closing ?y)) (ntaken ?y i) (occ i (released ?y))"
    using call_ok_close [OF ok(1) [unfolded Wi] e] T by (simp del: mset_map)
  have gone: "(i, b) \<notin> set (closing ?y)" for b
  proof
    assume "(i, b) \<in> set (closing ?y)"
    then have "(i, b) \<in> set (remove1 (i, fin) (closing x))" by simp
    then have "0 < nclosing i (remove1 (i, fin) (closing x))" by (rule nclosing_pos)
    then show False using one by (simp del: mset_map mset_remove1)
  qed
  show ?thesis
  proof (rule flight_inv_at [OF I i, where c = ?d])
    show "ok_at ?y i" by (rule ok_atI [OF c]) (use i gone ok(3,4) in \<open>auto simp: run_close_def\<close>)
    show "occ j (waiting ?y) = occ j (waiting x) \<and> open_leases j (leases ?y) = open_leases j (leases x)
      \<and> occ j (loading ?y) = occ j (loading x) \<and> nclosing j (closing ?y) = nclosing j (closing x)
      \<and> ntaken ?y j = ntaken x j \<and> occ j (released ?y) = occ j (released x)
      \<and> (\<forall>fin. (j, fin) \<in> set (closing ?y) \<longleftrightarrow> (j, fin) \<in> set (closing x)) \<and> results ?y j = results x j
      \<and> {l \<in> set (leases ?y). bl_call l = j \<and> \<not> bl_fired l} = {l \<in> set (leases x). bl_call l = j \<and> \<not> bl_fired l}"
      if "j \<noteq> i" for j
      using that T [of j] W [of j] by (auto simp del: mset_map simp: in_set_remove1)
  qed (use i w in \<open>auto simp: run_close_def ids_def dest: set_remove1_subset [THEN subsetD] flight_inv_calls [OF I]\<close>)
qed


text \<open>Steps that leave the store alone.\<close>

lemma fgroup_same: "fg_store g = (fg_store g)[i := fg_store g ! i]"
  by simp

lemma step_returns:
  assumes I: "flight_inv x" and w: "i \<in> set (waiting x)" and d: "fc_done (fg_store (fgroup x) ! i)"
    and r: "wait_done i (fgroup x) = Inr lease"
  shows "flight_inv (x\<lparr>waiting := remove1 i (waiting x), leases := leases x @ [lease]\<rparr>)" (is "flight_inv ?y")
proof -
  let ?c = "fg_store (fgroup x) ! i"
  have i: "i < length (fg_store (fgroup x))" using flight_inv_ids(1) [OF I w] .
  note ok = ok_atD [OF flight_inv_ids(5) [OF I i]]
  have W: "occ i (waiting x) = Suc (occ i (remove1 i (waiting x)))" using occ_remove [OF w] .
  have l: "fc_err ?c = None" "bl_call lease = i" "bl_data lease = fc_data ?c" "\<not> bl_fired lease"
    using r by (auto simp: wait_done_def split: option.splits)
  have u: "0 < fc_users ?c" by (rule call_ok_users [OF ok(1) [unfolded W]]) simp
  have "fc_completed ?c" using ok(1) d unfolding call_ok_def by blast
  then have data: "bl_data lease = results x i" using ok(3) l u by simp
  have c: "call_ok ?c (occ i (waiting ?y)) (open_leases i (leases ?y)) (occ i (loading ?y))
      (nclosing i (closing ?y)) (ntaken ?y i) (occ i (released ?y))"
    using call_ok_return [OF ok(1) [unfolded W] d l(1)] l by (simp add: ntaken_def)
  show ?thesis
  proof (rule flight_inv_at [OF I i, where c = ?c])
    show "ok_at ?y i" by (rule ok_atI [OF c]) (use ok(2-4) l data in auto)
  qed (use i l in \<open>auto simp: ntaken_def ids_def dest: set_remove1_subset [THEN subsetD] flight_inv_calls [OF I]\<close>)
qed

lemma step_fails:
  assumes I: "flight_inv x" and w: "i \<in> set (waiting x)" and d: "fc_done (fg_store (fgroup x) ! i)"
    and r: "wait_done i (fgroup x) = Inl e"
  shows "flight_inv (x\<lparr>waiting := remove1 i (waiting x)\<rparr>)" (is "flight_inv ?y")
proof -
  let ?c = "fg_store (fgroup x) ! i"
  have i: "i < length (fg_store (fgroup x))" using flight_inv_ids(1) [OF I w] .
  note ok = ok_atD [OF flight_inv_ids(5) [OF I i]]
  have W: "occ i (waiting x) = Suc (occ i (remove1 i (waiting x)))" using occ_remove [OF w] .
  have l: "fc_err ?c \<noteq> None" using r by (auto simp: wait_done_def split: option.splits)
  have c: "call_ok ?c (occ i (waiting ?y)) (open_leases i (leases ?y)) (occ i (loading ?y))
      (nclosing i (closing ?y)) (ntaken ?y i) (occ i (released ?y))"
    using call_ok_fail [OF ok(1) [unfolded W] d l] by (simp add: ntaken_def)
  show ?thesis
  proof (rule flight_inv_at [OF I i, where c = ?c])
    show "ok_at ?y i" by (rule ok_atI [OF c]) (use ok(2-4) in auto)
  qed (use i l in \<open>auto simp: ntaken_def ids_def dest: set_remove1_subset [THEN subsetD] flight_inv_calls [OF I]\<close>)
qed

lemma step_finalizes:
  assumes I: "flight_inv x" and w: "i \<in> set (finalizers x)"
  shows "flight_inv (x\<lparr>finalizers := remove1 i (finalizers x), released := released x @ [i]\<rparr>)" (is "flight_inv ?y")
proof -
  let ?c = "fg_store (fgroup x) ! i"
  have "i \<in> ids x" using w by (simp add: ids_def)
  then have i: "i < length (fg_store (fgroup x))" using I unfolding flight_inv_def by blast
  note ok = ok_atD [OF flight_inv_ids(5) [OF I i]]
  have W: "occ i (finalizers x) = Suc (occ i (remove1 i (finalizers x)))" using occ_remove [OF w] .
  have T: "ntaken ?y j = ntaken x j" for j
    using W by (cases "j = i") (simp_all add: ntaken_def)
  have tk: "ntaken x i \<le> 1" using call_ok_final [OF ok(1)] by simp
  have one: "occ i (released x) = 0" "occ i (map fst (filter snd (closing x))) = 0"
    using tk W unfolding ntaken_def by linarith+
  have ne: "fc_err ?c = None" if "fc_done ?c" using call_ok_ran [OF ok(1) that] one(1) by fastforce
  have ncl: "fc_err ?c = None" if "(i, b) \<in> set (closing x)" for b
  proof (rule ccontr)
    assume e: "fc_err ?c \<noteq> None"
    then have "b" using ok(2) [OF that e] by simp
    then have "(i, True) \<in> set (filter snd (closing x))" using that by simp
    then have "0 < occ i (map fst (filter snd (closing x)))" by (rule nclosing_pos)
    then show False using one(2) by (simp del: mset_map mset_filter)
  qed
  have c: "call_ok ?c (occ i (waiting ?y)) (open_leases i (leases ?y)) (occ i (loading ?y))
      (nclosing i (closing ?y)) (ntaken ?y i) (occ i (released ?y))"
    using call_ok_rerun [OF ok(1)] ne unfolding T by simp
  show ?thesis
  proof (rule flight_inv_at [OF I i, where c = ?c])
    show "ok_at ?y i" by (rule ok_atI [OF c]) (use ok(3,4) ncl in auto)
    show "ids ?y \<subseteq> insert i (ids x)" by (auto simp: ids_def dest: set_remove1_subset [THEN subsetD])
  qed (use T in \<open>auto dest: flight_inv_calls [OF I]\<close>)
qed

lemma step_lease_again:
  assumes "flight_inv x" "n < length (leases x)" "lease_Release (leases x ! n) = (False, lease)"
  shows "flight_inv (x\<lparr>leases := (leases x)[n := lease]\<rparr>)"
proof -
  have "lease = leases x ! n" using assms(3) by (simp add: lease_Release_def split: if_splits)
  then show ?thesis using assms(1) by simp
qed


lemma step_joins:
  assumes I: "flight_inv x" and k: "fg_calls (fgroup x) key = Some i" and u: "fc_users (fg_store (fgroup x) ! i) > 0"
  shows "flight_inv (x\<lparr>fgroup := set_call i ((fg_store (fgroup x) ! i)\<lparr>fc_users := fc_users (fg_store (fgroup x) ! i) + 1\<rparr>) (fgroup x),
    waiting := waiting x @ [i]\<rparr>)" (is "flight_inv ?y")
proof -
  let ?c = "fg_store (fgroup x) ! i"
  have i: "i < length (fg_store (fgroup x))" and nc: "\<not> fc_completed ?c" using flight_inv_calls [OF I k] by blast+
  note ok = ok_atD [OF flight_inv_ids(5) [OF I i]]
  have c: "call_ok (?c\<lparr>fc_users := fc_users ?c + 1\<rparr>) (occ i (waiting ?y)) (open_leases i (leases ?y)) (occ i (loading ?y))
      (nclosing i (closing ?y)) (ntaken ?y i) (occ i (released ?y))"
    using call_ok_join [OF ok(1) nc u] by (simp add: ntaken_def)
  show ?thesis
  proof (rule flight_inv_at [OF I i, where c = "?c\<lparr>fc_users := fc_users ?c + 1\<rparr>"])
    show "ok_at ?y i" by (rule ok_atI [OF c]) (use ok(2-4) nc i in auto)
  qed (use i nc in \<open>auto simp: ntaken_def ids_def\<close>)
qed

lemma step_starts:
  assumes I: "flight_inv x" and s: "start_call key after (fgroup x\<lparr>fg_calls := (fg_calls (fgroup x))(key := z)\<rparr>) = (i, start, g)"
  shows "flight_inv (x\<lparr>fgroup := g, waiting := waiting x @ [i], loading := loading x @ run_if start i\<rparr>)" (is "flight_inv ?y")
proof -
  have i: "i = length (fg_store (fgroup x))" "start" and g: "fg_calls g = (fg_calls (fgroup x))(key := Some i)"
    "\<exists>c. fg_store g = fg_store (fgroup x) @ [c] \<and> fc_key c = key \<and> \<not> fc_done c \<and> fc_err c = None \<and> \<not> fc_cancelled c
       \<and> fc_users c = 1 \<and> \<not> fc_completed c \<and> \<not> fc_finalized c"
    using s by (auto simp: start_call_def)
  then obtain c where c: "fg_store g = fg_store (fgroup x) @ [c]" "fc_key c = key" "\<not> fc_done c" "fc_err c = None"
    "\<not> fc_cancelled c" "fc_users c = 1" "\<not> fc_completed c" "\<not> fc_finalized c" by blast
  have "i \<notin> ids x" using I i unfolding flight_inv_def by blast
  then have z: "occ i (waiting x) = 0" "occ i (loading x) = 0" "nclosing i (closing x) = 0" "occ i (finalizers x) = 0"
    "occ i (released x) = 0" "occ i (map fst (filter snd (closing x))) = 0" "\<And>l. l \<in> set (leases x) \<Longrightarrow> bl_call l \<noteq> i"
    "\<And>fin. (i, fin) \<notin> set (closing x)"
    by (auto simp: ids_def count_eq_zero_iff image_iff)
  then have ol: "open_leases i (leases x) = 0" by (auto simp: open_leases_def filter_empty_conv)
  have new: "ok_at ?y i"
  proof (rule ok_atI)
    show "call_ok c (occ i (waiting ?y)) (open_leases i (leases ?y)) (occ i (loading ?y)) (nclosing i (closing ?y)) (ntaken ?y i) (occ i (released ?y))"
      using c z ol i unfolding call_ok_def by (simp add: ntaken_def)
  qed (use c i z in auto)
  have old: "ok_at ?y j" if j: "j < length (fg_store (fgroup x))" for j
  proof -
    have "j \<noteq> i" using j i by simp
    then have "ok_at ?y j = ok_at x j"
      unfolding ok_at_def using c(1) j by (simp add: nth_append ntaken_def)
    then show ?thesis using flight_inv_ids(5) [OF I j] by simp
  qed
  have all: "ok_at ?y j" if "j < length (fg_store (fgroup ?y))" for j
    using new old that c(1) i by (cases "j = i") auto
  moreover have "j < length (fg_store (fgroup ?y))" if "j \<in> ids ?y" for j
  proof -
    have "j = i \<or> j \<in> ids x" using that by (auto simp: ids_def split: if_splits)
    then show ?thesis using I c(1) i unfolding flight_inv_def by fastforce
  qed
  moreover have "j < length (fg_store (fgroup ?y)) \<and> fc_key (fg_store (fgroup ?y) ! j) = k \<and> \<not> fc_completed (fg_store (fgroup ?y) ! j)"
    if "fg_calls (fgroup ?y) k = Some j" for k j
    using that flight_inv_calls [OF I, of k j] c i g by (auto simp: nth_append split: if_splits)
  ultimately show ?thesis unfolding flight_inv_def by blast
qed

lemma fun_upd_None_start:
  "start_call key after (g\<lparr>fg_calls := (fg_calls g)(key := None)\<rparr>) = start_call key after g"
  by (cases g) (simp add: start_call_def)

lemma flight_step_inv:
  assumes "flight_step x y" "flight_inv x"
  shows "flight_inv y"
  using assms
proof (induction rule: flight_step.induct)
  case (enters key after x i start g)
  show ?case
  proof (cases "\<exists>j. fg_calls (fgroup x) key = Some j \<and> fc_users (fg_store (fgroup x) ! j) > 0")
    case True
    then obtain j where j: "fg_calls (fgroup x) key = Some j" "fc_users (fg_store (fgroup x) ! j) > 0" by blast
    then have "i = j" "\<not> start" "g = set_call j ((fg_store (fgroup x) ! j)\<lparr>fc_users := fc_users (fg_store (fgroup x) ! j) + 1\<rparr>) (fgroup x)"
      using enters(1) by (auto simp: Do_enter_def Let_def)
    then show ?thesis using step_joins [OF enters(2) j] by simp
  next
    case False
    then have "start_call key after (fgroup x) = (i, start, g)"
      using enters(1) by (auto simp: Do_enter_def Let_def fun_upd_None_start split: option.splits if_splits)
    then show ?thesis using step_starts [OF enters(2), of key after None i start g] by (simp add: fun_upd_None_start)
  qed
next
  case (loads i x loadErr data resource fin g)
  then show ?case using step_loads by blast
qed (blast intro: step_closes step_returns step_fails step_abandons step_lease_release step_lease_again step_finalizes)+

lemma flight_start_inv: "flight_inv flight_start"
  by (simp add: flight_inv_def flight_start_def ids_def)

lemma flight_reachable_inv: "flight_reachable x \<Longrightarrow> flight_inv x"
  by (induction rule: flight_reachable.induct) (auto simp: flight_start_inv intro: flight_step_inv)


subsection \<open>What coalescing guarantees\<close>

lemma reachable_ok:
  assumes "flight_reachable x" "i < length (fg_store (fgroup x))"
  shows "ok_at x i"
  using flight_inv_ids(5) [OF flight_reachable_inv [OF assms(1)] assms(2)] .

text \<open>
  C32. The reservation of a coalesced download is given back exactly once and never too early. In every
  reachable state, whatever the interleaving: a finalizer of a call is taken at most once; while a
  caller still waits for a successful call or holds an unreleased lease of it, the finalizer has not
  been taken; and once the loader is finished and nobody waits or holds a lease, the finalizer has
  been taken, so nothing leaks. Releasing a lease never panics.
\<close>

theorem flight_releases_once:
  assumes "flight_reachable x" "i < length (fg_store (fgroup x))" "c = fg_store (fgroup x) ! i"
  shows "ntaken x i \<le> 1
    \<and> (fc_err c = None \<and> (i \<in> set (waiting x) \<or> open_leases i (leases x) > 0) \<longrightarrow> ntaken x i = 0)
    \<and> (fc_completed c \<and> i \<notin> set (waiting x) \<and> open_leases i (leases x) = 0 \<longrightarrow> ntaken x i = 1)
    \<and> (open_leases i (leases x) > 0 \<longrightarrow> releaseUser i (fgroup x) \<noteq> None)"
proof -
  note ok = ok_atD(1) [OF reachable_ok [OF assms(1,2)], folded assms(3)]
  have u: "fc_completed c \<and> fc_err c \<noteq> None \<or> fc_users c = int (occ i (waiting x)) + int (open_leases i (leases x))"
    using ok unfolding call_ok_def by (elim conjE) (cases "fc_completed c \<and> fc_err c \<noteq> None"; simp only: if_True if_False simp_thms)
  have f: "fc_finalized c \<longleftrightarrow> fc_completed c \<and> (fc_err c \<noteq> None \<or> fc_users c = 0)"
    using ok unfolding call_ok_def by (elim conjE)
  note T = call_ok_final [OF ok]
  have 1: "ntaken x i = 0" if "fc_err c = None" "i \<in> set (waiting x) \<or> open_leases i (leases x) > 0"
  proof -
    have "0 < occ i (waiting x) + open_leases i (leases x)" using that(2) by auto
    then have "0 < fc_users c" using call_ok_users [OF ok] by simp
    then show ?thesis using T f that(1) by simp
  qed
  have 2: "ntaken x i = 1" if "fc_completed c" "i \<notin> set (waiting x)" "open_leases i (leases x) = 0"
    using that T f u by (auto simp: count_eq_zero_iff)
  have 3: "releaseUser i (fgroup x) \<noteq> None" if "open_leases i (leases x) > 0"
    using call_ok_users [OF ok] that assms(3) by (simp add: releaseUser_def Let_def)
  show ?thesis using 1 2 3 T by simp
qed

text \<open>Two callers share one load; both release.\<close>

definition demo_flight :: "nat flight_system" where
  "demo_flight = \<lparr>fgroup = \<lparr>fg_calls = (\<lambda>_. None)(7 := Some 0), fg_store = [\<lparr>fc_key = 7, fc_done = False, fc_data = None,
     fc_err = None, fc_cancelled = False, fc_users = 2, fc_completed = False, fc_finalized = False,
     fc_resourceRelease = False, fc_afterRelease = True\<rparr>]\<rparr>, waiting = [0, 0], leases = [], loading = [0],
     closing = [], finalizers = [], released = [], results = (\<lambda>_. None)\<rparr>"

lemma demo_flight_reachable: "flight_reachable demo_flight"
proof -
  let ?s1 = "flight_start\<lparr>fgroup := snd (snd (start_call 7 True (fgroup flight_start))), waiting := [0], loading := [0::nat]\<rparr> :: nat flight_system"
  have "flight_step flight_start ?s1"
    using flight_step.enters [of 7 True "flight_start :: nat flight_system"] by (simp add: Do_enter_def start_call_def flight_start_def)
  then have 1: "flight_reachable ?s1" by (rule flight_reachable.step [OF flight_reachable.start])
  have "flight_step ?s1 demo_flight"
    using flight_step.enters [of 7 True ?s1 0 False] by (simp add: Do_enter_def start_call_def flight_start_def demo_flight_def)
  then show ?thesis by (rule flight_reachable.step [OF 1])
qed

theorem flight_releases_once_witness:
  "ntaken demo_flight 0 = 0"
  using flight_releases_once [OF demo_flight_reachable, of 0] by (simp add: demo_flight_def)



end
