(* ===== verification/Manifests.thy ===== *)
theory Manifests
  imports Symlink
begin

section \<open>Validation of manifests and lookup paths\<close>

text \<open>
  The checks a reader makes on decoded metadata: \<open>validateDirectoryManifest\<close>,
  \<open>validateFileManifest\<close>, \<open>validateSymlinkManifest\<close> and \<open>cleanLookupPath\<close> of
  \<open>consumer.go\<close>, and \<open>validateCommitManifest\<close> of \<open>publisher.go\<close>. Each loop of the source is a
  recursion that returns its first error.

  What the checks give to the code behind them: a directory that passes is strictly sorted by name,
  so a binary search finds an entry exactly when a scan would; the chunks of a file that passes tile
  the file without gap, overlap or overflow; a path that passes has only plain components.
\<close>

subsection \<open>Directories\<close>

definition maxRepresentableFileBytes :: int where
  "maxRepresentableFileBytes = int maxFileChunks * maxChunkObjectBytes"

definition validate_entry :: "dirEntry \<Rightarrow> err option" where
  "validate_entry entry = (let name = elems (de_Name entry) in
     if name = [] \<or> length name > maxEntryNameBytes \<or> name = ''.'' \<or> name = ''..'' \<or> slash \<in> set name
        \<or> CHR 0x00 \<in> set name \<or> de_Node entry = 0 then Some [ErrCorruptObject]
     else if de_Mode entry AND NOT 0x1FF \<noteq> 0 \<or> de_Size entry < 0 then Some [ErrCorruptObject]
     else if de_Type entry \<noteq> EntryFile \<and> de_Type entry \<noteq> EntryDir \<and> de_Type entry \<noteq> EntrySymlink
       then Some [ErrCorruptObject]
     else if de_Type entry = EntryDir then (if de_Size entry \<noteq> 0 then Some [ErrCorruptObject] else None)
     else if de_Type entry = EntryFile then
       (if de_Size entry > maxRepresentableFileBytes then Some [ErrCorruptObject, ErrResourceLimit] else None)
     else if de_Size entry = 0 \<or> de_Size entry > int maxSymlinkTargetBytes
       then Some [ErrCorruptObject, ErrResourceLimit]
     else None)"

text \<open>The loop of the source; \<open>prev\<close> is the entry before, absent at index 0.\<close>

fun validate_entries :: "dirEntry option \<Rightarrow> dirEntry list \<Rightarrow> err option" where
  "validate_entries prev [] = None"
| "validate_entries prev (entry # rest) =
     (case validate_entry entry of Some e \<Rightarrow> Some e
      | None \<Rightarrow> (if (case prev of None \<Rightarrow> False | Some p \<Rightarrow> elems (de_Name p) \<ge> elems (de_Name entry))
          then Some [ErrCorruptObject] else validate_entries (Some entry) rest))"

definition validateDirectoryManifest :: "dirManifest \<Rightarrow> err option" where
  "validateDirectoryManifest manifest =
     (if dm_Format manifest \<noteq> objectFormatVersion then Some [ErrCorruptObject]
      else if length (elems (dm_Entries manifest)) > maxDirectoryEntries then Some [ErrCorruptObject, ErrResourceLimit]
      else validate_entries None (elems (dm_Entries manifest)))"

abbreviation entry_name :: "dirEntry \<Rightarrow> bytes" where
  "entry_name e \<equiv> elems (de_Name e)"

lemma validate_entries_iff:
  "validate_entries prev es = None \<longleftrightarrow>
     (\<forall>e \<in> set es. validate_entry e = None) \<and> sorted_wrt (<) (map entry_name es)
     \<and> (case prev of None \<Rightarrow> True | Some p \<Rightarrow> \<forall>e \<in> set es. entry_name p < entry_name e)"
proof (induction prev es rule: validate_entries.induct)
  case (2 prev entry rest)
  then show ?case
    by (auto split: option.splits dest: order.strict_trans simp: not_le)
qed (auto split: option.splits)

lemma validateDirectoryManifest_None:
  assumes "validateDirectoryManifest m = None"
  shows "\<forall>e \<in> set (elems (dm_Entries m)). validate_entry e = None"
    and "sorted_wrt (<) (map entry_name (elems (dm_Entries m)))"
    and "length (elems (dm_Entries m)) \<le> maxDirectoryEntries"
  using assms by (auto simp: validateDirectoryManifest_def validate_entries_iff split: if_splits)

lemma valid_entry_name:
  assumes "validate_entry e = None"
  shows "entry_name e \<noteq> []" "entry_name e \<noteq> ''.''" "entry_name e \<noteq> ''..''" "slash \<notin> set (entry_name e)"
    "CHR 0x00 \<notin> set (entry_name e)" "length (entry_name e) \<le> maxEntryNameBytes" "de_Node e \<noteq> 0" "0 \<le> de_Size e"
  using assms by (auto simp: validate_entry_def Let_def split: if_splits)

subsection \<open>Lookup in a directory\<close>

text \<open>The search of \<open>resolve\<close>, and the scan it stands for.\<close>

definition lookup_entry :: "dirEntry list \<Rightarrow> bytes \<Rightarrow> dirEntry option" where
  "lookup_entry entries component =
     (let position = sort_Search (length entries) (\<lambda>i. entry_name (entries ! i) \<ge> component) in
      if position = length entries \<or> entry_name (entries ! position) \<noteq> component then None
      else Some (entries ! position))"

lemma sorted_wrt_upward:
  assumes "sorted_wrt (<) (map entry_name es)"
  shows "upward (length es) (\<lambda>i. entry_name (es ! i) \<ge> c)"
  unfolding upward_def
proof (intro allI impI)
  fix a b assume ab: "a \<le> b" "b < length es" "c \<le> entry_name (es ! a)"
  show "c \<le> entry_name (es ! b)"
  proof (cases "a = b")
    case False
    then have "entry_name (es ! a) < entry_name (es ! b)"
      using ab assms by (auto simp: sorted_wrt_iff_nth_less)
    then show ?thesis using ab(3) by simp
  qed (use ab in simp)
qed

lemma lookup_entry_find:
  assumes s: "sorted_wrt (<) (map entry_name es)"
  shows "lookup_entry es c = find (\<lambda>e. entry_name e = c) es"
proof -
  let ?f = "\<lambda>i. entry_name (es ! i) \<ge> c"
  define k where "k = sort_Search (length es) ?f"
  note L = sort_Search_least [OF sorted_wrt_upward [OF s, of c], folded k_def]
  have S: "entry_name (es ! i) < entry_name (es ! j)" if "i < j" "j < length es" for i j
    using that s by (simp add: sorted_wrt_iff_nth_less)
  have D: "i = j" if "i < length es" "j < length es" "entry_name (es ! i) = entry_name (es ! j)" for i j
    using that S [of i j] S [of j i] by (cases i j rule: linorder_cases) auto
  show ?thesis
  proof (cases "find (\<lambda>e. entry_name e = c) es")
    case None
    then have "\<forall>i < length es. entry_name (es ! i) \<noteq> c" by (simp add: find_None_iff in_set_conv_nth) blast
    then have "k = length es \<or> entry_name (es ! k) \<noteq> c" using least_inD(1) [OF L] by (metis le_neq_implies_less)
    then show ?thesis using None by (simp add: lookup_entry_def Let_def flip: k_def)
  next
    case (Some e)
    then obtain i where i: "i < length es" "entry_name (es ! i) = c" "e = es ! i" by (auto simp: find_Some_iff)
    have "k \<le> i" using least_inD(2) [OF L, of i] i by (meson not_le order.refl)
    then have k: "k < length es" using i by simp
    then have "c \<le> entry_name (es ! k)" using least_inD(3) [OF L] by simp
    moreover have "entry_name (es ! k) \<le> c"
    proof (cases "k = i")
      case False
      then show ?thesis using S [of k i] \<open>k \<le> i\<close> i by simp
    qed (use i in simp)
    ultimately have "entry_name (es ! k) = c" by simp
    then have "k = i" using D [OF k i(1)] i by simp
    then show ?thesis using Some i k by (simp add: lookup_entry_def Let_def flip: k_def)
  qed
qed


text \<open>
  C27. A directory that passes validation is searched correctly: the binary search of
  \<open>resolve\<close> returns exactly the entry that a scan over all entries would find, and at most one
  entry has the name.
\<close>

theorem directory_lookup_exact:
  assumes "validateDirectoryManifest m = None"
  shows "lookup_entry (elems (dm_Entries m)) c = find (\<lambda>e. entry_name e = c) (elems (dm_Entries m))
    \<and> distinct (map entry_name (elems (dm_Entries m)))"
  using lookup_entry_find [OF validateDirectoryManifest_None(2) [OF assms]]
    validateDirectoryManifest_None(2) [OF assms] by (simp add: strict_sorted_iff)

definition demo_entry :: "bytes \<Rightarrow> dirEntry" where
  "demo_entry name = \<lparr>de_Name = Some name, de_Type = EntryFile, de_Node = 7, de_Mode = 0x1A4, de_Size = 3,
     de_ModTimeUnixNano = 0\<rparr>"

definition demo_directory :: dirManifest where
  "demo_directory = \<lparr>dm_Format = 1, dm_Entries = Some [demo_entry ''a'', demo_entry ''b'', demo_entry ''c'']\<rparr>"

lemma demo_directory_valid: "validateDirectoryManifest demo_directory = None"
  by (simp add: validateDirectoryManifest_def demo_directory_def demo_entry_def validate_entry_def limits
      maxRepresentableFileBytes_def less_char_def)

theorem directory_lookup_exact_witness:
  "lookup_entry (elems (dm_Entries demo_directory)) ''b'' = Some (demo_entry ''b'')"
  using directory_lookup_exact [OF demo_directory_valid, of "''b''"] by (simp add: demo_directory_def demo_entry_def)

subsection \<open>Files\<close>

fun chunk_layout :: "int \<Rightarrow> int \<Rightarrow> int \<Rightarrow> chunkRef list \<Rightarrow> err option" where
  "chunk_layout maxSize sz offset [] = (if offset \<noteq> sz then Some [ErrCorruptObject] else None)"
| "chunk_layout maxSize sz offset (chunk # chunks) =
     (if cr_Offset chunk \<noteq> offset \<or> cr_Size chunk \<le> 0 \<or> cr_Size chunk > maxSize \<or> cr_Digest chunk = 0
      then Some [ErrCorruptObject]
      else let offset = wrap64 (offset + cr_Size chunk) in
        if offset < 0 \<or> offset > sz then Some [ErrCorruptObject] else chunk_layout maxSize sz offset chunks)"

definition manifest_profile :: "fileManifest \<Rightarrow> ChunkingOptions" where
  "manifest_profile manifest = \<lparr>co_MinSize = fm_MinSize manifest, co_AverageSize = fm_AvgSize manifest,
     co_MaxSize = fm_MaxSize manifest, co_Polynomial = fm_Polynomial manifest\<rparr>"

definition validateFileManifest :: "(u64 \<Rightarrow> int) \<Rightarrow> (u64 \<Rightarrow> bool) \<Rightarrow> fileManifest \<Rightarrow> err option" where
  "validateFileManifest deg irreducible manifest =
     (if fm_Format manifest \<noteq> objectFormatVersion \<or> fm_Algorithm manifest \<noteq> ''rabin-v1'' \<or> fm_Size manifest < 0
      then Some [ErrCorruptObject]
      else if length (elems (fm_Chunks manifest)) > maxFileChunks then Some [ErrCorruptObject, ErrResourceLimit]
      else if ChunkingOptions_normalized deg irreducible (manifest_profile manifest) \<noteq> Inr (manifest_profile manifest)
        then Some [ErrCorruptObject]
      else chunk_layout (fm_MaxSize manifest) (fm_Size manifest) 0 (elems (fm_Chunks manifest)))"

text \<open>What the layout should be: chunks in order, back to back, from \<open>offset\<close> to \<open>sz\<close>.\<close>

fun tiles :: "int \<Rightarrow> chunkRef list \<Rightarrow> int \<Rightarrow> bool" where
  "tiles offset [] sz = (offset = sz)"
| "tiles offset (chunk # chunks) sz =
     (cr_Offset chunk = offset \<and> 0 < cr_Size chunk \<and> tiles (offset + cr_Size chunk) chunks sz)"

lemma tiles_le: "tiles offset chunks sz \<Longrightarrow> offset \<le> sz"
  by (induction offset chunks sz rule: tiles.induct) auto

lemma chunk_layout_iff:
  assumes "0 \<le> offset" "offset \<le> sz" "is_int64 sz" "maxSize \<le> maxChunkObjectBytes"
  shows "chunk_layout maxSize sz offset chunks = None \<longleftrightarrow>
    tiles offset chunks sz \<and> (\<forall>c \<in> set chunks. cr_Size c \<le> maxSize \<and> cr_Digest c \<noteq> 0)"
  using assms(1,2)
proof (induction chunks arbitrary: offset)
  case (Cons c chunks)
  show ?case
  proof (cases "cr_Offset c = offset \<and> 0 < cr_Size c \<and> cr_Size c \<le> maxSize \<and> cr_Digest c \<noteq> 0")
    case True
    have b: "cr_Size c \<le> 2 ^ 26" using True assms(4) by (simp add: maxChunkObjectBytes_def)
    show ?thesis
    proof (cases "offset + cr_Size c \<le> sz")
      case fits: True
      then have "wrap64 (offset + cr_Size c) = offset + cr_Size c"
        using True Cons.prems assms(3) by (intro wrap64_id) (auto simp: is_int64_def)
      then show ?thesis using True Cons.IH [of "offset + cr_Size c"] Cons.prems fits by auto
    next
      case False
      have "wrap64 (offset + cr_Size c) < 0 \<or> wrap64 (offset + cr_Size c) > sz"
      proof (cases "offset + cr_Size c \<le> maxInt64")
        case True
        then have "is_int64 (offset + cr_Size c)" using Cons.prems \<open>cr_Offset c = offset \<and> _\<close> by (auto simp: is_int64_def)
        then show ?thesis using False by simp
      next
        case over: False
        then show ?thesis using wrap64_overflow [of "offset + cr_Size c"] b Cons.prems assms(3)
          by (auto simp: is_int64_def maxInt64_def)
      qed
      then show ?thesis using False True tiles_le [of "offset + cr_Size c" chunks sz] by auto
    qed
  next
    case False
    then show ?thesis by auto
  qed
qed auto

lemma validateFileManifest_None:
  assumes "validateFileManifest deg irreducible m = None" "is_int64 (fm_Size m)"
  shows "tiles 0 (elems (fm_Chunks m)) (fm_Size m)"
    and "c \<in> set (elems (fm_Chunks m)) \<Longrightarrow> 0 < cr_Size c \<and> cr_Size c \<le> fm_MaxSize m \<and> cr_Digest c \<noteq> 0"
    and "fm_MaxSize m \<le> maxChunkObjectBytes" "0 \<le> fm_Size m" "length (elems (fm_Chunks m)) \<le> maxFileChunks"
proof -
  have h: "0 \<le> fm_Size m" "length (elems (fm_Chunks m)) \<le> maxFileChunks"
    "ChunkingOptions_normalized deg irreducible (manifest_profile m) = Inr (manifest_profile m)"
    "chunk_layout (fm_MaxSize m) (fm_Size m) 0 (elems (fm_Chunks m)) = None"
    using assms(1) by (auto simp: validateFileManifest_def split: if_splits)
  have mx: "fm_MaxSize m \<le> maxChunkObjectBytes" using normalized_Inr [OF h(3)] by (simp add: manifest_profile_def)
  note L = iffD1 [OF chunk_layout_iff [OF order.refl h(1) assms(2) mx] h(4)]
  have pos: "tiles off cs sz \<Longrightarrow> c \<in> set cs \<Longrightarrow> 0 < cr_Size c" for off cs sz
    by (induction off cs sz rule: tiles.induct) auto
  show "tiles 0 (elems (fm_Chunks m)) (fm_Size m)" using L by simp
  show "c \<in> set (elems (fm_Chunks m)) \<Longrightarrow> 0 < cr_Size c \<and> cr_Size c \<le> fm_MaxSize m \<and> cr_Digest c \<noteq> 0"
    using L pos by blast
  show "fm_MaxSize m \<le> maxChunkObjectBytes" "0 \<le> fm_Size m" "length (elems (fm_Chunks m)) \<le> maxFileChunks"
    using mx h by simp_all
qed


definition covers :: "chunkRef \<Rightarrow> int \<Rightarrow> bool" where
  "covers c p \<longleftrightarrow> cr_Offset c \<le> p \<and> p < cr_Offset c + cr_Size c"

lemma tiles_range: "\<lbrakk>tiles off cs sz; c \<in> set cs\<rbrakk> \<Longrightarrow> off \<le> cr_Offset c \<and> cr_Offset c + cr_Size c \<le> sz"
proof (induction off cs sz rule: tiles.induct)
  case (2 off c' cs sz)
  then show ?case using tiles_le [of "off + cr_Size c'" cs sz] by auto
qed simp

lemma tiles_covers:
  "\<lbrakk>tiles off cs sz; off \<le> p; p < sz\<rbrakk> \<Longrightarrow> \<exists>!i. i < length cs \<and> covers (cs ! i) p"
proof (induction off cs sz rule: tiles.induct)
  case (2 off c cs sz)
  have t: "cr_Offset c = off" "tiles (off + cr_Size c) cs sz" using "2.prems" by auto
  show ?case
  proof (cases "p < off + cr_Size c")
    case True
    have "\<not> covers (cs ! i) p" if "i < length cs" for i
      using tiles_range [OF t(2) nth_mem [OF that]] True by (simp add: covers_def)
    then have "i = 0" if "i < length (c # cs)" "covers ((c # cs) ! i) p" for i
      using that by (cases i) auto
    moreover have "covers ((c # cs) ! 0) p" using True t "2.prems" by (simp add: covers_def)
    ultimately show ?thesis by (metis length_greater_0_conv list.distinct(1))
  next
    case False
    then obtain i where i: "i < length cs" "covers (cs ! i) p"
      and u: "\<And>j. j < length cs \<and> covers (cs ! j) p \<Longrightarrow> j = i"
      using "2.IH" t "2.prems" by (metis linorder_not_less)
    have "j = Suc i" if "j < length (c # cs)" "covers ((c # cs) ! j) p" for j
      using that u False t by (cases j) (auto simp: covers_def)
    moreover have "Suc i < length (c # cs) \<and> covers ((c # cs) ! Suc i) p" using i by simp
    ultimately show ?thesis by metis
  qed
qed simp

lemma tiles_sum: "tiles off cs sz \<Longrightarrow> sz = off + sum_list (map cr_Size cs)"
  by (induction off cs sz rule: tiles.induct) auto

lemma sum_list_le: "\<forall>x \<in> set xs. f x \<le> m \<Longrightarrow> sum_list (map f xs) \<le> int (length xs) * m"
  by (induction xs) (auto simp: algebra_simps)

text \<open>
  C28. The chunks of a file manifest that passes validation cover the file exactly: every byte
  position below the size lies in exactly one chunk, every chunk is within the limits of the chunking
  profile, the sizes add up to the size of the file without overflow, and no file exceeds the largest
  representable size.
\<close>

theorem file_layout_exact:
  assumes "validateFileManifest deg irreducible m = None" "is_int64 (fm_Size m)"
  shows "(\<forall>p. 0 \<le> p \<longrightarrow> p < fm_Size m \<longrightarrow>
        (\<exists>!i. i < length (elems (fm_Chunks m)) \<and> covers (elems (fm_Chunks m) ! i) p))
    \<and> (\<forall>c \<in> set (elems (fm_Chunks m)). 0 < cr_Size c \<and> cr_Size c \<le> fm_MaxSize m
        \<and> 0 \<le> cr_Offset c \<and> cr_Offset c + cr_Size c \<le> fm_Size m)
    \<and> fm_Size m = sum_list (map cr_Size (elems (fm_Chunks m)))
    \<and> fm_Size m \<le> maxRepresentableFileBytes"
proof -
  note V = validateFileManifest_None [OF assms]
  have "fm_Size m \<le> maxRepresentableFileBytes"
  proof -
    have "fm_Size m = sum_list (map cr_Size (elems (fm_Chunks m)))" using tiles_sum [OF V(1)] by simp
    also have "\<dots> \<le> int (length (elems (fm_Chunks m))) * maxChunkObjectBytes"
      using V(2,3) by (intro sum_list_le) fastforce
    also have "\<dots> \<le> maxRepresentableFileBytes"
      using V(5) by (simp add: maxRepresentableFileBytes_def maxChunkObjectBytes_def)
    finally show ?thesis .
  qed
  then show ?thesis using tiles_covers [OF V(1)] tiles_sum [OF V(1)] V(2) tiles_range [OF V(1)] by auto
qed

definition demo_file :: fileManifest where
  "demo_file = \<lparr>fm_Format = 1, fm_Algorithm = ''rabin-v1'', fm_MinSize = 64, fm_AvgSize = 128, fm_MaxSize = 256,
     fm_Polynomial = 5, fm_Size = 4, fm_Chunks = Some [\<lparr>cr_Offset = 0, cr_Size = 3, cr_Digest = 1\<rparr>,
       \<lparr>cr_Offset = 3, cr_Size = 1, cr_Digest = 2\<rparr>]\<rparr>"

lemma demo_file_valid: "validateFileManifest (\<lambda>_. 53) (\<lambda>_. True) demo_file = None" "is_int64 (fm_Size demo_file)"
  by (simp_all add: demo_file_def validateFileManifest_def manifest_profile_def ChunkingOptions_normalized_def
      limits is_int64_def maxInt64_def)

theorem file_layout_exact_witness:
  "\<exists>!i. i < length (elems (fm_Chunks demo_file)) \<and> covers (elems (fm_Chunks demo_file) ! i) 3"
proof -
  have "(0::int) \<le> 3" "3 < fm_Size demo_file" by (simp_all add: demo_file_def)
  then show ?thesis using file_layout_exact [OF demo_file_valid] by blast
qed

subsection \<open>Symbolic links and commits\<close>

definition validateSymlinkManifest :: "symlinkManifest \<Rightarrow> err option" where
  "validateSymlinkManifest manifest =
     (if sm_Format manifest \<noteq> objectFormatVersion \<or> elems (sm_Target manifest) = []
         \<or> length (elems (sm_Target manifest)) > maxSymlinkTargetBytes \<or> CHR 0x00 \<in> set (elems (sm_Target manifest))
      then Some [ErrCorruptObject] else None)"

definition validateCommitManifest :: "commitManifest \<Rightarrow> u64 \<Rightarrow> err option" where
  "validateCommitManifest commit generation =
     (if cm_Format commit \<noteq> objectFormatVersion \<or> cm_Generation commit \<noteq> generation \<or> cm_Root commit = 0
      then Some [ErrCorruptObject]
      else if generation = 1 then (if cm_Parent commit \<noteq> None then Some [ErrCorruptObject] else None)
      else if cm_Parent commit = None \<or> cm_Parent commit = Some 0 then Some [ErrCorruptObject]
      else None)"

subsection \<open>Lookup paths\<close>

definition cleanLookupPath :: "bytes \<Rightarrow> err + bytes list" where
  "cleanLookupPath path =
     (if length path > maxLookupPathBytes then Inl [ErrInvalidPath, ErrResourceLimit]
      else if CHR 0x00 \<in> set path then Inl [ErrInvalidPath]
      else let path = trim_prefix ''/'' path in
        if path = [] \<or> path = ''.'' then Inr []
        else let cleaned = path_Clean path in
          if cleaned = ''..'' \<or> has_prefix cleaned ''../'' \<or> cleaned \<noteq> path then Inl [ErrInvalidPath]
          else let components = split_slash cleaned in
            if length components > maxLookupDepth then Inl [ErrInvalidPath, ErrResourceLimit]
            else if \<exists>component \<in> set components. length component > maxEntryNameBytes
              then Inl [ErrInvalidPath, ErrResourceLimit]
            else Inr components)"

lemma trim_prefix_slash: "trim_prefix ''/'' s = (case s of [] \<Rightarrow> [] | c # r \<Rightarrow> if c = slash then r else s)"
  by (cases s) (auto simp: trim_prefix_def has_prefix_def)

lemma split_slash_subset: "c \<in> set (split_slash s) \<Longrightarrow> set c \<subseteq> set s"
proof (induction s arbitrary: c)
  case (Cons a s)
  then show ?case by (fastforce split: list.splits if_splits)
qed simp

text \<open>The components of an accepted path are plain, or the path began with two slashes: then the first
  component is empty, and no directory entry has an empty name.\<close>

lemma cleanLookupPath_Inr:
  assumes "cleanLookupPath p = Inr cs"
  shows "cs = [] \<or> plain cs \<or> hd cs = []" and "\<forall>c \<in> set cs. length c \<le> maxEntryNameBytes \<and> CHR 0x00 \<notin> set c"
    and "length cs \<le> maxLookupDepth" and "cs \<noteq> [] \<Longrightarrow> join_slash cs = trim_prefix ''/'' p"
proof -
  let ?p = "trim_prefix ''/'' p"
  have "cs = [] \<or> cs = split_slash ?p \<and> path_Clean ?p = ?p \<and> \<not> (?p = ''..'' \<or> has_prefix ?p ''../'') \<and> ?p \<noteq> []
      \<and> ?p \<noteq> ''.'' \<and> length cs \<le> maxLookupDepth \<and> (\<forall>c \<in> set cs. length c \<le> maxEntryNameBytes)"
    using assms by (auto simp: cleanLookupPath_def Let_def split: if_splits)
  moreover have n: "CHR 0x00 \<notin> set ?p"
    using assms by (auto simp: cleanLookupPath_def trim_prefix_slash split: if_splits list.splits)
  moreover note split_slash_subset
  moreover have "plain (split_slash ?p) \<or> hd (split_slash ?p) = []"
    if c: "path_Clean ?p = ?p" "\<not> (?p = ''..'' \<or> has_prefix ?p ''../'')" "?p \<noteq> []" "?p \<noteq> ''.''"
  proof (cases "path_IsAbs ?p")
    case True
    then show ?thesis by (auto simp: path_IsAbs_split)
  next
    case False
    then obtain d where w: "walk 0 (split_slash ?p) = Some d" using clean_escapes [OF False] c by fastforce
    have ns: "\<forall>c \<in> set (split_slash ?p). slash \<notin> set c" by (auto dest: split_slash_no_slash)
    note co = clean_out_walk(2) [OF ns w]
    have out: "clean_out False (split_slash ?p) \<noteq> []" using c False by (auto simp: path_Clean_def Let_def)
    then have "?p = join_slash (clean_out False (split_slash ?p))"
      using c(1) False by (simp add: path_Clean_def)
    then have "split_slash ?p = clean_out False (split_slash ?p)"
      using split_join [OF out] co by (metis plain_def)
    then show ?thesis using co by simp
  qed
  ultimately show "cs = [] \<or> plain cs \<or> hd cs = []"
    and "\<forall>c \<in> set cs. length c \<le> maxEntryNameBytes \<and> CHR 0x00 \<notin> set c"
    and "length cs \<le> maxLookupDepth" and "cs \<noteq> [] \<Longrightarrow> join_slash cs = trim_prefix ''/'' p"
    by (auto simp: maxLookupDepth_def)
qed

lemma plain_cleanLookupPath:
  assumes "plain cs" "cs \<noteq> []" "\<forall>c \<in> set cs. length c \<le> maxEntryNameBytes \<and> CHR 0x00 \<notin> set c"
    "length cs \<le> maxLookupDepth" "length (join_slash cs) \<le> maxLookupPathBytes"
  shows "cleanLookupPath (join_slash cs) = Inr cs"
proof -
  have t: "trim_prefix ''/'' (join_slash cs) = join_slash cs"
    using join_plain_not_abs [OF assms(1)] by (auto simp: trim_prefix_slash path_IsAbs_def split: list.splits)
  have ns: "\<forall>c \<in> set cs. slash \<notin> set c" using assms(1) by (simp add: plain_def)
  have s: "split_slash (join_slash cs) = cs" using split_join assms(2) ns by simp
  have "\<not> (join_slash cs = ''..'' \<or> has_prefix (join_slash cs) ''../'')"
    using escapes_join [OF assms(2) ns] assms(1,2) by (cases cs) auto
  moreover have "CHR 0x00 \<notin> set (join_slash cs)"
    using assms(3) by (induction cs rule: join_slash.induct) auto
  moreover have "join_slash cs \<noteq> []" "join_slash cs \<noteq> ''.''"
  proof -
    have "split_slash [] = [[]]" "split_slash ''.'' = [''.'']" by simp_all
    then show "join_slash cs \<noteq> []" "join_slash cs \<noteq> ''.''" using s assms(1) by (metis plain_simps(2))+
  qed
  moreover have "\<not> (\<exists>c \<in> set cs. length c > maxEntryNameBytes)" using assms(3) by (auto simp: not_less)
  ultimately show ?thesis using t s assms(4,5) path_Clean_plain [OF assms(1,2)]
    by (simp add: cleanLookupPath_def not_less)
qed

end
