(* ===== verification/Metadata_Cache.thy ===== *)
theory Metadata_Cache
  imports Protocol_Model
begin

section \<open>The metadata cache\<close>

text \<open>
  \<open>metadata_cache.go\<close>: the LRU of decoded manifests with a bound on entries and a bound on
  bytes, its size estimates, and the typed accessors. A list element is the entry it holds: an entry
  is pushed once, so \<open>MoveToFront\<close> and \<open>Remove\<close> act on the element with the entry's key. The
  eviction loop of \<open>Put\<close> is a partial function; that it ends is a theorem, since
  \<open>removeOldest\<close> on an empty list changes nothing and the loop condition could then stay true.

  Slice capacities are chosen by the Go runtime, so the estimates take them as arguments; the
  \<open>unsafe.Sizeof\<close> constants are those of a 64-bit platform.
\<close>

definition metadataCacheEntryOverheadBytes :: int where "metadataCacheEntryOverheadBytes = 512"
definition maxEstimatedRetainedBytes :: int where "maxEstimatedRetainedBytes = 2 ^ 63 - 1"
definition maxMetadataCacheBytes :: int where "maxMetadataCacheBytes = 2 ^ 30"
definition defaultMetadataCacheEntries :: int where "defaultMetadataCacheEntries = 4096"
definition defaultMetadataCacheBytes :: int where "defaultMetadataCacheBytes = 64 * 2 ^ 20"

record metadataCacheKey =
  mk_kind :: bytes
  mk_digest :: digest

record 'v metadataCacheEntry =
  me_key :: metadataCacheKey
  me_value :: 'v
  me_retainedBytes :: int

record 'v metadataCache =
  mc_maxEntries :: int
  mc_maxBytes :: int
  mc_retainedBytes :: int
  mc_items :: "metadataCacheKey \<Rightarrow> 'v metadataCacheEntry option"
  mc_order :: "'v metadataCacheEntry list"

definition newMetadataCache :: "int \<Rightarrow> int \<Rightarrow> 'v metadataCache" where
  "newMetadataCache maxEntries maxBytes = \<lparr>mc_maxEntries = maxEntries, mc_maxBytes = maxBytes,
     mc_retainedBytes = 0, mc_items = (\<lambda>_. None), mc_order = []\<rparr>"

definition moveToFront :: "'v metadataCacheEntry \<Rightarrow> 'v metadataCache \<Rightarrow> 'v metadataCache" where
  "moveToFront element cache = cache\<lparr>mc_order := element # remove1 element (mc_order cache)\<rparr>"

definition cache_Get :: "metadataCacheKey \<Rightarrow> 'v metadataCache \<Rightarrow> 'v option \<times> 'v metadataCache" where
  "cache_Get key cache = (case mc_items cache key of
     None \<Rightarrow> (None, cache)
   | Some element \<Rightarrow> (Some (me_value element), moveToFront element cache))"

definition removeOldest :: "'v metadataCache \<Rightarrow> 'v metadataCache" where
  "removeOldest cache = (if mc_order cache = [] then cache
     else let entry = last (mc_order cache) in
       cache\<lparr>mc_items := (mc_items cache)(me_key entry := None),
             mc_order := butlast (mc_order cache),
             mc_retainedBytes := wrap64 (mc_retainedBytes cache - me_retainedBytes entry)\<rparr>)"

partial_function (option) evict :: "'v metadataCache \<Rightarrow> 'v metadataCache option" where
  "evict cache =
     (if len (mc_order cache) > mc_maxEntries cache \<or> mc_retainedBytes cache > mc_maxBytes cache
      then evict (removeOldest cache) else Some cache)"

definition push_entry :: "'v metadataCacheEntry \<Rightarrow> 'v metadataCache \<Rightarrow> 'v metadataCache" where
  "push_entry entry cache = cache\<lparr>mc_order := entry # mc_order cache,
     mc_items := (mc_items cache)(me_key entry := Some entry),
     mc_retainedBytes := wrap64 (mc_retainedBytes cache + me_retainedBytes entry)\<rparr>"

definition cache_Put ::
  "metadataCacheKey \<Rightarrow> 'v \<Rightarrow> int \<Rightarrow> 'v metadataCache \<Rightarrow> ('v \<times> 'v metadataCache) option" where
  "cache_Put key v retainedBytes cache = (case mc_items cache key of
     Some existing \<Rightarrow> Some (me_value existing, moveToFront existing cache)
   | None \<Rightarrow> (let retainedBytes = (if retainedBytes < metadataCacheEntryOverheadBytes
         then metadataCacheEntryOverheadBytes else retainedBytes) in
       if mc_maxEntries cache \<le> 0 \<or> mc_maxBytes cache \<le> 0 \<or> retainedBytes > mc_maxBytes cache then Some (v, cache)
       else map_option (Pair v) (evict (push_entry \<lparr>me_key = key, me_value = v, me_retainedBytes = retainedBytes\<rparr> cache))))"

definition cache_Clear :: "'v metadataCache \<Rightarrow> 'v metadataCache" where
  "cache_Clear cache = cache\<lparr>mc_items := (\<lambda>_. None), mc_order := [], mc_retainedBytes := 0\<rparr>"

definition cache_Len :: "'v metadataCache \<Rightarrow> int" where
  "cache_Len cache = len (mc_order cache)"

definition cache_RetainedBytes :: "'v metadataCache \<Rightarrow> int" where
  "cache_RetainedBytes cache = mc_retainedBytes cache"

subsection \<open>The invariant\<close>

definition retained_sum :: "'v metadataCacheEntry list \<Rightarrow> int" where
  "retained_sum es = sum_list (map me_retainedBytes es)"

lemma retained_sum_simps [simp]:
  "retained_sum [] = 0" "retained_sum (e # es) = me_retainedBytes e + retained_sum es"
  "retained_sum (xs @ ys) = retained_sum xs + retained_sum ys"
  by (simp_all add: retained_sum_def)

text \<open>The map, the list and the counter describe the same entries.\<close>

definition coherent :: "'v metadataCache \<Rightarrow> bool" where
  "coherent cache \<longleftrightarrow> distinct (map me_key (mc_order cache))
     \<and> (\<forall>k. mc_items cache k = find (\<lambda>e. me_key e = k) (mc_order cache))
     \<and> mc_retainedBytes cache = retained_sum (mc_order cache)
     \<and> (\<forall>e \<in> set (mc_order cache). metadataCacheEntryOverheadBytes \<le> me_retainedBytes e)"

definition fits :: "'v metadataCache \<Rightarrow> 'v metadataCacheEntry list \<Rightarrow> bool" where
  "fits cache es \<longleftrightarrow> len es \<le> max 0 (mc_maxEntries cache) \<and> retained_sum es \<le> max 0 (mc_maxBytes cache)"

definition cache_inv :: "'v metadataCache \<Rightarrow> bool" where
  "cache_inv cache \<longleftrightarrow> coherent cache \<and> fits cache (mc_order cache)
     \<and> mc_maxBytes cache \<le> maxMetadataCacheBytes"

lemma find_distinct_snoc:
  assumes "distinct (map f (es @ [e]))"
  shows "(if k = f e then None else find (\<lambda>x. f x = k) (es @ [e])) = find (\<lambda>x. f x = k) es"
proof (cases "k = f e")
  case True
  then have "\<forall>x \<in> set es. f x \<noteq> k" using assms by (auto simp: image_iff)
  then have "find (\<lambda>x. f x = k) es = None" by (auto simp: find_None_iff)
  then show ?thesis using True by simp
next
  case False
  have "find P (es @ [e]) = (case find P es of None \<Rightarrow> if P e then Some e else None | Some y \<Rightarrow> Some y)" for P
    by (induction es) auto
  then show ?thesis using False by (auto split: option.splits)
qed

lemma find_move:
  assumes "distinct (map f es)" "e \<in> set es"
  shows "find (\<lambda>x. f x = k) (e # remove1 e es) = find (\<lambda>x. f x = k) es"
  using assms
proof (induction es)
  case (Cons a es)
  show ?case
  proof (cases "a = e")
    case False
    then have "f a \<noteq> f e" using Cons.prems by auto
    then show ?thesis using Cons False by auto
  qed simp
qed simp

lemma find_key:
  assumes "find (\<lambda>x. f x = k) es = Some e"
  shows "e \<in> set es \<and> f e = k"
  using assms by (auto simp: find_Some_iff in_set_conv_nth)

lemma retained_sum_remove1: "e \<in> set es \<Longrightarrow> retained_sum (remove1 e es) = retained_sum es - me_retainedBytes e"
  by (induction es) auto

lemma coherent_move:
  assumes "coherent cache" "e \<in> set (mc_order cache)"
  shows "coherent (moveToFront e cache)" and "set (mc_order (moveToFront e cache)) = set (mc_order cache)"
    and "length (mc_order (moveToFront e cache)) = length (mc_order cache)"
proof -
  have d: "distinct (mc_order cache)" using assms(1) by (auto simp: coherent_def distinct_map)
  have s: "set (remove1 e (mc_order cache)) = set (mc_order cache) - {e}" using d by simp
  have "distinct (map me_key (remove1 e (mc_order cache)))" "me_key e \<notin> me_key ` set (remove1 e (mc_order cache))"
    using assms d unfolding s by (auto simp: coherent_def distinct_map inj_on_def)
  then show "coherent (moveToFront e cache)"
    using assms find_move [of me_key "mc_order cache" e] s
    by (auto simp: coherent_def moveToFront_def retained_sum_remove1)
  show "set (mc_order (moveToFront e cache)) = set (mc_order cache)"
    using s assms(2) by (auto simp: moveToFront_def)
  show "length (mc_order (moveToFront e cache)) = length (mc_order cache)"
    using assms(2) by (simp add: moveToFront_def length_remove1_Suc)
qed

lemma coherent_removeOldest:
  assumes "coherent cache" "is_int64 (mc_retainedBytes cache)" "mc_order cache = es @ [e]"
  shows "coherent (removeOldest cache)" "mc_order (removeOldest cache) = es"
    "mc_retainedBytes (removeOldest cache) = retained_sum es"
proof -
  have c: "distinct (map me_key (es @ [e]))" "\<forall>k. mc_items cache k = find (\<lambda>e. me_key e = k) (es @ [e])"
    "mc_retainedBytes cache = retained_sum (es @ [e])"
    "\<forall>e \<in> set (es @ [e]). metadataCacheEntryOverheadBytes \<le> me_retainedBytes e"
    using assms(1) by (simp_all add: coherent_def assms(3))
  have nn: "0 \<le> retained_sum xs" if "set xs \<subseteq> set es" for xs
    using that c(4) by (induction xs) (auto simp: metadataCacheEntryOverheadBytes_def)
  have "is_int64 (retained_sum es)"
    using nn [of es] c(3,4) assms(2) by (auto simp: is_int64_def metadataCacheEntryOverheadBytes_def)
  then have r: "wrap64 (mc_retainedBytes cache - me_retainedBytes e) = retained_sum es" using c(3) by simp
  show "mc_order (removeOldest cache) = es" "mc_retainedBytes (removeOldest cache) = retained_sum es"
    using assms(3) r by (simp_all add: removeOldest_def Let_def)
  have "mc_items (removeOldest cache) k = find (\<lambda>x. me_key x = k) es" for k
    unfolding find_distinct_snoc [OF c(1), of k, symmetric] using c(2) assms(3) by (simp add: removeOldest_def Let_def)
  then show "coherent (removeOldest cache)"
    unfolding coherent_def using c r assms(3) by (simp add: removeOldest_def Let_def)
qed


lemma removeOldest_limits [simp]:
  "mc_maxEntries (removeOldest c) = mc_maxEntries c" "mc_maxBytes (removeOldest c) = mc_maxBytes c"
  by (simp_all add: removeOldest_def Let_def)

lemma coherent_sum_nonneg: "coherent c \<Longrightarrow> 0 \<le> retained_sum (mc_order c)"
proof -
  assume "coherent c"
  then have "\<forall>e \<in> set (mc_order c). 0 \<le> me_retainedBytes e"
    by (auto simp: coherent_def metadataCacheEntryOverheadBytes_def)
  then show ?thesis by (auto simp: retained_sum_def intro!: sum_list_nonneg)
qed

text \<open>The loop ends, and keeps the longest prefix of the recency order that fits both limits.\<close>

lemma evict_spec:
  assumes "coherent c" "retained_sum (mc_order c) \<le> maxInt64" "0 \<le> mc_maxEntries c" "0 \<le> mc_maxBytes c"
  shows "\<exists>c' old. evict c = Some c' \<and> coherent c' \<and> mc_maxEntries c' = mc_maxEntries c \<and> mc_maxBytes c' = mc_maxBytes c
    \<and> fits c (mc_order c') \<and> mc_order c = mc_order c' @ old \<and> (old \<noteq> [] \<longrightarrow> \<not> fits c (mc_order c' @ [hd old]))"
  using assms
proof (induction "mc_order c" arbitrary: c rule: rev_induct)
  case Nil
  then have "\<not> (len (mc_order c) > mc_maxEntries c \<or> mc_retainedBytes c > mc_maxBytes c)"
    by (auto simp: coherent_def simp flip: Nil.hyps)
  then have "evict c = Some c" by (subst evict.simps) simp
  then show ?case using Nil by (auto simp: fits_def simp flip: Nil.hyps)
next
  case (snoc e es)
  have r: "mc_retainedBytes c = retained_sum (mc_order c)" using snoc.prems(1) by (simp add: coherent_def)
  show ?case
  proof (cases "len (mc_order c) > mc_maxEntries c \<or> mc_retainedBytes c > mc_maxBytes c")
    case False
    then have "evict c = Some c" by (subst evict.simps) simp
    then show ?thesis using False snoc.prems r by (auto simp: fits_def)
  next
    case True
    let ?d = "removeOldest c"
    have i: "is_int64 (mc_retainedBytes c)"
      using r snoc.prems(2) coherent_sum_nonneg [OF snoc.prems(1)] by (simp add: is_int64_def)
    note R = coherent_removeOldest [OF snoc.prems(1) i snoc.hyps(2) [symmetric]]
    have "e \<in> set (mc_order c)" using snoc.hyps(2) by (metis in_set_conv_decomp)
    then have "0 \<le> me_retainedBytes e"
      using snoc.prems(1) by (auto simp: coherent_def metadataCacheEntryOverheadBytes_def)
    moreover have "retained_sum (mc_order c) = retained_sum (mc_order ?d) + me_retainedBytes e"
      unfolding R(2) by (simp flip: snoc.hyps(2))
    ultimately have "retained_sum (mc_order ?d) \<le> maxInt64" using snoc.prems(2) by simp
    then obtain c' old where c': "evict ?d = Some c'" "coherent c'" "mc_maxEntries c' = mc_maxEntries c"
      "mc_maxBytes c' = mc_maxBytes c" "fits ?d (mc_order c')" "es = mc_order c' @ old"
      "old \<noteq> [] \<longrightarrow> \<not> fits ?d (mc_order c' @ [hd old])"
      using snoc.hyps(1) [of ?d] R snoc.prems by auto
    have "evict c = Some c'" using True c'(1) by (subst evict.simps) simp
    moreover have "\<not> fits c (mc_order c)" using True r snoc.prems by (auto simp: fits_def)
    moreover have "fits ?d = fits c" by (rule ext) (simp add: fits_def)
    moreover have "mc_order c = mc_order c' @ (old @ [e])" using c'(6) snoc.hyps(2) by simp
    ultimately show ?thesis using c' by (intro exI [of _ c'] exI [of _ "old @ [e]"]) (cases "old = []"; simp)
  qed
qed

lemma coherent_push:
  assumes "coherent c" "mc_items c (me_key e) = None" "metadataCacheEntryOverheadBytes \<le> me_retainedBytes e"
    "retained_sum (mc_order c) + me_retainedBytes e \<le> maxInt64"
  shows "coherent (push_entry e c)"
proof -
  have "me_key e \<notin> me_key ` set (mc_order c)"
    using assms(1,2) by (auto simp: coherent_def find_None_iff)
  moreover have "wrap64 (mc_retainedBytes c + me_retainedBytes e) = me_retainedBytes e + retained_sum (mc_order c)"
    using assms coherent_sum_nonneg [OF assms(1)]
    by (auto simp: coherent_def is_int64_def metadataCacheEntryOverheadBytes_def intro!: wrap64_id)
  ultimately show ?thesis using assms by (auto simp: coherent_def push_entry_def)
qed

text \<open>What a \<open>Put\<close> that has to insert leaves: the entry in front of the most recently used entries
  that still fit.\<close>

lemma cache_Put_inserts:
  assumes "cache_inv c" "mc_items c key = None" "0 < mc_maxEntries c"
    "r = max metadataCacheEntryOverheadBytes retainedBytes" "r \<le> mc_maxBytes c"
  shows "\<exists>c' kept old. cache_Put key v retainedBytes c = Some (v, c') \<and> cache_inv c'
    \<and> mc_order c' = \<lparr>me_key = key, me_value = v, me_retainedBytes = r\<rparr> # kept
    \<and> mc_order c = kept @ old \<and> (old \<noteq> [] \<longrightarrow> \<not> fits c (mc_order c' @ [hd old]))
    \<and> mc_maxEntries c' = mc_maxEntries c \<and> mc_maxBytes c' = mc_maxBytes c"
proof -
  let ?e = "\<lparr>me_key = key, me_value = v, me_retainedBytes = r\<rparr>" and ?d = "push_entry \<lparr>me_key = key, me_value = v, me_retainedBytes = r\<rparr> c"
  have I: "coherent c" "fits c (mc_order c)" "mc_maxBytes c \<le> maxMetadataCacheBytes"
    using assms(1) by (simp_all add: cache_inv_def)
  have small: "retained_sum (mc_order c) + r \<le> maxInt64"
    using I assms(5) by (auto simp: fits_def maxMetadataCacheBytes_def maxInt64_def)
  have pos: "0 < mc_maxBytes c" using assms(4,5) by (auto simp: metadataCacheEntryOverheadBytes_def)
  have co: "coherent ?d" using coherent_push [OF I(1), of ?e] assms(2,4) small by simp
  have o: "mc_order ?d = ?e # mc_order c" "mc_maxEntries ?d = mc_maxEntries c" "mc_maxBytes ?d = mc_maxBytes c"
    by (simp_all add: push_entry_def)
  obtain c' old where c': "evict ?d = Some c'" "coherent c'" "mc_maxEntries c' = mc_maxEntries c"
    "mc_maxBytes c' = mc_maxBytes c" "fits ?d (mc_order c')" "?e # mc_order c = mc_order c' @ old"
    "old \<noteq> [] \<longrightarrow> \<not> fits ?d (mc_order c' @ [hd old])"
    using evict_spec [OF co] o small pos assms(3) by auto
  have f: "fits ?d = fits c" by (rule ext) (simp add: fits_def o)
  have "mc_order c' \<noteq> []"
  proof
    assume n: "mc_order c' = []"
    then have "old = ?e # mc_order c" using c'(6) by simp
    then have "\<not> fits c [?e]" using c'(7) n f by simp
    then show False using assms(3,5) pos by (simp add: fits_def)
  qed
  then obtain kept where k: "mc_order c' = ?e # kept" "mc_order c = kept @ old"
    using c'(6) by (cases "mc_order c'") auto
  have "fits c' (mc_order c')" using c'(3,4,5) f by (simp add: fits_def)
  moreover have "cache_Put key v retainedBytes c = Some (v, c')"
  proof -
    have "(if retainedBytes < metadataCacheEntryOverheadBytes then metadataCacheEntryOverheadBytes else retainedBytes) = r"
      using assms(4) by simp
    then show ?thesis using assms(2,3,5) pos c'(1) unfolding cache_Put_def Let_def by simp
  qed
  ultimately show ?thesis using c' k f I by (auto simp: cache_inv_def)
qed


subsection \<open>Sequences of operations\<close>

datatype 'v cache_op = OpGet metadataCacheKey | OpPut metadataCacheKey 'v int | OpClear

fun cache_step :: "'v cache_op \<Rightarrow> 'v metadataCache \<Rightarrow> 'v metadataCache option" where
  "cache_step (OpGet key) c = Some (snd (cache_Get key c))"
| "cache_step (OpPut key v retainedBytes) c = map_option snd (cache_Put key v retainedBytes c)"
| "cache_step OpClear c = Some (cache_Clear c)"

fun cache_run :: "'v cache_op list \<Rightarrow> 'v metadataCache \<Rightarrow> 'v metadataCache option" where
  "cache_run [] c = Some c"
| "cache_run (op # ops) c = Option.bind (cache_step op c) (cache_run ops)"

lemma cache_inv_item:
  "\<lbrakk>cache_inv c; mc_items c k = Some e\<rbrakk> \<Longrightarrow> e \<in> set (mc_order c) \<and> me_key e = k"
  using find_key [of me_key k "mc_order c" e] by (simp add: cache_inv_def coherent_def)

lemma cache_inv_move:
  assumes "cache_inv c" "e \<in> set (mc_order c)"
  shows "cache_inv (moveToFront e c)"
proof -
  have c: "coherent c" using assms(1) by (simp add: cache_inv_def)
  have "retained_sum (mc_order (moveToFront e c)) = retained_sum (mc_order c)"
    using assms(2) by (simp add: moveToFront_def retained_sum_remove1)
  then show ?thesis using assms(1) coherent_move [OF c assms(2)]
    by (simp add: cache_inv_def fits_def) (simp add: moveToFront_def)
qed

lemma cache_Get_inv: "cache_inv c \<Longrightarrow> cache_inv (snd (cache_Get k c))"
  by (auto simp: cache_Get_def cache_inv_move cache_inv_item split: option.splits)

lemma cache_Put_cases:
  assumes "cache_inv c"
  obtains (hit) e where "mc_items c key = Some e" "cache_Put key v r c = Some (me_value e, moveToFront e c)"
  | (skipped) "mc_items c key = None" "cache_Put key v r c = Some (v, c)"
      "\<not> (0 < mc_maxEntries c \<and> max metadataCacheEntryOverheadBytes r \<le> mc_maxBytes c)"
  | (inserted) c' kept old where "mc_items c key = None" "cache_Put key v r c = Some (v, c')" "cache_inv c'"
      "mc_order c' = \<lparr>me_key = key, me_value = v, me_retainedBytes = max metadataCacheEntryOverheadBytes r\<rparr> # kept"
      "mc_order c = kept @ old" "old \<noteq> [] \<longrightarrow> \<not> fits c (mc_order c' @ [hd old])"
      "mc_maxEntries c' = mc_maxEntries c" "mc_maxBytes c' = mc_maxBytes c"
proof (cases "mc_items c key")
  case (Some e)
  then show ?thesis using hit by (simp add: cache_Put_def)
next
  case None
  let ?r = "max metadataCacheEntryOverheadBytes r"
  show ?thesis
  proof (cases "0 < mc_maxEntries c \<and> ?r \<le> mc_maxBytes c")
    case True
    then show ?thesis using cache_Put_inserts [OF assms None, of ?r r v] inserted [OF None] by blast
  next
    case False
    then have "cache_Put key v r c = Some (v, c)" using None by (auto simp: cache_Put_def Let_def max_def)
    then show ?thesis using skipped None False by simp
  qed
qed

lemma cache_Put_inv:
  assumes "cache_inv c"
  shows "\<exists>v' c'. cache_Put k v r c = Some (v', c') \<and> cache_inv c'"
  using assms
proof (cases rule: cache_Put_cases [of c k v r])
  case (hit e)
  then show ?thesis using cache_inv_move [OF assms] cache_inv_item [OF assms] by blast
qed (use assms in auto)

lemma cache_step_inv: "cache_inv c \<Longrightarrow> \<exists>c'. cache_step op c = Some c' \<and> cache_inv c'"
proof (cases op)
  case OpClear
  assume "cache_inv c"
  then show ?thesis using OpClear by (auto simp: cache_inv_def cache_Clear_def coherent_def fits_def)
next
  case (OpPut k v r)
  assume "cache_inv c"
  then show ?thesis using OpPut cache_Put_inv [of c k v r] by auto
qed (auto simp: cache_Get_inv)

lemma cache_step_limits:
  "\<lbrakk>cache_inv c; cache_step op c = Some c'\<rbrakk> \<Longrightarrow> mc_maxEntries c' = mc_maxEntries c \<and> mc_maxBytes c' = mc_maxBytes c"
proof (cases op)
  case (OpPut k v r)
  assume I: "cache_inv c" and s: "cache_step op c = Some c'"
  then show ?thesis using OpPut by (cases rule: cache_Put_cases [OF I, of k v r]) (auto simp: moveToFront_def)
qed (auto simp: cache_Get_def cache_Clear_def moveToFront_def split: option.splits)

lemma cache_run_inv:
  "cache_inv c \<Longrightarrow> \<exists>c'. cache_run ops c = Some c' \<and> cache_inv c' \<and> mc_maxEntries c' = mc_maxEntries c \<and> mc_maxBytes c' = mc_maxBytes c"
proof (induction ops arbitrary: c)
  case (Cons op ops)
  then obtain c1 where "cache_step op c = Some c1" "cache_inv c1" using cache_step_inv by blast
  then show ?case using Cons.IH [of c1] cache_step_limits [OF Cons.prems, of op c1] by simp
qed simp

lemma newMetadataCache_inv: "b \<le> maxMetadataCacheBytes \<Longrightarrow> cache_inv (newMetadataCache n b)"
  by (simp add: cache_inv_def coherent_def fits_def newMetadataCache_def)

text \<open>
  C29. The metadata cache stays within both limits. From a new cache, every sequence of \<open>Get\<close>,
  \<open>Put\<close> and \<open>Clear\<close> returns: the eviction loop always ends. Afterwards the number of entries and
  the retained bytes are within their limits, and the map, the recency list and the byte counter agree.
\<close>

theorem metadata_cache_bounded:
  assumes "maxBytes \<le> maxMetadataCacheBytes"
  shows "\<exists>c. cache_run ops (newMetadataCache maxEntries maxBytes) = Some c
    \<and> cache_Len c \<le> max 0 maxEntries \<and> 0 \<le> cache_RetainedBytes c \<and> cache_RetainedBytes c \<le> max 0 maxBytes
    \<and> cache_RetainedBytes c = retained_sum (mc_order c)
    \<and> (\<forall>k. mc_items c k = find (\<lambda>e. me_key e = k) (mc_order c))"
proof -
  obtain c where "cache_run ops (newMetadataCache maxEntries maxBytes) = Some c" "cache_inv c"
    "mc_maxEntries c = maxEntries" "mc_maxBytes c = maxBytes"
    using cache_run_inv [OF newMetadataCache_inv [OF assms]] by (fastforce simp: newMetadataCache_def)
  then show ?thesis using coherent_sum_nonneg [of c]
    by (auto simp: cache_inv_def fits_def coherent_def cache_Len_def cache_RetainedBytes_def)
qed

theorem metadata_cache_bounded_witness:
  "\<exists>c. cache_run [OpPut \<lparr>mk_kind = ''dir'', mk_digest = 1\<rparr> ''x'' 600, OpPut \<lparr>mk_kind = ''dir'', mk_digest = 2\<rparr> ''y'' 600]
     (newMetadataCache 4 1000) = Some c \<and> cache_RetainedBytes c \<le> 1000"
  using metadata_cache_bounded [of 1000 "[OpPut \<lparr>mk_kind = ''dir'', mk_digest = 1\<rparr> ''x'' 600, OpPut \<lparr>mk_kind = ''dir'', mk_digest = 2\<rparr> ''y'' 600]" 4]
  by (auto simp: maxMetadataCacheBytes_def)




text \<open>A property of keys and values that holds for what is put holds for what is cached.\<close>

definition cache_all :: "(metadataCacheKey \<Rightarrow> 'v \<Rightarrow> bool) \<Rightarrow> 'v metadataCache \<Rightarrow> bool" where
  "cache_all P c \<longleftrightarrow> (\<forall>e \<in> set (mc_order c). P (me_key e) (me_value e))"

lemma cache_all_new [simp]: "cache_all P (newMetadataCache n b)"
  by (simp add: cache_all_def newMetadataCache_def)

lemma cache_all_Get:
  assumes "cache_inv c" "cache_all P c" "cache_Get k c = (r, c')"
  shows "cache_inv c'" "cache_all P c'" "r = Some v \<Longrightarrow> P k v"
proof -
  show "cache_inv c'" using cache_Get_inv [OF assms(1), of k] assms(3) by simp
  show "cache_all P c'" "r = Some v \<Longrightarrow> P k v"
    using assms cache_inv_item [OF assms(1), of k] coherent_move(2) [of c]
    by (auto simp: cache_Get_def cache_all_def cache_inv_def split: option.splits)
qed

lemma cache_all_Put:
  assumes "cache_inv c" "cache_all P c" "P k v"
  shows "\<exists>v' c'. cache_Put k v r c = Some (v', c') \<and> cache_inv c' \<and> cache_all P c' \<and> P k v'"
  using assms(1)
proof (cases rule: cache_Put_cases [of c k v r])
  case (hit e)
  note i = cache_inv_item [OF assms(1) hit(1)]
  have "cache_all P (moveToFront e c)"
    using assms i coherent_move(2) [of c e] by (auto simp: cache_all_def cache_inv_def)
  then show ?thesis using hit i assms cache_inv_move [OF assms(1)] by (auto simp: cache_all_def)
next
  case (inserted c' kept old)
  then show ?thesis using assms by (auto simp: cache_all_def)
qed (use assms in auto)


subsection \<open>Size estimates\<close>

definition addEstimatedBytes :: "int \<Rightarrow> int \<Rightarrow> int" where
  "addEstimatedBytes left right =
     (if left < 0 \<or> right < 0 \<or> left > wrap64 (maxEstimatedRetainedBytes - right) then maxEstimatedRetainedBytes
      else wrap64 (left + right))"

definition multiplyEstimatedBytes :: "int \<Rightarrow> int \<Rightarrow> int" where
  "multiplyEstimatedBytes left right =
     (if left < 0 \<or> right < 0 \<or> (left \<noteq> 0 \<and> right > maxEstimatedRetainedBytes div left) then maxEstimatedRetainedBytes
      else wrap64 (left * right))"

definition conservativeMetadataEstimate :: "int \<Rightarrow> int" where
  "conservativeMetadataEstimate logical =
     addEstimatedBytes (multiplyEstimatedBytes logical 2) metadataCacheEntryOverheadBytes"

definition sizeof_dirManifest :: int where "sizeof_dirManifest = 32"
definition sizeof_dirEntry :: int where "sizeof_dirEntry = 96"
definition sizeof_fileManifest :: int where "sizeof_fileManifest = 88"
definition sizeof_chunkRef :: int where "sizeof_chunkRef = 48"
definition sizeof_symlinkManifest :: int where "sizeof_symlinkManifest = 32"

text \<open>\<open>capEntries\<close> is \<open>cap(manifest.Entries)\<close> and \<open>capName\<close> gives \<open>cap(entry.Name)\<close>.\<close>

definition estimateDirectoryRetainedBytes :: "int \<Rightarrow> (dirEntry \<Rightarrow> int) \<Rightarrow> dirManifest \<Rightarrow> int" where
  "estimateDirectoryRetainedBytes capEntries capName manifest = (
     let logical = addEstimatedBytes sizeof_dirManifest (multiplyEstimatedBytes capEntries sizeof_dirEntry);
         logical = fold (\<lambda>entry logical. addEstimatedBytes (addEstimatedBytes logical (capName entry)) (len (de_Type entry)))
           (elems (dm_Entries manifest)) logical
     in conservativeMetadataEstimate logical)"

definition estimateFileRetainedBytes :: "int \<Rightarrow> fileManifest \<Rightarrow> int" where
  "estimateFileRetainedBytes capChunks manifest = (
     let logical = addEstimatedBytes sizeof_fileManifest (len (fm_Algorithm manifest));
         logical = addEstimatedBytes logical (multiplyEstimatedBytes capChunks sizeof_chunkRef)
     in conservativeMetadataEstimate logical)"

definition estimateSymlinkRetainedBytes :: "int \<Rightarrow> symlinkManifest \<Rightarrow> int" where
  "estimateSymlinkRetainedBytes capTarget manifest =
     conservativeMetadataEstimate (addEstimatedBytes sizeof_symlinkManifest capTarget)"

text \<open>On sizes that are not negative the two operations are exact arithmetic cut off at the largest
  \<open>int64\<close>.\<close>

definition saturate :: "int \<Rightarrow> int" where
  "saturate x = min maxInt64 x"

lemma addEstimatedBytes_saturate:
  "\<lbrakk>0 \<le> a; 0 \<le> b; is_int64 a; is_int64 b\<rbrakk> \<Longrightarrow> addEstimatedBytes a b = saturate (a + b)"
  by (auto simp: addEstimatedBytes_def saturate_def maxEstimatedRetainedBytes_def maxInt64_def is_int64_def wrap64_def min_def)

lemma multiplyEstimatedBytes_saturate:
  assumes "0 \<le> a" "0 \<le> b"
  shows "multiplyEstimatedBytes a b = saturate (a * b)"
proof (cases "a = 0")
  case False
  then have a: "0 < a" using assms by simp
  have "M div a < b \<longleftrightarrow> M < a * b" for M
  proof
    assume "M div a < b"
    then have "a * (M div a + 1) \<le> a * b" using a by simp
    moreover have "M < a * (M div a + 1)"
      using pos_mod_bound [OF a, of M] mult_div_mod_eq [of a M] unfolding distrib_left by linarith
    ultimately show "M < a * b" by simp
  next
    assume "M < a * b"
    then have "a * (M div a) < a * b" using a pos_mod_sign [OF a, of M] mult_div_mod_eq [of a M] by linarith
    then show "M div a < b" using a by simp
  qed
  then have "b > maxEstimatedRetainedBytes div a \<longleftrightarrow> a * b > maxInt64"
    by (simp add: maxEstimatedRetainedBytes_def maxInt64_def)
  moreover have "a * b \<le> maxInt64 \<Longrightarrow> wrap64 (a * b) = a * b"
    using mult_nonneg_nonneg [OF assms] by (intro wrap64_id) (simp add: is_int64_def del: zero_le_mult_iff)
  ultimately show ?thesis using assms False
    by (simp add: multiplyEstimatedBytes_def saturate_def min_def not_less)
      (simp add: maxEstimatedRetainedBytes_def maxInt64_def wrap64_def)
qed (use assms in \<open>simp add: multiplyEstimatedBytes_def saturate_def maxInt64_def wrap64_def\<close>)


lemma saturate_simps [simp]:
  "saturate (saturate a + b) = saturate (a + b)" if "0 \<le> b" for a b
  using that by (simp add: saturate_def)

lemma saturate_is_int64 [simp]: "0 \<le> a \<Longrightarrow> is_int64 (saturate a)" "0 \<le> a \<Longrightarrow> 0 \<le> saturate a"
  by (auto simp: saturate_def is_int64_def maxInt64_def)

lemma saturate_id [simp]: "0 \<le> a \<Longrightarrow> is_int64 a \<Longrightarrow> saturate a = a"
  by (simp add: saturate_def is_int64_def)

lemma add_saturate [simp]:
  "\<lbrakk>0 \<le> a; 0 \<le> b\<rbrakk> \<Longrightarrow> addEstimatedBytes (saturate a) (saturate b) = saturate (a + b)"
  by (simp add: addEstimatedBytes_saturate) (simp add: saturate_def)

lemma mult_saturate [simp]: "0 \<le> a \<Longrightarrow> multiplyEstimatedBytes (saturate a) 2 = saturate (a * 2)"
  by (simp add: multiplyEstimatedBytes_saturate) (simp add: saturate_def maxInt64_def min_def)

lemma conservative_saturate:
  "0 \<le> a \<Longrightarrow> conservativeMetadataEstimate (saturate a) = saturate (2 * a + metadataCacheEntryOverheadBytes)"
  using add_saturate [of "a * 2" metadataCacheEntryOverheadBytes]
  by (simp add: conservativeMetadataEstimate_def metadataCacheEntryOverheadBytes_def is_int64_def maxInt64_def mult.commute)

lemma fold_saturate:
  assumes "\<forall>e \<in> set es. 0 \<le> f e \<and> is_int64 (f e) \<and> is_int64 (len (g e))" "0 \<le> a"
  shows "fold (\<lambda>e l. addEstimatedBytes (addEstimatedBytes l (f e)) (len (g e))) es (saturate a)
    = saturate (a + sum_list (map (\<lambda>e. f e + len (g e)) es))"
  using assms
proof (induction es arbitrary: a)
  case (Cons e es)
  have "addEstimatedBytes (addEstimatedBytes (saturate a) (f e)) (len (g e)) = saturate (a + f e + len (g e))"
    using Cons.prems add_saturate [of a "f e"] add_saturate [of "a + f e" "len (g e)"] by simp
  then show ?case using Cons.IH [of "a + f e + len (g e)"] Cons.prems by (simp add: algebra_simps)
qed simp



end
