(* ===== verification/Watermark.thy ===== *)
theory Watermark
  imports Trust
begin

section \<open>The durable watermark\<close>

text \<open>
  \<open>watermark.go\<close>: the anti-rollback anchor of a consumer or publisher, one small file replaced
  atomically under an inter-process lock. The file system and the helpers of
  \<open>internal/localstate\<close> are an environment of operations, one field of \<open>LocalFile\<close> per call of
  the source, which may fail at any time; \<open>mu\<close> only serialises callers of one process and has no
  counterpart. A found watermark is \<open>Some\<close>.

  \<open>local_file\<close> states what the environment is relied on for: what is visible to readers, and what
  would be found after a crash, which a successful sync of the directory makes the same. While the
  lock is not held other processes may act, as the parameter \<open>rely\<close> allows.
\<close>

definition watermarkFormatVersion :: int where "watermarkFormatVersion = 1"
definition maxWatermarkBytes :: int where "maxWatermarkBytes = 4096"

record Watermark =
  wm_RepositoryID :: repository_id
  wm_Generation :: u64
  wm_Commit :: digest

record watermarkFile =
  wf_Format :: int
  wf_Channel :: bytes
  wf_Repository :: bytes
  wf_Generation :: u64
  wf_Commit :: digest

record 'w WatermarkStore =
  ws_Load :: "bytes \<Rightarrow> ('w, err + Watermark option) state"
  ws_CompareAndSwap :: "bytes \<Rightarrow> Watermark option \<Rightarrow> Watermark \<Rightarrow> ('w, err option) state"

subsection \<open>The file format\<close>

text \<open>\<open>repository_id\<close> is omitted when it is empty.\<close>

definition watermarkFile_to_json :: "watermarkFile \<Rightarrow> json" where
  "watermarkFile_to_json f = JObj ([(''format'', JNum (wf_Format f)), (''channel'', JStr (wf_Channel f))]
     @ (if wf_Repository f = [] then [] else [(''repository_id'', JStr (wf_Repository f))])
     @ [(''generation'', uint_json (wf_Generation f)), (''commit'', digest_json (wf_Commit f))])"

definition watermarkFile_of_json :: "json \<Rightarrow> watermarkFile option" where
  "watermarkFile_of_json j = (case members [''format'', ''channel'', ''repository_id'', ''generation'', ''commit''] j of
     Some vs \<Rightarrow> do {
       format \<leftarrow> as_int64 (vs ! 0);
       channel \<leftarrow> as_string (vs ! 1);
       repository \<leftarrow> as_string (vs ! 2);
       generation \<leftarrow> as_uint64 (vs ! 3);
       commit \<leftarrow> as_digest (vs ! 4);
       if repository = [] then None
       else Some \<lparr>wf_Format = format, wf_Channel = channel, wf_Repository = repository, wf_Generation = generation, wf_Commit = commit\<rparr> }
   | None \<Rightarrow> do {
       vs \<leftarrow> members [''format'', ''channel'', ''generation'', ''commit''] j;
       format \<leftarrow> as_int64 (vs ! 0);
       channel \<leftarrow> as_string (vs ! 1);
       generation \<leftarrow> as_uint64 (vs ! 2);
       commit \<leftarrow> as_digest (vs ! 3);
       Some \<lparr>wf_Format = format, wf_Channel = channel, wf_Repository = [], wf_Generation = generation, wf_Commit = commit\<rparr> })"

definition wf_watermarkFile :: "watermarkFile \<Rightarrow> bool" where
  "wf_watermarkFile f \<longleftrightarrow> is_int64 (wf_Format f) \<and> utf8_valid (wf_Channel f) \<and> utf8_valid (wf_Repository f)"

interpretation wm: json_codec watermarkFile_to_json watermarkFile_of_json wf_watermarkFile
  by unfold_locales
    (auto simp: watermarkFile_to_json_def watermarkFile_of_json_def wf_watermarkFile_def bind_Some
      as_digest_digest_json as_uint64_uint_json split: option.splits if_splits dest: as_int64_Some as_string_Some)

subsection \<open>The file store\<close>

record 'w LocalFile =
  lf_lock :: "('w, err option) state"
  lf_unlock :: "('w, err option) state"
  lf_lstat :: "('w, err + bool) state"
  lf_open :: "('w, err option) state"
  lf_validate :: "('w, err + int) state"
  lf_read :: "int \<Rightarrow> ('w, err + bytes) state"
  lf_create :: "('w, err option) state"
  lf_protect :: "('w, err option) state"
  lf_write :: "bytes \<Rightarrow> ('w, err + int) state"
  lf_sync :: "('w, err option) state"
  lf_close :: "('w, err option) state"
  lf_install :: "('w, err option) state"
  lf_remove :: "('w, unit) state"
  lf_syncdir :: "('w, err option) state"

text \<open>What \<open>loadLocked\<close> makes of the bytes it has read.\<close>

definition parse_watermark :: "bytes \<Rightarrow> bytes \<Rightarrow> err + Watermark" where
  "parse_watermark channel data = okr (decodeJSON watermarkFile_to_json watermarkFile_of_json data) (\<lambda>v.
     if wf_Format v \<noteq> watermarkFormatVersion \<or> wf_Channel v \<noteq> channel \<or> wf_Generation v = 0 \<or> wf_Commit v = 0
     then Inl [ErrCorruptObject]
     else if wf_Repository v \<noteq> [] then
       (case ParseRepositoryID (wf_Repository v) of
          Inl _ \<Rightarrow> Inl [ErrCorruptObject]
        | Inr repositoryID \<Rightarrow> if repositoryID = 0 then Inl [ErrCorruptObject]
            else Inr \<lparr>wm_RepositoryID = repositoryID, wm_Generation = wf_Generation v, wm_Commit = wf_Commit v\<rparr>)
     else Inr \<lparr>wm_RepositoryID = 0, wm_Generation = wf_Generation v, wm_Commit = wf_Commit v\<rparr>)"

definition loadLocked :: "'w LocalFile \<Rightarrow> bytes \<Rightarrow> ('w, err + Watermark option) state" where
  "loadLocked fs channel = do {
     l \<leftarrow> lf_lstat fs;
     ok l (\<lambda>exists. if \<not> exists then return (Inr None)
       else do {
         o' \<leftarrow> lf_open fs;
         check o' (do {
           i \<leftarrow> lf_validate fs;
           ok i (\<lambda>fileSize. if fileSize < 1 \<or> fileSize > maxWatermarkBytes then throw [ErrCorruptObject]
             else do {
               d \<leftarrow> lf_read fs (maxWatermarkBytes + 1);
               ok d (\<lambda>data. ok (parse_watermark channel data) (\<lambda>w. return (Inr (Some w)))) }) }) }) }"

text \<open>The end of \<open>Load\<close>: a watermark that was found is made durable before it is returned.\<close>

definition load_finish :: "'w LocalFile \<Rightarrow> err + Watermark option \<Rightarrow> ('w, err + Watermark option) state" where
  "load_finish fs r = do {
     s \<leftarrow> (case r of Inr (Some _) \<Rightarrow> lf_syncdir fs | _ \<Rightarrow> return None);
     u \<leftarrow> lf_unlock fs;
     case r of Inl e \<Rightarrow> throw e
     | Inr v \<Rightarrow> check s (check u (return (Inr v))) }"

definition watermark_Load :: "'w ctx \<Rightarrow> 'w LocalFile \<Rightarrow> bytes \<Rightarrow> ('w, err + Watermark option) state" where
  "watermark_Load ctx fs channel = do {
     c \<leftarrow> ctx;
     check c (do {
       l \<leftarrow> lf_lock fs;
       check l (do {
         r \<leftarrow> loadLocked fs channel;
         load_finish fs r }) }) }"

text \<open>\<open>errors.Join\<close> of the result and the error of unlocking.\<close>

definition join_errors :: "err option \<Rightarrow> err option \<Rightarrow> err option" where
  "join_errors a b = (case a of None \<Rightarrow> b
     | Some e \<Rightarrow> Some (e @ (case b of None \<Rightarrow> [] | Some e' \<Rightarrow> e')))"

definition watermark_file :: "bytes \<Rightarrow> Watermark \<Rightarrow> watermarkFile" where
  "watermark_file channel next = \<lparr>wf_Format = watermarkFormatVersion, wf_Channel = channel,
     wf_Repository = (if wm_RepositoryID next = 0 then [] else hex256 (wm_RepositoryID next)),
     wf_Generation = wm_Generation next, wf_Commit = wm_Commit next\<rparr>"

abbreviation errs :: "('w, err option) state \<Rightarrow> ('w, err option) state \<Rightarrow> ('w, err option) state" where
  "errs m k \<equiv> State_Monad.bind m (\<lambda>e. case e of Some e \<Rightarrow> return (Some e) | None \<Rightarrow> k)"

text \<open>The part of \<open>CompareAndSwap\<close> that replaces the file, with its deferred removal of the temporary file.\<close>

definition replace_file :: "'w LocalFile \<Rightarrow> bytes \<Rightarrow> ('w, err option) state" where
  "replace_file fs data = errs (lf_create fs) (do {
     p \<leftarrow> lf_protect fs;
     case p of Some e \<Rightarrow> do { _ \<leftarrow> lf_close fs; _ \<leftarrow> lf_remove fs; return (Some e) }
     | None \<Rightarrow> do {
         w \<leftarrow> lf_write fs data;
         case w of Inl e \<Rightarrow> do { _ \<leftarrow> lf_close fs; _ \<leftarrow> lf_remove fs; return (Some e) }
         | Inr written \<Rightarrow>
             if written \<noteq> len data then do { _ \<leftarrow> lf_close fs; _ \<leftarrow> lf_remove fs; return (Some plain_error) }
             else do {
               s \<leftarrow> lf_sync fs;
               case s of Some e \<Rightarrow> do { _ \<leftarrow> lf_close fs; _ \<leftarrow> lf_remove fs; return (Some e) }
               | None \<Rightarrow> do {
                   c \<leftarrow> lf_close fs;
                   case c of Some e \<Rightarrow> do { _ \<leftarrow> lf_remove fs; return (Some e) }
                   | None \<Rightarrow> do {
                       i \<leftarrow> lf_install fs;
                       case i of Some e \<Rightarrow> do { _ \<leftarrow> lf_remove fs; return (Some e) }
                       | None \<Rightarrow> lf_syncdir fs } } } } })"

definition swap_locked :: "'w LocalFile \<Rightarrow> bytes \<Rightarrow> Watermark option \<Rightarrow> Watermark \<Rightarrow> ('w, err option) state" where
  "swap_locked fs channel expected next = do {
     r \<leftarrow> loadLocked fs channel;
     case r of Inl e \<Rightarrow> return (Some e)
     | Inr current \<Rightarrow>
         if current \<noteq> expected then return (Some [ErrPrecondition])
         else (case current of
           Some cur \<Rightarrow>
             if wm_RepositoryID next \<noteq> wm_RepositoryID cur then return (Some [ErrUntrustedReference])
             else if wm_Generation next < wm_Generation cur then return (Some [ErrRollbackDetected])
             else if wm_Generation next = wm_Generation cur \<and> wm_Commit next \<noteq> wm_Commit cur then return (Some [ErrSplitBrain])
             else if next = cur then lf_syncdir fs
             else replace_file fs (canonicalJSON watermarkFile_to_json (watermark_file channel next))
         | None \<Rightarrow> replace_file fs (canonicalJSON watermarkFile_to_json (watermark_file channel next))) }"

definition watermark_CompareAndSwap ::
  "'w ctx \<Rightarrow> 'w LocalFile \<Rightarrow> bytes \<Rightarrow> Watermark option \<Rightarrow> Watermark \<Rightarrow> ('w, err option) state" where
  "watermark_CompareAndSwap ctx fs channel expected next = errs ctx (
     case validateChannel channel of Some e \<Rightarrow> return (Some e)
     | None \<Rightarrow>
         if wm_Generation next = 0 \<or> wm_Commit next = 0 then return (Some [ErrCorruptObject])
         else errs (lf_lock fs) (do {
           result \<leftarrow> swap_locked fs channel expected next;
           u \<leftarrow> lf_unlock fs;
           return (join_errors result u) }))"

definition watermark_Save :: "'w ctx \<Rightarrow> 'w LocalFile \<Rightarrow> bytes \<Rightarrow> Watermark \<Rightarrow> ('w, err option) state" where
  "watermark_Save ctx fs channel next = do {
     r \<leftarrow> watermark_Load ctx fs channel;
     case r of Inl e \<Rightarrow> return (Some e)
     | Inr current \<Rightarrow> watermark_CompareAndSwap ctx fs channel current next }"

definition FileWatermarkStore :: "'w ctx \<Rightarrow> 'w LocalFile \<Rightarrow> 'w WatermarkStore" where
  "FileWatermarkStore ctx fs = \<lparr>ws_Load = watermark_Load ctx fs, ws_CompareAndSwap = watermark_CompareAndSwap ctx fs\<rparr>"


subsection \<open>Order of watermarks\<close>

definition wm_valid :: "Watermark \<Rightarrow> bool" where
  "wm_valid w \<longleftrightarrow> wm_Generation w \<noteq> 0 \<and> wm_Commit w \<noteq> 0"

text \<open>A watermark may be replaced by itself or by one of the same repository with a higher generation.\<close>

definition wm_le :: "Watermark option \<Rightarrow> Watermark option \<Rightarrow> bool" where
  "wm_le a b = (case a of None \<Rightarrow> True | Some x \<Rightarrow> (case b of None \<Rightarrow> False
     | Some y \<Rightarrow> wm_RepositoryID x = wm_RepositoryID y \<and> (wm_Generation x < wm_Generation y \<or> x = y)))"

lemma wm_le_refl [simp]: "wm_le a a"
  by (simp add: wm_le_def split: option.split)

lemma wm_le_None [simp]: "wm_le None b" "wm_le a None \<longleftrightarrow> a = None"
  by (auto simp: wm_le_def split: option.split)

lemma wm_le_trans: "wm_le a b \<Longrightarrow> wm_le b c \<Longrightarrow> wm_le a c"
  by (auto simp: wm_le_def split: option.splits)

lemma wm_le_antisym: "wm_le a b \<Longrightarrow> wm_le b a \<Longrightarrow> a = b"
  by (auto simp: wm_le_def split: option.splits)

lemma wm_le_step:
  assumes "wm_RepositoryID y = wm_RepositoryID x" "\<not> wm_Generation y < wm_Generation x"
    "\<not> (wm_Generation y = wm_Generation x \<and> wm_Commit y \<noteq> wm_Commit x)"
  shows "wm_le (Some x) (Some y)"
  using assms by (cases x; cases y) (auto simp: wm_le_def)

subsection \<open>What a client may rely on\<close>

locale watermark_store =
  fixes wms :: "'w WatermarkStore" and channel :: bytes and durable :: "'w \<Rightarrow> Watermark option" and wm_inv :: "'w \<Rightarrow> bool"
  assumes Load_contract:
    "\<lbrakk>wm_inv w; run_state (ws_Load wms channel) w = (r, w')\<rbrakk> \<Longrightarrow> wm_inv w' \<and> wm_le (durable w) (durable w')
       \<and> (\<forall>v. r = Inr v \<longrightarrow> wm_le (durable w) v \<and> wm_le v (durable w') \<and> (\<forall>x. v = Some x \<longrightarrow> wm_valid x))"
    and CAS_contract:
    "\<lbrakk>wm_inv w; run_state (ws_CompareAndSwap wms channel expected next) w = (e, w')\<rbrakk> \<Longrightarrow>
       wm_inv w' \<and> wm_le (durable w) (durable w') \<and> (e = None \<longrightarrow> wm_le (Some next) (durable w'))"
begin

lemma wp_Load:
  assumes "wm_inv w"
    and "\<And>v w'. \<lbrakk>wm_inv w'; wm_le (durable w) (durable w'); wm_le (durable w) v; wm_le v (durable w'); \<And>x. v = Some x \<Longrightarrow> wm_valid x\<rbrakk>
      \<Longrightarrow> Q (Inr v) w'"
    and "\<And>e w'. \<lbrakk>wm_inv w'; wm_le (durable w) (durable w')\<rbrakk> \<Longrightarrow> Q (Inl e) w'"
  shows "wp (ws_Load wms channel) Q w"
proof (rule wp_op)
  fix r w' assume "run_state (ws_Load wms channel) w = (r, w')"
  from Load_contract [OF assms(1) this] show "Q r w'" using assms(2,3) by (cases r) auto
qed

lemma wp_CAS:
  assumes "wm_inv w"
    and "\<And>e w'. \<lbrakk>wm_inv w'; wm_le (durable w) (durable w'); e = None \<Longrightarrow> wm_le (Some next) (durable w')\<rbrakk> \<Longrightarrow> Q e w'"
  shows "wp (ws_CompareAndSwap wms channel expected next) Q w"
proof (rule wp_op)
  fix e w' assume "run_state (ws_CompareAndSwap wms channel expected next) w = (e, w')"
  from CAS_contract [OF assms(1) this] show "Q e w'" using assms(2) by auto
qed

end

subsection \<open>What the file system promises\<close>

locale local_file =
  fixes fs :: "'w LocalFile" and visible :: "'w \<Rightarrow> bytes option" and persistent :: "'w \<Rightarrow> bytes option"
    and temporary :: "'w \<Rightarrow> bytes option" and synced :: "'w \<Rightarrow> bool"
    and rely :: "bytes option \<times> bytes option \<Rightarrow> bytes option \<times> bytes option \<Rightarrow> bool"
  assumes lock: "run_state (lf_lock fs) w = (e, w') \<Longrightarrow> rely (visible w, persistent w) (visible w', persistent w')"
    and unlock: "run_state (lf_unlock fs) w = (e, w') \<Longrightarrow> rely (visible w, persistent w) (visible w', persistent w')"
    and lstat: "run_state (lf_lstat fs) w = (b, w') \<Longrightarrow> visible w' = visible w \<and> persistent w' = persistent w
      \<and> (\<forall>x. b = Inr x \<longrightarrow> x = (visible w \<noteq> None))"
    and open': "run_state (lf_open fs) w = (e, w') \<Longrightarrow> visible w' = visible w \<and> persistent w' = persistent w"
    and validate: "run_state (lf_validate fs) w = (n, w') \<Longrightarrow> visible w' = visible w \<and> persistent w' = persistent w
      \<and> (\<forall>x. n = Inr x \<longrightarrow> (\<exists>d. visible w = Some d \<and> x = len d))"
    and read: "run_state (lf_read fs limit) w = (d, w') \<Longrightarrow> visible w' = visible w \<and> persistent w' = persistent w
      \<and> (\<forall>x. d = Inr x \<longrightarrow> (\<exists>c. visible w = Some c \<and> x = take (nat limit) c))"
    and create: "run_state (lf_create fs) w = (e, w') \<Longrightarrow> visible w' = visible w \<and> persistent w' = persistent w
      \<and> (e = None \<longrightarrow> temporary w' = Some [])"
    and protect: "run_state (lf_protect fs) w = (e, w') \<Longrightarrow> visible w' = visible w \<and> persistent w' = persistent w
      \<and> temporary w' = temporary w"
    and writes: "run_state (lf_write fs data) w = (n, w') \<Longrightarrow> visible w' = visible w \<and> persistent w' = persistent w
      \<and> (n = Inr (len data) \<longrightarrow> temporary w' = map_option (\<lambda>t. t @ data) (temporary w))"
    and sync: "run_state (lf_sync fs) w = (e, w') \<Longrightarrow> visible w' = visible w \<and> persistent w' = persistent w
      \<and> temporary w' = temporary w \<and> (e = None \<longrightarrow> synced w')"
    and close: "run_state (lf_close fs) w = (e, w') \<Longrightarrow> visible w' = visible w \<and> persistent w' = persistent w
      \<and> temporary w' = temporary w \<and> synced w' = synced w"
    and remove: "run_state (lf_remove fs) w = (u, w') \<Longrightarrow> visible w' = visible w \<and> persistent w' = persistent w"
    and install: "\<lbrakk>run_state (lf_install fs) w = (e, w'); temporary w = Some data; synced w\<rbrakk> \<Longrightarrow>
      (visible w' = Some data \<and> persistent w' \<in> {persistent w, Some data})
      \<or> (e \<noteq> None \<and> visible w' = visible w \<and> persistent w' = persistent w)"
    and syncdir: "run_state (lf_syncdir fs) w = (e, w') \<Longrightarrow> visible w' = visible w \<and> persistent w' \<in> {persistent w, visible w}
      \<and> (e = None \<longrightarrow> persistent w' = visible w)"
begin

text \<open>Replacing the file: it is visible or nothing has changed, and success means that it survives a crash.\<close>

definition replaced :: "bytes \<Rightarrow> 'w \<Rightarrow> err option \<Rightarrow> 'w \<Rightarrow> bool" where
  "replaced data w e w' \<longleftrightarrow>
     (if e = None then visible w' = Some data \<and> persistent w' = Some data
      else (visible w' = visible w \<and> persistent w' = persistent w)
        \<or> (visible w' = Some data \<and> persistent w' \<in> {persistent w, Some data}))"

lemma wp_lstat: "(\<And>e w'. \<lbrakk>visible w' = visible w; persistent w' = persistent w\<rbrakk> \<Longrightarrow> Q (Inl e) w')
    \<Longrightarrow> (\<And>w'. \<lbrakk>visible w' = visible w; persistent w' = persistent w\<rbrakk> \<Longrightarrow> Q (Inr (visible w \<noteq> None)) w') \<Longrightarrow> wp (lf_lstat fs) Q w"
proof -
  assume a: "\<And>e w'. \<lbrakk>visible w' = visible w; persistent w' = persistent w\<rbrakk> \<Longrightarrow> Q (Inl e) w'"
    and b: "\<And>w'. \<lbrakk>visible w' = visible w; persistent w' = persistent w\<rbrakk> \<Longrightarrow> Q (Inr (visible w \<noteq> None)) w'"
  show ?thesis
  proof (rule wp_op)
    fix r w' assume "run_state (lf_lstat fs) w = (r, w')"
    from lstat [OF this] show "Q r w'" using a b by (cases r) auto
  qed
qed

lemma wp_open: "(\<And>e w'. \<lbrakk>visible w' = visible w; persistent w' = persistent w\<rbrakk> \<Longrightarrow> Q e w') \<Longrightarrow> wp (lf_open fs) Q w"
  by (rule wp_op) (use open' in blast)

lemma wp_validate: "(\<And>e w'. \<lbrakk>visible w' = visible w; persistent w' = persistent w\<rbrakk> \<Longrightarrow> Q (Inl e) w')
    \<Longrightarrow> (\<And>d w'. \<lbrakk>visible w' = visible w; persistent w' = persistent w; visible w = Some d\<rbrakk> \<Longrightarrow> Q (Inr (len d)) w') \<Longrightarrow> wp (lf_validate fs) Q w"
proof -
  assume a: "\<And>e w'. \<lbrakk>visible w' = visible w; persistent w' = persistent w\<rbrakk> \<Longrightarrow> Q (Inl e) w'"
    and b: "\<And>d w'. \<lbrakk>visible w' = visible w; persistent w' = persistent w; visible w = Some d\<rbrakk> \<Longrightarrow> Q (Inr (len d)) w'"
  show ?thesis
  proof (rule wp_op)
    fix r w' assume "run_state (lf_validate fs) w = (r, w')"
    from validate [OF this] show "Q r w'" using a b by (cases r) auto
  qed
qed

lemma wp_read: "(\<And>e w'. \<lbrakk>visible w' = visible w; persistent w' = persistent w\<rbrakk> \<Longrightarrow> Q (Inl e) w')
    \<Longrightarrow> (\<And>d w'. \<lbrakk>visible w' = visible w; persistent w' = persistent w; visible w = Some d\<rbrakk> \<Longrightarrow> Q (Inr (take (nat limit) d)) w')
    \<Longrightarrow> wp (lf_read fs limit) Q w"
proof -
  assume a: "\<And>e w'. \<lbrakk>visible w' = visible w; persistent w' = persistent w\<rbrakk> \<Longrightarrow> Q (Inl e) w'"
    and b: "\<And>d w'. \<lbrakk>visible w' = visible w; persistent w' = persistent w; visible w = Some d\<rbrakk> \<Longrightarrow> Q (Inr (take (nat limit) d)) w'"
  show ?thesis
  proof (rule wp_op)
    fix r w' assume "run_state (lf_read fs limit) w = (r, w')"
    from read [OF this] show "Q r w'" using a b by (cases r) auto
  qed
qed

lemma wp_create: "(\<And>e w'. \<lbrakk>visible w' = visible w; persistent w' = persistent w; e = None \<Longrightarrow> temporary w' = Some []\<rbrakk> \<Longrightarrow> Q e w')
    \<Longrightarrow> wp (lf_create fs) Q w"
  by (rule wp_op) (use create in blast)

lemma wp_protect: "(\<And>e w'. \<lbrakk>visible w' = visible w; persistent w' = persistent w; temporary w' = temporary w\<rbrakk> \<Longrightarrow> Q e w')
    \<Longrightarrow> wp (lf_protect fs) Q w"
  by (rule wp_op) (use protect in blast)

lemma wp_write: "(\<And>n w'. \<lbrakk>visible w' = visible w; persistent w' = persistent w;
      n = Inr (len data) \<Longrightarrow> temporary w' = map_option (\<lambda>t. t @ data) (temporary w)\<rbrakk> \<Longrightarrow> Q n w') \<Longrightarrow> wp (lf_write fs data) Q w"
  by (rule wp_op) (use writes in blast)

lemma wp_sync: "(\<And>e w'. \<lbrakk>visible w' = visible w; persistent w' = persistent w; temporary w' = temporary w; e = None \<Longrightarrow> synced w'\<rbrakk> \<Longrightarrow> Q e w')
    \<Longrightarrow> wp (lf_sync fs) Q w"
  by (rule wp_op) (use sync in blast)

lemma wp_close: "(\<And>e w'. \<lbrakk>visible w' = visible w; persistent w' = persistent w; temporary w' = temporary w; synced w' = synced w\<rbrakk> \<Longrightarrow> Q e w')
    \<Longrightarrow> wp (lf_close fs) Q w"
  by (rule wp_op) (use close in blast)

lemma wp_remove: "(\<And>u w'. \<lbrakk>visible w' = visible w; persistent w' = persistent w\<rbrakk> \<Longrightarrow> Q u w') \<Longrightarrow> wp (lf_remove fs) Q w"
  by (rule wp_op) (use remove in blast)

lemma wp_install:
  assumes "temporary w = Some data" "synced w"
    and "\<And>e w'. \<lbrakk>visible w' = Some data; persistent w' \<in> {persistent w, Some data}\<rbrakk> \<Longrightarrow> Q e w'"
    and "\<And>e w'. \<lbrakk>visible w' = visible w; persistent w' = persistent w\<rbrakk> \<Longrightarrow> Q (Some e) w'"
  shows "wp (lf_install fs) Q w"
proof (rule wp_op)
  fix e w' assume "run_state (lf_install fs) w = (e, w')"
  from install [OF this assms(1,2)] show "Q e w'" using assms(3,4) by (cases e) auto
qed

lemma wp_syncdir: "(\<And>e w'. \<lbrakk>visible w' = visible w; persistent w' \<in> {persistent w, visible w}; e = None \<Longrightarrow> persistent w' = visible w\<rbrakk> \<Longrightarrow> Q e w')
    \<Longrightarrow> wp (lf_syncdir fs) Q w"
  by (rule wp_op) (use syncdir in blast)

lemmas wp_fs = wp_open wp_create wp_protect wp_write wp_sync wp_close wp_remove wp_syncdir

lemma replace_file_spec: "wp (replace_file fs data) (replaced data w) w"
  unfolding replace_file_def
  by (auto simp: wp_simps replaced_def intro!: wp_fs wp_install [where data = data])

text \<open>Loading reads what is visible, and finds a file exactly when there is one.\<close>

lemma loadLocked_spec:
  "wp (loadLocked fs channel) (\<lambda>r w'. visible w' = visible w \<and> persistent w' = persistent w
    \<and> (\<forall>v. r = Inr v \<longrightarrow> (case v of None \<Rightarrow> visible w = None
        | Some x \<Rightarrow> \<exists>d. visible w = Some d \<and> len d \<le> maxWatermarkBytes \<and> parse_watermark channel d = Inr x))) w"
proof -
  have t: "take (nat (maxWatermarkBytes + 1)) d = d" if "len d \<le> maxWatermarkBytes" for d :: bytes
    using that by (simp add: maxWatermarkBytes_def)
  show ?thesis unfolding loadLocked_def
    by (auto simp: wp_simps t not_less intro!: wp_lstat wp_open wp_validate wp_read)
qed

end


subsection \<open>The file store keeps the contract\<close>

definition encode_watermark :: "bytes \<Rightarrow> Watermark \<Rightarrow> bytes" where
  "encode_watermark channel w = canonicalJSON watermarkFile_to_json (watermark_file channel w)"

lemma validateChannel_utf8: "validateChannel channel = None \<Longrightarrow> utf8_valid channel"
  by (simp add: validateChannel_def split: if_splits)

lemma parse_watermark_valid: "parse_watermark channel d = Inr w \<Longrightarrow> wm_valid w"
  by (auto simp: parse_watermark_def wm_valid_def split: if_splits sum.splits)

lemma parse_encode_watermark:
  assumes "utf8_valid channel" "wm_valid w" "len (encode_watermark channel w) \<le> maxWatermarkBytes"
  shows "parse_watermark channel (encode_watermark channel w) = Inr w"
proof -
  have "wf_watermarkFile (watermark_file channel w)"
    using assms(1) by (simp add: wf_watermarkFile_def watermark_file_def watermarkFormatVersion_def is_int64_def
        maxInt64_def ascii_utf8_valid)
  moreover have "len (encode_watermark channel w) \<le> maxMetadataObjectBytes"
    using assms(3) by (simp add: maxWatermarkBytes_def maxMetadataObjectBytes_def)
  ultimately have "decodeJSON watermarkFile_to_json watermarkFile_of_json (encode_watermark channel w) = Inr (watermark_file channel w)"
    unfolding encode_watermark_def by (rule wm.decode_canonical)
  moreover have "hex256 (wm_RepositoryID w) \<noteq> []" using length_hex256 [of "wm_RepositoryID w"] by (metis list.size(3) zero_neq_numeral)
  ultimately show ?thesis using assms(2)
    by (auto simp: parse_watermark_def watermark_file_def ParseRepositoryID_def wm_valid_def)
qed

definition decoded :: "bytes \<Rightarrow> bytes option \<Rightarrow> Watermark option" where
  "decoded channel c = (case c of None \<Rightarrow> None
     | Some d \<Rightarrow> (case parse_watermark channel d of Inr w \<Rightarrow> Some w | Inl _ \<Rightarrow> None))"

definition readable :: "bytes \<Rightarrow> bytes option \<Rightarrow> bool" where
  "readable channel c \<longleftrightarrow> (\<forall>d. c = Some d \<longrightarrow> len d \<le> maxWatermarkBytes \<and> (\<exists>w. parse_watermark channel d = Inr w))"

text \<open>Both contents are readable, and what survives a crash is not ahead of what is visible.\<close>

definition file_good :: "bytes \<Rightarrow> bytes option \<times> bytes option \<Rightarrow> bool" where
  "file_good channel s \<longleftrightarrow> readable channel (fst s) \<and> readable channel (snd s)
     \<and> wm_le (decoded channel (snd s)) (decoded channel (fst s))"

text \<open>Other processes follow the same discipline.\<close>

definition wm_rely :: "bytes \<Rightarrow> bytes option \<times> bytes option \<Rightarrow> bytes option \<times> bytes option \<Rightarrow> bool" where
  "wm_rely channel s s' \<longleftrightarrow> (file_good channel s \<longrightarrow> file_good channel s'
     \<and> wm_le (decoded channel (fst s)) (decoded channel (fst s')) \<and> wm_le (decoded channel (snd s)) (decoded channel (snd s')))"

lemma decoded_simps [simp]:
  "decoded channel None = None" "parse_watermark channel d = Inr w \<Longrightarrow> decoded channel (Some d) = Some w"
  by (simp_all add: decoded_def)

lemma readable_simps [simp]: "readable channel None"
  by (simp add: readable_def)

lemma wm_relyD:
  assumes "wm_rely channel s s'" "file_good channel s"
  shows "file_good channel s'" "wm_le (decoded channel (snd s)) (decoded channel (snd s'))"
  using assms by (auto simp: wm_rely_def)

locale watermark_disk = local_file fs visible persistent temporary synced "wm_rely channel"
  for fs :: "'w LocalFile" and visible persistent temporary :: "'w \<Rightarrow> bytes option" and synced :: "'w \<Rightarrow> bool" and channel :: bytes +
  fixes ctx :: "'w ctx"
  assumes ctx_rely: "run_state ctx w = (e, w') \<Longrightarrow> wm_rely channel (visible w, persistent w) (visible w', persistent w')"
    and channel_ok: "validateChannel channel = None"
    and channel_fits: "len (encode_watermark channel x) \<le> maxWatermarkBytes"
begin

abbreviation content :: "'w \<Rightarrow> bytes option \<times> bytes option" where
  "content w \<equiv> (visible w, persistent w)"

abbreviation file_durable :: "'w \<Rightarrow> Watermark option" where
  "file_durable w \<equiv> decoded channel (persistent w)"

abbreviation file_inv :: "'w \<Rightarrow> bool" where
  "file_inv w \<equiv> file_good channel (content w)"

lemma wp_rely:
  assumes "file_inv w" "m \<in> {ctx, lf_lock fs, lf_unlock fs}"
    and "\<And>e w'. \<lbrakk>file_inv w'; wm_le (file_durable w) (file_durable w')\<rbrakk> \<Longrightarrow> Q e w'"
  shows "wp m Q w"
proof (rule wp_op)
  fix e w' assume "run_state m w = (e, w')"
  then have "wm_rely channel (content w) (content w')" using assms(2) ctx_rely lock unlock by blast
  from wm_relyD [OF this assms(1)] show "Q e w'" using assms(3) by simp
qed

lemma loaded_spec:
  assumes "file_inv w"
  shows "wp (loadLocked fs channel) (\<lambda>r w'. content w' = content w \<and> (\<forall>v. r = Inr v \<longrightarrow> v = decoded channel (visible w)
    \<and> (\<forall>x. v = Some x \<longrightarrow> wm_valid x))) w"
proof (rule wp_conseq [OF loadLocked_spec])
  fix r w'
  assume "visible w' = visible w \<and> persistent w' = persistent w
    \<and> (\<forall>v. r = Inr v \<longrightarrow> (case v of None \<Rightarrow> visible w = None
        | Some x \<Rightarrow> \<exists>d. visible w = Some d \<and> len d \<le> maxWatermarkBytes \<and> parse_watermark channel d = Inr x))"
  moreover from this have "v = decoded channel (visible w) \<and> (\<forall>x. v = Some x \<longrightarrow> wm_valid x)" if "r = Inr v" for v
    using that by (cases v) (auto dest: parse_watermark_valid)
  ultimately show "content w' = content w \<and> (\<forall>v. r = Inr v \<longrightarrow> v = decoded channel (visible w) \<and> (\<forall>x. v = Some x \<longrightarrow> wm_valid x))"
    by blast
qed

lemma file_good_sync:
  assumes "file_inv w" "visible w' = visible w" "persistent w' \<in> {persistent w, visible w}"
  shows "file_inv w' \<and> wm_le (file_durable w) (file_durable w')"
  using assms by (auto simp: file_good_def)

lemma load_finish_spec:
  assumes g: "file_inv w1" "wm_le (file_durable w) (file_durable w1)"
    and v: "\<And>v. r = Inr v \<Longrightarrow> v = decoded channel (visible w1) \<and> (\<forall>x. v = Some x \<longrightarrow> wm_valid x)"
  shows "wp (load_finish fs r) (\<lambda>r w'. file_inv w' \<and> wm_le (file_durable w) (file_durable w')
    \<and> (\<forall>v. r = Inr v \<longrightarrow> wm_le (file_durable w) v \<and> wm_le v (file_durable w') \<and> (\<forall>x. v = Some x \<longrightarrow> wm_valid x))) w1"
    (is "wp _ ?Q w1")
proof -
  have un: "wp (lf_unlock fs) (\<lambda>u. ?Q (r u)) w2"
    if "file_inv w2" "wm_le (file_durable w) (file_durable w2)"
      "\<And>u v. r u = Inr v \<Longrightarrow> wm_le (file_durable w) v \<and> wm_le v (file_durable w2) \<and> (\<forall>x. v = Some x \<longrightarrow> wm_valid x)" for w2 r
    by (rule wp_rely) (use that in \<open>auto intro: wm_le_trans\<close>)
  have le: "wm_le (file_durable w) (decoded channel (visible w1))"
    using g wm_le_trans by (auto simp: file_good_def)
  have fin: "wp (lf_unlock fs) (\<lambda>u. wp (check s (check u (return (Inr v)))) ?Q) w2"
    if "file_inv w2" "wm_le (file_durable w) (file_durable w2)"
      "s = None \<Longrightarrow> wm_le (file_durable w) v \<and> wm_le v (file_durable w2) \<and> (\<forall>x. v = Some x \<longrightarrow> wm_valid x)" for s v w2
  proof -
    have "wp (lf_unlock fs) (\<lambda>u. ?Q (case s of Some e \<Rightarrow> Inl e | None \<Rightarrow> (case u of Some e \<Rightarrow> Inl e | None \<Rightarrow> Inr v))) w2"
      using that by (intro un) (auto split: option.splits)
    then show ?thesis by (rule wp_conseq) (auto simp: check_def split: option.splits)
  qed
  show ?thesis
  proof (cases r)
    case (Inl e)
    have "wp (lf_unlock fs) (\<lambda>u. wp (throw e) ?Q) w1"
      by (rule wp_conseq [OF un [of w1 "\<lambda>_. Inl e"]]) (use g in auto)
    then show ?thesis using Inl by (simp add: load_finish_def wp_bind)
  next
    case (Inr v')
    show ?thesis
    proof (cases v')
      case None
      then show ?thesis using Inr v [OF Inr] le g fin [of w1 None None] by (simp add: load_finish_def wp_bind)
    next
      case (Some x)
      have "wp (lf_unlock fs) (\<lambda>u. wp (check s (check u (return (Inr v')))) ?Q) w2"
        if "visible w2 = visible w1" "persistent w2 \<in> {persistent w1, visible w1}" "s = None \<Longrightarrow> persistent w2 = visible w1" for s w2
        using file_good_sync [OF g(1) that(1,2)] that(3) v [OF Inr] le g(2) by (intro fin) (auto intro: wm_le_trans)
      then have "wp (lf_syncdir fs) (\<lambda>s. wp (lf_unlock fs) (\<lambda>u. wp (check s (check u (return (Inr v')))) ?Q)) w1"
        by (rule wp_syncdir)
      then show ?thesis using Inr Some by (simp add: load_finish_def wp_bind_fun del: check_simps)
    qed
  qed
qed

lemma file_Load:
  assumes "file_inv w"
  shows "wp (watermark_Load ctx fs channel) (\<lambda>r w'. file_inv w' \<and> wm_le (file_durable w) (file_durable w')
    \<and> (\<forall>v. r = Inr v \<longrightarrow> wm_le (file_durable w) v \<and> wm_le v (file_durable w') \<and> (\<forall>x. v = Some x \<longrightarrow> wm_valid x))) w"
    (is "wp _ ?Q w")
proof -
  have load: "wp (loadLocked fs channel) (\<lambda>r. wp (load_finish fs r) ?Q) w2"
    if "file_inv w2" "wm_le (file_durable w) (file_durable w2)" for w2
    by (rule wp_conseq [OF loaded_spec [OF that(1)]], rule load_finish_spec) (use that in auto)
  have lock: "wp (lf_lock fs) (\<lambda>l. wp (check l (do { r \<leftarrow> loadLocked fs channel; load_finish fs r })) ?Q) w1"
    if "file_inv w1" "wm_le (file_durable w) (file_durable w1)" for w1
  proof (rule wp_rely [OF that(1)])
    fix l w2 assume 2: "file_inv w2" "wm_le (file_durable w1) (file_durable w2)"
    then have le: "wm_le (file_durable w) (file_durable w2)" using that(2) wm_le_trans by blast
    then show "wp (check l (do { r \<leftarrow> loadLocked fs channel; load_finish fs r })) ?Q w2"
      using load [OF 2(1) le] 2(1) by (cases l) (simp_all add: wp_bind)
  qed simp
  show ?thesis
    unfolding watermark_Load_def wp_bind
  proof (rule wp_rely [OF assms])
    fix c w1 assume 1: "file_inv w1" "wm_le (file_durable w) (file_durable w1)"
    show "wp (check c (lf_lock fs \<bind> (\<lambda>l. check l (loadLocked fs channel \<bind> load_finish fs)))) ?Q w1"
      using lock [OF 1] 1 by (cases c) (simp_all add: wp_bind)
  qed simp
qed

text \<open>Under the lock: the swap keeps the discipline, and success means that \<open>next\<close> survives a crash.\<close>

definition swapped :: "Watermark \<Rightarrow> 'w \<Rightarrow> err option \<Rightarrow> 'w \<Rightarrow> bool" where
  "swapped next w e w' \<longleftrightarrow> file_inv w' \<and> wm_le (file_durable w) (file_durable w') \<and> (e = None \<longrightarrow> file_durable w' = Some next)"

lemma replace_swapped:
  assumes "file_inv w" "wm_valid next" "wm_le (decoded channel (visible w)) (Some next)"
  shows "wp (replace_file fs (encode_watermark channel next)) (swapped next w) w"
proof (rule wp_conseq [OF replace_file_spec])
  fix e w' assume r: "replaced (encode_watermark channel next) w e w'"
  have p: "parse_watermark channel (encode_watermark channel next) = Inr next"
    using parse_encode_watermark [OF validateChannel_utf8 [OF channel_ok] assms(2) channel_fits] .
  have rd: "readable channel (Some (encode_watermark channel next))" using p channel_fits by (simp add: readable_def)
  have le: "wm_le (file_durable w) (Some next)" using assms(1,3) wm_le_trans by (auto simp: file_good_def)
  show "swapped next w e w'"
    using r assms(1) le rd p unfolding swapped_def replaced_def file_good_def by (auto split: if_splits)
qed

lemma swap_locked_spec:
  assumes "file_inv w" "wm_valid next"
  shows "wp (swap_locked fs channel expected next) (swapped next w) w"
proof -
  have sync: "wp (lf_syncdir fs) (swapped next w) w1" if "content w1 = content w" "decoded channel (visible w) = Some next" for w1
    by (rule wp_syncdir) (use that assms in \<open>auto simp: swapped_def file_good_def\<close>)
  have rep: "wp (replace_file fs (encode_watermark channel next)) (swapped next w) w1"
    if "content w1 = content w" "wm_le (decoded channel (visible w)) (Some next)" for w1
  proof -
    have "swapped next w1 = swapped next w" using that(1) by (simp add: swapped_def fun_eq_iff)
    then show ?thesis using replace_swapped [of w1 "next"] that assms by simp
  qed
  show ?thesis
    unfolding swap_locked_def wp_bind
  proof (rule wp_conseq [OF loaded_spec [OF assms(1)]])
    fix r :: "err + Watermark option" and w1
    assume l: "content w1 = content w \<and> (\<forall>v. r = Inr v \<longrightarrow> v = decoded channel (visible w) \<and> (\<forall>x. v = Some x \<longrightarrow> wm_valid x))"
    have "swapped next w (Some e) w1" for e using l assms(1) by (auto simp: swapped_def)
    then show "wp (case r of Inl e \<Rightarrow> return (Some e)
     | Inr current \<Rightarrow>
         if current \<noteq> expected then return (Some [ErrPrecondition])
         else (case current of
           Some cur \<Rightarrow>
             if wm_RepositoryID next \<noteq> wm_RepositoryID cur then return (Some [ErrUntrustedReference])
             else if wm_Generation next < wm_Generation cur then return (Some [ErrRollbackDetected])
             else if wm_Generation next = wm_Generation cur \<and> wm_Commit next \<noteq> wm_Commit cur then return (Some [ErrSplitBrain])
             else if next = cur then lf_syncdir fs
             else replace_file fs (canonicalJSON watermarkFile_to_json (watermark_file channel next))
         | None \<Rightarrow> replace_file fs (canonicalJSON watermarkFile_to_json (watermark_file channel next)))) (swapped next w) w1"
      using l sync [of w1] rep [of w1] wm_le_step [of "next"] unfolding encode_watermark_def
      by (auto split: sum.splits option.splits)
  qed
qed

lemma file_CAS:
  assumes "file_inv w"
  shows "wp (watermark_CompareAndSwap ctx fs channel expected next) (\<lambda>e w'. file_inv w' \<and> wm_le (file_durable w) (file_durable w')
    \<and> (e = None \<longrightarrow> wm_le (Some next) (file_durable w'))) w" (is "wp _ ?Q w")
proof -
  have un: "wp (lf_unlock fs) (\<lambda>u. ?Q (join_errors e u)) w2"
    if "swapped next w1 e w2" "wm_le (file_durable w) (file_durable w1)" for e w1 w2
  proof (rule wp_rely)
    fix u w3 assume 3: "file_inv w3" "wm_le (file_durable w2) (file_durable w3)"
    have "wm_le (file_durable w) (file_durable w2)" using that wm_le_trans unfolding swapped_def by blast
    then have "wm_le (file_durable w) (file_durable w3)" using 3(2) wm_le_trans by blast
    moreover have "e = None" if "join_errors e u = None" using that by (cases e; cases u) (simp_all add: join_errors_def)
    ultimately show "?Q (join_errors e u) w3" using 3 that(1) unfolding swapped_def by auto
  qed (use that in \<open>simp_all add: swapped_def\<close>)
  have locked: "wp (swap_locked fs channel expected next) (\<lambda>e. wp (lf_unlock fs) (\<lambda>u. ?Q (join_errors e u))) w1"
    if "file_inv w1" "wm_valid next" "wm_le (file_durable w) (file_durable w1)" for w1
    by (rule wp_conseq [OF swap_locked_spec [OF that(1,2)]]) (rule un [OF _ that(3)])
  have lock: "wp (errs (lf_lock fs) (do { result \<leftarrow> swap_locked fs channel expected next; u \<leftarrow> lf_unlock fs;
           return (join_errors result u) })) ?Q w1"
    if "file_inv w1" "wm_valid next" "wm_le (file_durable w) (file_durable w1)" for w1
    unfolding wp_bind
  proof (rule wp_rely [OF that(1)])
    fix e w2 assume 2: "file_inv w2" "wm_le (file_durable w1) (file_durable w2)"
    then have le: "wm_le (file_durable w) (file_durable w2)" using that(3) wm_le_trans by blast
    show "wp (case e of Some e \<Rightarrow> return (Some e) | None \<Rightarrow> do { result \<leftarrow> swap_locked fs channel expected next; u \<leftarrow> lf_unlock fs;
           return (join_errors result u) }) ?Q w2"
      using locked [OF 2(1) that(2) le] 2(1) le by (cases e) (simp_all add: wp_bind_fun wp_return_fun)
  qed simp
  show ?thesis
    unfolding watermark_CompareAndSwap_def wp_bind [of ctx]
  proof (rule wp_rely [OF assms])
    fix e w1 assume 1: "file_inv w1" "wm_le (file_durable w) (file_durable w1)"
    show "wp (case e of Some e \<Rightarrow> return (Some e) | None \<Rightarrow> (case validateChannel channel of Some e \<Rightarrow> return (Some e)
     | None \<Rightarrow>
         if wm_Generation next = 0 \<or> wm_Commit next = 0 then return (Some [ErrCorruptObject])
         else errs (lf_lock fs) (do {
           result \<leftarrow> swap_locked fs channel expected next;
           u \<leftarrow> lf_unlock fs;
           return (join_errors result u) }))) ?Q w1"
      using lock [OF 1(1) _ 1(2)] 1 channel_ok by (cases e) (simp_all add: wm_valid_def)
  qed simp
qed

lemma file_watermark_store:
  "watermark_store (FileWatermarkStore ctx fs) channel file_durable file_inv"
proof
  show "file_inv w' \<and> wm_le (file_durable w) (file_durable w')
       \<and> (\<forall>v. r = Inr v \<longrightarrow> wm_le (file_durable w) v \<and> wm_le v (file_durable w') \<and> (\<forall>x. v = Some x \<longrightarrow> wm_valid x))"
    if "file_inv w" "run_state (ws_Load (FileWatermarkStore ctx fs) channel) w = (r, w')" for w r w'
    using wp_run [OF file_Load [OF that(1)]] that(2) by (simp add: FileWatermarkStore_def)
  show "file_inv w' \<and> wm_le (file_durable w) (file_durable w') \<and> (e = None \<longrightarrow> wm_le (Some next) (file_durable w'))"
    if "file_inv w" "run_state (ws_CompareAndSwap (FileWatermarkStore ctx fs) channel expected next) w = (e, w')" for w expected "next" e w'
    using wp_run [OF file_CAS [OF that(1)]] that(2) by (simp add: FileWatermarkStore_def)
qed

end

sublocale watermark_disk \<subseteq> disk: watermark_store "FileWatermarkStore ctx fs" channel "\<lambda>w. decoded channel (persistent w)"
  "\<lambda>w. file_good channel (visible w, persistent w)"
  by (rule file_watermark_store)

subsection \<open>Size of the file\<close>

lemma length_esc_ascii: "length (esc_ascii c) \<le> 6"
  by (simp add: esc_ascii_def Let_def u_escape_def split: option.split)

lemma length_json_escape: "length (json_escape s) \<le> 6 * length s"
proof (induction s rule: json_escape.induct)
  case (2 c cs)
  have d: "6 + 6 * length (drop 3 (c # cs)) \<le> 6 * length (c # cs)" if "take 3 (c # cs) = t" "length t = 3" for t
    using that by (cases cs; cases "tl cs") auto
  show ?case
  proof (cases "of_char c < (128 :: nat)")
    case True
    then show ?thesis using "2.IH"(1) length_esc_ascii [of c] by (simp add: json_escape.simps)
  next
    case a: False
    show ?thesis
    proof (cases "rune_len (c # cs) = 0")
      case True
      then show ?thesis using a "2.IH"(2) by (simp add: json_escape.simps u_escape_def)
    next
      case b: False
      consider "take 3 (c # cs) = line_sep" | "take 3 (c # cs) \<noteq> line_sep" "take 3 (c # cs) = para_sep"
        | "take 3 (c # cs) \<noteq> line_sep" "take 3 (c # cs) \<noteq> para_sep" by blast
      then show ?thesis
      proof cases
        case 1
        then show ?thesis using a b "2.IH"(3) d [OF 1] by (simp add: json_escape.simps u_escape_def line_sep_def)
      next
        case 2
        then show ?thesis using a b "2.IH"(4) d [OF 2(2)] by (simp add: json_escape.simps u_escape_def para_sep_def)
      next
        case 3
        have "length (json_escape (drop (rune_len (c # cs)) (c # cs))) \<le> 6 * length (drop (rune_len (c # cs)) (c # cs))"
          using "2.IH"(5) [OF a b 3] .
        then show ?thesis using a b 3 by (simp add: json_escape.simps)
      qed
    qed
  qed
qed simp

lemma length_dec_uint64: "length (dec_int (uint (g :: u64))) \<le> 20"
proof -
  have "unat g < 2 ^ 64" using unsigned_less [of g] by simp
  also have "(2 :: nat) ^ 64 < 10 ^ 20" by simp
  finally have "length (dec (unat g)) \<le> 20" by (intro length_dec) auto
  then show ?thesis by (simp add: dec_int_def)
qed

lemma length_print_string: "length (print_string s) \<le> 6 * length s + 2"
  using length_json_escape [of s] by (simp add: print_string_def)

text \<open>A channel name of at most 500 bytes always leaves the file within its limit, whatever has to be escaped.\<close>

lemma watermark_fits:
  assumes "length channel \<le> 500"
  shows "len (encode_watermark channel w) \<le> maxWatermarkBytes"
proof -
  have "length (json_print (watermarkFile_to_json (watermark_file channel w))) \<le> 4096"
    using assms length_print_string [of channel] length_print_string [of "hex256 (wm_RepositoryID w)"]
      length_print_string [of "hex256 (wm_Commit w)"] length_dec_uint64 [of "wm_Generation w"]
      length_print_string [of "''format''"] length_print_string [of "''channel''"] length_print_string [of "''repository_id''"]
      length_print_string [of "''generation''"] length_print_string [of "''commit''"] length_dec [of 1 1]
    by (simp add: watermarkFile_to_json_def watermark_file_def watermarkFormatVersion_def digest_json_def uint_json_def dec_int_def)
  then show ?thesis by (simp add: encode_watermark_def canonicalJSON_def maxWatermarkBytes_def)
qed

subsection \<open>An in-memory disk\<close>

record memfile =
  mf_visible :: "bytes option"
  mf_persistent :: "bytes option"
  mf_temporary :: "bytes option"
  mf_synced :: bool

definition memfs :: "memfile LocalFile" where
  "memfs = \<lparr>lf_lock = return None, lf_unlock = return None,
     lf_lstat = State (\<lambda>w. (Inr (mf_visible w \<noteq> None), w)),
     lf_open = return None,
     lf_validate = State (\<lambda>w. (case mf_visible w of None \<Rightarrow> Inl plain_error | Some d \<Rightarrow> Inr (len d), w)),
     lf_read = (\<lambda>n. State (\<lambda>w. (case mf_visible w of None \<Rightarrow> Inl plain_error | Some d \<Rightarrow> Inr (take (nat n) d), w))),
     lf_create = State (\<lambda>w. (None, w\<lparr>mf_temporary := Some [], mf_synced := False\<rparr>)),
     lf_protect = return None,
     lf_write = (\<lambda>data. State (\<lambda>w. (Inr (len data), w\<lparr>mf_temporary := map_option (\<lambda>t. t @ data) (mf_temporary w), mf_synced := False\<rparr>))),
     lf_sync = State (\<lambda>w. (None, w\<lparr>mf_synced := True\<rparr>)),
     lf_close = return None,
     lf_install = State (\<lambda>w. (None, w\<lparr>mf_visible := mf_temporary w, mf_temporary := None\<rparr>)),
     lf_remove = State (\<lambda>w. ((), w\<lparr>mf_temporary := None\<rparr>)),
     lf_syncdir = State (\<lambda>w. (None, w\<lparr>mf_persistent := mf_visible w\<rparr>))\<rparr>"

lemma wm_rely_refl [simp]: "wm_rely channel s s"
  by (simp add: wm_rely_def)

lemma memfs_disk:
  assumes "validateChannel channel = None" "length channel \<le> 500"
  shows "watermark_disk memfs mf_visible mf_persistent mf_temporary mf_synced channel (return None)"
  using assms by unfold_locales (auto simp: memfs_def watermark_fits split: option.splits)

interpretation mem_disk: watermark_disk memfs mf_visible mf_persistent mf_temporary mf_synced "''main''" "return None"
  by (rule memfs_disk) (simp_all add: validateChannel_def utf8_valid.simps)



definition empty_disk :: memfile where
  "empty_disk = \<lparr>mf_visible = None, mf_persistent = None, mf_temporary = None, mf_synced = False\<rparr>"

definition demo_watermark :: Watermark where
  "demo_watermark = \<lparr>wm_RepositoryID = 0, wm_Generation = 3, wm_Commit = 5\<rparr>"

lemma demo_swap:
  "run_state (watermark_CompareAndSwap (return None) memfs ''main'' None demo_watermark) empty_disk
   = (None, \<lparr>mf_visible = Some (encode_watermark ''main'' demo_watermark), mf_persistent = Some (encode_watermark ''main'' demo_watermark),
       mf_temporary = None, mf_synced = True\<rparr>)"
  by (simp add: watermark_CompareAndSwap_def swap_locked_def loadLocked_def replace_file_def memfs_def empty_disk_def
      encode_watermark_def validateChannel_def utf8_valid.simps demo_watermark_def join_errors_def)


subsection \<open>A channel name the file cannot hold\<close>

lemma escape_lt: "json_escape (replicate n (CHR ''<'')) = concat (replicate n (u_escape ''003c''))"
proof (induction n)
  case (Suc n)
  have "esc_ascii (CHR ''<'') = u_escape ''003c''" by code_simp
  then show ?case using Suc by (simp add: json_escape.simps)
qed simp

lemma utf8_lt: "utf8_valid (replicate n (CHR ''<''))"
  by (rule ascii_utf8_valid) (simp add: ascii_def list_all_iff)

definition long_channel :: bytes where
  "long_channel = replicate 700 (CHR ''<'')"

lemma long_channel_ok: "validateChannel long_channel = None"
proof -
  have "long_channel \<noteq> []" "CHR 0x00 \<notin> set long_channel" "length long_channel = 700"
    by (simp_all add: long_channel_def)
  then show ?thesis using utf8_lt [of 700] by (simp add: validateChannel_def long_channel_def [symmetric])
qed

lemma long_channel_over: "len (encode_watermark long_channel w) > maxWatermarkBytes"
proof -
  have "length (concat (replicate n (u_escape ''003c''))) = 6 * n" for n
    by (induction n) (simp_all add: u_escape_def)
  then have "length (print_string long_channel) = 4202"
    by (simp add: print_string_def long_channel_def escape_lt)
  then have "4202 \<le> length (json_print (watermarkFile_to_json (watermark_file long_channel w)))"
    by (simp add: watermarkFile_to_json_def watermark_file_def)
  then show ?thesis by (simp add: encode_watermark_def canonicalJSON_def maxWatermarkBytes_def)
qed

text \<open>
  C38. A watermark can be stored that cannot be read back. For a channel name of 700 characters that
  JSON escapes, which \<open>validateChannel\<close> accepts, \<open>CompareAndSwap\<close> on an empty disk succeeds, and
  every later \<open>Load\<close> and \<open>CompareAndSwap\<close> of the channel fails with \<open>ErrCorruptObject\<close>: the
  writer has no check against \<open>maxWatermarkBytes\<close>.
\<close>

theorem watermark_oversize:
  assumes "wm_valid mark"
  shows "validateChannel long_channel = None
    \<and> (case run_state (watermark_CompareAndSwap (return None) memfs long_channel None mark) empty_disk of (e, w) \<Rightarrow>
        e = None
        \<and> fst (run_state (watermark_Load (return None) memfs long_channel) w) = Inl [ErrCorruptObject]
        \<and> fst (run_state (watermark_CompareAndSwap (return None) memfs long_channel (Some mark) mark) w) = Some [ErrCorruptObject])"
proof -
  let ?w = "\<lparr>mf_visible = Some (encode_watermark long_channel mark), mf_persistent = Some (encode_watermark long_channel mark),
         mf_temporary = None, mf_synced = True\<rparr>"
  have cas: "run_state (watermark_CompareAndSwap (return None) memfs long_channel None mark) empty_disk = (None, ?w)"
    using assms by (simp add: watermark_CompareAndSwap_def swap_locked_def loadLocked_def replace_file_def memfs_def empty_disk_def
        encode_watermark_def long_channel_ok wm_valid_def join_errors_def)
  have load: "run_state (loadLocked memfs long_channel) ?w = (Inl [ErrCorruptObject], ?w)"
    using long_channel_over [of mark] by (simp add: loadLocked_def memfs_def)
  have ops: "lf_lock memfs = return None" "lf_unlock memfs = return None" by (simp_all add: memfs_def)
  have 1: "fst (run_state (watermark_Load (return None) memfs long_channel) ?w) = Inl [ErrCorruptObject]"
    using load by (simp add: watermark_Load_def load_finish_def ops)
  have 2: "fst (run_state (watermark_CompareAndSwap (return None) memfs long_channel (Some mark) mark) ?w) = Some [ErrCorruptObject]"
    using load assms by (simp add: watermark_CompareAndSwap_def swap_locked_def long_channel_ok wm_valid_def join_errors_def ops)
  show ?thesis unfolding cas using 1 2 long_channel_ok by simp
qed

theorem watermark_oversize_witness:
  "fst (run_state (watermark_CompareAndSwap (return None) memfs long_channel None demo_watermark) empty_disk) = None"
proof -
  have "wm_valid demo_watermark" by (simp add: wm_valid_def demo_watermark_def)
  then show ?thesis using watermark_oversize [of demo_watermark] by (simp split: prod.splits)
qed

end
