(* ===== verification/Weighted_Semaphore.thy ===== *)
theory Weighted_Semaphore
  imports Prelude
begin

section \<open>The weighted semaphore\<close>

text \<open>
  \<open>internal/syncutil/weighted_semaphore.go\<close>, the byte budget of concurrent downloads. The code
  between \<open>mu.Lock\<close> and \<open>mu.Unlock\<close> is one step: \<open>Acquire_enter\<close> is the body of
  \<open>Acquire\<close> up to the \<open>select\<close>, \<open>Acquire_cancel\<close> its second branch, \<open>Release\<close> and
  \<open>grantLocked\<close> the methods of that name. A waiter is the number of its call and its weight;
  the queue is \<open>ws_waiters\<close>, and \<open>ws_granted\<close> holds the waiters whose \<open>granted\<close> flag is set
  and whose call has not returned.

  The relation \<open>sem_step\<close> interleaves the steps of any number of calls. Its state also keeps
  \<open>held\<close>, the reservations of calls that have returned nil and have not been released.
\<close>

type_synonym waiter = "nat \<times> int"

record WeightedSemaphore =
  ws_capacity :: int
  ws_used :: int
  ws_waiters :: "waiter list"
  ws_granted :: "waiter list"
  ws_limitErr :: "err option"

definition NewWeightedSemaphore :: "int \<Rightarrow> err option \<Rightarrow> WeightedSemaphore" where
  "NewWeightedSemaphore capacity limitErr = \<lparr>ws_capacity = capacity, ws_used = 0, ws_waiters = [],
     ws_granted = [], ws_limitErr = limitErr\<rparr>"

text \<open>The loop of \<open>grantLocked\<close>: the waiters it takes from the front, the usage it leaves, the
  waiters that remain.\<close>

fun grant_loop :: "int \<Rightarrow> int \<Rightarrow> waiter list \<Rightarrow> waiter list \<times> int \<times> waiter list" where
  "grant_loop capacity used [] = ([], used, [])"
| "grant_loop capacity used (w # ws) =
     (if snd w > capacity - used then ([], used, w # ws)
      else (case grant_loop capacity (used + snd w) ws of (gs, u, rest) \<Rightarrow> (w # gs, u, rest)))"

definition grantLocked :: "WeightedSemaphore \<Rightarrow> WeightedSemaphore" where
  "grantLocked s = (case grant_loop (ws_capacity s) (ws_used s) (ws_waiters s) of
     (gs, u, rest) \<Rightarrow> s\<lparr>ws_used := u, ws_waiters := rest, ws_granted := ws_granted s @ gs\<rparr>)"

definition limitError :: "WeightedSemaphore option \<Rightarrow> err" where
  "limitError semaphore = (case semaphore of None \<Rightarrow> plain_error
     | Some s \<Rightarrow> (case ws_limitErr s of None \<Rightarrow> plain_error | Some e \<Rightarrow> e))"

datatype acquire_result = Failed err | Acquired | Queued

text \<open>\<open>done1\<close> and \<open>done2\<close> are the answers of the context before and after taking the lock. A nil
  semaphore refuses every reservation.\<close>

definition Acquire_enter ::
  "err option \<Rightarrow> err option \<Rightarrow> nat \<Rightarrow> int \<Rightarrow> WeightedSemaphore \<Rightarrow> acquire_result \<times> WeightedSemaphore" where
  "Acquire_enter done1 done2 call weight s =
     (if weight \<le> 0 then (Failed (limitError (Some s)), s)
      else case done1 of Some e \<Rightarrow> (Failed e, s)
      | None \<Rightarrow> (case done2 of Some e \<Rightarrow> (Failed e, s)
        | None \<Rightarrow>
            if weight > ws_capacity s then (Failed (limitError (Some s)), s)
            else if ws_waiters s = [] \<and> weight \<le> ws_capacity s - ws_used s
            then (Acquired, s\<lparr>ws_used := ws_used s + weight\<rparr>)
            else (Queued, s\<lparr>ws_waiters := ws_waiters s @ [(call, weight)]\<rparr>)))"

definition Acquire_nil :: "acquire_result" where
  "Acquire_nil = Failed (limitError None)"

definition Acquire_cancel :: "waiter \<Rightarrow> WeightedSemaphore \<Rightarrow> WeightedSemaphore" where
  "Acquire_cancel w s = grantLocked (
     if w \<in> set (ws_granted s)
     then s\<lparr>ws_used := ws_used s - snd w, ws_granted := remove1 w (ws_granted s)\<rparr>
     else s\<lparr>ws_waiters := remove1 w (ws_waiters s)\<rparr>)"

text \<open>\<open>None\<close> is the panic of an invalid release.\<close>

definition Release :: "int \<Rightarrow> WeightedSemaphore \<Rightarrow> WeightedSemaphore option" where
  "Release weight s =
     (if weight \<le> 0 \<or> weight > ws_used s then None
      else Some (grantLocked (s\<lparr>ws_used := ws_used s - weight\<rparr>)))"

definition sem_Stats :: "WeightedSemaphore option \<Rightarrow> int \<times> nat" where
  "sem_Stats semaphore = (case semaphore of None \<Rightarrow> (0, 0) | Some s \<Rightarrow> (ws_used s, length (ws_waiters s)))"

definition sem_Capacity :: "WeightedSemaphore option \<Rightarrow> int" where
  "sem_Capacity semaphore = (case semaphore of None \<Rightarrow> 0 | Some s \<Rightarrow> ws_capacity s)"

subsection \<open>Interleaving\<close>

record semaphore_system =
  sem :: WeightedSemaphore
  held :: "waiter list"

definition calls :: "semaphore_system \<Rightarrow> nat set" where
  "calls x = fst ` (set (ws_waiters (sem x)) \<union> set (ws_granted (sem x)) \<union> set (held x))"

inductive sem_step :: "semaphore_system \<Rightarrow> semaphore_system \<Rightarrow> bool" where
  acquired: "\<lbrakk>call \<notin> calls x; Acquire_enter d1 d2 call weight (sem x) = (Acquired, s')\<rbrakk>
    \<Longrightarrow> sem_step x (x\<lparr>sem := s', held := held x @ [(call, weight)]\<rparr>)"
| queued: "\<lbrakk>call \<notin> calls x; Acquire_enter d1 d2 call weight (sem x) = (Queued, s')\<rbrakk>
    \<Longrightarrow> sem_step x (x\<lparr>sem := s'\<rparr>)"
| failed: "\<lbrakk>call \<notin> calls x; Acquire_enter d1 d2 call weight (sem x) = (Failed e, s')\<rbrakk>
    \<Longrightarrow> sem_step x (x\<lparr>sem := s'\<rparr>)"
| woken: "w \<in> set (ws_granted (sem x))
    \<Longrightarrow> sem_step x (x\<lparr>sem := (sem x)\<lparr>ws_granted := remove1 w (ws_granted (sem x))\<rparr>, held := held x @ [w]\<rparr>)"
| cancelled: "w \<in> set (ws_waiters (sem x)) \<union> set (ws_granted (sem x))
    \<Longrightarrow> sem_step x (x\<lparr>sem := Acquire_cancel w (sem x)\<rparr>)"
| released: "\<lbrakk>w \<in> set (held x); Release (snd w) (sem x) = Some s'\<rbrakk>
    \<Longrightarrow> sem_step x (x\<lparr>sem := s', held := remove1 w (held x)\<rparr>)"

inductive sem_reachable :: "int \<Rightarrow> err option \<Rightarrow> semaphore_system \<Rightarrow> bool" for capacity limitErr where
  start: "sem_reachable capacity limitErr \<lparr>sem = NewWeightedSemaphore capacity limitErr, held = []\<rparr>"
| step: "\<lbrakk>sem_reachable capacity limitErr x; sem_step x y\<rbrakk> \<Longrightarrow> sem_reachable capacity limitErr y"

subsection \<open>The invariant\<close>

definition weight_sum :: "waiter list \<Rightarrow> int" where
  "weight_sum ws = sum_list (map snd ws)"

lemma weight_sum_simps [simp]:
  "weight_sum [] = 0" "weight_sum (w # ws) = snd w + weight_sum ws" "weight_sum (xs @ ys) = weight_sum xs + weight_sum ys"
  by (simp_all add: weight_sum_def)

lemma weight_sum_remove1: "w \<in> set ws \<Longrightarrow> weight_sum (remove1 w ws) = weight_sum ws - snd w"
  by (induction ws) auto

definition distinct_calls :: "waiter list \<Rightarrow> waiter list \<Rightarrow> waiter list \<Rightarrow> bool" where
  "distinct_calls a b c \<longleftrightarrow> distinct (map fst (a @ b @ c))"

definition weights_ok :: "int \<Rightarrow> waiter list \<Rightarrow> bool" where
  "weights_ok capacity ws \<longleftrightarrow> list_all (\<lambda>w. 0 < snd w \<and> snd w \<le> capacity) ws"

definition sem_inv :: "semaphore_system \<Rightarrow> bool" where
  "sem_inv x \<longleftrightarrow>
     0 \<le> ws_used (sem x) \<and> ws_used (sem x) \<le> max 0 (ws_capacity (sem x))
     \<and> ws_used (sem x) = weight_sum (ws_granted (sem x)) + weight_sum (held x)
     \<and> weights_ok (ws_capacity (sem x)) (ws_waiters (sem x) @ ws_granted (sem x) @ held x)
     \<and> distinct_calls (ws_waiters (sem x)) (ws_granted (sem x)) (held x)
     \<and> (ws_waiters (sem x) \<noteq> [] \<longrightarrow> snd (hd (ws_waiters (sem x))) > ws_capacity (sem x) - ws_used (sem x))"

lemma weights_ok_simps [simp]:
  "weights_ok c []"
  "weights_ok c (w # ws) \<longleftrightarrow> 0 < snd w \<and> snd w \<le> c \<and> weights_ok c ws"
  "weights_ok c (xs @ ys) \<longleftrightarrow> weights_ok c xs \<and> weights_ok c ys"
  by (auto simp: weights_ok_def)

lemma weights_ok_remove1: "weights_ok c ws \<Longrightarrow> weights_ok c (remove1 w ws)"
  by (induction ws) auto

lemma weights_ok_member: "\<lbrakk>weights_ok c ws; w \<in> set ws\<rbrakk> \<Longrightarrow> 0 < snd w \<and> snd w \<le> c"
  by (auto simp: weights_ok_def list_all_iff)

lemma weight_sum_nonneg: "weights_ok c ws \<Longrightarrow> 0 \<le> weight_sum ws"
  by (induction ws) auto

lemma weight_le_sum: "\<lbrakk>weights_ok c ws; w \<in> set ws\<rbrakk> \<Longrightarrow> snd w \<le> weight_sum ws"
  using weight_sum_nonneg [of c "remove1 w ws"] weight_sum_remove1 [of w ws] weights_ok_remove1 [of c ws w] by auto

lemma distinct_map_remove1: "distinct (map f xs) \<Longrightarrow> distinct (map f (remove1 x xs))"
  by (metis distinct_map distinct_remove1 inj_on_subset set_remove1_subset)

lemma distinct_calls_remove:
  assumes "distinct_calls a b c"
  shows "distinct_calls (remove1 w a) b c" "distinct_calls a (remove1 w b) c" "distinct_calls a b (remove1 w c)"
proof -
  have S: "fst ` set (remove1 w l) \<subseteq> fst ` set l" for l :: "waiter list"
    using set_remove1_subset [of w l] by (intro image_mono)
  note D = distinct_map_remove1 [of fst a w] distinct_map_remove1 [of fst b w] distinct_map_remove1 [of fst c w]
  have A: "distinct (map fst a)" "distinct (map fst b)" "distinct (map fst c)"
    "fst ` set a \<inter> fst ` set b = {}" "fst ` set a \<inter> fst ` set c = {}" "fst ` set b \<inter> fst ` set c = {}"
    using assms by (auto simp: distinct_calls_def)
  have disjoint_mono: "\<lbrakk>X \<inter> Y = {}; X' \<subseteq> X; Y' \<subseteq> Y\<rbrakk> \<Longrightarrow> X' \<inter> Y' = {}" for X X' Y Y' :: "nat set"
    by blast
  have E: "fst ` set (remove1 w a) \<inter> fst ` set b = {}" "fst ` set (remove1 w a) \<inter> fst ` set c = {}"
    "fst ` set a \<inter> fst ` set (remove1 w b) = {}" "fst ` set (remove1 w b) \<inter> fst ` set c = {}"
    "fst ` set a \<inter> fst ` set (remove1 w c) = {}" "fst ` set b \<inter> fst ` set (remove1 w c) = {}"
    using disjoint_mono [OF A(4) S order.refl] disjoint_mono [OF A(5) S order.refl] disjoint_mono [OF A(4) order.refl S]
      disjoint_mono [OF A(6) S order.refl] disjoint_mono [OF A(5) order.refl S] disjoint_mono [OF A(6) order.refl S] by simp_all
  show "distinct_calls (remove1 w a) b c"
    using A D(1) E by (simp add: distinct_calls_def Int_Un_distrib)
  show "distinct_calls a (remove1 w b) c"
    using A D(2) E by (simp add: distinct_calls_def Int_Un_distrib)
  show "distinct_calls a b (remove1 w c)"
    using A D(3) E by (simp add: distinct_calls_def Int_Un_distrib)
qed

lemma distinct_calls_moves:
  "distinct_calls (gs @ rest) b c \<longleftrightarrow> distinct_calls rest (b @ gs) c"
  "w \<in> set b \<Longrightarrow> distinct_calls a b c \<Longrightarrow> distinct_calls a (remove1 w b) (c @ [w])"
proof -
  show "distinct_calls (gs @ rest) b c \<longleftrightarrow> distinct_calls rest (b @ gs) c"
    by (auto simp: distinct_calls_def)
  assume w: "w \<in> set b" and d: "distinct_calls a b c"
  then have "fst w \<notin> fst ` set (remove1 w b)"
    by (auto simp: distinct_calls_def distinct_map inj_on_def)
  moreover have "fst w \<notin> fst ` set a" "fst w \<notin> fst ` set c"
    using w d by (auto simp: distinct_calls_def)
  ultimately show "distinct_calls a (remove1 w b) (c @ [w])"
    using distinct_calls_remove(2) [OF d, of w] by (auto simp: distinct_calls_def)
qed

text \<open>The loop takes a prefix of the queue, as much as fits.\<close>

lemma grant_loop_spec:
  assumes "grant_loop c u ws = (gs, u', rest)"
  shows "ws = gs @ rest \<and> u' = u + weight_sum gs \<and> (rest \<noteq> [] \<longrightarrow> snd (hd rest) > c - u')
    \<and> (u \<le> c \<longrightarrow> u' \<le> c)"
  using assms
proof (induction c u ws arbitrary: gs u' rest rule: grant_loop.induct)
  case (2 c u w ws)
  show ?case
  proof (cases "snd w > c - u")
    case False
    obtain gs2 u2 rest2 where g: "grant_loop c (u + snd w) ws = (gs2, u2, rest2)" by (metis prod_cases3)
    then show ?thesis using "2.IH" [OF False g] "2.prems" False by auto
  qed (use "2.prems" in auto)
qed auto

text \<open>Granting restores the invariant where only the last conjunct may be missing.\<close>

lemma sem_inv_grant:
  assumes "0 \<le> ws_used s" "ws_used s \<le> max 0 (ws_capacity s)"
    "ws_used s = weight_sum (ws_granted s) + weight_sum h"
    "weights_ok (ws_capacity s) (ws_waiters s @ ws_granted s @ h)"
    "distinct_calls (ws_waiters s) (ws_granted s) h"
  shows "sem_inv \<lparr>sem = grantLocked s, held = h\<rparr>"
proof -
  obtain gs u rest where g: "grant_loop (ws_capacity s) (ws_used s) (ws_waiters s) = (gs, u, rest)" by (metis prod_cases3)
  note G = grant_loop_spec [OF g]
  have "0 \<le> weight_sum gs" using G assms(4) by (auto intro!: weight_sum_nonneg)
  moreover have "u \<le> max 0 (ws_capacity s)"
  proof (cases "ws_waiters s = []")
    case True
    then show ?thesis using g assms(2) by simp
  next
    case False
    then have "0 \<le> ws_capacity s" using assms(4) by (cases "ws_waiters s") fastforce+
    then show ?thesis using G assms(2) by auto
  qed
  moreover have "distinct_calls rest (ws_granted s @ gs) h"
    using G assms(5) by (simp add: distinct_calls_moves(1))
  ultimately show ?thesis using G g assms by (auto simp: sem_inv_def grantLocked_def)
qed

lemma Acquire_enter_cases:
  assumes "Acquire_enter d1 d2 call weight s = (r, s')"
  shows "r = Acquired \<Longrightarrow> s' = s\<lparr>ws_used := ws_used s + weight\<rparr> \<and> 0 < weight \<and> weight \<le> ws_capacity s
      \<and> ws_waiters s = [] \<and> weight \<le> ws_capacity s - ws_used s"
    and "r = Queued \<Longrightarrow> s' = s\<lparr>ws_waiters := ws_waiters s @ [(call, weight)]\<rparr> \<and> 0 < weight \<and> weight \<le> ws_capacity s
      \<and> (ws_waiters s \<noteq> [] \<or> weight > ws_capacity s - ws_used s)"
    and "r = Failed e \<Longrightarrow> s' = s"
  using assms by (auto simp: Acquire_enter_def split: if_splits option.splits)

lemma sem_update: "x\<lparr>sem := s\<rparr> = \<lparr>sem = s, held = held x\<rparr>" "x\<lparr>sem := s, held := h\<rparr> = \<lparr>sem = s, held = h\<rparr>"
  by (cases x; simp)+

lemma sem_step_inv:
  assumes "sem_step x y" "sem_inv x"
  shows "sem_inv y"
  using assms
proof (cases rule: sem_step.cases)
  case (acquired call d1 d2 weight s')
  have "distinct_calls (ws_waiters (sem x)) (ws_granted (sem x)) (held x @ [(call, weight)])"
    using acquired(2) assms(2) by (auto simp: sem_inv_def calls_def distinct_calls_def)
  then show ?thesis using acquired Acquire_enter_cases(1) [OF acquired(3)] assms(2) by (simp add: sem_inv_def)
next
  case (queued call d1 d2 weight s')
  have "distinct_calls (ws_waiters (sem x) @ [(call, weight)]) (ws_granted (sem x)) (held x)"
    using queued(2) assms(2) by (auto simp: sem_inv_def calls_def distinct_calls_def)
  then show ?thesis using queued Acquire_enter_cases(2) [OF queued(3)] assms(2)
    by (cases "ws_waiters (sem x)") (simp_all add: sem_inv_def)
next
  case (failed call d1 d2 weight e s')
  then show ?thesis using Acquire_enter_cases(3) [OF failed(3)] assms(2) by simp
next
  case (woken w)
  have "distinct_calls (ws_waiters (sem x)) (remove1 w (ws_granted (sem x))) (held x @ [w])"
    using woken(2) assms(2) by (simp add: sem_inv_def distinct_calls_moves(2))
  then show ?thesis using woken assms(2) weight_sum_remove1 [OF woken(2)]
      weights_ok_member [OF _ woken(2)] weights_ok_remove1
    by (auto simp add: sem_inv_def)
next
  case (cancelled w)
  note D = distinct_calls_remove [of "ws_waiters (sem x)" "ws_granted (sem x)" "held x" w]
  have I: "sem_inv x" by fact
  show ?thesis
  proof (cases "w \<in> set (ws_granted (sem x))")
    case True
    note W = weight_le_sum [OF _ True, of "ws_capacity (sem x)"] weights_ok_member [OF _ True, of "ws_capacity (sem x)"]
      weight_sum_nonneg [of "ws_capacity (sem x)" "held x"]
    have "sem_inv \<lparr>sem = grantLocked ((sem x)\<lparr>ws_used := ws_used (sem x) - snd w,
        ws_granted := remove1 w (ws_granted (sem x))\<rparr>), held = held x\<rparr>"
      using I D(2) W by (intro sem_inv_grant) (auto simp: sem_inv_def weight_sum_remove1 [OF True] weights_ok_remove1)
    then show ?thesis using cancelled True by (simp add: Acquire_cancel_def sem_update)
  next
    case False
    have "sem_inv \<lparr>sem = grantLocked ((sem x)\<lparr>ws_waiters := remove1 w (ws_waiters (sem x))\<rparr>), held = held x\<rparr>"
      using I D(1) by (intro sem_inv_grant) (auto simp: sem_inv_def weights_ok_remove1)
    then show ?thesis using cancelled False by (simp add: Acquire_cancel_def sem_update)
  qed
next
  case (released w s')
  note D = distinct_calls_remove(3) [of "ws_waiters (sem x)" "ws_granted (sem x)" "held x" w]
  note W = weight_sum_remove1 [OF released(2)] weights_ok_remove1
  have s': "s' = grantLocked ((sem x)\<lparr>ws_used := ws_used (sem x) - snd w\<rparr>)" "0 < snd w" "snd w \<le> ws_used (sem x)"
    using released(3) by (auto simp: Release_def split: if_splits)
  have "sem_inv \<lparr>sem = s', held = remove1 w (held x)\<rparr>"
    unfolding s'(1) using assms(2) D W s'(2,3) by (intro sem_inv_grant) (auto simp: sem_inv_def)
  then show ?thesis using released by (simp add: sem_update)
qed

lemma sem_start_inv: "sem_inv \<lparr>sem = NewWeightedSemaphore capacity limitErr, held = []\<rparr>"
  by (simp add: sem_inv_def NewWeightedSemaphore_def distinct_calls_def)

lemma sem_reachable_inv: "sem_reachable capacity limitErr x \<Longrightarrow> sem_inv x"
  by (induction rule: sem_reachable.induct) (auto simp: sem_start_inv intro: sem_step_inv)

lemma sem_step_capacity: "sem_step x y \<Longrightarrow> ws_capacity (sem y) = ws_capacity (sem x)"
  by (erule sem_step.cases)
    (auto simp: Acquire_enter_def Acquire_cancel_def Release_def grantLocked_def split: if_splits option.splits prod.splits)

lemma sem_reachable_capacity: "sem_reachable capacity limitErr x \<Longrightarrow> ws_capacity (sem x) = capacity"
  by (induction rule: sem_reachable.induct) (simp_all add: NewWeightedSemaphore_def sem_step_capacity)

subsection \<open>Grants keep the order of the queue\<close>

lemma grantLocked_queue:
  obtains gs where "ws_waiters s = gs @ ws_waiters (grantLocked s)"
    "ws_granted (grantLocked s) = ws_granted s @ gs"
proof -
  obtain gs u rest where g: "grant_loop (ws_capacity s) (ws_used s) (ws_waiters s) = (gs, u, rest)" by (metis prod_cases3)
  then show ?thesis using that [of gs] grant_loop_spec [OF g] by (simp add: grantLocked_def)
qed

text \<open>A step appends to the queue, removes one waiter that gave up, takes a prefix of it, or leaves it.\<close>

lemma sem_step_queue:
  assumes "sem_step x y"
  obtains (same) "ws_waiters (sem y) = ws_waiters (sem x)" "set (ws_granted (sem y)) \<subseteq> set (ws_granted (sem x))"
  | (enqueued) n where "ws_waiters (sem y) = ws_waiters (sem x) @ [n]" "ws_granted (sem y) = ws_granted (sem x)"
  | (taken) v gs where "remove1 v (ws_waiters (sem x)) = gs @ ws_waiters (sem y)"
      "v \<notin> set (ws_granted (sem x))" "v \<in> set (ws_waiters (sem x))"
      "ws_granted (sem y) = ws_granted (sem x) @ gs"
  | (drained) gs where "ws_waiters (sem x) = gs @ ws_waiters (sem y)"
      "set (ws_granted (sem y)) \<subseteq> set (ws_granted (sem x)) \<union> set gs"
  using assms
proof (cases rule: sem_step.cases)
  case (acquired call d1 d2 weight s')
  then show ?thesis using Acquire_enter_cases(1) [OF acquired(3)] by (intro same) auto
next
  case (queued call d1 d2 weight s')
  then show ?thesis using Acquire_enter_cases(2) [OF queued(3)] by (intro enqueued) auto
next
  case (failed call d1 d2 weight e s')
  then show ?thesis using Acquire_enter_cases(3) [OF failed(3)] by (intro same) auto
next
  case (woken w)
  then show ?thesis using set_remove1_subset [of w "ws_granted (sem x)"] by (intro same) auto
next
  case (cancelled w)
  show ?thesis
  proof (cases "w \<in> set (ws_granted (sem x))")
    case True
    show ?thesis
      by (rule grantLocked_queue [of "(sem x)\<lparr>ws_used := ws_used (sem x) - snd w,
          ws_granted := remove1 w (ws_granted (sem x))\<rparr>"], rule drained)
        (use cancelled True set_remove1_subset [of w "ws_granted (sem x)"] in \<open>auto simp: Acquire_cancel_def\<close>)
  next
    case False
    show ?thesis
      by (rule grantLocked_queue [of "(sem x)\<lparr>ws_waiters := remove1 w (ws_waiters (sem x))\<rparr>"], rule taken [of w])
        (use cancelled False in \<open>auto simp: Acquire_cancel_def\<close>)
  qed
next
  case (released w s')
  then have s': "s' = grantLocked ((sem x)\<lparr>ws_used := ws_used (sem x) - snd w\<rparr>)"
    by (auto simp: Release_def split: if_splits)
  show ?thesis
    by (rule grantLocked_queue [of "(sem x)\<lparr>ws_used := ws_used (sem x) - snd w\<rparr>"], rule drained)
      (use released s' in auto)
qed

lemma append_before:
  assumes "as @ u # bs @ w # cs = gs @ rest" "w \<in> set gs" "distinct (as @ u # bs @ w # cs)"
  shows "u \<in> set gs"
  using assms by (auto simp: append_eq_append_conv2 append_eq_Cons_conv Cons_eq_append_conv)

lemma remove1_before:
  assumes "v \<noteq> u" "v \<noteq> w"
  shows "\<exists>as' bs' cs'. remove1 v (as @ u # bs @ w # cs) = as' @ u # bs' @ w # cs'"
proof (cases "v \<in> set as")
  case False
  then have "remove1 v (as @ u # bs @ w # cs) = as @ u # (if v \<in> set bs then remove1 v bs else bs)
      @ w # (if v \<in> set bs then cs else remove1 v cs)"
    using assms by (simp add: remove1_append remove1_idem)
  then show ?thesis by blast
qed (auto simp: remove1_append)

lemma queue_distinct:
  assumes "sem_inv x"
  shows "distinct (ws_waiters (sem x))" "set (ws_waiters (sem x)) \<inter> set (ws_granted (sem x)) = {}"
  using assms by (auto simp: sem_inv_def distinct_calls_def distinct_map)

text \<open>
  C25. No overtaking. When a step of a reachable semaphore grants a queued waiter, every waiter that
  was ahead of it has left the queue as well, by a grant or by its own cancellation; and a call that
  returns without waiting does so only while nobody waits.
\<close>

theorem semaphore_fifo:
  assumes "sem_reachable capacity limitErr x" "sem_step x y"
  shows "(\<forall>as u bs w cs. ws_waiters (sem x) = as @ u # bs @ w # cs \<longrightarrow> w \<in> set (ws_granted (sem y))
      \<longrightarrow> u \<notin> set (ws_waiters (sem y)))
    \<and> (\<forall>h \<in> set (held y) - set (held x). h \<in> set (ws_granted (sem x)) \<or> ws_waiters (sem x) = [])"
proof -
  have I: "sem_inv x" using sem_reachable_inv [OF assms(1)] .
  note Q = queue_distinct [OF I]
  have F: "u \<notin> set (ws_waiters (sem y))"
    if q: "ws_waiters (sem x) = as @ u # bs @ w # cs" and g: "w \<in> set (ws_granted (sem y))" for as u bs w cs
    using assms(2)
  proof (cases rule: sem_step_queue)
    case same
    then show ?thesis using q g Q by auto
  next
    case (enqueued n)
    then show ?thesis using q g Q by auto
  next
    case (taken v gs)
    have w: "w \<in> set gs" using taken(4) g q Q by auto
    have d: "distinct (gs @ ws_waiters (sem y))" using Q(1) taken(1) by (metis distinct_remove1)
    show ?thesis
    proof (cases "v = u")
      case True
      then have "u \<notin> set (gs @ ws_waiters (sem y))" using Q(1) taken(1) by (metis DiffE set_remove1_eq singletonI)
      then show ?thesis by simp
    next
      case False
      have "v \<noteq> w" using w Q(1) taken(1) by (metis DiffE Un_iff set_append set_remove1_eq singletonI)
      with False obtain as' bs' cs' where "as' @ u # bs' @ w # cs' = gs @ ws_waiters (sem y)"
        using remove1_before [of v u w as bs cs] q taken(1) by metis
      then show ?thesis using append_before [of as' u bs' w cs' gs "ws_waiters (sem y)"] w d by auto
    qed
  next
    case (drained gs)
    have "w \<in> set gs" using drained(2) g q Q by auto
    then have "u \<in> set gs" using append_before [of as u bs w cs gs "ws_waiters (sem y)"] drained(1) q Q(1) by auto
    then show ?thesis using Q(1) drained(1) by auto
  qed
  have "h \<in> set (ws_granted (sem x)) \<or> ws_waiters (sem x) = []" if "h \<in> set (held y) - set (held x)" for h
    using assms(2) that
  proof (cases rule: sem_step.cases)
    case (acquired call d1 d2 weight s')
    then show ?thesis using Acquire_enter_cases(1) [OF acquired(3)] by simp
  next
    case (released w s')
    then show ?thesis using that set_remove1_subset [of w "held x"] by auto
  qed (use that in auto)
  with F show ?thesis by blast
qed


text \<open>Three calls on a budget of 4: the first takes 3, the next two queue, the first is released.\<close>

definition fifo_before :: semaphore_system where
  "fifo_before = \<lparr>sem = \<lparr>ws_capacity = 4, ws_used = 3, ws_waiters = [(1, 2), (2, 1)], ws_granted = [],
     ws_limitErr = None\<rparr>, held = [(0, 3)]\<rparr>"

definition fifo_after :: semaphore_system where
  "fifo_after = \<lparr>sem = \<lparr>ws_capacity = 4, ws_used = 3, ws_waiters = [], ws_granted = [(1, 2), (2, 1)],
     ws_limitErr = None\<rparr>, held = []\<rparr>"

lemma fifo_run:
  "sem_reachable 4 None fifo_before" "sem_step fifo_before fifo_after"
proof -
  let ?s0 = "\<lparr>sem = NewWeightedSemaphore 4 None, held = []\<rparr>"
  let ?s1 = "\<lparr>sem = \<lparr>ws_capacity = 4, ws_used = 3, ws_waiters = [], ws_granted = [], ws_limitErr = None\<rparr>, held = [(0, 3)]\<rparr>"
  let ?s2 = "\<lparr>sem = \<lparr>ws_capacity = 4, ws_used = 3, ws_waiters = [(1, 2)], ws_granted = [], ws_limitErr = None\<rparr>, held = [(0, 3)]\<rparr>"
  have "sem_step ?s0 ?s1"
    using sem_step.acquired [of 0 ?s0 None None 3] by (simp add: calls_def Acquire_enter_def NewWeightedSemaphore_def)
  then have 1: "sem_reachable 4 None ?s1" by (rule sem_reachable.step [OF sem_reachable.start])
  have "sem_step ?s1 ?s2"
    using sem_step.queued [of 1 ?s1 None None 2] by (simp add: calls_def Acquire_enter_def)
  then have 2: "sem_reachable 4 None ?s2" by (rule sem_reachable.step [OF 1])
  have "sem_step ?s2 fifo_before"
    using sem_step.queued [of 2 ?s2 None None 1] by (simp add: calls_def Acquire_enter_def fifo_before_def)
  then show "sem_reachable 4 None fifo_before" by (rule sem_reachable.step [OF 2])
  show "sem_step fifo_before fifo_after"
    using sem_step.released [of "(0, 3)" fifo_before]
    by (simp add: fifo_before_def fifo_after_def Release_def grantLocked_def)
qed

theorem semaphore_fifo_witness:
  "(2, 1) \<in> set (ws_granted (sem fifo_after)) \<and> (1, 2) \<notin> set (ws_waiters (sem fifo_after))"
proof -
  have q: "ws_waiters (sem fifo_before) = [] @ (1, 2) # [] @ (2, 1) # []" by (simp add: fifo_before_def)
  have g: "(2, 1) \<in> set (ws_granted (sem fifo_after))" by (simp add: fifo_after_def)
  show ?thesis using semaphore_fifo [OF fifo_run] q g by blast
qed


subsection \<open>The budget, and that waiting ends\<close>

lemma held_release:
  assumes "sem_inv x" "w \<in> set (held x)"
  obtains s' where "Release (snd w) (sem x) = Some s'"
proof -
  let ?c = "ws_capacity (sem x)"
  have ok: "weights_ok ?c (held x)" "weights_ok ?c (ws_granted (sem x))"
    using assms(1) by (auto simp: sem_inv_def)
  then have "0 < snd w" "snd w \<le> ws_used (sem x)"
    using weights_ok_member [OF ok(1) assms(2)] weight_le_sum [OF ok(1) assms(2)] weight_sum_nonneg [OF ok(2)] assms(1)
    by (auto simp: sem_inv_def)
  then show ?thesis using that by (simp add: Release_def)
qed

text \<open>
  C23. The budget is kept. In every reachable state the bytes in use lie between 0 and the capacity
  and are exactly the reservations granted or held, every reservation fits the capacity, and the
  release of a held reservation never panics.
\<close>

theorem semaphore_budget:
  assumes "sem_reachable capacity limitErr x"
  shows "0 \<le> ws_used (sem x) \<and> ws_used (sem x) \<le> max 0 capacity
    \<and> ws_used (sem x) = weight_sum (ws_granted (sem x)) + weight_sum (held x)
    \<and> (\<forall>w \<in> set (held x). 0 < snd w \<and> snd w \<le> capacity \<and> Release (snd w) (sem x) \<noteq> None)"
proof -
  note I = sem_reachable_inv [OF assms] and C = sem_reachable_capacity [OF assms]
  have "0 < snd w \<and> snd w \<le> capacity \<and> Release (snd w) (sem x) \<noteq> None" if "w \<in> set (held x)" for w
    using held_release [OF I that] weights_ok_member [of capacity "held x" w] I C that by (auto simp: sem_inv_def)
  then show ?thesis using I C by (auto simp: sem_inv_def)
qed

theorem semaphore_budget_witness:
  "ws_used (sem fifo_before) = 3 \<and> Release 3 (sem fifo_before) \<noteq> None"
  using semaphore_budget [OF fifo_run(1)] by (simp add: fifo_before_def)

text \<open>A step of the holders alone: a granted call returns, or a held reservation is released.\<close>

inductive drain_step :: "semaphore_system \<Rightarrow> semaphore_system \<Rightarrow> bool" where
  drain_woken: "w \<in> set (ws_granted (sem x))
    \<Longrightarrow> drain_step x (x\<lparr>sem := (sem x)\<lparr>ws_granted := remove1 w (ws_granted (sem x))\<rparr>, held := held x @ [w]\<rparr>)"
| drain_released: "\<lbrakk>w \<in> set (held x); Release (snd w) (sem x) = Some s'\<rbrakk>
    \<Longrightarrow> drain_step x (x\<lparr>sem := s', held := remove1 w (held x)\<rparr>)"

lemma drain_is_step: "drain_step x y \<Longrightarrow> sem_step x y"
  by (induction rule: drain_step.induct) (auto intro: sem_step.intros)

definition pending :: "semaphore_system \<Rightarrow> nat" where
  "pending x = 3 * length (ws_waiters (sem x)) + 2 * length (ws_granted (sem x)) + length (held x)"

lemma drain_decreases: "drain_step x y \<Longrightarrow> pending y < pending x"
proof (induction rule: drain_step.induct)
  case (drain_woken w x)
  then have "length (ws_granted (sem x)) = Suc (length (remove1 w (ws_granted (sem x))))"
    by (rule length_remove1_Suc)
  then show ?case by (simp add: pending_def)
next
  case (drain_released w x s')
  then have s': "s' = grantLocked ((sem x)\<lparr>ws_used := ws_used (sem x) - snd w\<rparr>)"
    by (auto simp: Release_def split: if_splits)
  have "3 * length (ws_waiters s') + 2 * length (ws_granted s') \<le> 3 * length (ws_waiters (sem x)) + 2 * length (ws_granted (sem x))"
    by (rule grantLocked_queue [of "(sem x)\<lparr>ws_used := ws_used (sem x) - snd w\<rparr>"]) (simp add: s')
  moreover have "length (held x) = Suc (length (remove1 w (held x)))"
    using drain_released(1) by (rule length_remove1_Suc)
  ultimately show ?case by (simp add: pending_def)
qed

lemma drain_bounded: "(drain_step ^^ n) x y \<Longrightarrow> n + pending y \<le> pending x"
proof (induction n arbitrary: y)
  case (Suc n)
  then obtain z where "(drain_step ^^ n) x z" "drain_step z y" by auto
  then show ?case using Suc.IH [of z] drain_decreases [of z y] by simp
qed simp

lemma drain_reachable:
  "\<lbrakk>(drain_step ^^ n) x y; sem_reachable capacity limitErr x\<rbrakk> \<Longrightarrow> sem_reachable capacity limitErr y"
  by (induction n arbitrary: y) (auto intro: sem_reachable.step drain_is_step)

text \<open>
  C24. No lost wake-up. From a reachable state, however the calls that own a reservation return and
  release, they take at most \<open>pending x\<close> steps, and when none of them can take another step the
  queue is empty and nothing is in use: every waiter has been served.
\<close>

theorem semaphore_drains:
  assumes "sem_reachable capacity limitErr x" "(drain_step ^^ n) x y"
  shows "n \<le> pending x \<and> ((\<forall>z. \<not> drain_step y z) \<longrightarrow> ws_waiters (sem y) = [] \<and> ws_used (sem y) = 0)"
proof -
  have I: "sem_inv y" using drain_reachable [OF assms(2,1)] by (rule sem_reachable_inv)
  have "ws_waiters (sem y) = [] \<and> ws_used (sem y) = 0" if stuck: "\<forall>z. \<not> drain_step y z"
  proof -
    have "ws_granted (sem y) = []" using stuck drain_woken by (metis list.set_intros(1) neq_Nil_conv)
    moreover have "held y = []"
    proof (rule ccontr)
      assume "held y \<noteq> []"
      then have m: "hd (held y) \<in> set (held y)" by simp
      obtain s' where "Release (snd (hd (held y))) (sem y) = Some s'" using held_release [OF I m] .
      then show False using stuck drain_released [OF m] by blast
    qed
    ultimately have "ws_used (sem y) = 0" using I by (simp add: sem_inv_def)
    moreover have "ws_waiters (sem y) = []"
    proof (rule ccontr)
      assume "ws_waiters (sem y) \<noteq> []"
      then have "snd (hd (ws_waiters (sem y))) \<le> ws_capacity (sem y)" "snd (hd (ws_waiters (sem y))) > ws_capacity (sem y)"
        using I weights_ok_member [of "ws_capacity (sem y)" "ws_waiters (sem y)" "hd (ws_waiters (sem y))"]
          \<open>ws_used (sem y) = 0\<close> by (auto simp: sem_inv_def)
      then show False by simp
    qed
    ultimately show ?thesis by simp
  qed
  then show ?thesis using drain_bounded [OF assms(2)] by simp
qed

definition fifo_drained :: semaphore_system where
  "fifo_drained = \<lparr>sem = NewWeightedSemaphore 4 None, held = []\<rparr>"

lemma drain_run: "(drain_step ^^ 5) fifo_before fifo_drained" "\<not> drain_step fifo_drained z"
proof -
  let ?s2 = "\<lparr>sem = \<lparr>ws_capacity = 4, ws_used = 3, ws_waiters = [], ws_granted = [(2, 1)], ws_limitErr = None\<rparr>, held = [(1, 2)]\<rparr>"
  let ?s3 = "\<lparr>sem = \<lparr>ws_capacity = 4, ws_used = 3, ws_waiters = [], ws_granted = [], ws_limitErr = None\<rparr>, held = [(1, 2), (2, 1)]\<rparr>"
  let ?s4 = "\<lparr>sem = \<lparr>ws_capacity = 4, ws_used = 1, ws_waiters = [], ws_granted = [], ws_limitErr = None\<rparr>, held = [(2, 1)]\<rparr>"
  have 1: "drain_step fifo_before fifo_after"
    using drain_step.drain_released [of "(0, 3)" fifo_before]
    by (simp add: fifo_before_def fifo_after_def Release_def grantLocked_def)
  have 2: "drain_step fifo_after ?s2" using drain_step.drain_woken [of "(1, 2)" fifo_after] by (simp add: fifo_after_def)
  have 3: "drain_step ?s2 ?s3" using drain_step.drain_woken [of "(2, 1)" ?s2] by simp
  have 4: "drain_step ?s3 ?s4" using drain_step.drain_released [of "(1, 2)" ?s3] by (simp add: Release_def grantLocked_def)
  have 5: "drain_step ?s4 fifo_drained"
    using drain_step.drain_released [of "(2, 1)" ?s4]
    by (simp add: Release_def grantLocked_def fifo_drained_def NewWeightedSemaphore_def)
  have "(drain_step ^^ Suc (Suc (Suc (Suc (Suc 0))))) fifo_before fifo_drained"
    using 1 2 3 4 5 by (blast intro: relpowp_Suc_I relpowp_0_I)
  then show "(drain_step ^^ 5) fifo_before fifo_drained" by (simp add: eval_nat_numeral)
  show "\<not> drain_step fifo_drained z"
    by (auto simp: fifo_drained_def NewWeightedSemaphore_def elim: drain_step.cases)
qed

theorem semaphore_drains_witness:
  "5 \<le> pending fifo_before \<and> ws_waiters (sem fifo_drained) = [] \<and> ws_used (sem fifo_drained) = 0"
  using semaphore_drains [OF fifo_run(1) drain_run(1)] drain_run(2) by blast

end
