(* ===== verification/Consumer.thy ===== *)
theory Consumer
  imports Manifests Metadata_Cache Watermark Weighted_Semaphore Repo
begin

section \<open>The consumer\<close>

text \<open>
  \<open>consumer.go\<close>: a read-only view of one channel that only ever moves forward. \<open>Consumer\<close> holds
  what the constructor fixes, \<open>cstate\<close> what the methods change, with the outside world as one of its
  fields; an operation of the environment is lifted to it. The model runs one caller at a time, so the
  refresh gate is always free; the coalescing of concurrent loads and the queue of the byte budget are
  verified on their own in \<open>Flight\<close> and \<open>Weighted_Semaphore\<close>.

  A \<open>select\<close> between another channel and \<open>ctx.Done()\<close> asks the environment which one proceeds
  (\<open>ev_select\<close>, \<open>None\<close> for the other channel); where nothing but the context could end the wait,
  \<open>ev_wait\<close> is its error. A loader that its only caller abandons is run to its end first. Every
  panic of the source sets \<open>cs_panicked\<close>, which the lemmas show never to happen.
\<close>

datatype RefreshStatus = RefreshUnchanged | RefreshUpdated | RefreshNoSnapshot | RefreshStaleIgnored

record RefreshResult =
  rr_Status :: RefreshStatus
  rr_Generation :: u64

record adoptedSnapshot =
  as_reference :: snapshotReference
  as_commit :: commitManifest
  as_version :: Version

record 'w ChunkCache =
  cc_Get :: "digest \<Rightarrow> ('w, err + bytes option) state"
  cc_GetSized :: "(digest \<Rightarrow> int \<Rightarrow> ('w, err + bytes option) state) option"
  cc_Put :: "digest \<Rightarrow> bytes \<Rightarrow> ('w, err option) state"

record 'w Env =
  ev_ctx :: "'w ctx"
  ev_select :: "('w, err option) state"
  ev_wait :: "('w, err) state"
  ev_deg :: "u64 \<Rightarrow> int"
  ev_irreducible :: "u64 \<Rightarrow> bool"
  ev_capEntries :: "dirManifest \<Rightarrow> int"
  ev_capName :: "dirEntry \<Rightarrow> int"
  ev_capChunks :: "fileManifest \<Rightarrow> int"
  ev_capTarget :: "symlinkManifest \<Rightarrow> int"

datatype metadata = MDir dirManifest | MFile fileManifest | MSymlink symlinkManifest

record 'w Consumer =
  cn_repository :: "'w Repository"
  cn_channel :: bytes
  cn_cache :: "'w ChunkCache option"
  cn_watermarks :: "'w WatermarkStore option"
  cn_referenceVerifier :: "'w ReferenceVerifier option"
  cn_trustedCheckpoint :: "Watermark option"
  cn_allowTrustOnFirstUse :: bool
  cn_symlinkPolicy :: SymlinkPolicy
  cn_strictCacheErrors :: bool
  cn_onCacheError :: "(err \<Rightarrow> ('w, unit) state) option"
  cn_downloadSlots :: int

record 'w cstate =
  cs_world :: 'w
  cs_slots :: int
  cs_bytes :: WeightedSemaphore
  cs_state :: "adoptedSnapshot option"
  cs_watermark :: Watermark
  cs_watermarkLoaded :: bool
  cs_checkpointValidated :: Watermark
  cs_metadata :: "metadata metadataCache"
  cs_panicked :: bool

definition zero_watermark :: Watermark where
  "zero_watermark = \<lparr>wm_RepositoryID = 0, wm_Generation = 0, wm_Commit = 0\<rparr>"

subsection \<open>Construction\<close>

text \<open>A verifier together with whether it is the built-in offline one.\<close>

record 'w ConsumerOptions =
  op_Cache :: "'w ChunkCache option"
  op_Watermarks :: "'w WatermarkStore option"
  op_RequirePersistentWatermark :: bool
  op_ReferenceVerifier :: "('w ReferenceVerifier \<times> bool) option"
  op_DangerouslyAllowCustomReferenceVerifier :: bool
  op_TrustedCheckpoint :: "Watermark option"
  op_AllowTrustOnFirstUse :: bool
  op_Symlinks :: SymlinkPolicy
  op_MetadataCacheEntries :: int
  op_MetadataCacheBytes :: int
  op_MaxConcurrentDownloads :: int
  op_MaxConcurrentDownloadBytes :: int
  op_StrictCacheErrors :: bool
  op_OnCacheError :: "(err \<Rightarrow> ('w, unit) state) option"

definition DefaultMaxConcurrentDownloadBytes :: int where
  "DefaultMaxConcurrentDownloadBytes = maxChunkObjectBytes"
definition MaxConcurrentDownloadBytesLimit :: int where
  "MaxConcurrentDownloadBytesLimit = 1024 * maxChunkObjectBytes"

definition or_default :: "int \<Rightarrow> int \<Rightarrow> int" where
  "or_default v d = (if v = 0 then d else v)"

definition check_verifier :: "'w Repository \<Rightarrow> 'w ConsumerOptions \<Rightarrow> err option" where
  "check_verifier repository options = (case op_ReferenceVerifier options of
     Some (verifier, offline) \<Rightarrow>
       if rv_RepositoryID verifier = 0 then Some [ErrUntrustedReference]
       else if (case rp_descriptor repository of None \<Rightarrow> False | Some d \<Rightarrow> rv_RepositoryID verifier \<noteq> rd_RepositoryID d)
         then Some [ErrUntrustedReference]
       else if op_Watermarks options = None then Some [ErrTrustStateRequired]
       else (case op_TrustedCheckpoint options of None \<Rightarrow> None
         | Some checkpoint \<Rightarrow>
             if wm_RepositoryID checkpoint \<noteq> rv_RepositoryID verifier \<or> wm_Generation checkpoint = 0 \<or> wm_Commit checkpoint = 0
             then Some [ErrUntrustedReference] else None)
   | None \<Rightarrow> if op_TrustedCheckpoint options \<noteq> None \<or> op_AllowTrustOnFirstUse options then Some plain_error else None)"

definition NewConsumer :: "'w Repository \<Rightarrow> bytes \<Rightarrow> 'w ConsumerOptions \<Rightarrow> 'w \<Rightarrow> err + 'w Consumer \<times> 'w cstate" where
  "NewConsumer repository channel options w = (case repository_validateChannel repository channel of
     Some e \<Rightarrow> Inl e
   | None \<Rightarrow>
     if (case op_ReferenceVerifier options of None \<Rightarrow> False
         | Some (_, offline) \<Rightarrow> \<not> op_DangerouslyAllowCustomReferenceVerifier options \<and> \<not> offline) then Inl plain_error
     else if op_RequirePersistentWatermark options \<and> op_Watermarks options = None then Inl plain_error
     else (case check_verifier repository options of Some e \<Rightarrow> Inl e
     | None \<Rightarrow>
       let entries = or_default (op_MetadataCacheEntries options) defaultMetadataCacheEntries;
           cacheBytes = or_default (op_MetadataCacheBytes options) defaultMetadataCacheBytes;
           downloads = or_default (op_MaxConcurrentDownloads options) 8;
           downloadBytes = or_default (op_MaxConcurrentDownloadBytes options) DefaultMaxConcurrentDownloadBytes
       in if entries < 1 \<or> entries > 1000000 then Inl plain_error
          else if cacheBytes < 1 \<or> cacheBytes > maxMetadataCacheBytes then Inl plain_error
          else if downloads < 1 \<or> downloads > 1024 then Inl plain_error
          else if downloadBytes < maxChunkObjectBytes \<or> downloadBytes > MaxConcurrentDownloadBytesLimit then Inl [ErrResourceLimit]
          else Inr (\<lparr>cn_repository = repository, cn_channel = channel, cn_cache = op_Cache options,
              cn_watermarks = op_Watermarks options, cn_referenceVerifier = map_option fst (op_ReferenceVerifier options),
              cn_trustedCheckpoint = op_TrustedCheckpoint options, cn_allowTrustOnFirstUse = op_AllowTrustOnFirstUse options,
              cn_symlinkPolicy = op_Symlinks options, cn_strictCacheErrors = op_StrictCacheErrors options,
              cn_onCacheError = op_OnCacheError options, cn_downloadSlots = downloads\<rparr>,
            \<lparr>cs_world = w, cs_slots = 0, cs_bytes = NewWeightedSemaphore downloadBytes (Some [ErrResourceLimit]),
              cs_state = None, cs_watermark = zero_watermark, cs_watermarkLoaded = False,
              cs_checkpointValidated = zero_watermark, cs_metadata = newMetadataCache entries cacheBytes,
              cs_panicked = False\<rparr>)))"

subsection \<open>Effects\<close>

type_synonym ('w, 'a) cm = "('w cstate, 'a) state"

definition lift :: "('w, 'a) state \<Rightarrow> ('w, 'a) cm" where
  "lift m = State (\<lambda>s. case run_state m (cs_world s) of (a, w) \<Rightarrow> (a, s\<lparr>cs_world := w\<rparr>))"

definition update :: "('w cstate \<Rightarrow> 'w cstate) \<Rightarrow> ('w, unit) cm" where
  "update f = State (\<lambda>s. ((), f s))"

definition cs_panic :: "('w, unit) cm" where
  "cs_panic = update (\<lambda>s. s\<lparr>cs_panicked := True\<rparr>)"

lemma wp_lift [wp_simps]: "wp (lift m) Q s = wp m (\<lambda>a w. Q a (s\<lparr>cs_world := w\<rparr>)) (cs_world s)"
  by (simp add: lift_def wp_def split: prod.splits)

lemma wp_update [wp_simps]: "wp (update f) Q s = Q () (f s)"
  by (simp add: update_def wp_def)

subsection \<open>Download resources\<close>

definition semaphore_Acquire :: "'w Env \<Rightarrow> int \<Rightarrow> ('w, err option) cm" where
  "semaphore_Acquire env weight = do {
     s \<leftarrow> State_Monad.get;
     if weight \<le> 0 then return (Some (limitError (Some (cs_bytes s))))
     else errs (lift (ev_ctx env)) (do {
       done2 \<leftarrow> lift (ev_ctx env);
       case Acquire_enter None done2 0 weight (cs_bytes s) of
         (Failed e, _) \<Rightarrow> return (Some e)
       | (Acquired, b) \<Rightarrow> do { update (\<lambda>s. s\<lparr>cs_bytes := b\<rparr>); return None }
       | (Queued, b) \<Rightarrow> do {
           e \<leftarrow> lift (ev_wait env);
           update (\<lambda>s. s\<lparr>cs_bytes := Acquire_cancel (0, weight) b\<rparr>);
           return (Some e) } }) }"

definition acquireDownload :: "'w Env \<Rightarrow> 'w Consumer \<Rightarrow> int \<Rightarrow> ('w, err option) cm" where
  "acquireDownload env consumer byteCharge = do {
     s \<leftarrow> State_Monad.get;
     sel \<leftarrow> (if cs_slots s < cn_downloadSlots consumer then lift (ev_select env)
       else do { e \<leftarrow> lift (ev_wait env); return (Some e) });
     case sel of Some e \<Rightarrow> return (Some e)
     | None \<Rightarrow> do {
         update (\<lambda>s. s\<lparr>cs_slots := cs_slots s + 1\<rparr>);
         a \<leftarrow> semaphore_Acquire env byteCharge;
         case a of None \<Rightarrow> return None
         | Some e \<Rightarrow> do { update (\<lambda>s. s\<lparr>cs_slots := cs_slots s - 1\<rparr>); return (Some e) } } }"

text \<open>The function \<open>acquireDownload\<close> returns.\<close>

definition releaseDownload :: "int \<Rightarrow> ('w, unit) cm" where
  "releaseDownload byteCharge = do {
     s \<leftarrow> State_Monad.get;
     case Release byteCharge (cs_bytes s) of
       None \<Rightarrow> cs_panic
     | Some b \<Rightarrow> update (\<lambda>s. s\<lparr>cs_bytes := b, cs_slots := cs_slots s - 1\<rparr>) }"

subsection \<open>Metadata\<close>

text \<open>\<open>metadataFlight.Do\<close> and \<open>chunkFlight.Do\<close> for one caller.\<close>

definition flight_Do :: "'w Env \<Rightarrow> ('w, err + 'a) cm \<Rightarrow> ('w, err + 'a) cm" where
  "flight_Do env load = do {
     c \<leftarrow> lift (ev_ctx env);
     check c (do {
       r \<leftarrow> load;
       sel \<leftarrow> lift (ev_select env);
       check sel (return r) }) }"

definition downloadManifest ::
  "'w Env \<Rightarrow> 'w Consumer \<Rightarrow> ('m \<Rightarrow> json) \<Rightarrow> (json \<Rightarrow> 'm option) \<Rightarrow> bytes \<Rightarrow> digest \<Rightarrow> ('w, err + 'm) cm" where
  "downloadManifest env consumer to_json of_json kind digest = do {
     a \<leftarrow> acquireDownload env consumer maxMetadataObjectBytes;
     check a (do {
       r \<leftarrow> lift (getManifest (cn_repository consumer) to_json of_json kind digest);
       releaseDownload maxMetadataObjectBytes;
       return r }) }"

text \<open>\<open>getManifest\<close> of the consumer, which serves commits only.\<close>

definition consumer_getManifest :: "'w Env \<Rightarrow> 'w Consumer \<Rightarrow> digest \<Rightarrow> ('w, err + commitManifest) cm" where
  "consumer_getManifest env consumer digest =
     flight_Do env (downloadManifest env consumer commitManifest_to_json commitManifest_of_json ''commit'' digest)"

definition downloadReference :: "'w Env \<Rightarrow> 'w Consumer \<Rightarrow> bytes \<Rightarrow> ('w, err + snapshotReference \<times> Version) cm" where
  "downloadReference env consumer ifNoneMatch = do {
     a \<leftarrow> acquireDownload env consumer maxReferenceBytes;
     check a (do {
       r \<leftarrow> lift (getReferenceWithVerifier (ev_ctx env) (cn_repository consumer) (cn_channel consumer) ifNoneMatch
         (cn_referenceVerifier consumer));
       releaseDownload maxReferenceBytes;
       return (case r of Inl e \<Rightarrow> Inl e | Inr (reference, object) \<Rightarrow> Inr (reference, ob_Version object)) }) }"

text \<open>\<open>getTypedMetadata\<close> and \<open>putTypedMetadata\<close>; \<open>sel\<close> is the type assertion.\<close>

definition getTypedMetadata :: "(metadata \<Rightarrow> 'm option) \<Rightarrow> metadataCacheKey \<Rightarrow> ('w, 'm option) cm" where
  "getTypedMetadata sel key = do {
     s \<leftarrow> State_Monad.get;
     case cache_Get key (cs_metadata s) of (v, c) \<Rightarrow> do {
       update (\<lambda>s. s\<lparr>cs_metadata := c\<rparr>);
       return (Option.bind v sel) } }"

definition putTypedMetadata :: "(metadata \<Rightarrow> 'm option) \<Rightarrow> metadataCacheKey \<Rightarrow> metadata \<Rightarrow> int \<Rightarrow> ('w, err + 'm) cm" where
  "putTypedMetadata sel key v retainedBytes = do {
     s \<leftarrow> State_Monad.get;
     case cache_Put key v retainedBytes (cs_metadata s) of
       None \<Rightarrow> do { cs_panic; throw plain_error }
     | Some (stored, c) \<Rightarrow> do {
         update (\<lambda>s. s\<lparr>cs_metadata := c\<rparr>);
         case sel stored of Some m \<Rightarrow> return (Inr m)
         | None \<Rightarrow> do { cs_panic; throw plain_error } } }"

text \<open>The three loaders have one shape.\<close>

definition load_metadata ::
  "'w Env \<Rightarrow> 'w Consumer \<Rightarrow> ('m \<Rightarrow> json) \<Rightarrow> (json \<Rightarrow> 'm option) \<Rightarrow> (metadata \<Rightarrow> 'm option) \<Rightarrow> ('m \<Rightarrow> metadata)
   \<Rightarrow> ('m \<Rightarrow> err option) \<Rightarrow> ('m \<Rightarrow> int) \<Rightarrow> bytes \<Rightarrow> digest \<Rightarrow> ('w, err + 'm) cm" where
  "load_metadata env consumer to_json of_json sel wrap validate estimate kind digest = (
     let key = \<lparr>mk_kind = kind, mk_digest = digest\<rparr> in do {
       hit \<leftarrow> getTypedMetadata sel key;
       case hit of Some m \<Rightarrow> return (Inr m)
       | None \<Rightarrow> flight_Do env (do {
           again \<leftarrow> getTypedMetadata sel key;
           case again of Some m \<Rightarrow> return (Inr m)
           | None \<Rightarrow> do {
               d \<leftarrow> downloadManifest env consumer to_json of_json kind digest;
               ok d (\<lambda>manifest. check (validate manifest)
                 (putTypedMetadata sel key (wrap manifest) (estimate manifest))) } }) })"

fun as_dir :: "metadata \<Rightarrow> dirManifest option" where "as_dir (MDir m) = Some m" | "as_dir _ = None"
fun as_file :: "metadata \<Rightarrow> fileManifest option" where "as_file (MFile m) = Some m" | "as_file _ = None"
fun as_symlink :: "metadata \<Rightarrow> symlinkManifest option" where "as_symlink (MSymlink m) = Some m" | "as_symlink _ = None"

definition loadDirectory :: "'w Env \<Rightarrow> 'w Consumer \<Rightarrow> digest \<Rightarrow> ('w, err + dirManifest) cm" where
  "loadDirectory env consumer = load_metadata env consumer dirManifest_to_json dirManifest_of_json as_dir MDir
     validateDirectoryManifest (\<lambda>m. estimateDirectoryRetainedBytes (ev_capEntries env m) (ev_capName env) m) ''dir''"

definition loadFile :: "'w Env \<Rightarrow> 'w Consumer \<Rightarrow> digest \<Rightarrow> ('w, err + fileManifest) cm" where
  "loadFile env consumer = load_metadata env consumer fileManifest_to_json fileManifest_of_json as_file MFile
     (validateFileManifest (ev_deg env) (ev_irreducible env)) (\<lambda>m. estimateFileRetainedBytes (ev_capChunks env m) m) ''file''"

definition loadSymlink :: "'w Env \<Rightarrow> 'w Consumer \<Rightarrow> digest \<Rightarrow> ('w, err + symlinkManifest) cm" where
  "loadSymlink env consumer = load_metadata env consumer symlinkManifest_to_json symlinkManifest_of_json as_symlink MSymlink
     validateSymlinkManifest (\<lambda>m. estimateSymlinkRetainedBytes (ev_capTarget env m) m) ''symlink''"


subsection \<open>Ancestry\<close>

text \<open>The loop of \<open>validateDescendant\<close>, down to the generation after the anchor.\<close>

function ancestry :: "'w Env \<Rightarrow> 'w Consumer \<Rightarrow> Watermark \<Rightarrow> u64 \<Rightarrow> digest option \<Rightarrow> ('w, err + digest option) cm" where
  "ancestry env consumer anchor generation parent =
     (if generation > wm_Generation anchor then do {
        c \<leftarrow> lift (ev_ctx env);
        check c (case parent of None \<Rightarrow> throw [ErrSplitBrain]
          | Some p \<Rightarrow> if p = 0 then throw [ErrSplitBrain]
              else do {
                r \<leftarrow> consumer_getManifest env consumer p;
                ok r (\<lambda>ancestor. check (validateCommitManifest ancestor generation)
                  (ancestry env consumer anchor (generation - 1) (cm_Parent ancestor))) }) }
      else return (Inr parent))"
  by pat_completeness auto
termination
  by (relation "measure (\<lambda>(env, consumer, anchor, generation, parent). unat generation)") auto

declare ancestry.simps [simp del]

definition validateDescendant ::
  "'w Env \<Rightarrow> 'w Consumer \<Rightarrow> snapshotReference \<Rightarrow> commitManifest \<Rightarrow> Watermark \<Rightarrow> ('w, err option) cm" where
  "validateDescendant env consumer reference commit anchor =
     (if unat (sr_Generation reference - wm_Generation anchor) > maxCommitWalk then return (Some [ErrResourceLimit])
      else do {
        r \<leftarrow> ancestry env consumer anchor (sr_Generation reference - 1) (cm_Parent commit);
        return (case r of Inl e \<Rightarrow> Some e
          | Inr parent \<Rightarrow> if parent = None \<or> parent \<noteq> Some (wm_Commit anchor) then Some [ErrSplitBrain] else None) })"

subsection \<open>The watermark of the consumer\<close>

definition set_watermark :: "Watermark \<Rightarrow> ('w, unit) cm" where
  "set_watermark w = update (\<lambda>s. s\<lparr>cs_watermark := w\<rparr>)"

text \<open>The end of \<open>validateWatermarkCheckpoint\<close>: the watermark is ahead of its anchor.\<close>

definition checkpoint_walk :: "'w Env \<Rightarrow> 'w Consumer \<Rightarrow> Watermark \<Rightarrow> Watermark \<Rightarrow> ('w, err option) cm" where
  "checkpoint_walk env consumer watermark anchor = do {
     r \<leftarrow> consumer_getManifest env consumer (wm_Commit watermark);
     case r of Inl e \<Rightarrow> return (Some e)
     | Inr commit \<Rightarrow> (case validateCommitManifest commit (wm_Generation watermark) of Some e \<Rightarrow> return (Some e)
       | None \<Rightarrow> errs (validateDescendant env consumer \<lparr>sr_Format = objectFormatVersion,
             sr_Generation = wm_Generation watermark, sr_Commit = wm_Commit watermark\<rparr> commit anchor)
           (do { update (\<lambda>s. s\<lparr>cs_checkpointValidated := watermark\<rparr>); return None })) }"

definition validateWatermarkCheckpoint :: "'w Env \<Rightarrow> 'w Consumer \<Rightarrow> Watermark \<Rightarrow> Watermark \<Rightarrow> ('w, err option) cm" where
  "validateWatermarkCheckpoint env consumer watermark checkpoint = do {
     s \<leftarrow> State_Monad.get;
     let validated = cs_checkpointValidated s; known = (wm_Commit validated \<noteq> 0);
         anchor = (if known then validated else checkpoint) in
     if known \<and> wm_Generation watermark < wm_Generation validated then return (Some [ErrRollbackDetected])
     else if known \<and> wm_Generation watermark = wm_Generation validated \<and> wm_Commit watermark \<noteq> wm_Commit validated
       then return (Some [ErrSplitBrain])
     else if known \<and> watermark = validated then return None
     else if wm_RepositoryID watermark \<noteq> wm_RepositoryID checkpoint then return (Some [ErrUntrustedReference])
     else if wm_Generation watermark < wm_Generation checkpoint then return (Some [ErrRollbackDetected])
     else if wm_Generation watermark = wm_Generation checkpoint then
       (if wm_Commit watermark \<noteq> wm_Commit checkpoint then return (Some [ErrSplitBrain])
        else do { update (\<lambda>s. s\<lparr>cs_checkpointValidated := watermark\<rparr>); return None })
     else checkpoint_walk env consumer watermark anchor }"

text \<open>The first part of \<open>loadWatermark\<close>: what was found is checked and kept.\<close>

definition accept_found :: "'w Env \<Rightarrow> 'w Consumer \<Rightarrow> Watermark \<Rightarrow> ('w, err option) cm" where
  "accept_found env consumer watermark =
     (if wm_Generation watermark = 0 \<or> wm_Commit watermark = 0 then return (Some [ErrCorruptObject])
      else if (case cn_referenceVerifier consumer of Some v \<Rightarrow> wm_RepositoryID watermark \<noteq> rv_RepositoryID v
               | None \<Rightarrow> wm_RepositoryID watermark \<noteq> 0) then return (Some [ErrUntrustedReference])
      else errs (case cn_trustedCheckpoint consumer of None \<Rightarrow> return None
          | Some checkpoint \<Rightarrow> validateWatermarkCheckpoint env consumer watermark checkpoint)
        (do { set_watermark watermark; return None }))"

text \<open>When the trusted checkpoint could not be stored: what is durable instead.\<close>

definition reload_checkpoint :: "'w Env \<Rightarrow> 'w Consumer \<Rightarrow> 'w WatermarkStore \<Rightarrow> Watermark \<Rightarrow> ('w, err + bool) cm" where
  "reload_checkpoint env consumer store checkpoint = do {
     l \<leftarrow> lift (ws_Load store (cn_channel consumer));
     ok l (\<lambda>again. case again of
       None \<Rightarrow> throw [ErrUntrustedReference]
     | Some watermark \<Rightarrow>
         if wm_RepositoryID watermark \<noteq> wm_RepositoryID checkpoint \<or> wm_Generation watermark < wm_Generation checkpoint
            \<or> (wm_Generation watermark = wm_Generation checkpoint \<and> wm_Commit watermark \<noteq> wm_Commit checkpoint)
         then throw [ErrUntrustedReference]
         else do {
           e \<leftarrow> validateWatermarkCheckpoint env consumer watermark checkpoint;
           check e (do { set_watermark watermark; return (Inr True) }) }) }"

text \<open>The second part: the trusted checkpoint becomes durable. The result says whether a watermark is known.\<close>

definition apply_checkpoint :: "'w Env \<Rightarrow> 'w Consumer \<Rightarrow> 'w WatermarkStore \<Rightarrow> Watermark option \<Rightarrow> ('w, err + bool) cm" where
  "apply_checkpoint env consumer store found = (case (cn_referenceVerifier consumer, cn_trustedCheckpoint consumer) of
     (Some _, Some checkpoint) \<Rightarrow> (case found of
         Some watermark \<Rightarrow>
           if wm_Generation watermark < wm_Generation checkpoint then throw [ErrRollbackDetected]
           else if wm_Generation watermark = wm_Generation checkpoint \<and> wm_Commit watermark \<noteq> wm_Commit checkpoint
             then throw [ErrSplitBrain]
           else return (Inr True)
       | None \<Rightarrow> do {
           persisted \<leftarrow> lift (ws_CompareAndSwap store (cn_channel consumer) None checkpoint);
           case persisted of
             None \<Rightarrow> do { set_watermark checkpoint; return (Inr True) }
           | Some _ \<Rightarrow> reload_checkpoint env consumer store checkpoint })
   | (Some _, None) \<Rightarrow> if found = None \<and> \<not> cn_allowTrustOnFirstUse consumer then throw [ErrTrustStateRequired]
       else return (Inr (found \<noteq> None))
   | (None, _) \<Rightarrow> return (Inr (found \<noteq> None)))"

text \<open>The last part: the watermark against the snapshot already exposed.\<close>

definition check_current :: "bool \<Rightarrow> ('w, err option) cm" where
  "check_current found = do {
     s \<leftarrow> State_Monad.get;
     case cs_state s of
       None \<Rightarrow> do { update (\<lambda>s. s\<lparr>cs_watermarkLoaded := True\<rparr>); return None }
     | Some current \<Rightarrow>
         if \<not> found \<and> wm_Generation (cs_watermark s) = 0 then return (Some [ErrTrustStateRequired])
         else if wm_Generation (cs_watermark s) > 0 \<and> wm_Generation (cs_watermark s) < sr_Generation (as_reference current)
           then return (Some [ErrRollbackDetected])
         else if wm_Generation (cs_watermark s) > 0 \<and> wm_Generation (cs_watermark s) = sr_Generation (as_reference current)
             \<and> wm_Commit (cs_watermark s) \<noteq> sr_Commit (as_reference current) then return (Some [ErrSplitBrain])
         else do { update (\<lambda>s. s\<lparr>cs_watermarkLoaded := True\<rparr>); return None } }"

definition loadWatermark :: "'w Env \<Rightarrow> 'w Consumer \<Rightarrow> ('w, err option) cm" where
  "loadWatermark env consumer = do {
     s \<leftarrow> State_Monad.get;
     if cs_watermarkLoaded s then return None
     else case cn_watermarks consumer of
       None \<Rightarrow> do { update (\<lambda>s. s\<lparr>cs_watermarkLoaded := True\<rparr>); return None }
     | Some store \<Rightarrow> do {
         l \<leftarrow> lift (ws_Load store (cn_channel consumer));
         case l of Inl e \<Rightarrow> return (Some e)
         | Inr found \<Rightarrow>
             errs (case found of None \<Rightarrow> do { set_watermark zero_watermark; return None }
                 | Some watermark \<Rightarrow> accept_found env consumer watermark) (do {
               k \<leftarrow> apply_checkpoint env consumer store found;
               case k of Inl e \<Rightarrow> return (Some e)
               | Inr known \<Rightarrow> check_current known }) } }"

definition persistConsumerWatermark ::
  "'w Consumer \<Rightarrow> 'w WatermarkStore \<Rightarrow> Watermark option \<Rightarrow> Watermark \<Rightarrow> ('w, err option) cm" where
  "persistConsumerWatermark consumer store expected next = do {
     e \<leftarrow> lift (ws_CompareAndSwap store (cn_channel consumer) expected next);
     case e of None \<Rightarrow> return None
     | Some err \<Rightarrow> do {
         l \<leftarrow> lift (ws_Load store (cn_channel consumer));
         case l of
           Inl loadErr \<Rightarrow> do { update (\<lambda>s. s\<lparr>cs_watermarkLoaded := False\<rparr>); return (Some loadErr) }
         | Inr (Some observed) \<Rightarrow>
             if wm_RepositoryID observed \<noteq> wm_RepositoryID next \<or> wm_Generation observed = 0 \<or> wm_Commit observed = 0
             then return (Some [ErrUntrustedReference])
             else if observed = next then do { set_watermark observed; return None }
             else if wm_Generation observed = wm_Generation next then return (Some [ErrSplitBrain])
             else if wm_Generation observed > wm_Generation next
               then do { set_watermark observed; return (Some [ErrPrecondition]) }
             else do { update (\<lambda>s. s\<lparr>cs_watermarkLoaded := False\<rparr>); return (Some err) }
         | Inr None \<Rightarrow> do { update (\<lambda>s. s\<lparr>cs_watermarkLoaded := False\<rparr>); return (Some err) } } }"


subsection \<open>Refresh\<close>

definition refreshResult :: "adoptedSnapshot option \<Rightarrow> RefreshStatus \<Rightarrow> RefreshResult" where
  "refreshResult snapshot status = \<lparr>rr_Status = status,
     rr_Generation = (case snapshot of None \<Rightarrow> 0 | Some a \<Rightarrow> sr_Generation (as_reference a))\<rparr>"

definition no_result :: RefreshResult where
  "no_result = \<lparr>rr_Status = RefreshUnchanged, rr_Generation = 0\<rparr>"

definition reference_watermark :: "'w Consumer \<Rightarrow> snapshotReference \<Rightarrow> Watermark" where
  "reference_watermark consumer reference = \<lparr>wm_RepositoryID = (case cn_referenceVerifier consumer of None \<Rightarrow> 0 | Some v \<Rightarrow> rv_RepositoryID v),
     wm_Generation = sr_Generation reference, wm_Commit = sr_Commit reference\<rparr>"

text \<open>The comparisons of a downloaded reference with the watermark and with the current snapshot, up to
  the point where a new snapshot is loaded. \<open>Some\<close> is what \<open>Refresh\<close> returns; the flag says that
  only the version token is to be replaced.\<close>

definition compare_reference ::
  "Watermark \<Rightarrow> adoptedSnapshot option \<Rightarrow> snapshotReference \<Rightarrow> (RefreshResult \<times> err option \<times> bool) option" where
  "compare_reference watermark current reference =
     (let ahead = (wm_Generation watermark > 0 \<and> (case current of None \<Rightarrow> True
            | Some a \<Rightarrow> wm_Generation watermark > sr_Generation (as_reference a))) in
      if ahead \<and> sr_Generation reference < wm_Generation watermark
      then Some (refreshResult current RefreshStaleIgnored, Some [ErrRollbackDetected], False)
      else if ahead \<and> sr_Generation reference = wm_Generation watermark \<and> sr_Commit reference \<noteq> wm_Commit watermark
      then Some (refreshResult current RefreshUnchanged, Some [ErrSplitBrain], False)
      else case current of None \<Rightarrow> None
      | Some a \<Rightarrow>
          if sr_Generation reference < sr_Generation (as_reference a)
          then Some (refreshResult current RefreshStaleIgnored, None, False)
          else if sr_Generation reference = sr_Generation (as_reference a) \<and> sr_Commit reference \<noteq> sr_Commit (as_reference a)
          then Some (refreshResult current RefreshUnchanged, Some [ErrSplitBrain], False)
          else if sr_Generation reference = sr_Generation (as_reference a)
          then Some (refreshResult current RefreshUnchanged, None, True)
          else None)"

text \<open>The higher of the watermark and the snapshot already exposed; equal generations must agree.\<close>

definition choose_anchor :: "'w Consumer \<Rightarrow> Watermark \<Rightarrow> adoptedSnapshot option \<Rightarrow> err + Watermark" where
  "choose_anchor consumer watermark current = (case current of None \<Rightarrow> Inr watermark
     | Some a \<Rightarrow> (let own = reference_watermark consumer (as_reference a) in
         if wm_Generation own > wm_Generation watermark then Inr own
         else if wm_Generation own = wm_Generation watermark \<and> wm_Commit own \<noteq> wm_Commit watermark then Inl [ErrSplitBrain]
         else Inr watermark))"

text \<open>The end of \<open>Refresh\<close>: the watermark becomes durable before the snapshot is exposed.\<close>

definition expose ::
  "'w Consumer \<Rightarrow> adoptedSnapshot option \<Rightarrow> snapshotReference \<Rightarrow> commitManifest \<Rightarrow> Version \<Rightarrow> ('w, RefreshResult \<times> err option) cm" where
  "expose consumer current reference commit version = do {
     s \<leftarrow> State_Monad.get;
     let watermark = reference_watermark consumer reference;
         old = cs_watermark s;
         adopted = \<lparr>as_reference = reference, as_commit = commit, as_version = version\<rparr> in do {
     p \<leftarrow> (case cn_watermarks consumer of
       Some store \<Rightarrow> if wm_Generation watermark > wm_Generation old
         then persistConsumerWatermark consumer store (if wm_Generation old > 0 then Some old else None) watermark
         else return None
     | None \<Rightarrow> return None);
     case p of Some e \<Rightarrow> return (refreshResult current RefreshUnchanged, Some e)
     | None \<Rightarrow> do {
         update (\<lambda>s. s\<lparr>cs_watermark := (if wm_Generation watermark \<ge> wm_Generation (cs_watermark s) then watermark else cs_watermark s),
           cs_state := Some adopted\<rparr>);
         return (refreshResult (Some adopted) RefreshUpdated, None) } } }"

text \<open>Loading, checking and adopting a newer snapshot.\<close>

definition adopt :: "'w Env \<Rightarrow> 'w Consumer \<Rightarrow> adoptedSnapshot option \<Rightarrow> snapshotReference \<Rightarrow> Version \<Rightarrow> ('w, RefreshResult \<times> err option) cm" where
  "adopt env consumer current reference version = (
     let unchanged = (\<lambda>e. return (refreshResult current RefreshUnchanged, Some e)) in do {
     c \<leftarrow> consumer_getManifest env consumer (sr_Commit reference);
     case c of Inl e \<Rightarrow> unchanged e
     | Inr commit \<Rightarrow> (case validateCommitManifest commit (sr_Generation reference) of Some e \<Rightarrow> unchanged e
     | None \<Rightarrow> do {
         s \<leftarrow> State_Monad.get;
         case choose_anchor consumer (cs_watermark s) current of Inl e \<Rightarrow> unchanged e
         | Inr anchor \<Rightarrow> do {
             d \<leftarrow> (if wm_Generation anchor > 0 \<and> sr_Generation reference > wm_Generation anchor
               then validateDescendant env consumer reference commit anchor else return None);
             case d of Some e \<Rightarrow> unchanged e
             | None \<Rightarrow> do {
                 r \<leftarrow> loadDirectory env consumer (cm_Root commit);
                 case r of Inl e \<Rightarrow> unchanged e
                 | Inr _ \<Rightarrow> expose consumer current reference commit version } } }) })"

definition refresh_with ::
  "'w Env \<Rightarrow> 'w Consumer \<Rightarrow> adoptedSnapshot option \<Rightarrow> err + snapshotReference \<times> Version \<Rightarrow> ('w, RefreshResult \<times> err option) cm" where
  "refresh_with env consumer current download = do {
     s \<leftarrow> State_Monad.get;
     case download of
       Inl e \<Rightarrow>
         if errors_Is e ErrNotModified then return (refreshResult current RefreshUnchanged, None)
         else if errors_Is e ErrObjectNotFound then
           (case current of
              None \<Rightarrow> if wm_Generation (cs_watermark s) > 0 then return (no_result, Some [ErrRollbackDetected])
                else return (\<lparr>rr_Status = RefreshNoSnapshot, rr_Generation = 0\<rparr>, None)
            | Some a \<Rightarrow> if wm_Generation (cs_watermark s) > sr_Generation (as_reference a)
                then return (refreshResult current RefreshStaleIgnored, Some [ErrRollbackDetected])
                else return (refreshResult current RefreshUnchanged, None))
         else return (refreshResult current RefreshUnchanged, Some e)
     | Inr (reference, version) \<Rightarrow> (case compare_reference (cs_watermark s) current reference of
         Some (result, e, same) \<Rightarrow> do {
           (if same then update (\<lambda>s. s\<lparr>cs_state := map_option (\<lambda>a. a\<lparr>as_version := version\<rparr>) (cs_state s)\<rparr>) else return ());
           return (result, e) }
       | None \<Rightarrow> adopt env consumer current reference version) }"

definition Refresh :: "'w Env \<Rightarrow> 'w Consumer \<Rightarrow> ('w, RefreshResult \<times> err option) cm" where
  "Refresh env consumer = do {
     gate \<leftarrow> lift (ev_select env);
     case gate of Some e \<Rightarrow> return (no_result, Some e)
     | None \<Rightarrow> do {
         update (\<lambda>s. if cn_watermarks consumer \<noteq> None then s\<lparr>cs_watermarkLoaded := False\<rparr> else s);
         l \<leftarrow> loadWatermark env consumer;
         case l of Some e \<Rightarrow> return (no_result, Some e)
         | None \<Rightarrow> do {
             s \<leftarrow> State_Monad.get;
             let current = cs_state s;
                 ifNoneMatch = (case current of None \<Rightarrow> []
                   | Some a \<Rightarrow> if wm_Generation (cs_watermark s) = 0
                        \<or> (wm_Generation (cs_watermark s) = sr_Generation (as_reference a) \<and> wm_Commit (cs_watermark s) = sr_Commit (as_reference a))
                       then v_ETag (as_version a) else []) in do {
             d \<leftarrow> downloadReference env consumer ifNoneMatch;
             refresh_with env consumer current d } } } }"

subsection \<open>Reading the tree\<close>

definition CurrentSnapshot :: "'w cstate \<Rightarrow> Snapshot option" where
  "CurrentSnapshot s = map_option (\<lambda>a. \<lparr>ss_Generation = sr_Generation (as_reference a), ss_Commit = sr_Commit (as_reference a),
     ss_Root = cm_Root (as_commit a), ss_PublishedAt = cm_PublishedAtUnix (as_commit a)\<rparr>) (cs_state s)"

definition snapshotRoot :: "'w cstate \<Rightarrow> err + digest \<times> u64" where
  "snapshotRoot s = (case cs_state s of None \<Rightarrow> Inl [ErrNoSnapshot]
     | Some a \<Rightarrow> Inr (cm_Root (as_commit a), sr_Generation (as_reference a)))"

record resolvedEntry =
  re_entry :: dirEntry
  re_generation :: u64
  re_isRoot :: bool

text \<open>The loop of \<open>resolve\<close>, one component at a time; the list is not empty when it is called.\<close>

fun resolve_components :: "'w Env \<Rightarrow> 'w Consumer \<Rightarrow> digest \<Rightarrow> bytes list \<Rightarrow> ('w, err + dirEntry) cm" where
  "resolve_components env consumer directoryDigest [] = do { cs_panic; throw plain_error }"
| "resolve_components env consumer directoryDigest (component # rest) = do {
     d \<leftarrow> loadDirectory env consumer directoryDigest;
     ok d (\<lambda>directory. case lookup_entry (elems (dm_Entries directory)) component of
         None \<Rightarrow> throw [ErrPathNotFound]
       | Some entry \<Rightarrow>
           if rest = [] then return (Inr entry)
           else if de_Type entry \<noteq> EntryDir then throw [ErrNotDirectory]
           else resolve_components env consumer (de_Node entry) rest) }"

definition resolve :: "'w Env \<Rightarrow> 'w Consumer \<Rightarrow> bytes \<Rightarrow> ('w, err + resolvedEntry) cm" where
  "resolve env consumer path = ok (cleanLookupPath path) (\<lambda>components. do {
     s \<leftarrow> State_Monad.get;
     ok (snapshotRoot s) (\<lambda>(root, generation).
       if components = [] then return (Inr \<lparr>re_entry = \<lparr>de_Name = None, de_Type = EntryDir, de_Node = root, de_Mode = 0x16D,
           de_Size = 0, de_ModTimeUnixNano = 0\<rparr>, re_generation = generation, re_isRoot = True\<rparr>)
       else do {
         r \<leftarrow> resolve_components env consumer root components;
         ok r (\<lambda>entry. return (Inr \<lparr>re_entry = entry, re_generation = generation, re_isRoot = False\<rparr>)) }) })"

definition publicEntry :: "bytes \<Rightarrow> dirEntry \<Rightarrow> Entry" where
  "publicEntry name entry = \<lparr>en_Name = name, en_Type = de_Type entry, en_Size = de_Size entry,
     en_Mode = readonlyMode (de_Mode entry), en_ModTime = de_ModTimeUnixNano entry\<rparr>"

definition Stat :: "'w Env \<Rightarrow> 'w Consumer \<Rightarrow> bytes \<Rightarrow> ('w, err + Entry) cm" where
  "Stat env consumer path = do {
     r \<leftarrow> resolve env consumer path;
     ok r (\<lambda>resolved. return (Inr (publicEntry (if re_isRoot resolved then [] else entry_name (re_entry resolved)) (re_entry resolved)))) }"

definition ListDir :: "'w Env \<Rightarrow> 'w Consumer \<Rightarrow> bytes \<Rightarrow> ('w, err + Entry list) cm" where
  "ListDir env consumer path = do {
     r \<leftarrow> resolve env consumer path;
     ok r (\<lambda>resolved. if de_Type (re_entry resolved) \<noteq> EntryDir then throw [ErrNotDirectory]
       else do {
         d \<leftarrow> loadDirectory env consumer (de_Node (re_entry resolved));
         ok d (\<lambda>directory. return (Inr (map (\<lambda>entry. publicEntry (entry_name entry) entry) (elems (dm_Entries directory))))) }) }"

record File =
  fl_manifest :: fileManifest
  fl_generation :: u64

definition Open :: "'w Env \<Rightarrow> 'w Consumer \<Rightarrow> bytes \<Rightarrow> ('w, err + File) cm" where
  "Open env consumer path = do {
     r \<leftarrow> resolve env consumer path;
     ok r (\<lambda>resolved.
       if de_Type (re_entry resolved) = EntryDir then throw [ErrIsDirectory]
       else if de_Type (re_entry resolved) \<noteq> EntryFile then throw [ErrUnsupportedType]
       else do {
         f \<leftarrow> loadFile env consumer (de_Node (re_entry resolved));
         ok f (\<lambda>manifest. if fm_Size manifest \<noteq> de_Size (re_entry resolved) then throw [ErrCorruptObject]
           else return (Inr \<lparr>fl_manifest = manifest, fl_generation = re_generation resolved\<rparr>)) }) }"

definition Readlink :: "'w Env \<Rightarrow> 'w Consumer \<Rightarrow> bytes \<Rightarrow> ('w, err + bytes) cm" where
  "Readlink env consumer path = do {
     r \<leftarrow> resolve env consumer path;
     ok r (\<lambda>resolved. if de_Type (re_entry resolved) \<noteq> EntrySymlink then throw [ErrUnsupportedType]
       else do {
         l \<leftarrow> loadSymlink env consumer (de_Node (re_entry resolved));
         ok l (\<lambda>manifest. let target = elems (sm_Target manifest) in
           if len target \<noteq> de_Size (re_entry resolved) then throw [ErrCorruptObject]
           else if cn_symlinkPolicy consumer = SymlinkRejectExternal then
             ok (cleanLookupPath path) (\<lambda>components.
               check (validateSafeSymlink (join_slash components) target) (return (Inr target)))
           else return (Inr target)) }) }"


subsection \<open>Reading chunks\<close>

text \<open>The second half of \<open>getCachedChunk\<close>: what an answer of the cache means, with the errors to collect.\<close>

definition accept_cached :: "'w Consumer \<Rightarrow> digest \<Rightarrow> int \<Rightarrow> err + bytes option \<Rightarrow> (err + bytes option) \<times> err list" where
  "accept_cached consumer digest expectedSize r = (case r of
     Inl e \<Rightarrow> if errors_Is e ErrCorruptObject \<or> cn_strictCacheErrors consumer then (Inl e, []) else (Inr None, [e])
   | Inr None \<Rightarrow> (Inr None, [])
   | Inr (Some data) \<Rightarrow>
       if len data \<noteq> expectedSize then (Inl [ErrCorruptObject], [])
       else if digestObject ''chunk'' data \<noteq> digest then (Inl [ErrCorruptObject], [])
       else (Inr (Some data), []))"

definition getCachedChunk :: "'w Consumer \<Rightarrow> digest \<Rightarrow> int \<Rightarrow> ('w, (err + bytes option) \<times> err list) cm" where
  "getCachedChunk consumer digest expectedSize = (case cn_cache consumer of
     None \<Rightarrow> return (Inr None, [])
   | Some cache \<Rightarrow> do {
       r \<leftarrow> lift (case cc_GetSized cache of Some sized \<Rightarrow> sized digest expectedSize | None \<Rightarrow> cc_Get cache digest);
       return (accept_cached consumer digest expectedSize r) })"

definition reportCacheError :: "'w Consumer \<Rightarrow> err \<Rightarrow> ('w, unit) cm" where
  "reportCacheError consumer e = (case cn_onCacheError consumer of None \<Rightarrow> return () | Some f \<Rightarrow> lift (f e))"

text \<open>The \<open>afterRelease\<close> function of \<open>getChunk\<close>.\<close>

fun report_all :: "'w Consumer \<Rightarrow> err list \<Rightarrow> ('w, unit) cm" where
  "report_all consumer [] = return ()"
| "report_all consumer (e # es) = do { reportCacheError consumer e; report_all consumer es }"

text \<open>The loader of \<open>getChunk\<close>: with data, the download reservation is still held. The second
  component collects \<open>cacheErrors\<close>. First the part after a cache miss.\<close>

definition fetch_chunk :: "'w Consumer \<Rightarrow> digest \<Rightarrow> int \<Rightarrow> err list \<Rightarrow> ('w, (err + bytes) \<times> err list) cm" where
  "fetch_chunk consumer digest expectedSize cacheErrors = do {
     r \<leftarrow> lift (getImmutableExact (cn_repository consumer) ''chunk'' digest expectedSize);
     case r of
       Inl e \<Rightarrow> do { releaseDownload expectedSize; return (Inl e, cacheErrors) }
     | Inr data \<Rightarrow> (case cn_cache consumer of
         None \<Rightarrow> return (Inr data, cacheErrors)
       | Some cache \<Rightarrow> do {
           p \<leftarrow> lift (cc_Put cache digest data);
           case p of None \<Rightarrow> return (Inr data, cacheErrors)
           | Some e \<Rightarrow>
               if cn_strictCacheErrors consumer then do { releaseDownload expectedSize; return (Inl e, cacheErrors) }
               else return (Inr data, cacheErrors @ [e]) }) }"

definition load_chunk :: "'w Env \<Rightarrow> 'w Consumer \<Rightarrow> digest \<Rightarrow> int \<Rightarrow> ('w, (err + bytes) \<times> err list) cm" where
  "load_chunk env consumer digest expectedSize = do {
     a \<leftarrow> acquireDownload env consumer expectedSize;
     case a of Some e \<Rightarrow> return (Inl e, [])
     | None \<Rightarrow> do {
         (c, cacheErrors) \<leftarrow> getCachedChunk consumer digest expectedSize;
         case c of
           Inl e \<Rightarrow> do { releaseDownload expectedSize; return (Inl e, cacheErrors) }
         | Inr (Some data) \<Rightarrow> return (Inr data, cacheErrors)
         | Inr None \<Rightarrow> fetch_chunk consumer digest expectedSize cacheErrors } }"

text \<open>What a lease of a chunk holds: the data, the charge to give back and the errors to report then.\<close>

record chunkLease =
  cl_data :: bytes
  cl_charge :: int
  cl_errors :: "err list"

definition releaseLease :: "'w Consumer \<Rightarrow> chunkLease \<Rightarrow> ('w, unit) cm" where
  "releaseLease consumer lease = do {
     releaseDownload (cl_charge lease);
     report_all consumer (cl_errors lease) }"

text \<open>\<open>getChunk\<close> through the chunk flight, for one caller: a failed load is finalized when it
  returns, a successful one when the caller abandons it or releases its lease.\<close>

definition getChunk :: "'w Env \<Rightarrow> 'w Consumer \<Rightarrow> digest \<Rightarrow> int \<Rightarrow> ('w, err + chunkLease) cm" where
  "getChunk env consumer digest expectedSize =
     (if expectedSize < 1 \<or> expectedSize > maxChunkObjectBytes then throw [ErrCorruptObject]
      else do {
        c \<leftarrow> lift (ev_ctx env);
        check c (do {
          (r, cacheErrors) \<leftarrow> load_chunk env consumer digest expectedSize;
          case r of
            Inl e \<Rightarrow> do {
              report_all consumer cacheErrors;
              sel \<leftarrow> lift (ev_select env);
              check sel (throw e) }
          | Inr data \<Rightarrow> (let lease = \<lparr>cl_data = data, cl_charge = expectedSize, cl_errors = cacheErrors\<rparr> in do {
              sel \<leftarrow> lift (ev_select env);
              case sel of None \<Rightarrow> return (Inr lease)
              | Some e \<Rightarrow> do { releaseLease consumer lease; throw e } }) }) })"

definition min64 :: "int \<Rightarrow> int \<Rightarrow> int" where "min64 left right = (if left < right then left else right)"
definition max64 :: "int \<Rightarrow> int \<Rightarrow> int" where "max64 left right = (if left > right then left else right)"

text \<open>\<open>room\<close> is the length of the destination that is left; slicing out of range would panic.\<close>

definition copyChunkLease :: "'w Env \<Rightarrow> 'w Consumer \<Rightarrow> chunkLease \<Rightarrow> nat \<Rightarrow> chunkRef \<Rightarrow> int \<Rightarrow> int \<Rightarrow> ('w, err + bytes) cm" where
  "copyChunkLease env consumer lease room chunk offset limit = do {
     r \<leftarrow> (if len (cl_data lease) \<noteq> cr_Size chunk then throw [ErrCorruptObject]
       else do {
         c \<leftarrow> lift (ev_ctx env);
         check c (
           let start = wrap64 (max64 offset (cr_Offset chunk) - cr_Offset chunk);
               stop = wrap64 (min64 limit (wrap64 (cr_Offset chunk + cr_Size chunk)) - cr_Offset chunk)
           in if 0 \<le> start \<and> start \<le> stop \<and> stop \<le> len (cl_data lease)
              then return (Inr (take room (take (nat (stop - start)) (drop (nat start) (cl_data lease)))))
              else do { cs_panic; throw plain_error }) });
     releaseLease consumer lease;
     return r }"

text \<open>The loop of \<open>ReadAtContext\<close> over the chunks from \<open>index\<close> on; the bytes written so far are the
  prefix of the destination of length \<open>size\<close>.\<close>

fun read_chunks :: "'w Env \<Rightarrow> 'w Consumer \<Rightarrow> nat \<Rightarrow> int \<Rightarrow> chunkRef list \<Rightarrow> int \<Rightarrow> bytes \<Rightarrow> ('w, bytes \<times> err option) cm" where
  "read_chunks env consumer room limit [] offset written =
     return (written, if length written < room then Some [ErrEOF] else None)"
| "read_chunks env consumer room limit (chunk # rest) offset written =
     (if offset < limit then do {
        c \<leftarrow> lift (ev_ctx env);
        case c of Some e \<Rightarrow> return (written, Some e)
        | None \<Rightarrow> do {
            g \<leftarrow> getChunk env consumer (cr_Digest chunk) (cr_Size chunk);
            case g of Inl e \<Rightarrow> return (written, Some e)
            | Inr lease \<Rightarrow> do {
                p \<leftarrow> copyChunkLease env consumer lease (room - length written) chunk offset limit;
                case p of Inl e \<Rightarrow> return (written, Some e)
                | Inr copied \<Rightarrow> read_chunks env consumer room limit rest (wrap64 (offset + len copied)) (written @ copied) } } }
      else return (written, if length written < room then Some [ErrEOF] else None))"

definition ReadAtContext :: "'w Env \<Rightarrow> 'w Consumer \<Rightarrow> File \<Rightarrow> nat \<Rightarrow> int \<Rightarrow> ('w, bytes \<times> err option) cm" where
  "ReadAtContext env consumer f room offset =
     (let m = fl_manifest f; chunks = elems (fm_Chunks m) in
      if offset < 0 then return ([], Some plain_error)
      else if room = 0 then return ([], None)
      else if offset \<ge> fm_Size m then return ([], Some [ErrEOF])
      else let limit = wrap64 (offset + int room);
               limit = (if limit < offset \<or> limit > fm_Size m then fm_Size m else limit);
               index = sort_Search (length chunks) (\<lambda>i. wrap64 (cr_Offset (chunks ! i) + cr_Size (chunks ! i)) > offset)
           in read_chunks env consumer room limit (drop index chunks) offset [])"

definition file_Size :: "File \<Rightarrow> int" where "file_Size f = fm_Size (fl_manifest f)"
definition file_Generation :: "File \<Rightarrow> u64" where "file_Generation f = fl_generation f"

end
