(* ===== verification/Consumer_Trust.thy ===== *)
theory Consumer_Trust
  imports Consumer
begin

section \<open>The consumer only moves forward\<close>

text \<open>
  What every operation of the consumer keeps, for any environment: the download slots and the byte
  budget are given back on every path, no panic of the source is reachable, and the metadata cache
  holds only manifests that were validated and whose canonical encoding has the digest of their key.
  On top of it the anti-rollback properties of \<open>Refresh\<close>.
\<close>

text \<open>Reading and writing the state in front of a program whose other calls are left folded.\<close>

lemma wp_get_bind: "wp (State_Monad.bind State_Monad.get f) Q s = wp (f s) Q s"
  by (simp add: wp_simps)

lemma wp_update_bind: "wp (State_Monad.bind (update f) g) Q s = wp (g ()) Q (f s)"
  by (simp add: wp_simps)

lemmas wp_state = wp_get_bind wp_update_bind wp_if Let_def

subsection \<open>The environment\<close>

text \<open>Every run of an operation stays within a relation on the world.\<close>

definition steps :: "('w \<Rightarrow> 'w \<Rightarrow> bool) \<Rightarrow> ('w, 'a) state \<Rightarrow> bool" where
  "steps R m \<longleftrightarrow> (\<forall>w a w'. run_state m w = (a, w') \<longrightarrow> R w w')"

lemma stepsI: "(\<And>w a w'. run_state m w = (a, w') \<Longrightarrow> R w w') \<Longrightarrow> steps R m"
  by (simp add: steps_def)

lemma wp_steps: "steps R m \<Longrightarrow> wp m (\<lambda>_. R w) w"
  by (rule wp_op) (simp add: steps_def)

lemma steps_True [simp]: "steps (\<lambda>_ _. True) m"
  by (simp add: steps_def)

definition commit_object :: "digest \<Rightarrow> commitManifest \<Rightarrow> bool" where
  "commit_object d m \<longleftrightarrow> wf_commitManifest m \<and> digestObject ''commit'' (canonicalJSON commitManifest_to_json m) = d"

definition dir_object :: "digest \<Rightarrow> dirManifest \<Rightarrow> bool" where
  "dir_object d m \<longleftrightarrow> wf_dirManifest m \<and> digestObject ''dir'' (canonicalJSON dirManifest_to_json m) = d
     \<and> validateDirectoryManifest m = None"

definition file_object :: "'w Env \<Rightarrow> digest \<Rightarrow> fileManifest \<Rightarrow> bool" where
  "file_object env d m \<longleftrightarrow> wf_fileManifest m \<and> digestObject ''file'' (canonicalJSON fileManifest_to_json m) = d
     \<and> validateFileManifest (ev_deg env) (ev_irreducible env) m = None"

definition symlink_object :: "digest \<Rightarrow> symlinkManifest \<Rightarrow> bool" where
  "symlink_object d m \<longleftrightarrow> wf_symlinkManifest m \<and> digestObject ''symlink'' (canonicalJSON symlinkManifest_to_json m) = d
     \<and> validateSymlinkManifest m = None"

text \<open>What the metadata cache may hold under a key.\<close>

fun meta_ok :: "'w Env \<Rightarrow> metadataCacheKey \<Rightarrow> metadata \<Rightarrow> bool" where
  "meta_ok env key (MDir m) = (mk_kind key = ''dir'' \<and> dir_object (mk_digest key) m)"
| "meta_ok env key (MFile m) = (mk_kind key = ''file'' \<and> file_object env (mk_digest key) m)"
| "meta_ok env key (MSymlink m) = (mk_kind key = ''symlink'' \<and> symlink_object (mk_digest key) m)"

text \<open>The pair counts the downloads and the bytes that are reserved; nobody waits, the budget has room for
  the largest object, nothing panicked.\<close>

definition idle :: "WeightedSemaphore \<Rightarrow> bool" where
  "idle b \<longleftrightarrow> ws_waiters b = [] \<and> ws_granted b = [] \<and> 0 \<le> ws_used b
     \<and> maxChunkObjectBytes \<le> ws_capacity b"

definition cinv :: "'w Env \<Rightarrow> int \<times> int \<Rightarrow> 'w cstate \<Rightarrow> bool" where
  "cinv env p s \<longleftrightarrow> (cs_slots s, ws_used (cs_bytes s)) = p \<and> idle (cs_bytes s) \<and> \<not> cs_panicked s \<and> cache_inv (cs_metadata s) \<and> cache_all (meta_ok env) (cs_metadata s)"

lemma cinv_update [simp]:
  "cinv env p (s\<lparr>cs_world := w\<rparr>) = cinv env p s"
  "cinv env p (s\<lparr>cs_state := a\<rparr>) = cinv env p s"
  "cinv env p (s\<lparr>cs_watermark := m\<rparr>) = cinv env p s"
  "cinv env p (s\<lparr>cs_watermarkLoaded := b\<rparr>) = cinv env p s"
  "cinv env p (s\<lparr>cs_checkpointValidated := m\<rparr>) = cinv env p s"
  "cinv env p (s\<lparr>cs_watermark := m, cs_state := a\<rparr>) = cinv env p s"
  by (simp_all add: cinv_def)

text \<open>The fields of trust are unchanged.\<close>

definition same_trust :: "'w cstate \<Rightarrow> 'w cstate \<Rightarrow> bool" where
  "same_trust s s' \<longleftrightarrow> cs_state s' = cs_state s \<and> cs_watermark s' = cs_watermark s
     \<and> cs_watermarkLoaded s' = cs_watermarkLoaded s \<and> cs_checkpointValidated s' = cs_checkpointValidated s"

text \<open>
  \<open>descends c g a ga\<close>: from the commit with digest \<open>c\<close> at generation \<open>g\<close> the parent pointers of
  well-formed commits, each found under its own digest, lead to the commit \<open>a\<close> at generation \<open>ga\<close>, one
  generation at a time.
\<close>

inductive descends :: "digest \<Rightarrow> u64 \<Rightarrow> digest \<Rightarrow> u64 \<Rightarrow> bool" where
  same: "descends c g c g"
| parent: "\<lbrakk>commit_object c m; validateCommitManifest m g = None; cm_Parent m = Some p; ga < g; descends p (g - 1) a ga\<rbrakk>
    \<Longrightarrow> descends c g a ga"

lemma descends_le: "descends c g a ga \<Longrightarrow> ga \<le> g"
  by (induction rule: descends.induct) auto

lemma descends_trans: "descends c g b gb \<Longrightarrow> descends b gb a ga \<Longrightarrow> descends c g a ga"
proof (induction rule: descends.induct)
  case (parent c m g p gb b)
  then show ?case by (meson descends.parent descends_le order.strict_trans1)
qed simp

lemma pred_ge: "(a :: u64) < g \<Longrightarrow> a \<le> g - 1"
  by unat_arith

text \<open>The world of a watermark store only moves forward.\<close>

definition advances :: "('w \<Rightarrow> Watermark option) \<Rightarrow> ('w \<Rightarrow> bool) \<Rightarrow> 'w \<Rightarrow> 'w \<Rightarrow> bool" where
  "advances durable wm_inv w w' \<longleftrightarrow> (wm_inv w \<longrightarrow> wm_inv w' \<and> wm_le (durable w) (durable w'))"

text \<open>
  What the consumer relies on. \<open>durable\<close> is the watermark that survives a crash, \<open>wm_inv\<close> says when the
  watermark store keeps its contract; with \<open>wm_inv\<close> false everywhere nothing is promised and the lemmas
  hold for every environment.
\<close>

definition repository_of :: "'w Consumer \<Rightarrow> repository_id" where
  "repository_of c = (case cn_referenceVerifier c of None \<Rightarrow> 0 | Some v \<Rightarrow> rv_RepositoryID v)"

definition checkpoint_ok :: "'w Consumer \<Rightarrow> bool" where
  "checkpoint_ok c \<longleftrightarrow> (\<forall>k. cn_trustedCheckpoint c = Some k \<longrightarrow> wm_RepositoryID k = repository_of c)"

lemma NewConsumer_checkpoint_ok: "NewConsumer repository channel options w = Inr (c, s) \<Longrightarrow> checkpoint_ok c"
  by (auto simp: NewConsumer_def check_verifier_def checkpoint_ok_def repository_of_def Let_def
      split: option.splits if_splits)

locale consumer_env =
  fixes env :: "'w Env" and consumer :: "'w Consumer" and durable :: "'w \<Rightarrow> Watermark option" and wm_inv :: "'w \<Rightarrow> bool"
  assumes env_steps: "steps (advances durable wm_inv) (ev_ctx env)" "steps (advances durable wm_inv) (ev_select env)"
      "steps (advances durable wm_inv) (ev_wait env)" "steps (advances durable wm_inv) (Get (rp_reader (cn_repository consumer)) key opt)"
    and verify_steps: "cn_referenceVerifier consumer = Some v \<Longrightarrow> steps (advances durable wm_inv) (rv_Verify v a b c)"
    and cache_steps: "cn_cache consumer = Some cc \<Longrightarrow> steps (advances durable wm_inv) (cc_Get cc d)"
      "cn_cache consumer = Some cc \<Longrightarrow> steps (advances durable wm_inv) (cc_Put cc d data)"
      "\<lbrakk>cn_cache consumer = Some cc; cc_GetSized cc = Some f\<rbrakk> \<Longrightarrow> steps (advances durable wm_inv) (f d n)"
    and report_steps: "cn_onCacheError consumer = Some g \<Longrightarrow> steps (advances durable wm_inv) (g e)"
    and watermarks: "cn_watermarks consumer = Some wms \<Longrightarrow> watermark_store wms (cn_channel consumer) durable wm_inv"
begin

abbreviation R :: "'w \<Rightarrow> 'w \<Rightarrow> bool" where
  "R \<equiv> advances durable wm_inv"

lemma R_refl [simp]: "R w w"
  by (simp add: advances_def)

lemma R_trans: "\<lbrakk>R w w'; R w' w''\<rbrakk> \<Longrightarrow> R w w''"
  by (auto simp: advances_def intro: wm_le_trans)

subsection \<open>Composition\<close>

lemma steps_return [simp]: "steps R (return x)"
  by (auto simp: steps_def)

lemma steps_bind: "steps R m \<Longrightarrow> (\<And>a. steps R (f a)) \<Longrightarrow> steps R (State_Monad.bind m f)"
  unfolding steps_def by (auto split: prod.splits) (blast intro: R_trans)

lemma steps_ok: "(\<And>x. r = Inr x \<Longrightarrow> steps R (f x)) \<Longrightarrow> steps R (ok r f)"
  by (cases r) auto

lemma steps_check: "(e = None \<Longrightarrow> steps R m) \<Longrightarrow> steps R (check e m)"
  by (cases e) auto

definition frame :: "'w cstate \<Rightarrow> 'w cstate \<Rightarrow> bool" where
  "frame s s' \<longleftrightarrow> R (cs_world s) (cs_world s') \<and> same_trust s s'"

lemma frame_refl [simp]: "frame s s"
  by (simp add: frame_def same_trust_def)

lemma frame_trans: "frame s s' \<Longrightarrow> frame s' s'' \<Longrightarrow> frame s s''"
  unfolding frame_def same_trust_def using R_trans by auto

text \<open>From reservations \<open>p\<close> the operation ends with those of \<open>post\<close> and leaves the trust state alone.\<close>

definition spec :: "int \<times> int \<Rightarrow> ('w, 'a) cm \<Rightarrow> ('a \<Rightarrow> int \<times> int) \<Rightarrow> ('a \<Rightarrow> bool) \<Rightarrow> bool" where
  "spec p m post Q \<longleftrightarrow> (\<forall>s. cinv env p s \<longrightarrow> wp m (\<lambda>r s'. cinv env (post r) s' \<and> frame s s' \<and> Q r) s)"

abbreviation quiet :: "int \<times> int \<Rightarrow> ('w, 'a) cm \<Rightarrow> ('a \<Rightarrow> bool) \<Rightarrow> bool" where
  "quiet p m Q \<equiv> spec p m (\<lambda>_. p) Q"

lemma specD: "spec p m post Q \<Longrightarrow> cinv env p s \<Longrightarrow> wp m (\<lambda>r s'. cinv env (post r) s' \<and> frame s s' \<and> Q r) s"
  by (simp add: spec_def)

lemma spec_return: "post x = p \<Longrightarrow> Q x \<Longrightarrow> spec p (return x) post Q"
  by (simp add: spec_def)

lemma spec_bind: "spec p m q P \<Longrightarrow> (\<And>a. P a \<Longrightarrow> spec (q a) (f a) post Q) \<Longrightarrow> spec p (State_Monad.bind m f) post Q"
  unfolding spec_def wp_bind by (blast intro: wp_conseq frame_trans)

lemma spec_conseq: "spec p m post P \<Longrightarrow> (\<And>r. P r \<Longrightarrow> Q r) \<Longrightarrow> spec p m post Q"
  unfolding spec_def by (blast intro: wp_conseq)

lemma wp_lift_steps:
  "steps R m \<Longrightarrow> (\<And>a w'. R (cs_world s) w' \<Longrightarrow> Q a (s\<lparr>cs_world := w'\<rparr>)) \<Longrightarrow> wp (lift m) Q s"
  unfolding wp_lift by (rule wp_conseq [OF wp_steps])

lemma frame_world: "R (cs_world s) w \<Longrightarrow> frame s (s\<lparr>cs_world := w\<rparr>)"
  by (simp add: frame_def same_trust_def)

lemma spec_lift:
  assumes "steps R m" "\<And>w. wp m (\<lambda>r _. P r) w"
  shows "quiet p (lift m) P"
  unfolding spec_def wp_lift
proof (intro allI impI)
  fix s assume "cinv env p s"
  then show "wp m (\<lambda>r w. cinv env p (s\<lparr>cs_world := w\<rparr>) \<and> frame s (s\<lparr>cs_world := w\<rparr>) \<and> P r) (cs_world s)"
    by (intro wp_conseq [OF wp_conj [OF wp_steps [OF assms(1)] assms(2)]]) (simp add: frame_world)
qed

lemma spec_lift_any: "steps R m \<Longrightarrow> quiet p (lift m) (\<lambda>_. True)"
  by (rule spec_lift) (simp_all add: wp_def split: prod.split)

lemma spec_ok:
  "(\<And>e. r = Inl e \<Longrightarrow> post (Inl e) = p \<and> Q (Inl e)) \<Longrightarrow> (\<And>x. r = Inr x \<Longrightarrow> spec p (f x) post Q) \<Longrightarrow> spec p (ok r f) post Q"
  by (cases r) (auto intro: spec_return)

lemma spec_check:
  "(\<And>x. e = Some x \<Longrightarrow> post (Inl x) = p \<and> Q (Inl x)) \<Longrightarrow> (e = None \<Longrightarrow> spec p m post Q) \<Longrightarrow> spec p (check e m) post Q"
  by (cases e) (auto intro: spec_return)

lemma spec_get:
  "(\<And>s. cinv env p s \<Longrightarrow> wp (f s) (\<lambda>r s'. cinv env (post r) s' \<and> frame s s' \<and> Q r) s) \<Longrightarrow> spec p (State_Monad.bind State_Monad.get f) post Q"
  by (simp add: spec_def wp_simps)

subsection \<open>Reservations\<close>

lemma cinv_bytes: "\<lbrakk>cinv env p s; idle b; fst q = fst p; snd q = ws_used b\<rbrakk> \<Longrightarrow> cinv env q (s\<lparr>cs_bytes := b\<rparr>)"
  by (cases q) (auto simp: cinv_def)

lemma frame_bytes: "frame s s' \<Longrightarrow> frame s (s'\<lparr>cs_bytes := b\<rparr>)" "frame s s' \<Longrightarrow> frame s (s'\<lparr>cs_slots := k\<rparr>)"
  "frame s s' \<Longrightarrow> frame s (s'\<lparr>cs_metadata := c\<rparr>)"
  by (simp_all add: frame_def same_trust_def)

lemma frame_step: "frame s s' \<Longrightarrow> R (cs_world s') w \<Longrightarrow> frame s (s'\<lparr>cs_world := w\<rparr>)"
  by (blast intro: frame_trans frame_world)

lemma idle_enter:
  assumes "idle b" "Acquire_enter None d 0 weight b = (r, b')"
  shows "r = Acquired \<Longrightarrow> idle b' \<and> ws_used b' = ws_used b + weight \<and> 0 < weight"
    and "r = Queued \<Longrightarrow> idle (Acquire_cancel (0, weight) b') \<and> ws_used (Acquire_cancel (0, weight) b') = ws_used b"
  using assms by (auto simp: idle_def Acquire_enter_def Acquire_cancel_def grantLocked_def split: if_splits option.splits)

lemma enter_spec:
  assumes c: "cinv env p s" and f: "frame s s'" "cinv env p s'"
  shows "wp (case Acquire_enter None d 0 weight (cs_bytes s) of
         (Failed e, _) \<Rightarrow> return (Some e)
       | (Acquired, b) \<Rightarrow> do { update (\<lambda>s. s\<lparr>cs_bytes := b\<rparr>); return None }
       | (Queued, b) \<Rightarrow> do {
           e \<leftarrow> lift (ev_wait env);
           update (\<lambda>s. s\<lparr>cs_bytes := Acquire_cancel (0, weight) b\<rparr>);
           return (Some e) })
    (\<lambda>e s'. cinv env (if e = None then (fst p, snd p + weight) else p) s' \<and> frame s s' \<and> (e = None \<longrightarrow> 0 < weight)) s'"
    (is "wp _ ?Q s'")
proof -
  have i: "idle (cs_bytes s)" "snd p = ws_used (cs_bytes s)" using c by (auto simp: cinv_def)
  obtain r b where e: "Acquire_enter None d 0 weight (cs_bytes s) = (r, b)" by fastforce
  note I = idle_enter [OF i(1) e]
  show ?thesis
  proof (cases r)
    case Acquired
    then show ?thesis using e f I i by (auto simp: wp_simps frame_bytes intro: cinv_bytes)
  next
    case Queued
    then have "wp (lift (ev_wait env)) (\<lambda>e. wp (do { update (\<lambda>s. s\<lparr>cs_bytes := Acquire_cancel (0, weight) b\<rparr>); return (Some e) }) ?Q) s'"
      using f I i
      by (intro wp_lift_steps [OF env_steps(3)]) (auto simp: wp_simps frame_bytes frame_step intro: cinv_bytes)
    then show ?thesis using e Queued by (simp add: wp_bind)
  qed (use e f in simp)
qed

lemma semaphore_Acquire_spec:
  "spec p (semaphore_Acquire env weight) (\<lambda>e. if e = None then (fst p, snd p + weight) else p) (\<lambda>e. e = None \<longrightarrow> 0 < weight)"
  unfolding semaphore_Acquire_def
  by (rule spec_get) (auto simp: wp_bind wp_option intro!: wp_lift_steps env_steps wp_conseq [OF enter_spec] frame_step frame_world)

lemma slots_spec: "spec q (update (\<lambda>s. s\<lparr>cs_slots := cs_slots s + n\<rparr>)) (\<lambda>_. (fst q + n, snd q)) (\<lambda>_. True)"
  by (auto simp: spec_def wp_simps frame_bytes cinv_def)

lemma slot_back_spec: "spec q (update (\<lambda>s. s\<lparr>cs_slots := cs_slots s - 1\<rparr>)) (\<lambda>_. (fst q - 1, snd q)) (\<lambda>_. True)"
  using slots_spec [of q "-1"] by simp

lemma acquireDownload_spec:
  "spec p (acquireDownload env consumer n) (\<lambda>e. if e = None then (fst p + 1, snd p + n) else p) (\<lambda>e. e = None \<longrightarrow> 0 < n)"
  (is "spec p _ ?post ?Q")
proof -
  define rest where "rest sel = (case sel of Some e \<Rightarrow> return (Some e)
     | None \<Rightarrow> do {
         update (\<lambda>s. s\<lparr>cs_slots := cs_slots s + 1\<rparr>);
         a \<leftarrow> semaphore_Acquire env n;
         case a of None \<Rightarrow> return None
         | Some e \<Rightarrow> do { update (\<lambda>s. s\<lparr>cs_slots := cs_slots s - 1\<rparr>); return (Some e) } })" for sel :: "err option"
  have r: "spec p (rest sel) ?post ?Q" for sel
    unfolding rest_def
    by (auto split: option.split intro!: spec_return spec_bind [OF slots_spec] spec_bind [OF semaphore_Acquire_spec]
        spec_bind [OF slot_back_spec])
  have "wp (State_Monad.bind m rest) (\<lambda>r s'. cinv env (?post r) s' \<and> frame s s' \<and> ?Q r) s"
    if "cinv env p s" "quiet p m (\<lambda>_. True)" for m s
    using specD [OF spec_bind [OF that(2)] that(1)] r by blast
  moreover have "quiet p (lift (ev_select env)) (\<lambda>_. True)"
    "quiet p (do { e \<leftarrow> lift (ev_wait env); return (Some e) }) (\<lambda>_. True)"
    by (auto intro!: spec_lift_any env_steps spec_bind [OF spec_lift_any] spec_return)
  ultimately show ?thesis
    unfolding acquireDownload_def rest_def [symmetric] by (intro spec_get) simp
qed

lemma releaseDownload_spec:
  "0 < n \<Longrightarrow> n \<le> snd p \<Longrightarrow> spec p (releaseDownload n) (\<lambda>_. (fst p - 1, snd p - n)) (\<lambda>_. True)"
  unfolding releaseDownload_def
  by (rule spec_get) (auto simp: wp_simps Release_def cinv_def idle_def grantLocked_def frame_def same_trust_def split: option.split)

lemma spec_nonneg: "(0 \<le> snd p \<Longrightarrow> spec p m post Q) \<Longrightarrow> spec p m post Q"
  by (auto simp: spec_def cinv_def idle_def)

text \<open>Work done under a reservation that is given back at the end.\<close>

lemma reserved_spec:
  assumes "\<And>q. quiet q m P" "\<And>e. Q (Inl e)" "\<And>r. P r \<Longrightarrow> Q (f r)"
  shows "quiet p (do { a \<leftarrow> acquireDownload env consumer n; check a (do { r \<leftarrow> m; releaseDownload n; return (f r) }) }) Q"
proof (rule spec_nonneg)
  assume nn: "0 \<le> snd p"
  have "quiet p (check a (do { r \<leftarrow> m; releaseDownload n; return (f r) })) Q" if "a \<noteq> None" for a
    using that assms(2) by (auto intro!: spec_return)
  moreover have "spec (fst p + 1, snd p + n) (do { r \<leftarrow> m; releaseDownload n; return (f r) }) (\<lambda>_. p) Q" if "0 < n"
    using that nn assms
    by (auto intro!: spec_bind [OF assms(1)] spec_bind [OF releaseDownload_spec] spec_return)
  ultimately show ?thesis
    by (intro spec_bind [OF acquireDownload_spec]) auto
qed

subsection \<open>Downloads\<close>

lemma repository_steps:
  "steps R (getImmutableLimited (cn_repository consumer) kind d n)"
  "steps R (getImmutable (cn_repository consumer) kind d)"
  "steps R (getImmutableExact (cn_repository consumer) kind d n)"
  "steps R (getManifest (cn_repository consumer) to_json of_json kind d)"
  unfolding getImmutableLimited_def getImmutable_def getImmutableExact_def getManifest_def
  by (auto intro!: steps_bind env_steps steps_ok steps_check)

lemma reference_steps: "steps R (getReferenceWithVerifier (ev_ctx env) (cn_repository consumer) channel tag (cn_referenceVerifier consumer))"
  unfolding getReferenceWithVerifier_def VerifySnapshotReference_def verifySignedSnapshotReference_def Let_def
  by (auto intro!: steps_bind env_steps steps_ok steps_check verify_steps split: option.split sum.split)

lemma flight_Do_spec:
  "quiet p load Q \<Longrightarrow> (\<And>e. Q (Inl e)) \<Longrightarrow> quiet p (flight_Do env load) Q"
  unfolding flight_Do_def
  by (auto intro!: spec_bind [OF spec_lift_any [OF env_steps(1)]] spec_bind [OF spec_lift_any [OF env_steps(2)]]
      spec_check spec_return elim!: spec_bind)

lemma downloadManifest_spec:
  assumes "json_codec to_json of_json wfm"
  shows "quiet p (downloadManifest env consumer to_json of_json kind d)
    (\<lambda>r. \<forall>m. r = Inr m \<longrightarrow> wfm m \<and> digestObject kind (canonicalJSON to_json m) = d)"
  unfolding downloadManifest_def
  by (rule reserved_spec [where f = "\<lambda>r. r", OF spec_lift [OF repository_steps(4) getManifest_verified [OF assms]]]) auto

lemma consumer_getManifest_spec:
  "quiet p (consumer_getManifest env consumer d) (\<lambda>r. \<forall>m. r = Inr m \<longrightarrow> commit_object d m)"
  unfolding consumer_getManifest_def commit_object_def
  by (rule flight_Do_spec [OF downloadManifest_spec [OF cm.json_codec_axioms]]) simp

lemma downloadReference_spec:
  "quiet p (downloadReference env consumer tag)
     (\<lambda>r. \<forall>reference version. r = Inr (reference, version) \<longrightarrow> sr_Generation reference \<noteq> 0 \<and> sr_Commit reference \<noteq> 0)"
proof -
  have i: "wp (VerifySnapshotReference (ev_ctx env) data channel verifier)
    (\<lambda>r _. \<forall>i. r = Inr i \<longrightarrow> si_Generation i \<noteq> 0 \<and> si_Commit i \<noteq> 0) w" for data channel verifier w
    unfolding VerifySnapshotReference_def
    by (auto simp: wp_bind wp_check wp_ok wp_if intro!: wp_op [where m = "ev_ctx env"] wp_op [where m = "case_option m f v" for m f v])
  have v: "wp (getReferenceWithVerifier (ev_ctx env) (cn_repository consumer) (cn_channel consumer) tag (cn_referenceVerifier consumer))
    (\<lambda>r _. \<forall>reference object. r = Inr (reference, object) \<longrightarrow> sr_Generation reference \<noteq> 0 \<and> sr_Commit reference \<noteq> 0) w" for w
    unfolding getReferenceWithVerifier_def Let_def
    by (auto simp: wp_bind wp_check wp_ok intro!: wp_reader_Get wp_conseq [OF i])
  show ?thesis
    unfolding downloadReference_def
    by (rule reserved_spec [OF spec_lift [OF reference_steps v]]) (auto split: sum.splits)
qed

subsection \<open>The metadata cache\<close>

lemma getTypedMetadata_spec:
  "quiet p (getTypedMetadata sel key) (\<lambda>r. \<forall>m. r = Some m \<longrightarrow> (\<exists>v. meta_ok env key v \<and> sel v = Some m))"
  unfolding getTypedMetadata_def
proof (rule spec_get)
  fix s assume c: "cinv env p s"
  obtain v c' where g: "cache_Get key (cs_metadata s) = (v, c')" by fastforce
  have "cache_inv (cs_metadata s)" "cache_all (meta_ok env) (cs_metadata s)" using c by (auto simp: cinv_def)
  note A = cache_all_Get [OF this g]
  have "cinv env p (s\<lparr>cs_metadata := c'\<rparr>)" using c A(1,2) by (simp add: cinv_def)
  then show "wp (case cache_Get key (cs_metadata s) of (v, c) \<Rightarrow> do { update (\<lambda>s. s\<lparr>cs_metadata := c\<rparr>); return (Option.bind v sel) })
      (\<lambda>r s'. cinv env p s' \<and> frame s s' \<and> (\<forall>m. r = Some m \<longrightarrow> (\<exists>v. meta_ok env key v \<and> sel v = Some m))) s"
    using g A(3) by (auto simp: wp_simps frame_bytes bind_eq_Some_conv)
qed

lemma putTypedMetadata_spec:
  assumes "meta_ok env key v" "\<And>v'. meta_ok env key v' \<Longrightarrow> \<exists>m. sel v' = Some m"
  shows "quiet p (putTypedMetadata sel key v n) (\<lambda>r. \<forall>m. r = Inr m \<longrightarrow> (\<exists>v. meta_ok env key v \<and> sel v = Some m))"
  unfolding putTypedMetadata_def
proof (rule spec_get)
  fix s assume c: "cinv env p s"
  then have "cache_inv (cs_metadata s)" "cache_all (meta_ok env) (cs_metadata s)" by (auto simp: cinv_def)
  from cache_all_Put [OF this assms(1), of n] obtain v' c' where
    g: "cache_Put key v n (cs_metadata s) = Some (v', c')" and i: "cache_inv c'" "cache_all (meta_ok env) c'" "meta_ok env key v'" by blast
  obtain m where m: "sel v' = Some m" using assms(2) i(3) by blast
  have "cinv env p (s\<lparr>cs_metadata := c'\<rparr>)" using c i by (simp add: cinv_def)
  then show "wp (case cache_Put key v n (cs_metadata s) of None \<Rightarrow> do { cs_panic; throw plain_error }
     | Some (stored, c) \<Rightarrow> do {
         update (\<lambda>s. s\<lparr>cs_metadata := c\<rparr>);
         case sel stored of Some m \<Rightarrow> return (Inr m) | None \<Rightarrow> do { cs_panic; throw plain_error } })
      (\<lambda>r s'. cinv env p s' \<and> frame s s' \<and> (\<forall>m. r = Inr m \<longrightarrow> (\<exists>v. meta_ok env key v \<and> sel v = Some m))) s"
    using g m i(3) by (auto simp: wp_simps frame_bytes)
qed

lemma load_metadata_spec:
  assumes "json_codec to_json of_json wfm"
    and put: "\<And>m. \<lbrakk>wfm m; digestObject kind (canonicalJSON to_json m) = d; validate m = None\<rbrakk> \<Longrightarrow> meta_ok env \<lparr>mk_kind = kind, mk_digest = d\<rparr> (wrap m)"
    and sel: "\<And>v. meta_ok env \<lparr>mk_kind = kind, mk_digest = d\<rparr> v \<Longrightarrow> \<exists>m. sel v = Some m \<and> P m"
  shows "quiet p (load_metadata env consumer to_json of_json sel wrap validate estimate kind d) (\<lambda>r. \<forall>m. r = Inr m \<longrightarrow> P m)"
proof -
  let ?key = "\<lparr>mk_kind = kind, mk_digest = d\<rparr>"
  have hit: "P m" if "meta_ok env ?key v" "sel v = Some m" for v m using sel [OF that(1)] that(2) by auto
  have put': "quiet p (putTypedMetadata sel ?key (wrap m) n) (\<lambda>r. \<forall>m. r = Inr m \<longrightarrow> P m)"
    if "wfm m" "digestObject kind (canonicalJSON to_json m) = d" "validate m = None" for m n
    by (rule spec_conseq [OF putTypedMetadata_spec [OF put [OF that]]]) (use sel hit in blast)+
  have fetch: "quiet p (do { r \<leftarrow> downloadManifest env consumer to_json of_json kind d;
      ok r (\<lambda>manifest. check (validate manifest) (putTypedMetadata sel ?key (wrap manifest) (estimate manifest))) }) (\<lambda>r. \<forall>m. r = Inr m \<longrightarrow> P m)"
    by (rule spec_bind [OF downloadManifest_spec [OF assms(1)]], rule spec_ok, simp, rule spec_check, simp, rule put') simp_all
  have cached: "quiet p (do { r \<leftarrow> getTypedMetadata sel ?key; case r of Some m \<Rightarrow> return (Inr m) | None \<Rightarrow> m' }) (\<lambda>r. \<forall>m. r = Inr m \<longrightarrow> P m)"
    if "quiet p m' (\<lambda>r. \<forall>m. r = Inr m \<longrightarrow> P m)" for m'
  proof (rule spec_bind [OF getTypedMetadata_spec])
    fix r assume "\<forall>m. r = Some m \<longrightarrow> (\<exists>v. meta_ok env ?key v \<and> sel v = Some m)"
    then show "quiet p (case r of Some m \<Rightarrow> return (Inr m) | None \<Rightarrow> m') (\<lambda>r. \<forall>m. r = Inr m \<longrightarrow> P m)"
      using that hit by (cases r) (auto intro!: spec_return)
  qed
  show ?thesis
    unfolding load_metadata_def Let_def
    by (rule cached, rule flight_Do_spec, rule cached, rule fetch) simp
qed

lemma loadDirectory_spec: "quiet p (loadDirectory env consumer d) (\<lambda>r. \<forall>m. r = Inr m \<longrightarrow> dir_object d m)"
  unfolding loadDirectory_def
  by (rule load_metadata_spec [OF dm.json_codec_axioms]) (auto simp: dir_object_def elim!: meta_ok.elims)

lemma loadFile_spec: "quiet p (loadFile env consumer d) (\<lambda>r. \<forall>m. r = Inr m \<longrightarrow> file_object env d m)"
  unfolding loadFile_def
  by (rule load_metadata_spec [OF fm.json_codec_axioms]) (auto simp: file_object_def elim!: meta_ok.elims)

lemma loadSymlink_spec: "quiet p (loadSymlink env consumer d) (\<lambda>r. \<forall>m. r = Inr m \<longrightarrow> symlink_object d m)"
  unfolding loadSymlink_def
  by (rule load_metadata_spec [OF sm.json_codec_axioms]) (auto simp: symlink_object_def elim!: meta_ok.elims)

subsection \<open>Ancestry\<close>

lemma ancestry_spec:
  "quiet p (ancestry env consumer anchor generation parent)
     (\<lambda>r. r = Inr (Some (wm_Commit anchor)) \<and> wm_Generation anchor \<le> generation \<longrightarrow>
        (\<exists>c. parent = Some c \<and> descends c generation (wm_Commit anchor) (wm_Generation anchor)))"
  (is "quiet p _ (?Q generation parent)")
proof (induction "unat generation" arbitrary: generation parent rule: less_induct)
  case less
  show ?case
  proof (cases "generation > wm_Generation anchor")
    case False
    then show ?thesis
      by (subst ancestry.simps) (auto intro!: spec_return descends.same)
  next
    case True
    have ih: "quiet p (ancestry env consumer anchor (generation - 1) q) (?Q (generation - 1) q)" for q
      by (rule less) (use True in simp)
    have rec: "quiet p (ancestry env consumer anchor (generation - 1) (cm_Parent m)) (?Q generation (Some c))"
      if "commit_object c m" "validateCommitManifest m generation = None" for c m
      by (rule spec_conseq [OF ih]) (use that True pred_ge [OF True] in \<open>auto intro: descends.parent\<close>)
    have walk: "quiet p (do { r \<leftarrow> consumer_getManifest env consumer c;
        ok r (\<lambda>ancestor. check (validateCommitManifest ancestor generation)
          (ancestry env consumer anchor (generation - 1) (cm_Parent ancestor))) }) (?Q generation (Some c))" for c
      by (rule spec_bind [OF consumer_getManifest_spec], rule spec_ok, simp, rule spec_check, simp, rule rec) auto
    have body: "quiet p (case parent of None \<Rightarrow> throw [ErrSplitBrain]
        | Some c \<Rightarrow> if c = 0 then throw [ErrSplitBrain] else do { r \<leftarrow> consumer_getManifest env consumer c;
            ok r (\<lambda>ancestor. check (validateCommitManifest ancestor generation)
              (ancestry env consumer anchor (generation - 1) (cm_Parent ancestor))) }) (?Q generation parent)"
    proof (cases parent)
      case None
      then show ?thesis by (simp add: spec_return)
    next
      case (Some c)
      then show ?thesis using walk [of c] by (cases "c = 0") (simp_all add: spec_return)
    qed
    show ?thesis
      unfolding ancestry.simps [of _ _ _ generation] if_P [OF True]
      by (rule spec_bind [OF spec_lift_any [OF env_steps(1)]], rule spec_check, simp, rule body)
  qed
qed

lemma validateDescendant_spec:
  "quiet p (validateDescendant env consumer reference commit anchor)
    (\<lambda>e. e = None \<and> commit_object (sr_Commit reference) commit \<and> validateCommitManifest commit (sr_Generation reference) = None
       \<and> wm_Generation anchor < sr_Generation reference
     \<longrightarrow> descends (sr_Commit reference) (sr_Generation reference) (wm_Commit anchor) (wm_Generation anchor))"
  unfolding validateDescendant_def
  by (auto intro!: spec_return spec_bind [OF ancestry_spec] split: sum.splits if_splits dest: pred_ge descends.parent)

subsection \<open>The watermark\<close>

definition moved :: "'w cstate \<Rightarrow> 'w cstate \<Rightarrow> bool" where
  "moved s s' \<longleftrightarrow> R (cs_world s) (cs_world s') \<and> cs_state s' = cs_state s"

lemma moved_refl [simp]: "moved s s"
  by (simp add: moved_def)

lemma moved_trans: "moved s s' \<Longrightarrow> moved s' s'' \<Longrightarrow> moved s s''"
  unfolding moved_def using R_trans by auto

lemma moved_update [simp]:
  "moved s (s'\<lparr>cs_watermark := m\<rparr>) = moved s s'" "moved s (s'\<lparr>cs_watermarkLoaded := b\<rparr>) = moved s s'"
  "moved s (s'\<lparr>cs_checkpointValidated := m\<rparr>) = moved s s'"
  by (simp_all add: moved_def)

lemma moved_world: "moved s s' \<Longrightarrow> R (cs_world s') w \<Longrightarrow> moved s (s'\<lparr>cs_world := w\<rparr>)"
  unfolding moved_def using R_trans by auto

lemma frame_moved: "frame s s' \<Longrightarrow> moved s s' \<and> cs_watermark s' = cs_watermark s"
  by (simp add: frame_def same_trust_def moved_def)

lemma wp_quiet:
  assumes "quiet p m P" "cinv env p s" "\<And>r s'. \<lbrakk>cinv env p s'; frame s s'; P r\<rbrakk> \<Longrightarrow> Q r s'"
  shows "wp m Q s"
  using assms by (auto intro: wp_conseq [OF specD])

text \<open>What a load tells about the durable watermark.\<close>

definition load_ok :: "'w \<Rightarrow> Watermark option \<Rightarrow> 'w \<Rightarrow> bool" where
  "load_ok w v w' \<longleftrightarrow> (wm_inv w \<longrightarrow> wm_le (durable w) v \<and> wm_le v (durable w') \<and> (\<forall>x. v = Some x \<longrightarrow> wm_valid x))"

lemma wp_load:
  assumes "cn_watermarks consumer = Some wms"
    and "\<And>r w'. \<lbrakk>R (cs_world s) w'; \<And>v. r = Inr v \<Longrightarrow> load_ok (cs_world s) v w'\<rbrakk> \<Longrightarrow> Q r (s\<lparr>cs_world := w'\<rparr>)"
  shows "wp (lift (ws_Load wms (cn_channel consumer))) Q s"
  unfolding wp_lift
proof (rule wp_op)
  fix r w' assume r: "run_state (ws_Load wms (cn_channel consumer)) (cs_world s) = (r, w')"
  note C = watermark_store.Load_contract [OF watermarks [OF assms(1)] _ r]
  show "Q r (s\<lparr>cs_world := w'\<rparr>)" by (rule assms(2)) (use C in \<open>auto simp: advances_def load_ok_def\<close>)
qed

lemma wp_swap:
  assumes "cn_watermarks consumer = Some wms"
    and "\<And>e w'. \<lbrakk>R (cs_world s) w'; e = None \<Longrightarrow> wm_inv (cs_world s) \<Longrightarrow> wm_le (Some new) (durable w')\<rbrakk> \<Longrightarrow> Q e (s\<lparr>cs_world := w'\<rparr>)"
  shows "wp (lift (ws_CompareAndSwap wms (cn_channel consumer) expected new)) Q s"
  unfolding wp_lift
proof (rule wp_op)
  fix e w' assume e: "run_state (ws_CompareAndSwap wms (cn_channel consumer) expected new) (cs_world s) = (e, w')"
  note C = watermark_store.CAS_contract [OF watermarks [OF assms(1)] _ e]
  show "Q e (s\<lparr>cs_world := w'\<rparr>)" by (rule assms(2)) (use C in \<open>auto simp: advances_def\<close>)
qed

text \<open>Only the record of the validated checkpoint may change.\<close>

definition stays :: "'w cstate \<Rightarrow> 'w cstate \<Rightarrow> bool" where
  "stays s s' \<longleftrightarrow> moved s s' \<and> cs_watermark s' = cs_watermark s"

lemma stays_refl [simp]: "stays s s"
  by (simp add: stays_def)

lemma stays_trans: "stays s s' \<Longrightarrow> stays s' s'' \<Longrightarrow> stays s s''"
  unfolding stays_def using moved_trans by auto

lemma stays_quiet: "quiet p m Q \<Longrightarrow> cinv env p s \<Longrightarrow> wp m (\<lambda>r s'. cinv env p s' \<and> stays s s' \<and> Q r) s"
  by (auto intro!: wp_quiet dest: frame_moved simp: stays_def)

lemma stays_bind:
  assumes "wp m (\<lambda>r s'. cinv env p s' \<and> stays s s' \<and> P r) s"
    and "\<And>r s'. \<lbrakk>cinv env p s'; P r\<rbrakk> \<Longrightarrow> wp (f r) (\<lambda>r s''. cinv env p s'' \<and> stays s' s'') s'"
  shows "wp (State_Monad.bind m f) (\<lambda>r s'. cinv env p s' \<and> stays s s') s"
  unfolding wp_bind using assms by (auto elim!: wp_conseq intro: wp_conseq stays_trans)

lemma stays_update [simp]:
  "stays s (s'\<lparr>cs_checkpointValidated := m\<rparr>) = stays s s'" "stays s (s'\<lparr>cs_watermarkLoaded := b\<rparr>) = stays s s'"
  by (simp_all add: stays_def)

lemma checkpoint_walk_spec:
  assumes "cinv env p s"
  shows "wp (checkpoint_walk env consumer watermark anchor) (\<lambda>e s'. cinv env p s' \<and> stays s s') s"
  unfolding checkpoint_walk_def
  by (rule stays_bind [OF stays_quiet [OF consumer_getManifest_spec assms]])
    (auto split: sum.split option.split intro!: stays_bind [OF stays_quiet [OF validateDescendant_spec]] simp: wp_update_bind wp_option)

lemma validateWatermarkCheckpoint_spec:
  assumes "cinv env p s"
  shows "wp (validateWatermarkCheckpoint env consumer watermark checkpoint) (\<lambda>e s'. cinv env p s' \<and> stays s s') s"
  using assms checkpoint_walk_spec [OF assms] unfolding validateWatermarkCheckpoint_def by (auto simp: wp_state)

lemma wp_stays:
  assumes "wp m (\<lambda>r s'. cinv env p s' \<and> stays s s') s"
    and "\<And>r s'. \<lbrakk>cinv env p s'; moved s s'; cs_watermark s' = cs_watermark s\<rbrakk> \<Longrightarrow> Q r s'"
  shows "wp m Q s"
  using assms by (auto elim!: wp_conseq simp: stays_def)

lemma accept_found_spec:
  assumes "cinv env p s"
  shows "wp (accept_found env consumer watermark) (\<lambda>e s'. cinv env p s' \<and> moved s s'
    \<and> (e = None \<longrightarrow> cs_watermark s' = watermark \<and> wm_valid watermark \<and> wm_RepositoryID watermark = repository_of consumer)) s"
  unfolding accept_found_def repository_of_def
  using assms
  by (auto simp: wp_bind wp_if wp_option wp_update set_watermark_def wm_valid_def split: option.splits
      intro!: wp_stays [OF validateWatermarkCheckpoint_spec])

lemma durable_mono: "\<lbrakk>wm_inv w; R w w'\<rbrakk> \<Longrightarrow> wm_inv w' \<and> (wm_le x (durable w) \<longrightarrow> wm_le x (durable w'))"
  by (auto simp: advances_def intro: wm_le_trans)

text \<open>A watermark that is durable, and of the repository of the consumer.\<close>

definition anchored :: "'w cstate \<Rightarrow> 'w cstate \<Rightarrow> bool" where
  "anchored s s' \<longleftrightarrow> (wm_inv (cs_world s) \<longrightarrow> wm_le (Some (cs_watermark s')) (durable (cs_world s')))
     \<and> (checkpoint_ok consumer \<longrightarrow> wm_RepositoryID (cs_watermark s') = repository_of consumer)"

lemma reload_checkpoint_spec:
  assumes "cinv env p s" "cn_watermarks consumer = Some wms" "cn_trustedCheckpoint consumer = Some checkpoint"
  shows "wp (reload_checkpoint env consumer wms checkpoint)
    (\<lambda>r s'. cinv env p s' \<and> moved s s' \<and> (cs_watermark s' = cs_watermark s \<or> anchored s s')) s"
proof -
  have *: "wp (validateWatermarkCheckpoint env consumer watermark checkpoint)
      (\<lambda>e s'. cinv env p s' \<and> moved s s' \<and> cs_watermark s' = cs_watermark s \<and> anchored s (s'\<lparr>cs_watermark := watermark\<rparr>)) (s\<lparr>cs_world := w\<rparr>)"
    if w: "R (cs_world s) w" "load_ok (cs_world s) (Some watermark) w" "wm_RepositoryID watermark = wm_RepositoryID checkpoint" for watermark w
  proof (rule wp_stays [OF validateWatermarkCheckpoint_spec])
    show "cinv env p (s\<lparr>cs_world := w\<rparr>)" using assms(1) by simp
    fix e s' assume s': "cinv env p s'" "moved (s\<lparr>cs_world := w\<rparr>) s'" "cs_watermark s' = cs_watermark (s\<lparr>cs_world := w\<rparr>)"
    have "wm_le (Some watermark) (durable (cs_world s'))" if "wm_inv (cs_world s)"
      using w(2) that s'(2) durable_mono [OF that w(1)] durable_mono [of w "cs_world s'"]
      by (auto simp: load_ok_def moved_def)
    then show "cinv env p s' \<and> moved s s' \<and> cs_watermark s' = cs_watermark s \<and> anchored s (s'\<lparr>cs_watermark := watermark\<rparr>)"
      using s' moved_trans [OF moved_world [OF moved_refl w(1)]] w(3) assms(3) by (auto simp: anchored_def checkpoint_ok_def)
  qed
  show ?thesis
    unfolding reload_checkpoint_def wp_bind
    using assms(1)
    by (intro wp_load [OF assms(2)])
      (auto simp: wp_ok wp_option wp_if wp_bind set_watermark_def wp_check wp_update moved_world intro!: wp_conseq [OF *])
qed

lemma apply_checkpoint_spec:
  assumes "cinv env p s" "cn_watermarks consumer = Some wms"
  shows "wp (apply_checkpoint env consumer wms found) (\<lambda>r s'. cinv env p s' \<and> moved s s'
    \<and> (cs_watermark s' = cs_watermark s \<or> found = None \<and> anchored s s')) s"
proof (cases "cn_trustedCheckpoint consumer = None \<or> cn_referenceVerifier consumer = None \<or> found \<noteq> None")
  case True
  then show ?thesis using assms(1) by (auto simp: apply_checkpoint_def wp_simps split: option.split)
next
  case False
  then obtain v checkpoint where v: "cn_referenceVerifier consumer = Some v" "found = None" "cn_trustedCheckpoint consumer = Some checkpoint" by auto
  have ck: "checkpoint_ok consumer \<Longrightarrow> wm_RepositoryID checkpoint = repository_of consumer" using v by (simp add: checkpoint_ok_def)
  have reload: "wp (reload_checkpoint env consumer wms checkpoint)
      (\<lambda>r s'. cinv env p s' \<and> moved s s' \<and> (cs_watermark s' = cs_watermark s \<or> anchored s s')) (s\<lparr>cs_world := w\<rparr>)"
    if "R (cs_world s) w" for w
  proof (rule wp_conseq [OF reload_checkpoint_spec [OF _ assms(2) v(3)]])
    show "cinv env p (s\<lparr>cs_world := w\<rparr>)" using assms(1) by simp
  qed (use moved_trans [OF moved_world [OF moved_refl that]] durable_mono [OF _ that] in \<open>auto simp: anchored_def\<close>)
  show ?thesis
    unfolding apply_checkpoint_def v prod.case option.case wp_bind
    using assms(1) ck
    by (intro wp_swap [OF assms(2)])
      (auto simp: wp_option wp_bind set_watermark_def wp_update moved_world anchored_def intro!: reload [unfolded anchored_def])
qed

lemma check_current_spec:
  "cinv env p s \<Longrightarrow> wp (check_current found) (\<lambda>e s'. cinv env p s' \<and> stays s s') s"
  by (auto simp: check_current_def wp_state wp_option)

text \<open>The watermark after a successful load: durable, and not below what was durable before.\<close>

definition bounded :: "'w cstate \<Rightarrow> 'w cstate \<Rightarrow> bool" where
  "bounded s s' \<longleftrightarrow> (wm_inv (cs_world s) \<longrightarrow>
       (wm_Generation (cs_watermark s') = 0 \<or> wm_le (Some (cs_watermark s')) (durable (cs_world s')))
     \<and> (\<forall>x. durable (cs_world s) = Some x \<longrightarrow> wm_Generation (cs_watermark s') \<noteq> 0 \<and> wm_le (Some x) (Some (cs_watermark s'))))
   \<and> (checkpoint_ok consumer \<and> wm_Generation (cs_watermark s') \<noteq> 0 \<longrightarrow> wm_RepositoryID (cs_watermark s') = repository_of consumer)"

lemma bounded_intro:
  assumes w: "R (cs_world s) w" "load_ok (cs_world s) found w" "R w (cs_world s')"
    and "(\<exists>x. found = Some x \<and> cs_watermark s' = x \<and> wm_RepositoryID x = repository_of consumer)
      \<or> found = None \<and> (cs_watermark s' = zero_watermark \<or> anchored t s' \<and> R (cs_world s) (cs_world t))"
  shows "bounded s s'"
proof -
  have i: "wm_inv w \<and> wm_inv (cs_world s') \<and> wm_le found (durable (cs_world s')) \<and> wm_le (durable (cs_world s)) found
      \<and> (\<forall>x. found = Some x \<longrightarrow> wm_valid x)" if "wm_inv (cs_world s)"
    using durable_mono [OF that w(1)] durable_mono [of w "cs_world s'"] w(2,3) that by (auto simp: load_ok_def)
  show ?thesis
    using assms(4)
  proof (elim disjE exE conjE)
    fix x assume "found = Some x" "cs_watermark s' = x" "wm_RepositoryID x = repository_of consumer"
    then show ?thesis using i by (auto simp: bounded_def wm_valid_def)
  next
    assume "found = None" "cs_watermark s' = zero_watermark"
    then show ?thesis using i by (auto simp: bounded_def zero_watermark_def)
  next
    assume "found = None" "anchored t s'" "R (cs_world s) (cs_world t)"
    then show ?thesis using i durable_mono [of "cs_world s" "cs_world t"] by (auto simp: bounded_def anchored_def)
  qed
qed

lemma loadWatermark_stored:
  assumes c: "cinv env p s" and st: "cn_watermarks consumer = Some wms" and nl: "\<not> cs_watermarkLoaded s"
  shows "wp (loadWatermark env consumer) (\<lambda>e s'. cinv env p s' \<and> moved s s' \<and> (e = None \<longrightarrow> bounded s s')) s"
proof -
  let ?Q = "\<lambda>e s'. cinv env p s' \<and> moved s s' \<and> (e = None \<longrightarrow> bounded s s')"
  have last: "wp (do { k \<leftarrow> apply_checkpoint env consumer wms found; case k of Inl e \<Rightarrow> return (Some e) | Inr known \<Rightarrow> check_current known }) ?Q s1"
    if s1: "cinv env p s1" "moved s s1" and
      b: "\<And>s'. \<lbrakk>moved s1 s'; cs_watermark s' = cs_watermark s1 \<or> found = None \<and> anchored s1 s'\<rbrakk> \<Longrightarrow> bounded s s'" for found s1
  proof -
    have "wp (case k of Inl e \<Rightarrow> return (Some e) | Inr known \<Rightarrow> check_current known) ?Q s2"
      if "cinv env p s2" "moved s1 s2" "cs_watermark s2 = cs_watermark s1 \<or> found = None \<and> anchored s1 s2" for k s2
    proof -
      have m: "moved s s2" using moved_trans [OF s1(2) that(2)] .
      have "wp (check_current known) ?Q s2" for known
      proof (rule wp_stays [OF check_current_spec [OF that(1)]])
        fix e s3 assume s3: "cinv env p s3" "moved s2 s3" "cs_watermark s3 = cs_watermark s2"
        have "anchored s1 s3" if "anchored s1 s2"
          using that s3 s1(2) \<open>moved s1 s2\<close> durable_mono [of "cs_world s2" "cs_world s3"] durable_mono [of "cs_world s1" "cs_world s2"]
          by (auto simp: anchored_def moved_def)
        then show "?Q e s3" using s3 m that(3) moved_trans [OF m s3(2)] b [OF moved_trans [OF that(2) s3(2)]] by auto
      qed
      then show ?thesis using that(1) m by (cases k) auto
    qed
    then show ?thesis
      unfolding wp_bind by (auto intro!: wp_conseq [OF apply_checkpoint_spec [OF s1(1) st]])
  qed
  have found: "wp (errs (accept_found env consumer x) (do { k \<leftarrow> apply_checkpoint env consumer wms (Some x);
      case k of Inl e \<Rightarrow> return (Some e) | Inr known \<Rightarrow> check_current known })) ?Q (s\<lparr>cs_world := w\<rparr>)"
    if w: "R (cs_world s) w" "load_ok (cs_world s) (Some x) w" for x w
    unfolding wp_bind
  proof (rule wp_conseq [OF accept_found_spec [of p]])
    show "cinv env p (s\<lparr>cs_world := w\<rparr>)" using c by simp
    fix e :: "err option" and s1 assume s1: "cinv env p s1 \<and> moved (s\<lparr>cs_world := w\<rparr>) s1
      \<and> (e = None \<longrightarrow> cs_watermark s1 = x \<and> wm_valid x \<and> wm_RepositoryID x = repository_of consumer)"
    have m: "moved s s1" using s1 moved_trans [OF moved_world [OF moved_refl w(1)]] by blast
    have "bounded s s'" if "e = None" "moved s1 s'" "cs_watermark s' = cs_watermark s1" for s'
      by (rule bounded_intro [OF w]) (use that s1 R_trans in \<open>auto simp: moved_def\<close>)
    then have "wp (do { k \<leftarrow> apply_checkpoint env consumer wms (Some x); case k of Inl e \<Rightarrow> return (Some e) | Inr known \<Rightarrow> check_current known }) ?Q s1"
      if "e = None" using that s1 m by (intro last) auto
    then show "wp (case e of None \<Rightarrow> do { k \<leftarrow> apply_checkpoint env consumer wms (Some x);
        case k of Inl e \<Rightarrow> return (Some e) | Inr known \<Rightarrow> check_current known } | Some e \<Rightarrow> return (Some e)) ?Q s1"
      using s1 m by (cases e) auto
  qed
  have none: "wp (do { k \<leftarrow> apply_checkpoint env consumer wms None; case k of Inl e \<Rightarrow> return (Some e) | Inr known \<Rightarrow> check_current known })
      ?Q (s\<lparr>cs_world := w, cs_watermark := zero_watermark\<rparr>)"
    if w: "R (cs_world s) w" "load_ok (cs_world s) None w" for w
  proof (rule last)
    show "bounded s s'" if "moved (s\<lparr>cs_world := w, cs_watermark := zero_watermark\<rparr>) s'"
      "cs_watermark s' = cs_watermark (s\<lparr>cs_world := w, cs_watermark := zero_watermark\<rparr>)
        \<or> None = None \<and> anchored (s\<lparr>cs_world := w, cs_watermark := zero_watermark\<rparr>) s'" for s'
      by (rule bounded_intro [OF w, where t = "s\<lparr>cs_world := w, cs_watermark := zero_watermark\<rparr>"]) (use that w(1) in \<open>auto simp: moved_def\<close>)
  qed (use c w(1) in \<open>auto simp: moved_world\<close>)
  show ?thesis
    unfolding loadWatermark_def wp_get_bind if_not_P [OF nl] st option.case wp_bind [of "lift m" for m]
    using c
    by (intro wp_load [OF st])
      (auto simp: wp_sum wp_option set_watermark_def wp_update_bind wp_return_fun moved_world intro!: found none split: option.split sum.split)
qed

lemma persistConsumerWatermark_spec:
  assumes c: "cinv env p s" and st: "cn_watermarks consumer = Some wms"
  shows "wp (persistConsumerWatermark consumer wms expected new) (\<lambda>e s'. cinv env p s' \<and> moved s s'
    \<and> (e = None \<longrightarrow> (wm_inv (cs_world s) \<longrightarrow> wm_le (Some new) (durable (cs_world s'))) \<and> cs_watermark s' \<in> {cs_watermark s, new})) s"
proof -
  have l: "wp (lift (ws_Load wms (cn_channel consumer))) (\<lambda>r s'. cinv env p s' \<and> moved s s' \<and> cs_watermark s' = cs_watermark s
      \<and> (\<forall>x. r = Inr (Some x) \<and> wm_inv (cs_world s) \<longrightarrow> wm_le (Some x) (durable (cs_world s')))) (s\<lparr>cs_world := w\<rparr>)"
    if "R (cs_world s) w" for w
    using c that durable_mono [OF _ that] moved_world [OF moved_world [OF moved_refl that]]
    by (intro wp_load [OF st]) (auto simp: load_ok_def)
  show ?thesis
    unfolding persistConsumerWatermark_def wp_bind
    using c
    by (intro wp_swap [OF st])
      (auto simp: wp_option wp_bind set_watermark_def wp_sum wp_if wp_update moved_world intro!: wp_conseq [OF l])
qed

subsection \<open>Adoption\<close>

text \<open>The newer reference continues the higher of the watermark and the current snapshot.\<close>

definition continues :: "Watermark \<Rightarrow> adoptedSnapshot option \<Rightarrow> snapshotReference \<Rightarrow> bool" where
  "continues watermark current reference \<longleftrightarrow>
     (wm_Generation watermark \<noteq> 0 \<and> (\<forall>a. current = Some a \<longrightarrow> sr_Generation (as_reference a) \<le> wm_Generation watermark)
        \<longrightarrow> descends (sr_Commit reference) (sr_Generation reference) (wm_Commit watermark) (wm_Generation watermark))
   \<and> (\<forall>a. current = Some a \<and> sr_Generation (as_reference a) \<noteq> 0 \<and> wm_Generation watermark \<le> sr_Generation (as_reference a)
        \<longrightarrow> descends (sr_Commit reference) (sr_Generation reference) (sr_Commit (as_reference a)) (sr_Generation (as_reference a)))"

lemma compare_newer:
  assumes "compare_reference watermark current reference = None"
  shows "\<And>a. current = Some a \<Longrightarrow> sr_Generation (as_reference a) < sr_Generation reference"
    and "wm_Generation watermark \<noteq> 0 \<Longrightarrow> wm_Generation watermark \<le> sr_Generation reference"
    and "wm_Generation watermark \<noteq> 0 \<Longrightarrow> wm_Generation watermark = sr_Generation reference \<Longrightarrow> sr_Commit reference = wm_Commit watermark"
proof -
  show gt: "sr_Generation (as_reference a) < sr_Generation reference" if "current = Some a" for a
    using assms that by (auto simp: compare_reference_def Let_def split: if_splits)
  have "(case current of None \<Rightarrow> True | Some a \<Rightarrow> wm_Generation watermark > sr_Generation (as_reference a)) \<Longrightarrow> wm_Generation watermark \<noteq> 0 \<Longrightarrow>
      wm_Generation watermark \<le> sr_Generation reference \<and> (wm_Generation watermark = sr_Generation reference \<longrightarrow> sr_Commit reference = wm_Commit watermark)"
    using assms by (auto simp: compare_reference_def Let_def word_gt_0 split: if_splits)
  then show "wm_Generation watermark \<noteq> 0 \<Longrightarrow> wm_Generation watermark \<le> sr_Generation reference"
    "wm_Generation watermark \<noteq> 0 \<Longrightarrow> wm_Generation watermark = sr_Generation reference \<Longrightarrow> sr_Commit reference = wm_Commit watermark"
    using gt by (cases current; force)+
qed

lemma continues_anchor:
  assumes c: "compare_reference watermark current reference = None" and a: "choose_anchor consumer watermark current = Inr anchor"
    and d: "wm_Generation anchor > 0 \<and> sr_Generation reference > wm_Generation anchor \<longrightarrow>
       descends (sr_Commit reference) (sr_Generation reference) (wm_Commit anchor) (wm_Generation anchor)"
  shows "continues watermark current reference"
proof -
  note n = compare_newer [OF c]
  have same: "descends (sr_Commit reference) (sr_Generation reference) (wm_Commit watermark) (wm_Generation watermark)"
    if "wm_Generation watermark \<noteq> 0" "\<not> wm_Generation watermark < sr_Generation reference"
    using n(2,3) that descends.same [of "wm_Commit watermark" "wm_Generation watermark"] by (metis order_le_imp_less_or_eq)
  show ?thesis
    using a d n(1) same
    by (cases current)
      (auto simp: choose_anchor_def continues_def reference_watermark_def Let_def word_gt_0 split: if_splits)
qed

lemma reference_watermark_simps [simp]:
  "wm_Generation (reference_watermark c reference) = sr_Generation reference" "wm_Commit (reference_watermark c reference) = sr_Commit reference"
  "wm_RepositoryID (reference_watermark c reference) = repository_of c"
  by (simp_all add: reference_watermark_def repository_of_def)

text \<open>What the watermark in memory says about the durable one.\<close>

definition backed :: "'w cstate \<Rightarrow> bool" where
  "backed s \<longleftrightarrow> wm_inv (cs_world s) \<and> (wm_Generation (cs_watermark s) \<noteq> 0 \<longrightarrow>
     wm_le (Some (cs_watermark s)) (durable (cs_world s)) \<and> wm_RepositoryID (cs_watermark s) = repository_of consumer)"

definition exposed :: "snapshotReference \<Rightarrow> commitManifest \<Rightarrow> 'w cstate \<Rightarrow> RefreshResult \<times> err option \<Rightarrow> 'w cstate \<Rightarrow> bool" where
  "exposed reference commit s r s' \<longleftrightarrow>
     (snd r \<noteq> None \<longrightarrow> cs_state s' = cs_state s \<and> rr_Status (fst r) = RefreshUnchanged
        \<and> (cn_watermarks consumer = None \<longrightarrow> cs_watermark s' = cs_watermark s))
   \<and> (snd r = None \<longrightarrow> rr_Status (fst r) = RefreshUpdated \<and> rr_Generation (fst r) = sr_Generation reference
        \<and> cs_watermark s' = reference_watermark consumer reference
        \<and> (\<exists>a. cs_state s' = Some a \<and> as_reference a = reference \<and> as_commit a = commit)
        \<and> (cn_watermarks consumer \<noteq> None \<and> backed s \<longrightarrow> wm_le (Some (reference_watermark consumer reference)) (durable (cs_world s'))))"

lemma expose_spec:
  assumes c: "cinv env p s" and n: "compare_reference (cs_watermark s) current reference = None" and nz: "sr_Generation reference \<noteq> 0"
  shows "wp (expose consumer current reference commit version)
    (\<lambda>r s'. cinv env p s' \<and> R (cs_world s) (cs_world s') \<and> exposed reference commit s r s') s"
proof -
  let ?new = "reference_watermark consumer reference"
  have le: "wm_Generation (cs_watermark s) \<le> sr_Generation reference" using compare_newer(2) [OF n] by (cases "wm_Generation (cs_watermark s) = 0") auto
  have same: "cs_watermark s = ?new" if "\<not> wm_Generation (cs_watermark s) < sr_Generation reference" "backed s" "wm_Generation (cs_watermark s) \<noteq> 0"
    using that le compare_newer(3) [OF n] by (auto simp: backed_def intro!: Watermark.equality)
  show ?thesis
  proof (cases "cn_watermarks consumer")
    case None
    then show ?thesis using c le by (auto simp: expose_def wp_state wp_option exposed_def refreshResult_def)
  next
    case (Some wms)
    show ?thesis
    proof (cases "wm_Generation (cs_watermark s) < sr_Generation reference")
      case True
      have P: "wp (persistConsumerWatermark consumer wms e ?new)
          (\<lambda>r s'. cinv env p s' \<and> moved s s' \<and> (r = None \<longrightarrow> (wm_inv (cs_world s) \<longrightarrow> wm_le (Some ?new) (durable (cs_world s')))
             \<and> wm_Generation (cs_watermark s') \<le> sr_Generation reference)) s" for e
        by (rule wp_conseq [OF persistConsumerWatermark_spec [OF c Some]]) (use le in auto)
      show ?thesis
        unfolding expose_def
        using True Some
        by (auto simp: wp_bind wp_get wp_update wp_option Let_def exposed_def refreshResult_def moved_def backed_def
            intro!: wp_conseq [OF P])
    next
      case False
      then show ?thesis
        using c le same Some nz
        by (cases "wm_Generation (cs_watermark s) = 0")
          (auto simp: expose_def wp_state wp_option exposed_def refreshResult_def backed_def word_gt_0)
    qed
  qed
qed

definition adopted :: "snapshotReference \<Rightarrow> 'w cstate \<Rightarrow> RefreshResult \<times> err option \<Rightarrow> 'w cstate \<Rightarrow> bool" where
  "adopted reference s r s' \<longleftrightarrow> (\<exists>commit. exposed reference commit s r s' \<and>
     (snd r = None \<longrightarrow> commit_object (sr_Commit reference) commit \<and> validateCommitManifest commit (sr_Generation reference) = None
        \<and> continues (cs_watermark s) (cs_state s) reference))"

lemma adopt_spec:
  assumes c: "cinv env p s" and n: "compare_reference (cs_watermark s) (cs_state s) reference = None" and nz: "sr_Generation reference \<noteq> 0"
  shows "wp (adopt env consumer (cs_state s) reference version)
    (\<lambda>r s'. cinv env p s' \<and> R (cs_world s) (cs_world s') \<and> adopted reference s r s') s"
proof -
  let ?Q = "\<lambda>r s'. cinv env p s' \<and> R (cs_world s) (cs_world s') \<and> adopted reference s r s'"
  have err: "?Q (refreshResult (cs_state s) RefreshUnchanged, Some e) s'" if "cinv env p s'" "frame s s'" for e s'
    using that by (simp add: adopted_def exposed_def frame_def same_trust_def refreshResult_def)
  have ex: "wp (expose consumer (cs_state s) reference commit version) ?Q s'"
    if f: "cinv env p s'" "frame s s'" and o: "commit_object (sr_Commit reference) commit" "validateCommitManifest commit (sr_Generation reference) = None"
      and k: "continues (cs_watermark s) (cs_state s) reference" for commit s'
  proof -
    have e: "cs_state s' = cs_state s" "cs_watermark s' = cs_watermark s" "R (cs_world s) (cs_world s')"
      using f(2) by (auto simp: frame_def same_trust_def)
    have b: "backed s \<Longrightarrow> backed s'" using e durable_mono [of "cs_world s" "cs_world s'"] by (auto simp: backed_def)
    show ?thesis
      by (rule wp_conseq [OF expose_spec [OF f(1) _ nz, of "cs_state s" commit version]])
        (use e n o k b R_trans in \<open>auto simp: adopted_def exposed_def\<close>)
  qed
  have dir: "wp (do { r \<leftarrow> loadDirectory env consumer (cm_Root commit);
        case r of Inl e \<Rightarrow> return (refreshResult (cs_state s) RefreshUnchanged, Some e)
        | Inr _ \<Rightarrow> expose consumer (cs_state s) reference commit version }) ?Q s'"
    if f: "cinv env p s'" "frame s s'" and o: "commit_object (sr_Commit reference) commit" "validateCommitManifest commit (sr_Generation reference) = None"
      and k: "continues (cs_watermark s) (cs_state s) reference" for commit s'
    unfolding wp_bind
    by (rule wp_quiet [OF loadDirectory_spec f(1)]) (use frame_trans [OF f(2)] o k err ex in \<open>auto split: sum.split\<close>)
  have walk: "wp (do { d \<leftarrow> (if wm_Generation anchor > 0 \<and> sr_Generation reference > wm_Generation anchor
               then validateDescendant env consumer reference commit anchor else return None);
        case d of Some e \<Rightarrow> return (refreshResult (cs_state s) RefreshUnchanged, Some e)
        | None \<Rightarrow> do { r \<leftarrow> loadDirectory env consumer (cm_Root commit);
            case r of Inl e \<Rightarrow> return (refreshResult (cs_state s) RefreshUnchanged, Some e)
            | Inr _ \<Rightarrow> expose consumer (cs_state s) reference commit version } }) ?Q s'"
    if f: "cinv env p s'" "frame s s'" and o: "commit_object (sr_Commit reference) commit" "validateCommitManifest commit (sr_Generation reference) = None"
      and a: "choose_anchor consumer (cs_watermark s) (cs_state s) = Inr anchor" for commit anchor s'
  proof -
    have q: "quiet p (if wm_Generation anchor > 0 \<and> sr_Generation reference > wm_Generation anchor
        then validateDescendant env consumer reference commit anchor else return None)
      (\<lambda>e. e = None \<longrightarrow> continues (cs_watermark s) (cs_state s) reference)"
      using o continues_anchor [OF n a]
      by (auto intro!: spec_return spec_conseq [OF validateDescendant_spec])
    show ?thesis
      unfolding wp_bind [of "If b x y" for b x y]
      by (rule wp_quiet [OF q f(1)]) (use frame_trans [OF f(2)] err dir [OF _ _ o] in \<open>auto split: option.split\<close>)
  qed
  have anchor: "wp (do { s \<leftarrow> State_Monad.get;
         case choose_anchor consumer (cs_watermark s) (cs_state s0) of Inl e \<Rightarrow> return (refreshResult (cs_state s0) RefreshUnchanged, Some e)
         | Inr anchor \<Rightarrow> do { d \<leftarrow> (if wm_Generation anchor > 0 \<and> sr_Generation reference > wm_Generation anchor
               then validateDescendant env consumer reference commit anchor else return None);
            case d of Some e \<Rightarrow> return (refreshResult (cs_state s0) RefreshUnchanged, Some e)
            | None \<Rightarrow> do { r \<leftarrow> loadDirectory env consumer (cm_Root commit);
                case r of Inl e \<Rightarrow> return (refreshResult (cs_state s0) RefreshUnchanged, Some e)
                | Inr _ \<Rightarrow> expose consumer (cs_state s0) reference commit version } } }) ?Q s'"
    if f: "cinv env p s'" "frame s s'" and o: "commit_object (sr_Commit reference) commit" "validateCommitManifest commit (sr_Generation reference) = None"
      and s0: "s0 = s" for commit s' s0
  proof -
    have "cs_watermark s' = cs_watermark s" using f(2) by (simp add: frame_def same_trust_def)
    then show ?thesis
      using walk [OF f o] err [OF f] s0 by (cases "choose_anchor consumer (cs_watermark s) (cs_state s)") (simp_all add: wp_get_bind)
  qed
  show ?thesis
    unfolding adopt_def Let_def wp_bind [of "consumer_getManifest env consumer d" for d]
    by (rule wp_quiet [OF consumer_getManifest_spec c]) (auto simp: err anchor [OF _ _ _ _ refl] split: sum.split option.split)
qed

subsection \<open>Refresh\<close>

definition view :: "'w cstate \<Rightarrow> (snapshotReference \<times> commitManifest) option" where
  "view s = map_option (\<lambda>a. (as_reference a, as_commit a)) (cs_state s)"

text \<open>The state in which the downloaded reference is compared.\<close>

definition ready :: "'w cstate \<Rightarrow> 'w cstate \<Rightarrow> bool" where
  "ready s t \<longleftrightarrow> moved s t \<and> (if cn_watermarks consumer = None then cs_watermark t = cs_watermark s else bounded s t)"

lemma ready_frame: "ready s t \<Longrightarrow> frame t t' \<Longrightarrow> ready s t'"
  using durable_mono [of "cs_world s" "cs_world t"] durable_mono [of "cs_world t" "cs_world t'"] R_trans [of "cs_world s" "cs_world t" "cs_world t'"]
  by (auto simp: ready_def moved_def frame_def same_trust_def bounded_def split: if_splits)

lemma ready_before:
  assumes "ready s1 t" "moved s s1" "cs_watermark s1 = cs_watermark s"
  shows "ready s t"
proof -
  have "bounded s t" if b: "bounded s1 t"
  proof -
    have "wm_Generation (cs_watermark t) \<noteq> 0 \<and> wm_le (Some x) (Some (cs_watermark t))" if "wm_inv (cs_world s)" "durable (cs_world s) = Some x" for x
    proof -
      have i: "wm_inv (cs_world s1)" "wm_le (Some x) (durable (cs_world s1))"
        using that assms(2) by (auto simp: moved_def advances_def)
      then obtain y where "durable (cs_world s1) = Some y" by (cases "durable (cs_world s1)") auto
      then show ?thesis using i b by (auto simp: bounded_def intro: wm_le_trans)
    qed
    moreover have "wm_inv (cs_world s) \<Longrightarrow> wm_inv (cs_world s1)" using assms(2) by (auto simp: moved_def advances_def)
    ultimately show ?thesis using b unfolding bounded_def by blast
  qed
  then show ?thesis using assms moved_trans [OF assms(2)] by (auto simp: ready_def split: if_splits)
qed

lemma loadWatermark_ready:
  assumes "cinv env p s" "cn_watermarks consumer \<noteq> None \<longrightarrow> \<not> cs_watermarkLoaded s"
  shows "wp (loadWatermark env consumer) (\<lambda>e s'. cinv env p s' \<and> moved s s' \<and> (e = None \<longrightarrow> ready s s')
    \<and> (cn_watermarks consumer = None \<longrightarrow> cs_watermark s' = cs_watermark s)) s"
proof (cases "cn_watermarks consumer")
  case None
  then show ?thesis using assms(1) by (auto simp: loadWatermark_def wp_state ready_def)
next
  case (Some wms)
  then show ?thesis using assms by (auto simp: ready_def intro: wp_conseq [OF loadWatermark_stored])
qed

definition refreshed :: "'w cstate \<Rightarrow> RefreshResult \<times> err option \<Rightarrow> 'w cstate \<Rightarrow> bool" where
  "refreshed s r s' \<longleftrightarrow> (if rr_Status (fst r) = RefreshUpdated
     then snd r = None \<and> (\<exists>t reference. ready s t \<and> sr_Generation reference \<noteq> 0 \<and> sr_Commit reference \<noteq> 0
       \<and> compare_reference (cs_watermark t) (cs_state t) reference = None \<and> adopted reference t r s')
     else view s' = view s \<and> (cn_watermarks consumer = None \<longrightarrow> cs_watermark s' = cs_watermark s))"

lemma refresh_with_spec:
  assumes c: "cinv env p t" and r: "ready s t"
    and d: "\<forall>reference version. download = Inr (reference, version) \<longrightarrow> sr_Generation reference \<noteq> 0 \<and> sr_Commit reference \<noteq> 0"
  shows "wp (refresh_with env consumer (cs_state t) download) (\<lambda>r s'. cinv env p s' \<and> R (cs_world s) (cs_world s') \<and> refreshed s r s') t"
proof (cases download)
  case (Inl e)
  then show ?thesis
    using c r
    by (auto simp: refresh_with_def wp_state wp_option refreshed_def refreshResult_def no_result_def ready_def moved_def view_def split: option.split)
next
  case (Inr rv)
  obtain reference version where rv: "rv = (reference, version)" by fastforce
  show ?thesis
  proof (cases "compare_reference (cs_watermark t) (cs_state t) reference")
    case None
    have m: "R (cs_world s) (cs_world t)" "cs_state t = cs_state s" using r by (auto simp: ready_def moved_def)
    have w: "cn_watermarks consumer = None \<Longrightarrow> cs_watermark t = cs_watermark s" using r by (simp add: ready_def)
    have "refreshed s x s'" if "adopted reference t x s'" for x s'
      using that d r None m Inr rv w
      by (cases "snd x") (auto simp: refreshed_def view_def adopted_def exposed_def)
    then show ?thesis
      using None Inr rv d R_trans [OF m(1)]
      by (auto simp: refresh_with_def wp_get_bind intro!: wp_conseq [OF adopt_spec [OF c None]])
  next
    case (Some x)
    obtain res e same where x: "x = (res, e, same)" by (cases x) auto
    have "rr_Status res \<noteq> RefreshUpdated"
      using Some x by (auto simp: compare_reference_def refreshResult_def Let_def split: if_splits option.splits)
    moreover have "R (cs_world s) (cs_world t)" "cs_state t = cs_state s"
      "cn_watermarks consumer = None \<longrightarrow> cs_watermark t = cs_watermark s" using r by (auto simp: ready_def moved_def)
    ultimately show ?thesis
      unfolding refresh_with_def Inr rv wp_get_bind sum.case prod.case Some x option.case
      using c by (cases same) (simp_all add: wp_bind wp_update refreshed_def view_def option.map_comp comp_def)
  qed
qed

lemma Refresh_spec:
  assumes c: "cinv env p s"
  shows "wp (Refresh env consumer) (\<lambda>r s'. cinv env p s' \<and> R (cs_world s) (cs_world s') \<and> refreshed s r s') s"
proof -
  let ?Q = "\<lambda>r s'. cinv env p s' \<and> R (cs_world s) (cs_world s') \<and> refreshed s r s'"
  have none: "?Q (no_result, Some e) s'" if "cinv env p s'" "moved s s'" "cn_watermarks consumer = None \<longrightarrow> cs_watermark s' = cs_watermark s" for e s'
    using that by (simp add: refreshed_def no_result_def moved_def view_def)
  define cont where "cont tag current = do { d \<leftarrow> downloadReference env consumer tag; refresh_with env consumer current d }" for tag current
  have tail: "wp (cont tag (cs_state t)) ?Q t" if t: "cinv env p t" "ready s t" for t tag
    unfolding wp_bind cont_def
  proof (rule wp_quiet [OF downloadReference_spec t(1)])
    fix r :: "err + snapshotReference \<times> Version" and t' assume t': "cinv env p t'" "frame t t'"
      "\<forall>reference version. r = Inr (reference, version) \<longrightarrow> sr_Generation reference \<noteq> 0 \<and> sr_Commit reference \<noteq> 0"
    have "cs_state t' = cs_state t" using t'(2) by (simp add: frame_def same_trust_def)
    then show "wp (refresh_with env consumer (cs_state t) r) ?Q t'"
      using refresh_with_spec [OF t'(1) ready_frame [OF t(2) t'(2)] t'(3)] by simp
  qed
  have load: "wp (do { l \<leftarrow> loadWatermark env consumer; case l of Some e \<Rightarrow> return (no_result, Some e)
      | None \<Rightarrow> do { s \<leftarrow> State_Monad.get; cont (tag s) (cs_state s) } }) ?Q s1"
    if s1: "cinv env p s1" "cn_watermarks consumer \<noteq> None \<longrightarrow> \<not> cs_watermarkLoaded s1" "moved s s1" "cs_watermark s1 = cs_watermark s" for s1 tag
    unfolding wp_bind [of "loadWatermark env consumer"]
  proof (rule wp_conseq [OF loadWatermark_ready [OF s1(1,2)]])
    fix l :: "err option" and t assume t: "cinv env p t \<and> moved s1 t \<and> (l = None \<longrightarrow> ready s1 t)
      \<and> (cn_watermarks consumer = None \<longrightarrow> cs_watermark t = cs_watermark s1)"
    have m: "moved s t" using t moved_trans [OF s1(3)] by blast
    have "ready s t" if "l = None" using t that ready_before [OF _ s1(3,4)] by blast
    then show "wp (case l of None \<Rightarrow> do { s \<leftarrow> State_Monad.get; cont (tag s) (cs_state s) } | Some e \<Rightarrow> return (no_result, Some e)) ?Q t"
      using t m none tail s1(4) by (cases l) (auto simp: wp_get_bind)
  qed
  have mw: "moved s (s\<lparr>cs_world := w\<rparr>)" if "R (cs_world s) w" for w using moved_world [OF moved_refl that] .
  show ?thesis
    unfolding Refresh_def Let_def cont_def [symmetric] wp_bind [of "lift m" for m]
    by (intro wp_lift_steps env_steps) (auto simp: wp_option wp_update_bind c mw none intro!: load)
qed

end

end
