(* ===== verification/Consumer_Read.thy ===== *)
theory Consumer_Read
  imports Consumer_Trust
begin

section \<open>Reads through the consumer\<close>

text \<open>
  Path lookups, directory listings, symlink targets and file bytes: what a read returns is a part of the
  hash tree below the root of the adopted commit, for every store and every chunk cache. The proofs
  extend the interface \<open>consumer_env\<close> of \<open>Consumer_Trust\<close>.
\<close>

subsection \<open>The authenticated tree\<close>

text \<open>\<open>walks d cs e\<close>: the components \<open>cs\<close>, looked up one after the other from the directory with digest \<open>d\<close>,
  end in the entry \<open>e\<close>; each directory is found under its digest and is valid.\<close>

inductive walks :: "digest \<Rightarrow> bytes list \<Rightarrow> dirEntry \<Rightarrow> bool" where
  entry: "\<lbrakk>dir_object d m; e \<in> set (elems (dm_Entries m)); entry_name e = c\<rbrakk> \<Longrightarrow> walks d [c] e"
| below: "\<lbrakk>dir_object d m; e \<in> set (elems (dm_Entries m)); entry_name e = c; de_Type e = EntryDir; walks (de_Node e) cs e'\<rbrakk>
    \<Longrightarrow> walks d (c # cs) e'"

lemma dir_object_lookup:
  assumes "dir_object d m" "lookup_entry (elems (dm_Entries m)) c = Some e"
  shows "e \<in> set (elems (dm_Entries m)) \<and> entry_name e = c"
proof -
  have "find (\<lambda>e. entry_name e = c) (elems (dm_Entries m)) = Some e"
    using assms lookup_entry_find [OF validateDirectoryManifest_None(2)] by (simp add: dir_object_def)
  then show ?thesis by (auto simp: find_Some_iff)
qed

text \<open>What a lookup of the path in the adopted snapshot may return.\<close>

definition resolves :: "'w cstate \<Rightarrow> bytes \<Rightarrow> resolvedEntry \<Rightarrow> bool" where
  "resolves s path x \<longleftrightarrow> (\<exists>cs a. cleanLookupPath path = Inr cs \<and> cs_state s = Some a \<and> re_generation x = sr_Generation (as_reference a)
     \<and> re_isRoot x = (cs = []) \<and> (if cs = [] then de_Type (re_entry x) = EntryDir \<and> de_Node (re_entry x) = cm_Root (as_commit a)
        else walks (cm_Root (as_commit a)) cs (re_entry x)))"

definition chunk_object :: "digest \<Rightarrow> int \<Rightarrow> bytes \<Rightarrow> bool" where
  "chunk_object d n data \<longleftrightarrow> digestObject ''chunk'' data = d \<and> len data = n"

definition chunk_read :: "digest \<Rightarrow> int \<Rightarrow> bytes \<Rightarrow> bool" where
  "chunk_read d n data \<longleftrightarrow> chunk_object d n data \<and> 0 < n"

text \<open>The byte at a position of a file is authentic when it is the byte at that place of data with the digest and
  the size of the chunk that covers the position.\<close>

definition authentic :: "chunkRef list \<Rightarrow> int \<Rightarrow> char \<Rightarrow> bool" where
  "authentic cs pos b \<longleftrightarrow> (\<exists>c \<in> set cs. covers c pos
     \<and> (\<exists>data. chunk_object (cr_Digest c) (cr_Size c) data \<and> data ! nat (pos - cr_Offset c) = b))"

lemma authentic_mono: "authentic cs pos b \<Longrightarrow> set cs \<subseteq> set cs' \<Longrightarrow> authentic cs' pos b"
  by (auto simp: authentic_def)

abbreviation chunk_end :: "chunkRef \<Rightarrow> int" where
  "chunk_end c \<equiv> cr_Offset c + cr_Size c"

lemma tiles_sorted: "tiles off cs sz \<Longrightarrow> sorted_wrt (\<lambda>c d. chunk_end c \<le> chunk_end d) cs"
proof (induction off cs sz rule: tiles.induct)
  case (2 off c cs sz)
  have "0 < cr_Size d" if "d \<in> set cs" for d
    using "2.prems" that
    by (induction "off + cr_Size c" cs sz arbitrary: off c rule: tiles.induct) (auto, metis)
  then show ?case using 2 tiles_range [of "off + cr_Size c" cs sz] by fastforce
qed simp

text \<open>The search of \<open>ReadAtContext\<close> skips exactly the chunks that end at or before the offset.\<close>

lemma search_chunks:
  assumes "tiles off cs sz" and f: "\<And>i. i < length cs \<Longrightarrow> f i = (offset < chunk_end (cs ! i))"
  shows "drop (sort_Search (length cs) f) cs = dropWhile (\<lambda>c. chunk_end c \<le> offset) cs"
proof -
  have "f b" if ab: "a \<le> b" "b < length cs" "f a" for a b
  proof -
    have "chunk_end (cs ! a) \<le> chunk_end (cs ! b)"
      using sorted_wrt_nth_less [OF tiles_sorted [OF assms(1)], of a b] ab by (cases "a = b") auto
    then show ?thesis using f [of a] f [of b] ab by simp
  qed
  then have "upward (length cs) f" unfolding upward_def by blast
  then have L: "least_in (length cs) f (sort_Search (length cs) f)" by (rule sort_Search_least)
  have "drop k cs = dropWhile (\<lambda>c. chunk_end c \<le> offset) cs" if k: "least_in (length cs) f k" for k
  proof -
    have "takeWhile (\<lambda>c. chunk_end c \<le> offset) cs = take k cs"
    proof (rule takeWhile_eq_take_P_nth)
      show "chunk_end (cs ! i) \<le> offset" if "i < k" "i < length cs" for i
        using k f [OF that(2)] that(1) by (simp add: least_in_def not_less)
      show "\<not> chunk_end (cs ! k) \<le> offset" if "k < length cs"
        using k f [OF that] that by (simp add: least_in_def)
    qed
    then show ?thesis using k by (simp add: dropWhile_eq_drop least_in_def)
  qed
  from this [OF L] show ?thesis .
qed

lemma tiles_dropWhile:
  assumes "tiles off cs sz" "off \<le> offset"
  shows "\<exists>off'. tiles off' (dropWhile (\<lambda>c. chunk_end c \<le> offset) cs) sz \<and> off \<le> off' \<and> off' \<le> offset"
  using assms
proof (induction off cs sz rule: tiles.induct)
  case (2 off c cs sz)
  show ?case
  proof (cases "chunk_end c \<le> offset")
    case True
    then have "\<exists>off'. tiles off' (dropWhile (\<lambda>c. chunk_end c \<le> offset) cs) sz \<and> off + cr_Size c \<le> off' \<and> off' \<le> offset"
      using 2 by auto
    then show ?thesis using True "2.prems" by (auto intro: order_trans)
  next
    case False
    then show ?thesis using "2.prems" by auto
  qed
qed auto

context consumer_env
begin

lemma resolve_components_spec:
  "cs \<noteq> [] \<Longrightarrow> quiet p (resolve_components env consumer d cs) (\<lambda>r. \<forall>e. r = Inr e \<longrightarrow> walks d cs e)"
proof (induction cs arbitrary: d)
  case (Cons c cs)
  have "quiet p (case lookup_entry (elems (dm_Entries m)) c of None \<Rightarrow> throw [ErrPathNotFound]
       | Some entry \<Rightarrow> if cs = [] then return (Inr entry) else if de_Type entry \<noteq> EntryDir then throw [ErrNotDirectory]
           else resolve_components env consumer (de_Node entry) cs) (\<lambda>r. \<forall>e. r = Inr e \<longrightarrow> walks d (c # cs) e)"
    if m: "dir_object d m" for m
  proof (cases "lookup_entry (elems (dm_Entries m)) c")
    case None
    then show ?thesis by (simp add: spec_return)
  next
    case (Some e)
    note l = dir_object_lookup [OF m Some]
    show ?thesis
      using Some l walks.entry [OF m] walks.below [OF m]
      by (auto intro!: spec_return spec_conseq [OF Cons.IH])
  qed
  then show ?case
    by (auto intro!: spec_bind [OF loadDirectory_spec] spec_ok)
qed simp

lemma resolve_spec:
  assumes "cinv env p s"
  shows "wp (resolve env consumer path) (\<lambda>r s'. cinv env p s' \<and> frame s s' \<and> (\<forall>x. r = Inr x \<longrightarrow> resolves s path x)) s"
proof (cases "cleanLookupPath path")
  case (Inl e)
  then show ?thesis using assms by (simp add: resolve_def)
next
  case (Inr cs)
  show ?thesis
  proof (cases "cs_state s")
    case None
    then show ?thesis using assms Inr by (simp add: resolve_def wp_get_bind snapshotRoot_def)
  next
    case (Some a)
    show ?thesis
    proof (cases "cs = []")
      case True
      then show ?thesis using assms Inr Some by (simp add: resolve_def wp_get_bind snapshotRoot_def resolves_def)
    next
      case False
      then show ?thesis
        using Inr Some
        by (auto simp: resolve_def wp_get snapshotRoot_def resolves_def wp_bind wp_ok
            intro!: wp_quiet [OF resolve_components_spec [OF False] assms])
    qed
  qed
qed

text \<open>Continuing after a lookup with an operation that does not depend on the adopted snapshot.\<close>

lemma after_resolve:
  assumes "cinv env p s" "\<And>x. resolves s path x \<Longrightarrow> quiet p (f x) Q" "\<And>e. Q (Inl e)"
  shows "wp (do { r \<leftarrow> resolve env consumer path; ok r f }) (\<lambda>r s'. cinv env p s' \<and> frame s s' \<and> Q r) s"
  unfolding wp_bind
proof (rule wp_conseq [OF resolve_spec [OF assms(1)]])
  fix r :: "err + resolvedEntry" and s' assume r: "cinv env p s' \<and> frame s s' \<and> (\<forall>x. r = Inr x \<longrightarrow> resolves s path x)"
  show "wp (ok r f) (\<lambda>r s'. cinv env p s' \<and> frame s s' \<and> Q r) s'"
  proof (cases r)
    case (Inl e)
    then show ?thesis using r assms(3) by simp
  next
    case (Inr x)
    then show ?thesis using r frame_trans by (auto intro!: wp_quiet [OF assms(2)])
  qed
qed

lemma Stat_spec:
  assumes "cinv env p s"
  shows "wp (Stat env consumer path) (\<lambda>r s'. cinv env p s' \<and> frame s s' \<and> (\<forall>y. r = Inr y \<longrightarrow>
    (\<exists>x. resolves s path x \<and> y = publicEntry (if re_isRoot x then [] else entry_name (re_entry x)) (re_entry x)))) s"
  unfolding Stat_def by (rule after_resolve [OF assms]) (auto intro!: spec_return)

lemma ListDir_spec:
  assumes "cinv env p s"
  shows "wp (ListDir env consumer path) (\<lambda>r s'. cinv env p s' \<and> frame s s' \<and> (\<forall>ys. r = Inr ys \<longrightarrow>
    (\<exists>x m. resolves s path x \<and> de_Type (re_entry x) = EntryDir \<and> dir_object (de_Node (re_entry x)) m
       \<and> ys = map (\<lambda>e. publicEntry (entry_name e) e) (elems (dm_Entries m))))) s"
  unfolding ListDir_def
  by (rule after_resolve [OF assms]) (auto intro!: spec_return spec_bind [OF loadDirectory_spec] spec_ok)

lemma Open_spec:
  assumes "cinv env p s"
  shows "wp (Open env consumer path) (\<lambda>r s'. cinv env p s' \<and> frame s s' \<and> (\<forall>f. r = Inr f \<longrightarrow>
    (\<exists>x. resolves s path x \<and> de_Type (re_entry x) = EntryFile \<and> file_object env (de_Node (re_entry x)) (fl_manifest f)
       \<and> fm_Size (fl_manifest f) = de_Size (re_entry x) \<and> fl_generation f = re_generation x))) s"
  unfolding Open_def
  by (rule after_resolve [OF assms]) (auto intro!: spec_return spec_bind [OF loadFile_spec] spec_ok, metis)

lemma Readlink_spec:
  assumes "cinv env p s"
  shows "wp (Readlink env consumer path) (\<lambda>r s'. cinv env p s' \<and> frame s s' \<and> (\<forall>target. r = Inr target \<longrightarrow>
    (\<exists>x m cs. resolves s path x \<and> de_Type (re_entry x) = EntrySymlink \<and> symlink_object (de_Node (re_entry x)) m
       \<and> target = elems (sm_Target m) \<and> cleanLookupPath path = Inr cs
       \<and> (cn_symlinkPolicy consumer = SymlinkRejectExternal \<longrightarrow> validateSafeSymlink (join_slash cs) target = None)))) s"
  unfolding Readlink_def
proof (rule after_resolve [OF assms])
  fix x assume x: "resolves s path x"
  then obtain cs where cs: "cleanLookupPath path = Inr cs" by (auto simp: resolves_def)
  have q: "quiet p (let target = elems (sm_Target m) in
       if len target \<noteq> de_Size (re_entry x) then throw [ErrCorruptObject]
       else if cn_symlinkPolicy consumer = SymlinkRejectExternal then
         ok (cleanLookupPath path) (\<lambda>components. check (validateSafeSymlink (join_slash components) target) (return (Inr target)))
       else return (Inr target))
    (\<lambda>r. \<forall>target. r = Inr target \<longrightarrow> target = elems (sm_Target m)
       \<and> (cn_symlinkPolicy consumer = SymlinkRejectExternal \<longrightarrow> validateSafeSymlink (join_slash cs) target = None))" for m
    using cs by (auto simp: Let_def intro!: spec_return spec_check)
  show "quiet p (if de_Type (re_entry x) \<noteq> EntrySymlink then throw [ErrUnsupportedType]
       else do {
         l \<leftarrow> loadSymlink env consumer (de_Node (re_entry x));
         ok l (\<lambda>manifest. let target = elems (sm_Target manifest) in
           if len target \<noteq> de_Size (re_entry x) then throw [ErrCorruptObject]
           else if cn_symlinkPolicy consumer = SymlinkRejectExternal then
             ok (cleanLookupPath path) (\<lambda>components. check (validateSafeSymlink (join_slash components) target) (return (Inr target)))
           else return (Inr target)) })
    (\<lambda>r. \<forall>target. r = Inr target \<longrightarrow> (\<exists>x m cs. resolves s path x \<and> de_Type (re_entry x) = EntrySymlink \<and> symlink_object (de_Node (re_entry x)) m
       \<and> target = elems (sm_Target m) \<and> cleanLookupPath path = Inr cs
       \<and> (cn_symlinkPolicy consumer = SymlinkRejectExternal \<longrightarrow> validateSafeSymlink (join_slash cs) target = None)))"
    using x cs by (auto intro!: spec_return spec_bind [OF loadSymlink_spec] spec_ok spec_conseq [OF q])
qed simp

subsection \<open>Chunks\<close>

lemma getCachedChunk_spec:
  "quiet p (getCachedChunk consumer d n) (\<lambda>r. \<forall>data. fst r = Inr (Some data) \<longrightarrow> chunk_object d n data)"
proof (cases "cn_cache consumer")
  case None
  then show ?thesis by (simp add: getCachedChunk_def spec_return)
next
  case (Some cc)
  have s: "steps R (case cc_GetSized cc of None \<Rightarrow> cc_Get cc d | Some f \<Rightarrow> f d n)"
    using cache_steps(1,3) [OF Some] by (auto split: option.split)
  have "chunk_object d n data" if "fst (accept_cached consumer d n r) = Inr (Some data)" for r data
    using that by (auto simp: accept_cached_def chunk_object_def split: sum.splits option.splits if_splits)
  then show ?thesis
    unfolding getCachedChunk_def Some option.case by (intro spec_bind [OF spec_lift_any [OF s]] spec_return) auto
qed

lemma report_all_spec: "quiet p (report_all consumer es) (\<lambda>_. True)"
proof (induction es)
  case (Cons e es)
  have "quiet p (reportCacheError consumer e) (\<lambda>_. True)"
    by (auto simp: reportCacheError_def intro!: spec_return spec_lift_any report_steps split: option.split)
  then show ?case using Cons by (auto intro: spec_bind)
qed (simp add: spec_return)

lemma released_spec:
  "0 < n \<Longrightarrow> 0 \<le> snd p \<Longrightarrow> Q r \<Longrightarrow> post r = p \<Longrightarrow>
     spec (fst p + 1, snd p + n) (do { releaseDownload n; return r }) post Q"
  by (auto intro!: spec_bind [OF releaseDownload_spec] spec_return)

lemma load_chunk_spec:
  "spec p (load_chunk env consumer d n) (\<lambda>r. case fst r of Inl _ \<Rightarrow> p | Inr _ \<Rightarrow> (fst p + 1, snd p + n))
     (\<lambda>r. \<forall>data. fst r = Inr data \<longrightarrow> chunk_read d n data)"
  (is "spec p _ ?post ?Q")
proof (rule spec_nonneg)
  assume nn: "0 \<le> snd p"
  let ?q = "(fst p + 1, snd p + n)"
  have rel: "spec ?q (do { releaseDownload n; return (Inl e, es) }) ?post ?Q" if "0 < n" for e es
    using that nn by (intro released_spec) auto
  have get: "quiet q (lift (getImmutableExact (cn_repository consumer) ''chunk'' d n)) (\<lambda>r. \<forall>data. r = Inr data \<longrightarrow> chunk_object d n data)" for q
    by (rule spec_lift [OF repository_steps(3)])
      (rule wp_conseq [OF getImmutableExact_verified], simp add: chunk_object_def)
  have fetch: "spec ?q (fetch_chunk consumer d n es) ?post ?Q" if "0 < n" for es
    unfolding fetch_chunk_def using that
    by (auto intro!: spec_return spec_conseq [OF rel] spec_bind [OF get] spec_bind [OF spec_lift_any [OF cache_steps(2)]] split: sum.split option.split simp: chunk_read_def)
  have load: "spec ?q (case ce of (c, es) \<Rightarrow> (case c of Inl e \<Rightarrow> do { releaseDownload n; return (Inl e, es) }
      | Inr (Some data) \<Rightarrow> return (Inr data, es) | Inr None \<Rightarrow> fetch_chunk consumer d n es)) ?post ?Q"
    if "0 < n" "\<forall>data. fst ce = Inr (Some data) \<longrightarrow> chunk_object d n data" for ce
    using that by (auto intro!: spec_return spec_conseq [OF rel] spec_conseq [OF fetch] split: prod.split sum.split option.split simp: chunk_read_def)
  show ?thesis
    unfolding load_chunk_def
  proof (rule spec_bind [OF acquireDownload_spec])
    fix a :: "err option" assume a: "a = None \<longrightarrow> 0 < n"
    show "spec (if a = None then ?q else p) (case a of Some e \<Rightarrow> return (Inl e, []) | None \<Rightarrow> do {
         (c, cacheErrors) \<leftarrow> getCachedChunk consumer d n;
         case c of Inl e \<Rightarrow> do { releaseDownload n; return (Inl e, cacheErrors) }
         | Inr (Some data) \<Rightarrow> return (Inr data, cacheErrors) | Inr None \<Rightarrow> fetch_chunk consumer d n cacheErrors }) ?post ?Q"
      using a by (cases a) (simp_all add: spec_return spec_bind [OF getCachedChunk_spec load])
  qed
qed

lemma releaseLease_spec:
  "0 < cl_charge lease \<Longrightarrow> cl_charge lease \<le> snd p \<Longrightarrow>
     spec p (releaseLease consumer lease) (\<lambda>_. (fst p - 1, snd p - cl_charge lease)) (\<lambda>_. True)"
  unfolding releaseLease_def by (auto intro!: spec_bind [OF releaseDownload_spec] report_all_spec)

lemma getChunk_spec:
  "spec p (getChunk env consumer d n) (\<lambda>r. case r of Inl _ \<Rightarrow> p | Inr _ \<Rightarrow> (fst p + 1, snd p + n))
     (\<lambda>r. \<forall>lease. r = Inr lease \<longrightarrow> chunk_read d n (cl_data lease) \<and> cl_charge lease = n)"
  (is "spec p _ ?post ?Q")
proof (rule spec_nonneg)
  assume nn: "0 \<le> snd p"
  have fail: "spec p (do { report_all consumer es; sel \<leftarrow> lift (ev_select env); check sel (throw e) }) ?post ?Q" for e es
    by (intro spec_bind [OF report_all_spec] spec_bind [OF spec_lift_any [OF env_steps(2)]] spec_check spec_return) auto
  have drop: "spec (fst p + 1, snd p + n) (do { releaseLease consumer lease; throw e }) ?post ?Q" if "cl_charge lease = n" "0 < n" for lease e
    using that nn by (auto intro!: spec_bind [OF releaseLease_spec] spec_return)
  have got: "spec (fst p + 1, snd p + n) (do { sel \<leftarrow> lift (ev_select env);
      case sel of None \<Rightarrow> return (Inr lease) | Some e \<Rightarrow> do { releaseLease consumer lease; throw e } }) ?post ?Q"
    if "chunk_read d n (cl_data lease)" "cl_charge lease = n" for lease
  proof (rule spec_bind [OF spec_lift_any [OF env_steps(2)]])
    fix sel
    show "spec (fst p + 1, snd p + n) (case sel of None \<Rightarrow> return (Inr lease) | Some e \<Rightarrow> do { releaseLease consumer lease; throw e }) ?post ?Q"
      using that drop [OF that(2)] by (cases sel) (simp_all add: spec_return chunk_read_def)
  qed
  have "spec p (do { (r, cacheErrors) \<leftarrow> load_chunk env consumer d n;
          case r of Inl e \<Rightarrow> do { report_all consumer cacheErrors; sel \<leftarrow> lift (ev_select env); check sel (throw e) }
          | Inr data \<Rightarrow> (let lease = \<lparr>cl_data = data, cl_charge = n, cl_errors = cacheErrors\<rparr> in do {
              sel \<leftarrow> lift (ev_select env);
              case sel of None \<Rightarrow> return (Inr lease) | Some e \<Rightarrow> do { releaseLease consumer lease; throw e } }) }) ?post ?Q"
    by (rule spec_bind [OF load_chunk_spec]) (auto simp: Let_def intro!: fail got split: prod.split sum.split)
  then show ?thesis
    unfolding getChunk_def
    by (auto intro!: spec_return spec_bind [OF spec_lift_any [OF env_steps(1)]] spec_check)
qed

lemma copyChunkLease_spec:
  assumes lease: "chunk_object (cr_Digest c) (cr_Size c) (cl_data lease)" "cl_charge lease = cr_Size c" "0 < cr_Size c"
    and c: "0 \<le> cr_Offset c" "chunk_end c \<le> maxInt64" "covers c offset"
    and l: "offset < limit" "limit \<le> maxInt64" "limit - offset \<le> int room" and p: "0 \<le> snd p"
  shows "spec (fst p + 1, snd p + cr_Size c) (copyChunkLease env consumer lease room c offset limit) (\<lambda>_. p)
    (\<lambda>r. \<forall>x. r = Inr x \<longrightarrow> x = take (nat (min limit (chunk_end c) - offset)) (drop (nat (offset - cr_Offset c)) (cl_data lease)))"
proof -
  let ?start = "offset - cr_Offset c" and ?stop = "min limit (chunk_end c) - cr_Offset c"
  have w: "wrap64 (chunk_end c) = chunk_end c" using c by (intro wrap64_id) (auto simp: is_int64_def maxInt64_def covers_def)
  have start: "wrap64 (max64 offset (cr_Offset c) - cr_Offset c) = ?start"
    using c by (simp add: max64_def covers_def is_int64_def maxInt64_def)
  have stop: "wrap64 (min64 limit (wrap64 (chunk_end c)) - cr_Offset c) = ?stop"
    using c l unfolding w by (simp add: min64_def min_def covers_def is_int64_def maxInt64_def)
  have len: "len (cl_data lease) = cr_Size c" using lease(1) by (simp add: chunk_object_def)
  have "0 \<le> ?start" "?start \<le> ?stop" "?stop \<le> len (cl_data lease)" using c l len by (auto simp: covers_def)
  then have cond: "(0 \<le> ?start \<and> ?start \<le> ?stop \<and> ?stop \<le> len (cl_data lease)) = True" "(len (cl_data lease) \<noteq> cr_Size c) = False"
    using len by blast+
  have "nat (min limit (chunk_end c) - offset) \<le> room" using l(3) by (simp add: nat_le_iff min_def)
  then have "take room (take (nat (?stop - ?start)) (drop (nat ?start) (cl_data lease)))
      = take (nat (min limit (chunk_end c) - offset)) (drop (nat ?start) (cl_data lease))"
    by (simp add: min_absorb2)
  then have copy: "quiet q (if len (cl_data lease) \<noteq> cr_Size c then throw [ErrCorruptObject]
       else do { e \<leftarrow> lift (ev_ctx env); check e (if 0 \<le> ?start \<and> ?start \<le> ?stop \<and> ?stop \<le> len (cl_data lease)
              then return (Inr (take room (take (nat (?stop - ?start)) (drop (nat ?start) (cl_data lease)))))
              else do { cs_panic; throw plain_error }) })
    (\<lambda>r. \<forall>x. r = Inr x \<longrightarrow> x = take (nat (min limit (chunk_end c) - offset)) (drop (nat ?start) (cl_data lease)))" for q
    unfolding cond if_True if_False
    by (intro spec_bind [OF spec_lift_any [OF env_steps(1)]] spec_check spec_return) simp_all
  have rel: "spec (fst p + 1, snd p + cr_Size c) (do { releaseLease consumer lease; return r }) (\<lambda>_. p) Q" if "Q r" for r :: "err + bytes" and Q
    using lease p that by (auto intro!: spec_bind [OF releaseLease_spec] spec_return)
  show ?thesis
    unfolding copyChunkLease_def Let_def start stop by (rule spec_bind [OF copy], rule rel, assumption)
qed

text \<open>The loop: the bytes it adds are authentic, within the limit, and complete when it reports no error.\<close>

definition read_ok :: "chunkRef list \<Rightarrow> nat \<Rightarrow> int \<Rightarrow> int \<Rightarrow> bytes \<Rightarrow> bytes \<times> err option \<Rightarrow> bool" where
  "read_ok cs room limit offset written r \<longleftrightarrow> (\<exists>x. fst r = written @ x \<and> (x \<noteq> [] \<longrightarrow> offset + len x \<le> limit)
     \<and> (\<forall>k < length x. authentic cs (offset + int k) (x ! k)) \<and> (snd r = None \<longrightarrow> room \<le> length (fst r)))"

lemma read_ok_step:
  assumes "read_ok cs room limit (offset + len x) (written @ x) r" "offset + len x \<le> limit"
    "\<And>k. k < length x \<Longrightarrow> authentic [c] (offset + int k) (x ! k)"
  shows "read_ok (c # cs) room limit offset written r"
proof -
  obtain y where y: "fst r = (written @ x) @ y" "y \<noteq> [] \<longrightarrow> offset + len x + len y \<le> limit"
    "\<forall>k < length y. authentic cs (offset + len x + int k) (y ! k)" "snd r = None \<longrightarrow> room \<le> length (fst r)"
    using assms(1) unfolding read_ok_def by (elim exE conjE) (rule that)
  have "authentic (c # cs) (offset + int k) ((x @ y) ! k)" if "k < length (x @ y)" for k
  proof (cases "k < length x")
    case True
    then show ?thesis using authentic_mono [OF assms(3) [OF True], of "c # cs"] by (simp add: nth_append)
  next
    case False
    then obtain j where j: "k = length x + j" by (metis le_add_diff_inverse linorder_not_less)
    then have "authentic cs (offset + len x + int j) (y ! j)" using y(3) that by simp
    from authentic_mono [OF this set_subset_Cons] show ?thesis using j by (simp add: nth_append algebra_simps)
  qed
  then show ?thesis
    unfolding read_ok_def using y(1,2,4) assms(2) by (intro exI [of _ "x @ y"]) (auto simp: algebra_simps)
qed

lemma copied_authentic:
  assumes "chunk_object (cr_Digest c) (cr_Size c) data" "covers c offset" "offset < limit"
    and x: "x = take (nat (min limit (chunk_end c) - offset)) (drop (nat (offset - cr_Offset c)) data)"
  shows "offset + len x = min limit (chunk_end c)" "k < length x \<Longrightarrow> authentic [c] (offset + int k) (x ! k)"
proof -
  have len: "int (length data) = cr_Size c" using assms(1) by (simp add: chunk_object_def)
  have "nat (min limit (chunk_end c) - offset) \<le> length data - nat (offset - cr_Offset c)"
    using assms(2) len by (simp add: covers_def min_def nat_le_iff of_nat_diff)
  then show l: "offset + len x = min limit (chunk_end c)" using assms(2,3) by (simp add: x covers_def min_absorb2)
  assume k: "k < length x"
  have "nat (offset - cr_Offset c) \<le> length data" using k by (simp add: x) linarith
  then have "x ! k = data ! (nat (offset - cr_Offset c) + k)" using k by (simp add: x)
  also have "nat (offset - cr_Offset c) + k = nat (offset + int k - cr_Offset c)" using assms(2) unfolding covers_def by linarith
  finally show "authentic [c] (offset + int k) (x ! k)"
    using assms(1,2) k l by (auto simp: authentic_def covers_def)
qed

lemma read_chunks_spec:
  assumes "tiles off cs sz" "0 \<le> off" "sz \<le> maxInt64" "limit \<le> sz" "limit - offset \<le> int room - len written" "length written \<le> room"
    "offset < limit \<longrightarrow> off \<le> offset \<and> (\<forall>c cs'. cs = c # cs' \<longrightarrow> offset < chunk_end c)" "0 \<le> snd p"
  shows "quiet p (read_chunks env consumer room limit cs offset written) (read_ok cs room limit offset written)"
  using assms
proof (induction cs arbitrary: off offset written)
  case Nil
  then show ?case by (auto simp: read_ok_def intro!: spec_return)
next
  case (Cons c cs)
  let ?Q = "read_ok (c # cs) room limit offset written"
  have stop: "?Q (written, Some e)" "room \<le> length written \<longrightarrow> ?Q (written, None)" for e by (auto simp: read_ok_def)
  show ?case
  proof (cases "offset < limit")
    case False
    then show ?thesis using stop by (auto intro!: spec_return)
  next
    case True
    have c: "0 \<le> cr_Offset c" "0 < cr_Size c" "chunk_end c \<le> sz" "covers c offset" "tiles (chunk_end c) cs sz"
      using Cons.prems(1,2,7) True tiles_le [of "off + cr_Size c" cs sz] by (auto simp: covers_def)
    have room: "limit - offset \<le> int (room - length written)" using Cons.prems(5,6) by simp
    have loop: "quiet p (read_chunks env consumer room limit cs (wrap64 (offset + len x)) (written @ x)) ?Q"
      if d: "chunk_object (cr_Digest c) (cr_Size c) data"
        and x: "x = take (nat (min limit (chunk_end c) - offset)) (drop (nat (offset - cr_Offset c)) data)" for x data
    proof -
      note a = copied_authentic [OF d c(4) True x]
      have w: "wrap64 (offset + len x) = offset + len x"
        using a(1) c True Cons.prems(2,3,4) by (intro wrap64_id) (auto simp: is_int64_def maxInt64_def covers_def)
      have "quiet p (read_chunks env consumer room limit cs (offset + len x) (written @ x)) (read_ok cs room limit (offset + len x) (written @ x))"
        using c a(1) Cons.prems(3-6,8) True room by (intro Cons.IH [OF c(5)]) (auto split: if_splits simp: min_def)
      then show ?thesis
        unfolding w by (rule spec_conseq) (rule read_ok_step, assumption, use a in auto)
    qed
    have copy: "spec (fst p + 1, snd p + cr_Size c) (do { r \<leftarrow> copyChunkLease env consumer lease (room - length written) c offset limit;
        case r of Inl e \<Rightarrow> return (written, Some e)
        | Inr copied \<Rightarrow> read_chunks env consumer room limit cs (wrap64 (offset + len copied)) (written @ copied) }) (\<lambda>_. p) ?Q"
      if l: "chunk_read (cr_Digest c) (cr_Size c) (cl_data lease)" "cl_charge lease = cr_Size c" for lease
    proof (rule spec_bind [OF copyChunkLease_spec])
      show "chunk_object (cr_Digest c) (cr_Size c) (cl_data lease)" using l by (simp add: chunk_read_def)
      fix r :: "err + bytes"
      assume "\<forall>x. r = Inr x \<longrightarrow> x = take (nat (min limit (chunk_end c) - offset)) (drop (nat (offset - cr_Offset c)) (cl_data lease))"
      then show "quiet p (case r of Inl e \<Rightarrow> return (written, Some e)
          | Inr copied \<Rightarrow> read_chunks env consumer room limit cs (wrap64 (offset + len copied)) (written @ copied)) ?Q"
        using loop stop l by (cases r) (auto simp: chunk_read_def intro!: spec_return)
    qed (use l c True room Cons.prems(3,4,8) in \<open>auto simp: chunk_read_def\<close>)
    have get: "quiet p (do { g \<leftarrow> getChunk env consumer (cr_Digest c) (cr_Size c);
        case g of Inl e \<Rightarrow> return (written, Some e) | Inr lease \<Rightarrow> do {
          r \<leftarrow> copyChunkLease env consumer lease (room - length written) c offset limit;
          case r of Inl e \<Rightarrow> return (written, Some e)
          | Inr copied \<Rightarrow> read_chunks env consumer room limit cs (wrap64 (offset + len copied)) (written @ copied) } }) ?Q"
      by (rule spec_bind [OF getChunk_spec]) (use stop copy in \<open>auto intro!: spec_return split: sum.split\<close>)
    show ?thesis
      unfolding read_chunks.simps if_P [OF True]
      by (rule spec_bind [OF spec_lift_any [OF env_steps(1)]]) (use get stop in \<open>auto intro!: spec_return split: option.split\<close>)
  qed
qed

lemma read_limit:
  assumes "0 \<le> offset" "offset < sz" "is_int64 sz" "int room \<le> maxInt64"
  shows "(if wrap64 (offset + int room) < offset \<or> wrap64 (offset + int room) > sz then sz else wrap64 (offset + int room))
    = min sz (offset + int room)"
proof (cases "offset + int room \<le> maxInt64")
  case True
  then have "wrap64 (offset + int room) = offset + int room" using assms by (intro wrap64_id) (auto simp: is_int64_def)
  then show ?thesis by auto
next
  case False
  then have "wrap64 (offset + int room) < 0" using assms by (intro wrap64_overflow) (auto simp: is_int64_def)
  then show ?thesis using assms False by (auto simp: is_int64_def)
qed

lemma ReadAtContext_spec:
  assumes f: "file_object env d (fl_manifest f)" and room: "int room \<le> maxInt64"
  shows "quiet p (ReadAtContext env consumer f room offset) (\<lambda>r. length (fst r) \<le> room
     \<and> (fst r \<noteq> [] \<longrightarrow> 0 \<le> offset \<and> offset + len (fst r) \<le> fm_Size (fl_manifest f))
     \<and> (\<forall>k < length (fst r). authentic (elems (fm_Chunks (fl_manifest f))) (offset + int k) (fst r ! k))
     \<and> (snd r = None \<longrightarrow> length (fst r) = room))" (is "quiet p _ ?Q")
proof (rule spec_nonneg)
  assume nn: "0 \<le> snd p"
  let ?m = "fl_manifest f" and ?cs = "elems (fm_Chunks (fl_manifest f))"
  have i: "is_int64 (fm_Size ?m)" using f by (simp add: file_object_def wf_fileManifest_def)
  have v: "validateFileManifest (ev_deg env) (ev_irreducible env) ?m = None" using f by (simp add: file_object_def)
  note V = validateFileManifest_None [OF v i]
  have w: "wrap64 (chunk_end (?cs ! k)) = chunk_end (?cs ! k)" if "k < length ?cs" for k
    using tiles_range [OF V(1) nth_mem [OF that]] V(2) [OF nth_mem [OF that]] i by (intro wrap64_id) (auto simp: is_int64_def)
  note search = search_chunks [OF V(1), of "\<lambda>i. offset < wrap64 (chunk_end (?cs ! i))" offset]
  have loop: "quiet p (read_chunks env consumer room limit (drop (sort_Search (length ?cs) (\<lambda>i. wrap64 (chunk_end (?cs ! i)) > offset)) ?cs) offset []) ?Q"
    if o: "0 \<le> offset" "offset < fm_Size ?m" and "limit = min (fm_Size ?m) (offset + int room)" for limit
  proof -
    let ?ds = "dropWhile (\<lambda>c. chunk_end c \<le> offset) ?cs"
    have l: "limit \<le> fm_Size ?m" "limit \<le> offset + int room" using that(3) by simp_all
    from tiles_dropWhile [OF V(1) o(1)] obtain off where t: "tiles off ?ds (fm_Size ?m)" "0 \<le> off" "off \<le> offset" by blast
    have hd: "offset < chunk_end c" if "?ds = c # cs'" for c cs' using that by (metis hd_dropWhile linorder_not_le list.distinct(1) list.sel(1))
    have "quiet p (read_chunks env consumer room limit ?ds offset []) (read_ok ?ds room limit offset [])"
      by (rule read_chunks_spec [OF t(1,2)]) (use i l t hd nn in \<open>auto simp: is_int64_def\<close>)
    moreover have "?Q r" if "read_ok ?ds room limit offset [] r" for r
      using that l o unfolding read_ok_def
      by (auto intro: authentic_mono set_dropWhileD)
    ultimately show ?thesis using w search by (auto intro: spec_conseq)
  qed
  show ?thesis
    unfolding ReadAtContext_def Let_def
    using loop read_limit [OF _ _ i room, of offset]
    by (cases "offset < 0 \<or> room = 0 \<or> fm_Size ?m \<le> offset") (auto intro!: spec_return)
qed

end

end
