(* ===== verification/Consumer_Live.thy ===== *)
theory Consumer_Live
  imports Consumer_Read
begin

section \<open>The consumer makes progress\<close>

text \<open>
  The other direction of the safety lemmas: in a world where the context is open and the store serves what
  was published, and with a free slot and free bytes, the operations succeed.
\<close>

text \<open>Nothing is promised by the environment: the lemmas for every store, cache, verifier and context.\<close>

interpretation any: consumer_env env consumer "\<lambda>_. None" "\<lambda>_. False" for env :: "'w Env" and consumer :: "'w Consumer"
  by unfold_locales (auto simp: steps_def advances_def)

lemma any_others: "others \<le> advances (\<lambda>_. None) (\<lambda>_. False)"
  by (auto simp: advances_def)

subsection \<open>Calm worlds\<close>

definition calm :: "'w Env \<Rightarrow> 'w \<Rightarrow> bool" where
  "calm env w \<longleftrightarrow> run_state (ev_ctx env) w = (None, w) \<and> run_state (ev_select env) w = (None, w)"

text \<open>The reader answers a read of the key with these bytes, unless the caller says it has this version.\<close>

definition serves :: "'w Repository \<Rightarrow> 'w \<Rightarrow> bytes \<Rightarrow> bytes \<Rightarrow> Version \<Rightarrow> bool" where
  "serves r w key data version \<longleftrightarrow> validateStoreVersion version = None \<and>
     (\<forall>etag n. etag \<noteq> v_ETag version \<longrightarrow>
        run_state (Get (rp_reader r) key \<lparr>go_IfNoneMatch = etag, go_MaxBytes = n\<rparr>) w
          = (Inr \<lparr>ob_Data = data, ob_Version = version\<rparr>, w))"

text \<open>A reservation of \<open>n\<close> bytes does not have to wait.\<close>

definition roomy :: "'w Consumer \<Rightarrow> int \<Rightarrow> 'w cstate \<Rightarrow> bool" where
  "roomy consumer n s \<longleftrightarrow> idle (cs_bytes s) \<and> cs_slots s < cn_downloadSlots consumer \<and> ws_used (cs_bytes s) + n \<le> ws_capacity (cs_bytes s)"

lemma run_lift: "run_state m (cs_world s) = (a, cs_world s) \<Longrightarrow> run_state (lift m) s = (a, s)"
  by (simp add: lift_def)

lemma run_update [simp]: "run_state (update f) s = ((), f s)"
  by (simp add: update_def)

lemma run_get [simp]: "run_state State_Monad.get s = (s, s)"
  by (simp add: State_Monad.get_def)

lemma calm_lift:
  assumes "calm env (cs_world s)"
  shows "run_state (lift (ev_ctx env)) s = (None, s)" "run_state (lift (ev_select env)) s = (None, s)"
  using assms by (auto simp: calm_def intro!: run_lift)

lemma acquire_calm:
  assumes "calm env (cs_world s)" "roomy consumer n s" "0 < n"
  shows "run_state (acquireDownload env consumer n) s
    = (None, s\<lparr>cs_slots := cs_slots s + 1, cs_bytes := (cs_bytes s)\<lparr>ws_used := ws_used (cs_bytes s) + n\<rparr>\<rparr>)"
proof -
  have c: "calm env (cs_world (s\<lparr>cs_slots := cs_slots s + 1\<rparr>))" using assms(1) by simp
  show ?thesis
    using assms(2,3)
    by (simp add: acquireDownload_def semaphore_Acquire_def calm_lift [OF assms(1)] calm_lift [OF c] roomy_def idle_def Acquire_enter_def)
qed

lemma release_calm:
  assumes "idle (cs_bytes s)" "0 < n"
  shows "run_state (releaseDownload n) (s\<lparr>cs_slots := cs_slots s + 1, cs_bytes := (cs_bytes s)\<lparr>ws_used := ws_used (cs_bytes s) + n\<rparr>\<rparr>) = ((), s)"
  using assms by (simp add: releaseDownload_def Release_def idle_def grantLocked_def)

lemma reserved_calm:
  assumes "calm env (cs_world s)" "roomy consumer n s" "0 < n" and m: "run_state m (cs_world s) = (r, cs_world s)"
  shows "run_state (do { a \<leftarrow> acquireDownload env consumer n; check a (do { r \<leftarrow> lift m; releaseDownload n; return (f r) }) }) s = (f r, s)"
  using release_calm [of s n] assms by (simp add: acquire_calm [OF assms(1-3)] run_lift m roomy_def)

lemma flight_calm:
  assumes "calm env (cs_world s)" "run_state load s = (r, s')" "cs_world s' = cs_world s"
  shows "run_state (flight_Do env load) s = (r, s')"
proof -
  have "calm env (cs_world s')" using assms by simp
  then show ?thesis using assms(2) by (simp add: flight_Do_def calm_lift [OF assms(1)] calm_lift)
qed

subsection \<open>Manifests\<close>

definition serves_manifest :: "'w Repository \<Rightarrow> 'w \<Rightarrow> ('m \<Rightarrow> json) \<Rightarrow> bytes \<Rightarrow> digest \<Rightarrow> 'm \<Rightarrow> bool" where
  "serves_manifest r w to_json kind d m \<longleftrightarrow> (\<exists>version. serves r w (objectKey r kind d) (canonicalJSON to_json m) version)
     \<and> digestObject kind (canonicalJSON to_json m) = d \<and> len (canonicalJSON to_json m) \<le> maxMetadataObjectBytes"

lemma serves_version: "serves r w key data version \<Longrightarrow> check (validateStoreVersion version) m = m"
  unfolding serves_def by (simp only: check_simps)

lemma serves_etag: "serves r w key data version \<Longrightarrow> [] \<noteq> v_ETag version"
  by (auto simp: serves_def)

lemma serves_Get:
  "\<lbrakk>serves r w key data version; etag \<noteq> v_ETag version\<rbrakk>
   \<Longrightarrow> run_state (Get (rp_reader r) key \<lparr>go_IfNoneMatch = etag, go_MaxBytes = n\<rparr>) w = (Inr \<lparr>ob_Data = data, ob_Version = version\<rparr>, w)"
  by (simp add: serves_def)

lemma getManifest_served:
  assumes "serves_manifest r w to_json kind d m" "kind \<noteq> ''chunk''" "decodeJSON to_json of_json (canonicalJSON to_json m) = Inr m"
  shows "run_state (getManifest r to_json of_json kind d) w = (Inr m, w)"
proof -
  obtain v where v: "serves r w (objectKey r kind d) (canonicalJSON to_json m) v"
    and "digestObject kind (canonicalJSON to_json m) = d" "len (canonicalJSON to_json m) \<le> maxMetadataObjectBytes"
    using assms(1) by (auto simp: serves_manifest_def)
  then show ?thesis
    using assms(2,3)
    by (simp add: getManifest_def getImmutable_def getImmutableLimited_def object_limit_def serves_Get [OF v serves_etag [OF v]] serves_version [OF v])
qed

lemma downloadManifest_served:
  assumes "calm env (cs_world s)" "roomy consumer maxMetadataObjectBytes s"
    and "serves_manifest (cn_repository consumer) (cs_world s) to_json kind d m" "kind \<noteq> ''chunk''"
    and "decodeJSON to_json of_json (canonicalJSON to_json m) = Inr m"
  shows "run_state (downloadManifest env consumer to_json of_json kind d) s = (Inr m, s)"
  unfolding downloadManifest_def
  by (rule reserved_calm [OF assms(1,2) _ getManifest_served [OF assms(3-5)], where f = "\<lambda>r. r"]) (simp add: maxMetadataObjectBytes_def)


lemma roomy_metadata [simp]: "roomy consumer n (s\<lparr>cs_metadata := c\<rparr>) = roomy consumer n s"
  by (simp add: roomy_def)

lemma getTypedMetadata_run:
  "run_state (getTypedMetadata sel key) s
   = (Option.bind (fst (cache_Get key (cs_metadata s))) sel, s\<lparr>cs_metadata := snd (cache_Get key (cs_metadata s))\<rparr>)"
  by (simp add: getTypedMetadata_def split_beta)

text \<open>
  The metadata cache holds valid manifests, and for the keys of \<open>known\<close> the manifest it names. (Without
  the second part a different manifest with the same digest could be in the cache: a collision of SHA-256.)
\<close>

definition cached :: "'w Env \<Rightarrow> (metadataCacheKey \<rightharpoonup> metadata) \<Rightarrow> metadataCacheKey \<Rightarrow> metadata \<Rightarrow> bool" where
  "cached env known k v \<longleftrightarrow> meta_ok env k v \<and> (\<forall>u. known k = Some u \<longrightarrow> v = u)"

definition agrees :: "'w Env \<Rightarrow> (metadataCacheKey \<rightharpoonup> metadata) \<Rightarrow> 'w cstate \<Rightarrow> bool" where
  "agrees env known s \<longleftrightarrow> cache_inv (cs_metadata s) \<and> cache_all (cached env known) (cs_metadata s)"

lemma agrees_update [simp]:
  "agrees env known (s\<lparr>cs_watermark := x\<rparr>) = agrees env known s" "agrees env known (s\<lparr>cs_watermarkLoaded := y\<rparr>) = agrees env known s"
  "agrees env known (s\<lparr>cs_state := z\<rparr>) = agrees env known s" "agrees env known (s\<lparr>cs_world := w\<rparr>) = agrees env known s"
  by (simp_all add: agrees_def)

lemma cinv_agrees: "cinv env p s \<Longrightarrow> agrees env Map.empty s"
proof -
  have "cached env Map.empty = meta_ok env" by (intro ext) (simp add: cached_def)
  then show "cinv env p s \<Longrightarrow> agrees env Map.empty s" by (simp add: agrees_def cinv_def)
qed

lemma getTypedMetadata_agrees:
  assumes "agrees env known s"
  shows "agrees env known (s\<lparr>cs_metadata := snd (cache_Get key (cs_metadata s))\<rparr>)"
    "Option.bind (fst (cache_Get key (cs_metadata s))) sel = Some m \<Longrightarrow> \<exists>v. cached env known key v \<and> sel v = Some m"
proof -
  obtain r c where g: "cache_Get key (cs_metadata s) = (r, c)" by fastforce
  note G = cache_all_Get [OF _ _ g, of "cached env known"]
  show "agrees env known (s\<lparr>cs_metadata := snd (cache_Get key (cs_metadata s))\<rparr>)" using assms g G(1,2) by (simp add: agrees_def)
  show "\<exists>v. cached env known key v \<and> sel v = Some m" if "Option.bind (fst (cache_Get key (cs_metadata s))) sel = Some m"
    using that assms g G(3) by (auto simp: agrees_def bind_eq_Some_conv)
qed

lemma putTypedMetadata_run:
  assumes "agrees env known s" "cached env known key v" "\<And>v'. cached env known key v' \<Longrightarrow> \<exists>m. sel v' = Some m \<and> Q m"
  shows "\<exists>m c. run_state (putTypedMetadata sel key v n) s = (Inr m, s\<lparr>cs_metadata := c\<rparr>) \<and> Q m \<and> agrees env known (s\<lparr>cs_metadata := c\<rparr>)"
proof -
  obtain v' c where "cache_Put key v n (cs_metadata s) = Some (v', c)" "cached env known key v'" "cache_inv c" "cache_all (cached env known) c"
    using cache_all_Put [of "cs_metadata s" "cached env known" key v] assms(1,2) unfolding agrees_def by blast
  then show ?thesis using assms(3) [of v'] by (auto simp: putTypedMetadata_def agrees_def)
qed

lemma load_metadata_served:
  assumes calm: "calm env (cs_world s)" and room: "roomy consumer maxMetadataObjectBytes s" and c: "agrees env known s"
    and served: "serves_manifest (cn_repository consumer) (cs_world s) to_json kind d m" "kind \<noteq> ''chunk''"
      "decodeJSON to_json of_json (canonicalJSON to_json m) = Inr m" "validate m = None"
    and put: "cached env known \<lparr>mk_kind = kind, mk_digest = d\<rparr> (wrap m)"
    and sel: "\<And>v. cached env known \<lparr>mk_kind = kind, mk_digest = d\<rparr> v \<Longrightarrow> \<exists>m. sel v = Some m \<and> Q m"
  shows "\<exists>m' c. run_state (load_metadata env consumer to_json of_json sel wrap validate estimate kind d) s = (Inr m', s\<lparr>cs_metadata := c\<rparr>)
    \<and> Q m' \<and> agrees env known (s\<lparr>cs_metadata := c\<rparr>)"
proof -
  let ?key = "\<lparr>mk_kind = kind, mk_digest = d\<rparr>"
  define load where "load = (do {
       again \<leftarrow> getTypedMetadata sel ?key;
       case again of Some m \<Rightarrow> return (Inr m)
       | None \<Rightarrow> do {
           d \<leftarrow> downloadManifest env consumer to_json of_json kind d;
           ok d (\<lambda>manifest. check (validate manifest) (putTypedMetadata sel ?key (wrap manifest) (estimate manifest))) } })"
  have hit: "Q m'" if "agrees env known t" "Option.bind (fst (cache_Get ?key (cs_metadata t))) sel = Some m'" for t m'
    using getTypedMetadata_agrees(2) [OF that] sel by fastforce
  have load: "\<exists>m' c. run_state load t = (Inr m', t\<lparr>cs_metadata := c\<rparr>) \<and> Q m' \<and> agrees env known (t\<lparr>cs_metadata := c\<rparr>)"
    if t: "t = s\<lparr>cs_metadata := b\<rparr>" "agrees env known t" for t b
  proof -
    let ?u = "t\<lparr>cs_metadata := snd (cache_Get ?key (cs_metadata t))\<rparr>"
    from putTypedMetadata_run [where sel = sel and n = "estimate m" and Q = Q, OF getTypedMetadata_agrees(1) [OF t(2), of ?key] put sel] obtain m' c'
      where "run_state (putTypedMetadata sel ?key (wrap m) (estimate m)) ?u = (Inr m', t\<lparr>cs_metadata := c'\<rparr>)" "Q m'"
        "agrees env known (t\<lparr>cs_metadata := c'\<rparr>)" by auto
    moreover have "run_state (downloadManifest env consumer to_json of_json kind d) ?u = (Inr m, ?u)"
      using calm room served t by (intro downloadManifest_served) simp_all
    ultimately show ?thesis
      using hit [OF t(2)] getTypedMetadata_agrees(1) [OF t(2), of ?key]
      by (cases "Option.bind (fst (cache_Get ?key (cs_metadata t))) sel") (auto simp: load_def getTypedMetadata_run served(4))
  qed
  note first = getTypedMetadata_agrees(1) [OF c, of ?key]
  show ?thesis
  proof (cases "Option.bind (fst (cache_Get ?key (cs_metadata s))) sel")
    case None
    obtain t where t: "t = s\<lparr>cs_metadata := snd (cache_Get ?key (cs_metadata s))\<rparr>" by simp
    from load [OF t] first t obtain m' c' where m': "run_state load t = (Inr m', t\<lparr>cs_metadata := c'\<rparr>)" "Q m'" "agrees env known (t\<lparr>cs_metadata := c'\<rparr>)" by blast
    then have "run_state (flight_Do env load) t = (Inr m', t\<lparr>cs_metadata := c'\<rparr>)"
      using calm t by (intro flight_calm) simp_all
    then show ?thesis using None t m'(2,3) by (auto simp: load_metadata_def load_def getTypedMetadata_run Let_def)
  next
    case (Some m')
    then show ?thesis using first hit [OF c] by (auto simp: load_metadata_def getTypedMetadata_run Let_def)
  qed
qed

lemma loadDirectory_served:
  assumes "calm env (cs_world s)" "roomy consumer maxMetadataObjectBytes s" "agrees env known s"
    and "serves_manifest (cn_repository consumer) (cs_world s) dirManifest_to_json ''dir'' d m" "dir_object d m"
    and "\<And>u. known \<lparr>mk_kind = ''dir'', mk_digest = d\<rparr> = Some u \<Longrightarrow> u = MDir m"
  shows "\<exists>m' c. run_state (loadDirectory env consumer d) s = (Inr m', s\<lparr>cs_metadata := c\<rparr>)
    \<and> (known \<lparr>mk_kind = ''dir'', mk_digest = d\<rparr> \<noteq> None \<longrightarrow> m' = m) \<and> agrees env known (s\<lparr>cs_metadata := c\<rparr>)"
proof -
  let ?key = "\<lparr>mk_kind = ''dir'', mk_digest = d\<rparr>"
  have dec: "decodeJSON dirManifest_to_json dirManifest_of_json (canonicalJSON dirManifest_to_json m) = Inr m"
    using assms(4,5) by (simp add: dm.decode_iff serves_manifest_def dir_object_def)
  have ok: "validateDirectoryManifest m = None" "cached env known ?key (MDir m)"
    using assms(5,6) by (auto simp: dir_object_def cached_def)
  have sel: "\<exists>m'. as_dir v = Some m' \<and> (known ?key \<noteq> None \<longrightarrow> m' = m)" if "cached env known ?key v" for v
    using that assms(6) by (cases v) (auto simp: cached_def)
  show ?thesis
    unfolding loadDirectory_def
    by (rule load_metadata_served [where wrap = MDir and sel = as_dir and validate = validateDirectoryManifest, OF assms(1-4) _ dec ok sel]) simp
qed

lemma loadFile_served:
  assumes "calm env (cs_world s)" "roomy consumer maxMetadataObjectBytes s" "agrees env known s"
    and "serves_manifest (cn_repository consumer) (cs_world s) fileManifest_to_json ''file'' d m" "file_object env d m"
    and "\<And>u. known \<lparr>mk_kind = ''file'', mk_digest = d\<rparr> = Some u \<Longrightarrow> u = MFile m"
  shows "\<exists>m' c. run_state (loadFile env consumer d) s = (Inr m', s\<lparr>cs_metadata := c\<rparr>)
    \<and> (known \<lparr>mk_kind = ''file'', mk_digest = d\<rparr> \<noteq> None \<longrightarrow> m' = m) \<and> agrees env known (s\<lparr>cs_metadata := c\<rparr>)"
proof -
  let ?key = "\<lparr>mk_kind = ''file'', mk_digest = d\<rparr>"
  have dec: "decodeJSON fileManifest_to_json fileManifest_of_json (canonicalJSON fileManifest_to_json m) = Inr m"
    using assms(4,5) by (simp add: fm.decode_iff serves_manifest_def file_object_def)
  have ok: "validateFileManifest (ev_deg env) (ev_irreducible env) m = None" "cached env known ?key (MFile m)"
    using assms(5,6) by (auto simp: file_object_def cached_def)
  have sel: "\<exists>m'. as_file v = Some m' \<and> (known ?key \<noteq> None \<longrightarrow> m' = m)" if "cached env known ?key v" for v
    using that assms(6) by (cases v) (auto simp: cached_def)
  show ?thesis
    unfolding loadFile_def
    by (rule load_metadata_served [where wrap = MFile and sel = as_file and validate = "validateFileManifest (ev_deg env) (ev_irreducible env)",
          OF assms(1-4) _ dec ok sel]) simp
qed

subsection \<open>Commits and their ancestry\<close>

definition serves_commit :: "'w Repository \<Rightarrow> 'w \<Rightarrow> digest \<Rightarrow> commitManifest \<Rightarrow> bool" where
  "serves_commit r w d m \<longleftrightarrow> wf_commitManifest m \<and> serves_manifest r w commitManifest_to_json ''commit'' d m"

lemma consumer_getManifest_served:
  assumes "calm env (cs_world s)" "roomy consumer maxMetadataObjectBytes s" "serves_commit (cn_repository consumer) (cs_world s) d m"
  shows "run_state (consumer_getManifest env consumer d) s = (Inr m, s)"
proof -
  have dec: "decodeJSON commitManifest_to_json commitManifest_of_json (canonicalJSON commitManifest_to_json m) = Inr m"
    using assms(3) by (simp add: cm.decode_iff serves_commit_def serves_manifest_def)
  have "run_state (downloadManifest env consumer commitManifest_to_json commitManifest_of_json ''commit'' d) s = (Inr m, s)"
    using assms by (intro downloadManifest_served [OF assms(1,2) _ _ dec]) (simp_all add: serves_commit_def)
  then show ?thesis unfolding consumer_getManifest_def using assms(1) by (intro flight_calm) simp_all
qed

text \<open>From a parent pointer at a generation the served commits lead to the anchor.\<close>

inductive lineage :: "'w Repository \<Rightarrow> 'w \<Rightarrow> Watermark \<Rightarrow> u64 \<Rightarrow> digest option \<Rightarrow> bool" for r w anchor where
  anchor: "lineage r w anchor (wm_Generation anchor) (Some (wm_Commit anchor))"
| ancestor: "\<lbrakk>wm_Generation anchor < g; p \<noteq> 0; serves_commit r w p m; validateCommitManifest m g = None; lineage r w anchor (g - 1) (cm_Parent m)\<rbrakk>
    \<Longrightarrow> lineage r w anchor g (Some p)"

lemma ancestry_served:
  assumes "lineage (cn_repository consumer) (cs_world s) anchor g parent" "calm env (cs_world s)" "roomy consumer maxMetadataObjectBytes s"
  shows "run_state (ancestry env consumer anchor g parent) s = (Inr (Some (wm_Commit anchor)), s)"
  using assms(1)
proof induction
  case anchor
  then show ?case by (simp add: ancestry.simps)
next
  case (ancestor g p m)
  then show ?case
    using consumer_getManifest_served [OF assms(2,3)] by (simp add: ancestry.simps [of env consumer anchor g] calm_lift [OF assms(2)])
qed

lemma validateDescendant_served:
  assumes "lineage (cn_repository consumer) (cs_world s) anchor (sr_Generation reference - 1) (cm_Parent commit)"
    and "calm env (cs_world s)" "roomy consumer maxMetadataObjectBytes s" "unat (sr_Generation reference - wm_Generation anchor) \<le> maxCommitWalk"
  shows "run_state (validateDescendant env consumer reference commit anchor) s = (None, s)"
  using assms(4) by (simp add: validateDescendant_def ancestry_served [OF assms(1-3)])


subsection \<open>Refresh adopts what is published\<close>

definition serves_reference :: "'w Env \<Rightarrow> 'w Consumer \<Rightarrow> 'w \<Rightarrow> snapshotReference \<Rightarrow> Version \<Rightarrow> bool" where
  "serves_reference env consumer w reference version \<longleftrightarrow> sr_Format reference = objectFormatVersion \<and>
     (\<exists>data identity. serves (cn_repository consumer) w ((if cn_referenceVerifier consumer = None then ReferenceKey else SignedReferenceKey)
          (cn_repository consumer) (cn_channel consumer)) data version
        \<and> run_state (VerifySnapshotReference (ev_ctx env) data (cn_channel consumer) (cn_referenceVerifier consumer)) w = (Inr identity, w)
        \<and> si_Generation identity = sr_Generation reference \<and> si_Commit identity = sr_Commit reference)"

definition publishes :: "'w Env \<Rightarrow> 'w Consumer \<Rightarrow> (metadataCacheKey \<rightharpoonup> metadata) \<Rightarrow> 'w \<Rightarrow> adoptedSnapshot \<Rightarrow> bool" where
  "publishes env consumer known w a \<longleftrightarrow> serves_reference env consumer w (as_reference a) (as_version a)
     \<and> serves_commit (cn_repository consumer) w (sr_Commit (as_reference a)) (as_commit a)
     \<and> validateCommitManifest (as_commit a) (sr_Generation (as_reference a)) = None
     \<and> (\<exists>root. dir_object (cm_Root (as_commit a)) root
          \<and> serves_manifest (cn_repository consumer) w dirManifest_to_json ''dir'' (cm_Root (as_commit a)) root
          \<and> (\<forall>u. known \<lparr>mk_kind = ''dir'', mk_digest = cm_Root (as_commit a)\<rparr> = Some u \<longrightarrow> u = MDir root))"

text \<open>
  What the consumer knows of the past before the refresh: its own watermark or, with a watermark store, the
  one that is stored. It must not contradict the snapshot already exposed.
\<close>

definition remembers :: "'w Consumer \<Rightarrow> 'w cstate \<Rightarrow> Watermark \<Rightarrow> bool" where
  "remembers consumer s known \<longleftrightarrow> (case cn_watermarks consumer of
       None \<Rightarrow> known = cs_watermark s
     | Some store \<Rightarrow> cn_trustedCheckpoint consumer = None \<and>
         (if wm_Generation known = 0
          then known = zero_watermark \<and> run_state (ws_Load store (cn_channel consumer)) (cs_world s) = (Inr None, cs_world s)
            \<and> (cn_referenceVerifier consumer = None \<or> cn_allowTrustOnFirstUse consumer)
          else wm_Commit known \<noteq> 0 \<and> wm_RepositoryID known = repository_of consumer
            \<and> run_state (ws_Load store (cn_channel consumer)) (cs_world s) = (Inr (Some known), cs_world s)))
   \<and> (\<forall>a. cs_state s = Some a \<longrightarrow> sr_Generation (as_reference a) \<noteq> 0 \<and> (sr_Generation (as_reference a) < wm_Generation known
        \<or> sr_Generation (as_reference a) = wm_Generation known \<and> sr_Commit (as_reference a) = wm_Commit known))"

text \<open>The watermark store, if there is one, stores the successor.\<close>

definition records :: "'w Consumer \<Rightarrow> 'w \<Rightarrow> Watermark \<Rightarrow> Watermark \<Rightarrow> bool" where
  "records consumer w known new \<longleftrightarrow> (\<forall>store. cn_watermarks consumer = Some store \<longrightarrow>
     fst (run_state (ws_CompareAndSwap store (cn_channel consumer) (if wm_Generation known > 0 then Some known else None) new) w) = None)"

lemma loadWatermark_served:
  assumes "remembers consumer s known" "cn_watermarks consumer \<noteq> None" "\<not> cs_watermarkLoaded s"
  shows "run_state (loadWatermark env consumer) s = (None, s\<lparr>cs_watermark := known, cs_watermarkLoaded := True\<rparr>)"
proof -
  obtain store where st: "cn_watermarks consumer = Some store" using assms(2) by blast
  let ?load = "run_state (ws_Load store (cn_channel consumer)) (cs_world s)"
  have cur: "run_state (check_current found) (s\<lparr>cs_watermark := known\<rparr>) = (None, s\<lparr>cs_watermark := known, cs_watermarkLoaded := True\<rparr>)"
    if "found = (wm_Generation known \<noteq> 0)" for found
    using assms(1) that by (auto simp: check_current_def remembers_def split: option.split)
  show ?thesis
  proof (cases "wm_Generation known = 0")
    case True
    then have "?load = (Inr None, cs_world s)" "known = zero_watermark" "cn_trustedCheckpoint consumer = None"
      "cn_referenceVerifier consumer = None \<or> cn_allowTrustOnFirstUse consumer" using assms(1) st by (auto simp: remembers_def)
    then show ?thesis
      using st assms(3) cur [of False] True
      by (auto simp: loadWatermark_def run_lift set_watermark_def apply_checkpoint_def split: option.split)
  next
    case False
    then have "?load = (Inr (Some known), cs_world s)" "wm_Commit known \<noteq> 0" "cn_trustedCheckpoint consumer = None"
      "wm_RepositoryID known = repository_of consumer" using assms(1) st by (auto simp: remembers_def)
    then show ?thesis
      using st assms(3) cur [of True] False
      by (auto simp: loadWatermark_def run_lift set_watermark_def apply_checkpoint_def accept_found_def repository_of_def split: option.split)
  qed
qed

lemma downloadReference_served:
  assumes "calm env (cs_world s)" "roomy consumer maxReferenceBytes s" "serves_reference env consumer (cs_world s) reference version"
    and "etag \<noteq> v_ETag version"
  shows "run_state (downloadReference env consumer etag) s = (Inr (reference, version), s)"
proof -
  let ?key = "(if cn_referenceVerifier consumer = None then ReferenceKey else SignedReferenceKey) (cn_repository consumer) (cn_channel consumer)"
  obtain data identity where v: "serves (cn_repository consumer) (cs_world s) ?key data version"
    and i: "run_state (VerifySnapshotReference (ev_ctx env) data (cn_channel consumer) (cn_referenceVerifier consumer)) (cs_world s) = (Inr identity, cs_world s)"
      "si_Generation identity = sr_Generation reference" "si_Commit identity = sr_Commit reference" "sr_Format reference = objectFormatVersion"
    using assms(3) by (auto simp: serves_reference_def)
  have key: "(if cn_referenceVerifier consumer = None then ReferenceKey (cn_repository consumer) (cn_channel consumer)
    else SignedReferenceKey (cn_repository consumer) (cn_channel consumer)) = ?key" by simp
  have ref: "\<lparr>sr_Format = objectFormatVersion, sr_Generation = sr_Generation reference, sr_Commit = sr_Commit reference\<rparr> = reference"
    using i(4) by simp
  have "run_state (getReferenceWithVerifier (ev_ctx env) (cn_repository consumer) (cn_channel consumer) etag (cn_referenceVerifier consumer)) (cs_world s)
    = (Inr (reference, \<lparr>ob_Data = data, ob_Version = version\<rparr>), cs_world s)"
    unfolding getReferenceWithVerifier_def key Let_def
    using i ref by (simp add: serves_Get [OF v assms(4)] serves_version [OF v])
  from reserved_calm [OF assms(1,2) _ this, of "\<lambda>r. case r of Inl e \<Rightarrow> Inl e | Inr (reference, object) \<Rightarrow> Inr (reference, ob_Version object)"]
  show ?thesis unfolding downloadReference_def by (simp add: maxReferenceBytes_def)
qed


lemma roomy_idle:
  assumes "cinv env (0, 0) s" "0 < cn_downloadSlots consumer" "n \<le> maxChunkObjectBytes"
  shows "roomy consumer n s"
  using assms by (auto simp: roomy_def cinv_def idle_def)

lemma expose_served:
  assumes "records consumer (cs_world s) (cs_watermark s) (reference_watermark consumer (as_reference a))"
    and "wm_Generation (cs_watermark s) < sr_Generation (as_reference a)"
  shows "\<exists>s'. run_state (expose consumer current (as_reference a) (as_commit a) (as_version a)) s
      = ((refreshResult (Some a) RefreshUpdated, None), s')
    \<and> cs_state s' = Some a \<and> cs_watermark s' = reference_watermark consumer (as_reference a) \<and> cs_metadata s' = cs_metadata s"
proof (cases "cn_watermarks consumer")
  case None
  then show ?thesis using assms(2) by (cases a) (simp add: expose_def reference_watermark_def Let_def)
next
  case (Some store)
  then obtain w where "run_state (ws_CompareAndSwap store (cn_channel consumer)
      (if wm_Generation (cs_watermark s) > 0 then Some (cs_watermark s) else None) (reference_watermark consumer (as_reference a))) (cs_world s) = (None, w)"
    using assms(1) by (metis records_def prod.collapse)
  then show ?thesis using Some assms(2) by (cases a) (simp add: expose_def persistConsumerWatermark_def lift_def reference_watermark_def Let_def)
qed

lemma adopt_served:
  assumes calm: "calm env (cs_world s)" and room: "roomy consumer maxMetadataObjectBytes s" "agrees env metadata s" and pub: "publishes env consumer metadata (cs_world s) a"
    and known: "choose_anchor consumer (cs_watermark s) current = Inr (cs_watermark s)" "wm_Generation (cs_watermark s) < sr_Generation (as_reference a)"
      "wm_Generation (cs_watermark s) \<noteq> 0 \<Longrightarrow> unat (sr_Generation (as_reference a) - wm_Generation (cs_watermark s)) \<le> maxCommitWalk
         \<and> lineage (cn_repository consumer) (cs_world s) (cs_watermark s) (sr_Generation (as_reference a) - 1) (cm_Parent (as_commit a))"
    and rec: "records consumer (cs_world s) (cs_watermark s) (reference_watermark consumer (as_reference a))"
  shows "\<exists>s'. run_state (adopt env consumer current (as_reference a) (as_version a)) s = ((refreshResult (Some a) RefreshUpdated, None), s')
    \<and> cs_state s' = Some a \<and> cs_watermark s' = reference_watermark consumer (as_reference a) \<and> agrees env metadata s'"
proof -
  obtain root where root: "dir_object (cm_Root (as_commit a)) root"
    "serves_manifest (cn_repository consumer) (cs_world s) dirManifest_to_json ''dir'' (cm_Root (as_commit a)) root"
    "\<And>u. metadata \<lparr>mk_kind = ''dir'', mk_digest = cm_Root (as_commit a)\<rparr> = Some u \<Longrightarrow> u = MDir root"
    and com: "serves_commit (cn_repository consumer) (cs_world s) (sr_Commit (as_reference a)) (as_commit a)"
      "validateCommitManifest (as_commit a) (sr_Generation (as_reference a)) = None" using pub by (auto simp: publishes_def)
  obtain m c where load: "run_state (loadDirectory env consumer (cm_Root (as_commit a))) s = (Inr m, s\<lparr>cs_metadata := c\<rparr>)"
      "agrees env metadata (s\<lparr>cs_metadata := c\<rparr>)"
    using loadDirectory_served [OF calm room root(2,1,3)] by blast
  let ?d = "if wm_Generation (cs_watermark s) > 0 \<and> sr_Generation (as_reference a) > wm_Generation (cs_watermark s)
    then validateDescendant env consumer (as_reference a) (as_commit a) (cs_watermark s) else return None"
  have "run_state ?d s = (None, s)" using known calm room by (simp add: validateDescendant_served word_neq_0_conv)
  moreover obtain s' where "run_state (expose consumer current (as_reference a) (as_commit a) (as_version a)) (s\<lparr>cs_metadata := c\<rparr>)
      = ((refreshResult (Some a) RefreshUpdated, None), s')" "cs_state s' = Some a" "cs_watermark s' = reference_watermark consumer (as_reference a)" "cs_metadata s' = c"
    using expose_served [of consumer "s\<lparr>cs_metadata := c\<rparr>" a current] rec known(2) by auto
  ultimately show ?thesis
    using known(1) com(2) load consumer_getManifest_served [OF calm room(1) com(1)] by (simp add: adopt_def Let_def agrees_def)
qed

lemma Refresh_adopts:
  assumes calm: "calm env (cs_world s)" and inv: "cinv env (0, 0) s" "0 < cn_downloadSlots consumer"
    and pub: "publishes env consumer metadata (cs_world s) a" "agrees env metadata s"
    and known: "remembers consumer s known" "wm_Generation known < sr_Generation (as_reference a)"
      "wm_Generation known \<noteq> 0 \<Longrightarrow> unat (sr_Generation (as_reference a) - wm_Generation known) \<le> maxCommitWalk
         \<and> lineage (cn_repository consumer) (cs_world s) known (sr_Generation (as_reference a) - 1) (cm_Parent (as_commit a))"
    and etag: "\<And>b. cs_state s = Some b \<Longrightarrow> v_ETag (as_version b) \<noteq> v_ETag (as_version a)"
    and rec: "records consumer (cs_world s) known (reference_watermark consumer (as_reference a))"
  shows "\<exists>s'. run_state (Refresh env consumer) s = ((\<lparr>rr_Status = RefreshUpdated, rr_Generation = sr_Generation (as_reference a)\<rparr>, None), s')
    \<and> cs_state s' = Some a \<and> cs_watermark s' = reference_watermark consumer (as_reference a) \<and> agrees env metadata s'"
proof -
  define s0 where "s0 = (if cn_watermarks consumer \<noteq> None then s\<lparr>cs_watermarkLoaded := False\<rparr> else s)"
  define t where "t = s\<lparr>cs_watermark := known, cs_watermarkLoaded := True\<rparr>"
  define etag where "etag = (case cs_state t of None \<Rightarrow> [] | Some b \<Rightarrow> if wm_Generation (cs_watermark t) = 0
      \<or> (wm_Generation (cs_watermark t) = sr_Generation (as_reference b) \<and> wm_Commit (cs_watermark t) = sr_Commit (as_reference b)) then v_ETag (as_version b) else [])"
  have t [simp]: "cs_world t = cs_world s" "cs_state t = cs_state s" "cs_watermark t = known" by (simp_all add: t_def)
  have load: "run_state (loadWatermark env consumer) s0 = (None, t)"
  proof (cases "cn_watermarks consumer")
    case None
    then show ?thesis using known(1) by (auto simp: s0_def t_def loadWatermark_def remembers_def)
  next
    case (Some store)
    then have "remembers consumer s0 known" using known(1) by (simp add: remembers_def s0_def)
    from loadWatermark_served [OF this] Some show ?thesis by (simp add: s0_def t_def)
  qed
  have c: "calm env (cs_world t)" "cinv env (0, 0) t" "agrees env metadata t" using calm inv(1) pub(2) by (simp_all add: t_def cinv_def)
  have room: "roomy consumer n t" if "n \<le> maxChunkObjectBytes" for n using roomy_idle [OF c(2) inv(2) that] .
  have "[] \<noteq> v_ETag (as_version a)" using pub by (auto simp: publishes_def serves_reference_def dest: serves_etag)
  then have "etag \<noteq> v_ETag (as_version a)" using etag by (auto simp: etag_def split: option.splits)
  then have down: "run_state (downloadReference env consumer etag) t = (Inr (as_reference a, as_version a), t)"
    using pub c by (intro downloadReference_served room) (simp_all add: publishes_def maxReferenceBytes_def maxChunkObjectBytes_def)
  have cmp: "compare_reference (cs_watermark t) (cs_state t) (as_reference a) = None" "choose_anchor consumer (cs_watermark t) (cs_state t) = Inr (cs_watermark t)"
  proof -
    have "sr_Generation (as_reference b) < wm_Generation known
        \<or> sr_Generation (as_reference b) = wm_Generation known \<and> sr_Commit (as_reference b) = wm_Commit known" if "cs_state s = Some b" for b
      using known(1) that by (auto simp: remembers_def)
    then show "compare_reference (cs_watermark t) (cs_state t) (as_reference a) = None" "choose_anchor consumer (cs_watermark t) (cs_state t) = Inr (cs_watermark t)"
      using known(2) by (auto simp: compare_reference_def choose_anchor_def reference_watermark_def Let_def split: option.split)
  qed
  obtain s' where "run_state (adopt env consumer (cs_state t) (as_reference a) (as_version a)) t = ((refreshResult (Some a) RefreshUpdated, None), s')"
    "cs_state s' = Some a" "cs_watermark s' = reference_watermark consumer (as_reference a)" "agrees env metadata s'"
    using adopt_served [OF c(1) room c(3) _ cmp(2), of a] pub known rec by (auto simp: maxMetadataObjectBytes_def maxChunkObjectBytes_def)
  moreover have "run_state (update (\<lambda>s. if cn_watermarks consumer \<noteq> None then s\<lparr>cs_watermarkLoaded := False\<rparr> else s)) s = ((), s0)"
    by (simp add: s0_def)
  moreover from calculation have "run_state (refresh_with env consumer (cs_state t) (Inr (as_reference a, as_version a))) t
      = ((\<lparr>rr_Status = RefreshUpdated, rr_Generation = sr_Generation (as_reference a)\<rparr>, None), s')"
    using cmp(1) by (simp add: refresh_with_def refreshResult_def)
  ultimately show ?thesis
    using load down by (simp add: Refresh_def calm_lift [OF calm] etag_def Let_def del: run_update)
qed


subsection \<open>Reads return the bytes of the file\<close>

definition serves_chunk :: "'w Repository \<Rightarrow> 'w \<Rightarrow> chunkRef \<Rightarrow> bytes \<Rightarrow> bool" where
  "serves_chunk r w c data \<longleftrightarrow> chunk_object (cr_Digest c) (cr_Size c) data
     \<and> (\<exists>version. serves r w (objectKey r ''chunk'' (cr_Digest c)) data version)"

definition reserved :: "int \<Rightarrow> 'w cstate \<Rightarrow> 'w cstate" where
  "reserved n s = s\<lparr>cs_slots := cs_slots s + 1, cs_bytes := (cs_bytes s)\<lparr>ws_used := ws_used (cs_bytes s) + n\<rparr>\<rparr>"

lemma reserved_world [simp]: "cs_world (reserved n s) = cs_world s"
  by (simp add: reserved_def)

lemma getChunk_served:
  assumes calm: "calm env (cs_world s)" and room: "roomy consumer (cr_Size c) s" and n: "cn_cache consumer = None" "0 < cr_Size c" "cr_Size c \<le> maxChunkObjectBytes"
    and served: "serves_chunk (cn_repository consumer) (cs_world s) c data"
  shows "run_state (getChunk env consumer (cr_Digest c) (cr_Size c)) s
    = (Inr \<lparr>cl_data = data, cl_charge = cr_Size c, cl_errors = []\<rparr>, reserved (cr_Size c) s)"
proof -
  obtain v where v: "serves (cn_repository consumer) (cs_world s) (objectKey (cn_repository consumer) ''chunk'' (cr_Digest c)) data v"
    and d: "digestObject ''chunk'' data = cr_Digest c" "len data = cr_Size c" using served by (auto simp: serves_chunk_def chunk_object_def)
  have get: "run_state (lift (getImmutableExact (cn_repository consumer) ''chunk'' (cr_Digest c) (cr_Size c))) (reserved (cr_Size c) s) = (Inr data, reserved (cr_Size c) s)"
    using n d by (intro run_lift)
      (simp add: getImmutableExact_def getImmutableLimited_def object_limit_def serves_Get [OF v serves_etag [OF v]] serves_version [OF v])
  have "calm env (cs_world (reserved (cr_Size c) s))" using calm by simp
  note calm' = calm_lift [OF this]
  show ?thesis
    using n acquire_calm [OF calm room n(2)] get
    by (simp add: getChunk_def load_chunk_def fetch_chunk_def getCachedChunk_def calm_lift [OF calm] calm' reserved_def [symmetric] Let_def)
qed

lemma copyChunkLease_served:
  assumes calm: "calm env (cs_world s)" and idle: "idle (cs_bytes s)"
    and lease: "len data = cr_Size c" "0 < cr_Size c"
    and c: "0 \<le> cr_Offset c" "chunk_end c \<le> maxInt64" "covers c offset"
    and l: "offset < limit" "limit \<le> maxInt64" "limit - offset \<le> int room"
  shows "run_state (copyChunkLease env consumer \<lparr>cl_data = data, cl_charge = cr_Size c, cl_errors = []\<rparr> room c offset limit) (reserved (cr_Size c) s)
    = (Inr (take (nat (min limit (chunk_end c) - offset)) (drop (nat (offset - cr_Offset c)) data)), s)"
proof -
  let ?start = "offset - cr_Offset c" and ?stop = "min limit (chunk_end c) - cr_Offset c"
  have w: "wrap64 (chunk_end c) = chunk_end c" using c by (intro wrap64_id) (auto simp: is_int64_def maxInt64_def covers_def)
  have start: "wrap64 (max64 offset (cr_Offset c) - cr_Offset c) = ?start"
    using c by (simp add: max64_def covers_def is_int64_def maxInt64_def)
  have stop: "wrap64 (min64 limit (wrap64 (chunk_end c)) - cr_Offset c) = ?stop"
    using c l unfolding w by (simp add: min64_def min_def covers_def is_int64_def maxInt64_def)
  have cond: "0 \<le> ?start" "?start \<le> ?stop" "?stop \<le> len data" using c l lease by (auto simp: covers_def)
  have "nat (min limit (chunk_end c) - offset) \<le> room" using l(3) by (simp add: nat_le_iff min_def)
  then have "take room (take (nat (?stop - ?start)) (drop (nat ?start) data)) = take (nat (min limit (chunk_end c) - offset)) (drop (nat ?start) data)"
    by (simp add: min_absorb2)
  moreover have "calm env (cs_world (reserved (cr_Size c) s))" using calm by simp
  note calm_lift(1) [OF this]
  ultimately show ?thesis
    using lease cond release_calm [OF idle lease(2)]
    by (simp add: copyChunkLease_def start stop releaseLease_def reserved_def [symmetric] Let_def)
qed

declare read_chunks.simps [simp del]

text \<open>The loop copies what the limit allows of the bytes of the remaining chunks.\<close>

lemma read_chunks_done:
  "limit \<le> offset \<Longrightarrow> run_state (read_chunks env consumer room limit cs offset written) s = ((written, if length written < room then Some [ErrEOF] else None), s)"
  by (cases cs) (simp_all add: read_chunks.simps)

lemma read_chunks_served:
  assumes calm: "calm env (cs_world s)" "cn_cache consumer = None" "cinv env (0, 0) s" "0 < cn_downloadSlots consumer"
    and "\<forall>c \<in> set cs. cr_Size c \<le> maxChunkObjectBytes \<and> serves_chunk (cn_repository consumer) (cs_world s) c (content c)"
    and "tiles off cs sz" "0 \<le> off" "sz \<le> maxInt64" "offset \<le> limit" "limit \<le> sz" "limit - offset \<le> int room - len written" "length written \<le> room"
      "offset < limit \<longrightarrow> off \<le> offset \<and> (\<forall>c cs'. cs = c # cs' \<longrightarrow> offset < chunk_end c)"
  shows "run_state (read_chunks env consumer room limit cs offset written) s
    = ((written @ take (nat (limit - offset)) (drop (nat (offset - off)) (concat (map content cs))),
        if len written + (limit - offset) < int room then Some [ErrEOF] else None), s)"
  using assms(5-)
proof (induction cs arbitrary: off offset written)
  case Nil
  then show ?case by (auto simp: read_chunks.simps)
next
  case (Cons c cs)
  show ?case
  proof (cases "offset < limit")
    case False
    then show ?thesis using Cons.prems(5) by (simp add: read_chunks_done)
  next
    case True
    have c: "0 \<le> cr_Offset c" "0 < cr_Size c" "chunk_end c \<le> sz" "covers c offset" "tiles (chunk_end c) cs sz" "cr_Offset c = off"
      using Cons.prems(2,3,9) True tiles_le [of "off + cr_Size c" cs sz] by (auto simp: covers_def)
    have served: "serves_chunk (cn_repository consumer) (cs_world s) c (content c)" "cr_Size c \<le> maxChunkObjectBytes" using Cons.prems(1) by auto
    then have d: "chunk_object (cr_Digest c) (cr_Size c) (content c)" by (simp add: serves_chunk_def)
    then have len: "len (content c) = cr_Size c" by (simp add: chunk_object_def)
    define x where "x = take (nat (min limit (chunk_end c) - offset)) (drop (nat (offset - cr_Offset c)) (content c))"
    have x: "offset + len x = min limit (chunk_end c)" using any.copied_authentic(1) [OF d c(4) True x_def] .
    have w: "wrap64 (offset + len x) = offset + len x"
      using x c True Cons.prems(3,4,6) by (intro wrap64_id) (auto simp: is_int64_def maxInt64_def covers_def)
    have copy: "run_state (copyChunkLease env consumer \<lparr>cl_data = content c, cl_charge = cr_Size c, cl_errors = []\<rparr> (room - length written) c offset limit) (reserved (cr_Size c) s)
        = (Inr x, s)"
      using c True Cons.prems(4,6-8) calm(1,3) len unfolding x_def by (intro copyChunkLease_served) (auto simp: cinv_def)
    have step: "run_state (read_chunks env consumer room limit (c # cs) offset written) s
        = run_state (read_chunks env consumer room limit cs (offset + len x) (written @ x)) s"
      using True getChunk_served [OF calm(1) roomy_idle [OF calm(3,4) served(2)] calm(2) c(2) served(2,1)] copy
      unfolding read_chunks.simps if_P [OF True] by (simp add: calm_lift [OF calm(1)] w)
    show ?thesis
    proof (cases "limit \<le> chunk_end c")
      case True
      then have end_: "offset + len x = limit" using x by simp
      have "nat (limit - offset) \<le> length (drop (nat (offset - off)) (content c))"
        using c True len \<open>offset < limit\<close> by (simp add: covers_def nat_le_iff of_nat_diff)
      then have "x = take (nat (limit - offset)) (drop (nat (offset - off)) (concat (map content (c # cs))))"
        using True c(6) by (simp add: x_def)
      moreover have "run_state (read_chunks env consumer room limit (c # cs) offset written) s
          = ((written @ x, if length (written @ x) < room then Some [ErrEOF] else None), s)"
        unfolding step end_ by (rule read_chunks_done) (rule order.refl)
      moreover have "(len written + (limit - offset) < int room) = (length (written @ x) < room)"
        using end_ by (simp only: length_append) linarith
      ultimately show ?thesis by (simp only: append_assoc)
    next
      case False
      then have end_: "offset + len x = chunk_end c" using x by simp
      have whole: "x = drop (nat (offset - off)) (content c)" using False c len by (simp add: covers_def x_def)
      have "run_state (read_chunks env consumer room limit cs (chunk_end c) (written @ x)) s
        = (((written @ x) @ take (nat (limit - chunk_end c)) (drop (nat (chunk_end c - chunk_end c)) (concat (map content cs))),
            if len (written @ x) + (limit - chunk_end c) < int room then Some [ErrEOF] else None), s)"
        using Cons.prems False end_ c by (intro Cons.IH) auto
      then have run: "run_state (read_chunks env consumer room limit (c # cs) offset written) s
        = (((written @ x) @ take (nat (limit - chunk_end c)) (concat (map content cs)),
            if len written + (limit - offset) < int room then Some [ErrEOF] else None), s)"
        using step end_ by (simp add: algebra_simps)
      have "nat (offset - off) \<le> length (content c)" using c len by (simp add: covers_def nat_le_iff)
      then have "drop (nat (offset - off)) (concat (map content (c # cs))) = x @ concat (map content cs)" by (simp add: whole)
      moreover have "nat (limit - offset) = length x + nat (limit - chunk_end c)" using end_ False by linarith
      ultimately have "take (nat (limit - offset)) (drop (nat (offset - off)) (concat (map content (c # cs))))
          = x @ take (nat (limit - chunk_end c)) (concat (map content cs))" by simp
      then show ?thesis using run by simp
    qed
  qed
qed


definition file_bytes :: "(chunkRef \<Rightarrow> bytes) \<Rightarrow> File \<Rightarrow> bytes" where
  "file_bytes content f = concat (map content (elems (fm_Chunks (fl_manifest f))))"

lemma tiles_length:
  "tiles off cs sz \<Longrightarrow> (\<forall>c \<in> set cs. len (content c) = cr_Size c) \<Longrightarrow> off + len (concat (map content cs)) = sz"
  by (induction off cs sz rule: tiles.induct) (auto simp: algebra_simps)

text \<open>Skipping the chunks that end at or before the offset skips as many bytes.\<close>

lemma tiles_skip:
  assumes "tiles off cs sz" "off \<le> offset" "\<forall>c \<in> set cs. len (content c) = cr_Size c"
  shows "\<exists>off'. tiles off' (dropWhile (\<lambda>c. chunk_end c \<le> offset) cs) sz \<and> off \<le> off' \<and> off' \<le> offset
    \<and> drop (nat (offset - off')) (concat (map content (dropWhile (\<lambda>c. chunk_end c \<le> offset) cs))) = drop (nat (offset - off)) (concat (map content cs))"
  using assms
proof (induction off cs sz rule: tiles.induct)
  case (2 off c cs sz)
  show ?case
  proof (cases "chunk_end c \<le> offset")
    case True
    then have c: "off + cr_Size c \<le> offset" "len (content c) = cr_Size c" using "2.prems" by auto
    then have "nat (offset - off) = length (content c) + nat (offset - (off + cr_Size c))" by linarith
    then have "drop (nat (offset - off)) (content c @ concat (map content cs)) = drop (nat (offset - (off + cr_Size c))) (concat (map content cs))"
      by simp
    moreover from c have "\<exists>off'. tiles off' (dropWhile (\<lambda>c. chunk_end c \<le> offset) cs) sz \<and> off + cr_Size c \<le> off' \<and> off' \<le> offset
      \<and> drop (nat (offset - off')) (concat (map content (dropWhile (\<lambda>c. chunk_end c \<le> offset) cs))) = drop (nat (offset - (off + cr_Size c))) (concat (map content cs))"
      using 2 by auto
    ultimately show ?thesis using True "2.prems" by (auto intro: order_trans)
  next
    case False
    then show ?thesis using "2.prems" by auto
  qed
qed auto


text \<open>A read at any offset returns the slice of the file, and \<open>io.EOF\<close> exactly when it is short.\<close>

lemma ReadAtContext_served:
  assumes f: "file_object env d (fl_manifest f)" and room: "int room \<le> maxInt64" and offset: "0 \<le> offset"
    and calm: "calm env (cs_world s)" "cn_cache consumer = None" "cinv env (0, 0) s" "0 < cn_downloadSlots consumer"
    and served: "\<forall>c \<in> set (elems (fm_Chunks (fl_manifest f))). serves_chunk (cn_repository consumer) (cs_world s) c (content c)"
  shows "run_state (ReadAtContext env consumer f room offset) s
    = ((take room (drop (nat offset) (file_bytes content f)),
        if room \<noteq> 0 \<and> len (file_bytes content f) < offset + int room then Some [ErrEOF] else None), s)"
proof -
  let ?m = "fl_manifest f" and ?cs = "elems (fm_Chunks (fl_manifest f))" and ?sz = "fm_Size (fl_manifest f)"
  have i: "is_int64 ?sz" using f by (simp add: file_object_def wf_fileManifest_def)
  have v: "validateFileManifest (ev_deg env) (ev_irreducible env) ?m = None" using f by (simp add: file_object_def)
  note V = validateFileManifest_None [OF v i]
  have content: "\<forall>c \<in> set ?cs. len (content c) = cr_Size c" using served by (auto simp: serves_chunk_def chunk_object_def)
  have sz: "len (file_bytes content f) = ?sz" using tiles_length [OF V(1) content] by (simp add: file_bytes_def)
  show ?thesis
  proof (cases "room = 0 \<or> ?sz \<le> offset")
    case True
    then show ?thesis using offset sz by (auto simp: ReadAtContext_def Let_def)
  next
    case False
    let ?ds = "dropWhile (\<lambda>c. chunk_end c \<le> offset) ?cs"
    define limit where "limit = min ?sz (offset + int room)"
    have l: "offset \<le> limit" "limit \<le> ?sz" "limit - offset \<le> int room" using False by (auto simp: limit_def)
    have w: "wrap64 (chunk_end (?cs ! k)) = chunk_end (?cs ! k)" if "k < length ?cs" for k
      using tiles_range [OF V(1) nth_mem [OF that]] V(2) [OF nth_mem [OF that]] i by (intro wrap64_id) (auto simp: is_int64_def)
    have search: "drop (sort_Search (length ?cs) (\<lambda>i. wrap64 (chunk_end (?cs ! i)) > offset)) ?cs = ?ds"
      using w by (intro search_chunks [OF V(1)]) simp
    from tiles_skip [OF V(1) offset content] obtain off where t: "tiles off ?ds ?sz" "0 \<le> off" "off \<le> offset"
      "drop (nat (offset - off)) (concat (map content ?ds)) = drop (nat offset) (file_bytes content f)" by (auto simp: file_bytes_def)
    have hd: "offset < chunk_end c" if "?ds = c # cs'" for c cs' using that by (metis hd_dropWhile linorder_not_le list.distinct(1) list.sel(1))
    have "\<forall>c \<in> set ?ds. cr_Size c \<le> maxChunkObjectBytes \<and> serves_chunk (cn_repository consumer) (cs_world s) c (content c)"
      using served V(2,3) by (auto dest!: set_dropWhileD intro: order_trans)
    from read_chunks_served [OF calm this t(1,2), of offset limit room "[]"] i l t(3) hd
    have run: "run_state (read_chunks env consumer room limit ?ds offset []) s
        = ((take (nat (limit - offset)) (drop (nat offset) (file_bytes content f)), if limit - offset < int room then Some [ErrEOF] else None), s)"
      by (simp add: t(4) is_int64_def)
    have "take (nat (limit - offset)) (drop (nat offset) (file_bytes content f)) = take room (drop (nat offset) (file_bytes content f))"
    proof (cases "?sz \<le> offset + int room")
      case True
      then have "length (drop (nat offset) (file_bytes content f)) \<le> nat (limit - offset)" "length (drop (nat offset) (file_bytes content f)) \<le> room"
        using sz offset by (auto simp: limit_def)
      then show ?thesis by simp
    qed (simp add: limit_def)
    moreover have "(limit - offset < int room) = (?sz < offset + int room)" by (auto simp: limit_def)
    ultimately show ?thesis
      using False offset sz run any.read_limit [OF offset _ i room]
      by (simp add: ReadAtContext_def search Let_def not_le limit_def [symmetric])
  qed
qed


subsection \<open>Opening a file\<close>

text \<open>The directories on the way are served and named by \<open>known\<close>.\<close>

inductive serves_walk :: "'w Repository \<Rightarrow> 'w \<Rightarrow> (metadataCacheKey \<rightharpoonup> metadata) \<Rightarrow> digest \<Rightarrow> bytes list \<Rightarrow> dirEntry \<Rightarrow> bool"
  for r w known where
  entry: "\<lbrakk>dir_object d m; serves_manifest r w dirManifest_to_json ''dir'' d m; known \<lparr>mk_kind = ''dir'', mk_digest = d\<rparr> = Some (MDir m);
    lookup_entry (elems (dm_Entries m)) c = Some e\<rbrakk> \<Longrightarrow> serves_walk r w known d [c] e"
| below: "\<lbrakk>dir_object d m; serves_manifest r w dirManifest_to_json ''dir'' d m; known \<lparr>mk_kind = ''dir'', mk_digest = d\<rparr> = Some (MDir m);
    lookup_entry (elems (dm_Entries m)) c = Some e; de_Type e = EntryDir; serves_walk r w known (de_Node e) cs e'; cs \<noteq> []\<rbrakk>
    \<Longrightarrow> serves_walk r w known d (c # cs) e'"

lemma resolve_components_served:
  assumes "serves_walk (cn_repository consumer) w known d cs e"
    and "calm env w" "cs_world s = w" "roomy consumer maxMetadataObjectBytes s" "agrees env known s"
  shows "\<exists>c. run_state (resolve_components env consumer d cs) s = (Inr e, s\<lparr>cs_metadata := c\<rparr>) \<and> agrees env known (s\<lparr>cs_metadata := c\<rparr>)"
  using assms
proof (induction d cs e arbitrary: s rule: serves_walk.induct)
  case (entry d m c e)
  then show ?case
    using loadDirectory_served [of env s consumer known d m] by force
next
  case (below d m c e cs e')
  then obtain b where b: "run_state (loadDirectory env consumer d) s = (Inr m, s\<lparr>cs_metadata := b\<rparr>)" "agrees env known (s\<lparr>cs_metadata := b\<rparr>)"
    using loadDirectory_served [of env s consumer known d m] by force
  from below.IH [of "s\<lparr>cs_metadata := b\<rparr>"] below.prems b(2) obtain c' where
    "run_state (resolve_components env consumer (de_Node e) cs) (s\<lparr>cs_metadata := b\<rparr>) = (Inr e', s\<lparr>cs_metadata := c'\<rparr>)"
    "agrees env known (s\<lparr>cs_metadata := c'\<rparr>)" by auto
  then show ?case using below.hyps b(1) by auto
qed

lemma Open_served:
  assumes "cleanLookupPath path = Inr cs" "cs \<noteq> []" "cs_state s = Some a"
    and walk: "serves_walk (cn_repository consumer) (cs_world s) known (cm_Root (as_commit a)) cs e"
    and ok: "calm env (cs_world s)" "roomy consumer maxMetadataObjectBytes s" "agrees env known s"
    and fil: "de_Type e = EntryFile" "de_Size e = fm_Size m" "file_object env (de_Node e) m"
      "serves_manifest (cn_repository consumer) (cs_world s) fileManifest_to_json ''file'' (de_Node e) m"
      "known \<lparr>mk_kind = ''file'', mk_digest = de_Node e\<rparr> = Some (MFile m)"
  shows "\<exists>c. run_state (Open env consumer path) s
    = (Inr \<lparr>fl_manifest = m, fl_generation = sr_Generation (as_reference a)\<rparr>, s\<lparr>cs_metadata := c\<rparr>)"
proof -
  obtain c where c: "run_state (resolve_components env consumer (cm_Root (as_commit a)) cs) s = (Inr e, s\<lparr>cs_metadata := c\<rparr>)"
    "agrees env known (s\<lparr>cs_metadata := c\<rparr>)" using resolve_components_served [OF walk ok(1) refl ok(2,3)] by blast
  obtain c' where "run_state (loadFile env consumer (de_Node e)) (s\<lparr>cs_metadata := c\<rparr>) = (Inr m, s\<lparr>cs_metadata := c'\<rparr>)"
    using loadFile_served [of env "s\<lparr>cs_metadata := c\<rparr>" consumer known "de_Node e" m] ok c(2) fil by auto
  then show ?thesis using c(1) assms(1-3) fil(1,2) by (intro exI [of _ c']) (simp add: Open_def resolve_def snapshotRoot_def)
qed

end
