(* ===== verification/Sha256_Eval.thy ===== *)
theory Sha256_Eval
  imports Sha256 Go_Lib
begin

section \<open>Evaluating SHA-256 by rewriting\<close>

text \<open>
  \<open>Sha256\<close> computes on machine words; rewriting does so slowly. Here the words are lists of their bits,
  the lowest first: a rotation moves list cells, the bitwise operations are one step per bit and addition is
  a ripple of carries. Every operation is proved equal to the one on words, so that the digests of the sample
  objects are computed inside the logic.
\<close>

definition word_of :: "bool list \<Rightarrow> 'a::len word" where
  "word_of bs = horner_sum of_bool 2 bs"

lemma word_of_simps [simp]: "word_of [] = 0" "word_of (b # bs) = of_bool b + 2 * word_of bs"
  by (simp_all add: word_of_def)

lemma bit_word_of: "bit (word_of bs :: 'a::len word) n \<longleftrightarrow> n < LENGTH('a) \<and> n < length bs \<and> bs ! n"
  by (simp add: word_of_def bit_horner_sum_bit_word_iff)

subsection \<open>The operations\<close>

fun xor1 :: "bool \<Rightarrow> bool \<Rightarrow> bool" where
  "xor1 True b = (\<not> b)"
| "xor1 False b = b"

fun xor_bits :: "bool list \<Rightarrow> bool list \<Rightarrow> bool list" where
  "xor_bits (x # xs) (y # ys) = xor1 x y # xor_bits xs ys"
| "xor_bits _ _ = []"

fun and_bits :: "bool list \<Rightarrow> bool list \<Rightarrow> bool list" where
  "and_bits (x # xs) (y # ys) = (x \<and> y) # and_bits xs ys"
| "and_bits _ _ = []"

fun majority :: "bool \<Rightarrow> bool \<Rightarrow> bool \<Rightarrow> bool" where
  "majority True b c = (b \<or> c)"
| "majority False b c = (b \<and> c)"

fun add_bits :: "bool \<Rightarrow> bool list \<Rightarrow> bool list \<Rightarrow> bool list" where
  "add_bits c (x # xs) (y # ys) = xor1 c (xor1 x y) # add_bits (majority x y c) xs ys"
| "add_bits c _ _ = []"

definition rotr_bits :: "nat \<Rightarrow> bool list \<Rightarrow> bool list" where
  "rotr_bits n bs = drop n bs @ take n bs"

definition shr_bits :: "nat \<Rightarrow> bool list \<Rightarrow> bool list" where
  "shr_bits n bs = drop n bs @ replicate n False"

lemma xor1_eq: "xor1 a b \<longleftrightarrow> a \<noteq> b"
  by (cases a) simp_all

lemma majority_eq: "majority a b c \<longleftrightarrow> a \<and> b \<or> a \<and> c \<or> b \<and> c"
  by (cases a) auto

lemma bits_map2: "xor_bits xs ys = map2 (\<noteq>) xs ys" "and_bits xs ys = map2 (\<and>) xs ys"
  by (induction xs ys rule: xor_bits.induct) (simp_all add: xor1_eq)

lemma length_bits [simp]:
  "length (xor_bits xs ys) = min (length xs) (length ys)" "length (and_bits xs ys) = min (length xs) (length ys)"
  "length (add_bits c xs ys) = min (length xs) (length ys)" "length (map Not xs) = length xs"
  "n \<le> length xs \<Longrightarrow> length (rotr_bits n xs) = length xs" "n \<le> length xs \<Longrightarrow> length (shr_bits n xs) = length xs"
  by (simp_all add: bits_map2 rotr_bits_def shr_bits_def) (induction c xs ys rule: add_bits.induct; simp)

lemma word_xor: "length xs = LENGTH('a) \<Longrightarrow> length ys = LENGTH('a) \<Longrightarrow> word_of xs XOR word_of ys = (word_of (xor_bits xs ys) :: 'a::len word)"
  by (rule bit_word_eqI) (auto simp: bit_simps bit_word_of bits_map2)

lemma word_and: "length xs = LENGTH('a) \<Longrightarrow> length ys = LENGTH('a) \<Longrightarrow> word_of xs AND word_of ys = (word_of (and_bits xs ys) :: 'a::len word)"
  by (rule bit_word_eqI) (auto simp: bit_simps bit_word_of bits_map2)

lemma word_not: "length xs = LENGTH('a) \<Longrightarrow> NOT (word_of xs) = (word_of (map Not xs) :: 'a::len word)"
  by (rule bit_word_eqI) (auto simp: bit_simps bit_word_of)

lemma word_rotr: "length xs = 32 \<Longrightarrow> n \<le> 32 \<Longrightarrow> rotr32 n (word_of xs) = word_of (rotr_bits n xs)"
  by (rule bit_word_eqI) (auto simp: bit_simps bit_word_of rotr32_def rotr_bits_def nth_append min_def add.commute)

lemma word_shr: "length xs = LENGTH('a) \<Longrightarrow> n \<le> LENGTH('a) \<Longrightarrow> drop_bit n (word_of xs) = (word_of (shr_bits n xs) :: 'a::len word)"
  by (rule bit_word_eqI) (auto simp: bit_simps bit_word_of shr_bits_def nth_append add.commute)

lemma word_carry:
  "length xs = length ys \<Longrightarrow> \<exists>z. word_of xs + word_of ys + of_bool c = (word_of (add_bits c xs ys) + 2 ^ length xs * of_bool z :: 'a::len word)"
proof (induction c xs ys rule: add_bits.induct)
  case (1 c x xs y ys)
  from 1(1) 1(2) obtain z where "word_of xs + word_of ys + of_bool (majority x y c)
      = (word_of (add_bits (majority x y c) xs ys) + 2 ^ length xs * of_bool z :: 'a word)" by auto
  then have z: "word_of (add_bits (majority x y c) xs ys) + 2 ^ length xs * of_bool z = (word_of xs + word_of ys + of_bool (majority x y c) :: 'a word)" by simp
  have "word_of (add_bits c (x # xs) (y # ys)) + 2 ^ length (x # xs) * of_bool z
      = (of_bool (xor1 c (xor1 x y)) + 2 * (word_of (add_bits (majority x y c) xs ys) + 2 ^ length xs * of_bool z) :: 'a word)"
    by (simp add: algebra_simps)
  also have "\<dots> = word_of (x # xs) + word_of (y # ys) + of_bool c"
    unfolding z by (cases x; cases y; cases c) (simp_all add: algebra_simps)
  finally show ?case by metis
qed auto

lemma word_add:
  assumes "length xs = LENGTH('a)" "length ys = LENGTH('a)"
  shows "word_of xs + word_of ys = (word_of (add_bits False xs ys) :: 'a::len word)"
  using word_carry [of xs ys False, where 'a = 'a] assms by auto

lemmas word_bits = word_xor word_and word_not word_rotr word_shr word_add

subsection \<open>The compression function\<close>

fun round_bits :: "bool list list \<Rightarrow> bool list \<Rightarrow> bool list \<Rightarrow> bool list list" where
  "round_bits [a, b, c, d, e, f, g, h] k w =
     (let s1 = xor_bits (rotr_bits 6 e) (xor_bits (rotr_bits 11 e) (rotr_bits 25 e));
          ch = xor_bits (and_bits e f) (and_bits (map Not e) g);
          t1 = add_bits False (add_bits False (add_bits False (add_bits False h s1) ch) k) w;
          s0 = xor_bits (rotr_bits 2 a) (xor_bits (rotr_bits 13 a) (rotr_bits 22 a));
          maj = xor_bits (and_bits a b) (xor_bits (and_bits a c) (and_bits b c))
      in [add_bits False t1 (add_bits False s0 maj), a, b, c, add_bits False d t1, e, f, g])"
| "round_bits v k w = v"

fun next_bits :: "bool list list \<Rightarrow> bool list list" where
  "next_bits [w0, w1, w2, w3, w4, w5, w6, w7, w8, w9, w10, w11, w12, w13, w14, w15] =
     [w1, w2, w3, w4, w5, w6, w7, w8, w9, w10, w11, w12, w13, w14, w15,
      add_bits False (add_bits False (add_bits False
        (xor_bits (rotr_bits 17 w14) (xor_bits (rotr_bits 19 w14) (shr_bits 10 w14))) w9)
        (xor_bits (rotr_bits 7 w1) (xor_bits (rotr_bits 18 w1) (shr_bits 3 w1)))) w0]"
| "next_bits ws = ws"

fun rounds_bits :: "bool list list \<Rightarrow> bool list list \<Rightarrow> bool list list \<Rightarrow> bool list list" where
  "rounds_bits [] v ws = v"
| "rounds_bits (k # ks) v ws = rounds_bits ks (round_bits v k (hd ws)) (next_bits ws)"

fun add_all :: "bool list list \<Rightarrow> bool list list \<Rightarrow> bool list list" where
  "add_all (x # xs) (y # ys) = add_bits False x y # add_all xs ys"
| "add_all _ _ = []"

definition block_bits :: "bool list list \<Rightarrow> bool list list \<Rightarrow> bool list list \<Rightarrow> bool list list" where
  "block_bits ks v ws = add_all v (rounds_bits ks v ws)"

definition words32 :: "nat \<Rightarrow> bool list list \<Rightarrow> bool" where
  "words32 n ws \<longleftrightarrow> length ws = n \<and> list_all (\<lambda>w. length w = 32) ws"

lemma words32_Suc: "words32 (Suc n) ws \<longleftrightarrow> (\<exists>w ws'. ws = w # ws' \<and> length w = 32 \<and> words32 n ws')"
  by (cases ws) (auto simp: words32_def)

lemma words32_0 [simp]: "words32 0 ws \<longleftrightarrow> ws = []"
  by (auto simp: words32_def)

lemma words32_Cons [simp]: "words32 n (w # ws) \<longleftrightarrow> (case n of 0 \<Rightarrow> False | Suc m \<Rightarrow> length w = 32 \<and> words32 m ws)"
  by (auto simp: words32_def split: nat.split)

abbreviation as_words :: "bool list list \<Rightarrow> 32 word list" where
  "as_words \<equiv> map word_of"

lemma words32_8: "words32 8 v \<longleftrightarrow> (\<exists>a b c d e f g h. v = [a, b, c, d, e, f, g, h] \<and> list_all (\<lambda>w. length w = 32) v)"
  by (auto simp: words32_def eval_nat_numeral length_Suc_conv)

lemma words32_16: "words32 16 v \<longleftrightarrow> (\<exists>a b c d e f g h i j k l m n p q. v = [a, b, c, d, e, f, g, h, i, j, k, l, m, n, p, q] \<and> list_all (\<lambda>w. length w = 32) v)"
  by (auto simp: words32_def eval_nat_numeral length_Suc_conv)

lemma round_word:
  assumes "words32 8 v" "length k = 32" "length w = 32"
  shows "sha256_round (as_words v) (word_of k) (word_of w) = as_words (round_bits v k w) \<and> words32 8 (round_bits v k w)"
  using assms unfolding words32_8 by (auto simp: word_bits Let_def)

lemma next_word:
  assumes "words32 16 ws"
  shows "schedule_next (as_words ws) = as_words (next_bits ws) \<and> words32 16 (next_bits ws)"
  using assms unfolding words32_16 by (auto simp: word_bits schedule_next_def small_sigma0_def small_sigma1_def)

lemma rounds_word:
  assumes "list_all (\<lambda>k. length k = 32) ks" "words32 8 v" "words32 16 ws"
  shows "sha256_rounds (as_words ks) (as_words v) (as_words ws) = as_words (rounds_bits ks v ws) \<and> words32 8 (rounds_bits ks v ws)"
  using assms
proof (induction ks arbitrary: v ws)
  case (Cons k ks)
  have "ws \<noteq> []" "length (hd ws) = 32" using Cons(4) by (auto simp: words32_16)
  then show ?case using Cons round_word [of v k "hd ws"] next_word [of ws] by (simp add: hd_map)
qed simp

lemma add_all_word:
  assumes "words32 n v" "words32 n u"
  shows "map2 (+) (as_words v) (as_words u) = as_words (add_all v u) \<and> words32 n (add_all v u)"
  using assms by (induction v u arbitrary: n rule: add_all.induct) (auto simp: words32_Suc word_add split: nat.splits)

subsection \<open>Bytes, blocks and the digest\<close>

fun char_bits :: "char \<Rightarrow> bool list" where
  "char_bits (Char a b c d e f g h) = [a, b, c, d, e, f, g, h]"

fun be_bits :: "bytes \<Rightarrow> bool list list" where
  "be_bits (a # b # c # d # r) = (char_bits d @ char_bits c @ char_bits b @ char_bits a) # be_bits r"
| "be_bits _ = []"

lemma length_char_bits [simp]: "length (char_bits c) = 8"
  by (cases c) simp

lemma word_of_append: "word_of (xs @ ys) = (word_of xs + 2 ^ length xs * word_of ys :: 'a::len word)"
  by (induction xs) (simp_all add: algebra_simps)

lemma word_of_char: "word_of (char_bits c) = (of_char c :: 'a::len word)"
  by (cases c) (simp add: of_char_def)

lemma word_of_int_char: "word_of_int (of_char c) = (of_char c :: 'a::len word)"
  by (cases c) (simp add: of_char_def)

lemma be_words_bits: "be_words m = as_words (be_bits m) \<and> list_all (\<lambda>w. length w = 32) (be_bits m)"
  by (induction m rule: be_words.induct) (simp_all add: word_of_append word_of_char word_of_int_char algebra_simps)

lemma length_be_bits: "length (be_bits m) = length m div 4"
  by (induction m rule: be_bits.induct) simp_all

primrec bits :: "nat \<Rightarrow> int \<Rightarrow> bool list" where
  "bits 0 k = []"
| "bits (Suc n) k = odd k # bits n (k div 2)"

lemma length_bits_int [simp]: "length (bits n k) = n"
  by (induction n arbitrary: k) simp_all

lemma word_of_bits: "word_of (bits n k) = (word_of_int (take_bit n k) :: 'a::len word)"
proof (induction n arbitrary: k)
  case (Suc n)
  have "word_of_int (take_bit (Suc n) k) = (of_bool (odd k) + 2 * word_of_int (take_bit n (k div 2)) :: 'a word)"
    unfolding take_bit_Suc by (simp add: mod_2_eq_odd)
  then show ?case by (simp add: Suc)
qed simp

lemma word_of_bits32: "word_of (bits 32 k) = (word_of_int k :: 32 word)"
  unfolding word_of_bits by (rule bit_word_eqI) (simp add: bit_simps)

text \<open>The constants, next to the primes they are computed from.\<close>

definition cube_roots :: "(int \<times> int) list" where
  "cube_roots = [
     (2, 0x428a2f98), (3, 0x71374491), (5, 0xb5c0fbcf), (7, 0xe9b5dba5),
     (11, 0x3956c25b), (13, 0x59f111f1), (17, 0x923f82a4), (19, 0xab1c5ed5),
     (23, 0xd807aa98), (29, 0x12835b01), (31, 0x243185be), (37, 0x550c7dc3),
     (41, 0x72be5d74), (43, 0x80deb1fe), (47, 0x9bdc06a7), (53, 0xc19bf174),
     (59, 0xe49b69c1), (61, 0xefbe4786), (67, 0x0fc19dc6), (71, 0x240ca1cc),
     (73, 0x2de92c6f), (79, 0x4a7484aa), (83, 0x5cb0a9dc), (89, 0x76f988da),
     (97, 0x983e5152), (101, 0xa831c66d), (103, 0xb00327c8), (107, 0xbf597fc7),
     (109, 0xc6e00bf3), (113, 0xd5a79147), (127, 0x06ca6351), (131, 0x14292967),
     (137, 0x27b70a85), (139, 0x2e1b2138), (149, 0x4d2c6dfc), (151, 0x53380d13),
     (157, 0x650a7354), (163, 0x766a0abb), (167, 0x81c2c92e), (173, 0x92722c85),
     (179, 0xa2bfe8a1), (181, 0xa81a664b), (191, 0xc24b8b70), (193, 0xc76c51a3),
     (197, 0xd192e819), (199, 0xd6990624), (211, 0xf40e3585), (223, 0x106aa070),
     (227, 0x19a4c116), (229, 0x1e376c08), (233, 0x2748774c), (239, 0x34b0bcb5),
     (241, 0x391c0cb3), (251, 0x4ed8aa4a), (257, 0x5b9cca4f), (263, 0x682e6ff3),
     (269, 0x748f82ee), (271, 0x78a5636f), (277, 0x84c87814), (281, 0x8cc70208),
     (283, 0x90befffa), (293, 0xa4506ceb), (307, 0xbef9a3f7), (311, 0xc67178f2)]"

definition square_roots :: "(int \<times> int) list" where
  "square_roots = [
     (2, 0x6a09e667), (3, 0xbb67ae85), (5, 0x3c6ef372), (7, 0xa54ff53a),
     (11, 0x510e527f), (13, 0x9b05688c), (17, 0x1f83d9ab), (19, 0x5be0cd19)]"

definition k_ints :: "int list" where
  "k_ints = map snd cube_roots"

definition init_ints :: "int list" where
  "init_ints = map snd square_roots"

lemma root_primes: "map fst cube_roots = primes64" "map fst square_roots = take 8 primes64"
  by (simp_all add: cube_roots_def square_roots_def primes64_def)

lemma sha256_k_ints: "sha256_k = map word_of_int k_ints"
  by code_simp

lemma sha256_init_ints: "sha256_init = map word_of_int init_ints"
  by code_simp

function blocks_bits :: "bool list list \<Rightarrow> bool list list \<Rightarrow> bool list list \<Rightarrow> bool list list" where
  "blocks_bits ks v ws = (if ws = [] then v else blocks_bits ks (block_bits ks v (take 16 ws)) (drop 16 ws))"
  by auto
termination by (relation "measure (\<lambda>(ks, v, ws). length ws)") auto

declare blocks_bits.simps [simp del]

lemma block_word:
  assumes "list_all (\<lambda>k. length k = 32) ks" "as_words ks = sha256_k" "words32 8 v" "words32 16 ws"
  shows "sha256_block (as_words v) (as_words ws) = as_words (block_bits ks v ws) \<and> words32 8 (block_bits ks v ws)"
  using rounds_word [OF assms(1,3,4)] add_all_word [OF assms(3)] assms(2)
  by (simp add: sha256_block_def block_bits_def)

lemma blocks_word:
  assumes "list_all (\<lambda>k. length k = 32) ks" "as_words ks = sha256_k" "words32 8 v" "words32 (16 * n) ws"
  shows "sha256_blocks (as_words v) (as_words ws) = as_words (blocks_bits ks v ws) \<and> words32 8 (blocks_bits ks v ws)"
  using assms(3,4)
proof (induction n arbitrary: v ws)
  case 0
  then show ?case by (simp add: sha256_blocks.simps blocks_bits.simps)
next
  case (Suc n)
  from Suc(3) have "words32 16 (take 16 ws)" "words32 (16 * n) (drop 16 ws)" "ws \<noteq> []"
    by (auto simp: words32_def list_all_iff dest: in_set_takeD in_set_dropD)
  then show ?case
    using block_word [OF assms(1,2) Suc(2)] Suc(1)
    by (simp add: sha256_blocks.simps [of _ "as_words ws"] blocks_bits.simps [of _ _ ws] take_map drop_map)
qed

primrec be_chars :: "nat \<Rightarrow> int \<Rightarrow> bytes" where
  "be_chars 0 n = []"
| "be_chars (Suc k) n = be_chars k (n div 256) @ [char_of n]"

lemma be_bytes_chars: "be_bytes k n = be_chars k (int n)"
proof (induction k arbitrary: n)
  case (Suc k)
  have "char_of (int n) = char_of n" by (simp add: char_of_def bit_of_nat_iff)
  then show ?case by (simp add: Suc zdiv_int)
qed simp

definition pad_eval :: "bytes \<Rightarrow> bytes" where
  "pad_eval m = (let n = int (length m) in
     m @ char_of (128 :: nat) # replicate (nat ((55 - n) mod 64)) (char_of (0 :: nat)) @ be_chars 8 (8 * n))"

lemma pad_eval: "sha256_pad m = pad_eval m"
  by (simp add: sha256_pad_def pad_eval_def be_bytes_chars Let_def)

lemma length_pad: "\<exists>n. length (pad_eval m) = 64 * n"
proof -
  have l: "length (be_chars k n) = k" for k n by (induction k arbitrary: n) simp_all
  have "int (length (pad_eval m)) = int (length m) + 9 + (55 - int (length m)) mod 64" by (simp add: pad_eval_def Let_def l)
  also have "\<dots> mod 64 = 0" by (simp add: mod_add_right_eq)
  finally have "64 dvd length (pad_eval m)" by presburger
  then show ?thesis by (elim dvdE) blast
qed

definition sha256_bits :: "bytes \<Rightarrow> bool list" where
  "sha256_bits m = concat (rev (blocks_bits (map (bits 32) k_ints) (map (bits 32) init_ints) (be_bits (pad_eval m))))"


lemma sha256_bits:
  "sha256 m = word_of (sha256_bits m) \<and> length (sha256_bits m) = 256"
proof -
  define ws where "ws = blocks_bits (map (bits 32) k_ints) (map (bits 32) init_ints) (be_bits (pad_eval m))"
  have shift: "push_bit 32 (word_of acc) OR ucast (word_of w :: 32 word) = (word_of (w @ acc) :: digest)" if "length w = 32" for w acc
    by (rule bit_word_eqI) (auto simp: bit_simps bit_word_of nth_append that)
  have fold: "foldl (\<lambda>acc w. push_bit 32 acc OR ucast w) (word_of acc) (as_words us) = (word_of (concat (rev us) @ acc) :: digest)"
    if "list_all (\<lambda>w. length w = 32) us" for us acc
    using that by (induction us arbitrary: acc) (simp_all add: shift)
  obtain n where "length (pad_eval m) = 64 * n" using length_pad by blast
  then have "words32 (16 * n) (be_bits (pad_eval m))" by (simp add: words32_def be_words_bits length_be_bits)
  moreover have "words32 8 (map (bits 32) init_ints)" by (simp add: words32_def init_ints_def square_roots_def)
  moreover have "as_words (map (bits 32) k_ints) = sha256_k" "as_words (map (bits 32) init_ints) = sha256_init"
    by (simp_all add: sha256_k_ints sha256_init_ints word_of_bits32 o_def)
  moreover have "list_all (\<lambda>k. length k = 32) (map (bits 32) k_ints)" by (simp add: list_all_iff)
  ultimately have ws: "sha256_blocks sha256_init (be_words (sha256_pad m)) = as_words ws" "words32 8 ws"
    using blocks_word [of "map (bits 32) k_ints" "map (bits 32) init_ints" n "be_bits (pad_eval m)"]
    by (simp_all add: pad_eval be_words_bits ws_def)
  then have "list_all (\<lambda>w. length w = 32) ws" by (simp add: words32_def)
  from fold [OF this, of "[]"] have "sha256 m = word_of (concat (rev ws))" using ws(1) by (simp add: sha256_def)
  moreover have "length (concat (rev ws)) = 256" using ws(2) by (auto simp: words32_8)
  ultimately show ?thesis by (simp add: sha256_bits_def ws_def)
qed

lemma sha256_nonzero: "True \<in> set (sha256_bits m) \<Longrightarrow> sha256 m \<noteq> 0"
proof
  assume "True \<in> set (sha256_bits m)" "sha256 m = 0"
  then obtain i where "i < length (sha256_bits m)" "sha256_bits m ! i" by (auto simp: in_set_conv_nth)
  then have "bit (sha256 m) i" using sha256_bits [of m] by (simp add: bit_word_of)
  then show False using \<open>sha256 m = 0\<close> by simp
qed

fun hex_bits :: "bool list \<Rightarrow> bytes" where
  "hex_bits (a # b # c # d # r) = hex_bits r @ [hexdigit (of_bool a + 2 * (of_bool b + 2 * (of_bool c + 2 * of_bool d)))]"
| "hex_bits _ = []"

lemma hex_fixed_bits: "length bs = 4 * k \<Longrightarrow> hex_fixed k (horner_sum of_bool 2 bs) = hex_bits bs"
proof (induction k arbitrary: bs)
  case (Suc k)
  then obtain a b c d r where bs: "bs = a # b # c # d # r" "length r = 4 * k"
    by (auto simp: length_Suc_conv eval_nat_numeral)
  let ?n = "of_bool a + 2 * (of_bool b + 2 * (of_bool c + 2 * of_bool d)) :: nat"
  have "horner_sum of_bool 2 bs = ?n + 16 * horner_sum of_bool 2 r" "?n < 16" by (simp_all add: bs(1))
  then show ?case using Suc(1) [OF bs(2)] bs(1) by (simp only: hex_fixed.simps hex_bits.simps) simp
qed simp

lemma hex256_sha256: "hex256 (sha256 m) = hex_bits (sha256_bits m)"
proof -
  let ?bs = "sha256_bits m"
  have nat: "word_of bs = (of_nat (horner_sum of_bool 2 bs) :: digest)" for bs by (induction bs) simp_all
  have less: "horner_sum of_bool 2 bs < (2 ^ length bs :: nat)" for bs by (induction bs) auto
  have l: "length ?bs = 256" and w: "sha256 m = word_of ?bs" using sha256_bits by auto
  have "unat (sha256 m) = horner_sum of_bool 2 ?bs" using w less [of ?bs] l by (simp add: nat unsigned_of_nat take_bit_nat_eq_self)
  then show ?thesis using hex_fixed_bits [of ?bs 64] l by (simp add: hex256_def)
qed

text \<open>The vectors of FIPS 180-4: the empty message, one block and two blocks.\<close>

lemma sha256_empty: "hex256 (sha256 []) = ''e3b0c44298fc1c149afbf4c8996fb92427ae41e4649b934ca495991b7852b855''"
  unfolding hex256_sha256 by code_simp

lemma sha256_abc: "hex256 (sha256 ''abc'') = ''ba7816bf8f01cfea414140de5dae2223b00361a396177a9cb410ff61f20015ad''"
  unfolding hex256_sha256 by code_simp

lemma sha256_abc_long:
  "hex256 (sha256 ''abcdbcdecdefdefgefghfghighijhijkijkljklmklmnlmnomnopnopq'')
   = ''248d6a61d20638b8e5c026930c3e6039a33ce45964ff2167f6ecedd419db06c1''"
  unfolding hex256_sha256 by code_simp

end
