(* ===== verification/Sample.thy ===== *)
theory Sample
  imports Sha256_Eval Manifests
begin

section \<open>A sample snapshot\<close>

text \<open>
  The smallest interesting repository: one file \<open>a\<close> with one chunk, its directory, the first commit and the
  reference. The objects are linked by their real SHA-256 digests, computed here by rewriting. The witnesses
  of the consumer and of the publisher run on it.
\<close>

lemma digest_nonzero: "True \<in> set (sha256_bits (object_preimage kind data)) \<Longrightarrow> digestObject kind data \<noteq> 0"
  by (simp add: digestObject_def sha256_nonzero)

lemma digest_hex: "hex256 (digestObject kind data) = hex_bits (sha256_bits (object_preimage kind data))"
  by (simp add: digestObject_def hex256_sha256)

text \<open>A digest is zero exactly when its hexadecimal form is.\<close>

lemma hex256_zero: "hex256 0 = replicate 64 (CHR ''0'')"
proof -
  have "hexdigit 0 = CHR ''0''" by code_simp
  then have "hex_fixed k 0 = replicate k (CHR ''0'')" for k
    by (induction k) (simp_all add: replicate_append_same)
  then show ?thesis by (simp add: hex256_def)
qed

lemma hex256_nonzero: "hex256 d \<noteq> replicate 64 (CHR ''0'') \<Longrightarrow> d \<noteq> 0"
  using hex256_zero by metis

definition sample_data :: bytes where
  "sample_data = ''hello''"

definition sample_chunk :: digest where
  "sample_chunk = digestObject ''chunk'' sample_data"

lemma sample_chunk_hex: "hex256 sample_chunk = ''0986f9722824e313501ebf9b1f625f49c6547c3988f1dc9d148f22594747beed''"
  unfolding sample_chunk_def digest_hex by code_simp

definition sample_file :: fileManifest where
  "sample_file = \<lparr>fm_Format = 1, fm_Algorithm = ''rabin-v1'', fm_MinSize = 64, fm_AvgSize = 128, fm_MaxSize = 256,
     fm_Polynomial = defaultPolynomial, fm_Size = 5, fm_Chunks = Some [\<lparr>cr_Offset = 0, cr_Size = 5, cr_Digest = sample_chunk\<rparr>]\<rparr>"

definition sample_file_json :: bytes where
  "sample_file_json = ''{\"format\":1,\"algorithm\":\"rabin-v1\",\"min_size\":64,\"average_size\":128,\"max_size\":256,\"polynomial\":17349423945073011,\"size\":5,\"chunks\":[{\"offset\":0,\"size\":5,\"digest\":\"0986f9722824e313501ebf9b1f625f49c6547c3988f1dc9d148f22594747beed\"}]}''"

lemma sample_polynomial: "json_print (JNum 17349423945073011) = ''17349423945073011''"
  by (simp add: dec_int_def dec.simps) code_simp

lemma sample_file_json: "canonicalJSON fileManifest_to_json sample_file = sample_file_json"
proof -
  have "fileManifest_to_json sample_file = JObj [(''format'', JNum 1), (''algorithm'', JStr ''rabin-v1''),
      (''min_size'', JNum 64), (''average_size'', JNum 128), (''max_size'', JNum 256), (''polynomial'', JNum 17349423945073011),
      (''size'', JNum 5), (''chunks'', JArr [JObj [(''offset'', JNum 0), (''size'', JNum 5), (''digest'', JStr ''0986f9722824e313501ebf9b1f625f49c6547c3988f1dc9d148f22594747beed'')]])]"
    by (simp add: fileManifest_to_json_def sample_file_def chunkRef_to_json_def slice_json_def digest_json_def uint_json_def
        sample_chunk_hex defaultPolynomial_def)
  moreover have "json_print (JObj [(''format'', JNum 1), (''algorithm'', JStr ''rabin-v1''),
      (''min_size'', JNum 64), (''average_size'', JNum 128), (''max_size'', JNum 256), (''polynomial'', JNum 17349423945073011),
      (''size'', JNum 5), (''chunks'', JArr [JObj [(''offset'', JNum 0), (''size'', JNum 5), (''digest'', JStr ''0986f9722824e313501ebf9b1f625f49c6547c3988f1dc9d148f22594747beed'')]])])
    = sample_file_json"
    unfolding sample_file_json_def json_print.simps(6) list.map prod.case sample_polynomial by code_simp
  ultimately show ?thesis by (simp add: canonicalJSON_def)
qed

definition sample_file_digest :: digest where
  "sample_file_digest = digestObject ''file'' (canonicalJSON fileManifest_to_json sample_file)"

lemma sample_file_hex: "hex256 sample_file_digest = ''192957267522c32c975e7ff290a7dcac5ac23979709886b34a3ab7e2f5f8edd4''"
  unfolding sample_file_digest_def sample_file_json digest_hex by code_simp

definition sample_entry :: dirEntry where
  "sample_entry = \<lparr>de_Name = Some ''a'', de_Type = EntryFile, de_Node = sample_file_digest, de_Mode = 420, de_Size = 5,
     de_ModTimeUnixNano = 0\<rparr>"

definition sample_root :: dirManifest where
  "sample_root = \<lparr>dm_Format = 1, dm_Entries = Some [sample_entry]\<rparr>"

definition sample_root_json :: bytes where
  "sample_root_json = ''{\"format\":1,\"entries\":[{\"name\":\"YQ==\",\"type\":\"file\",\"node\":\"192957267522c32c975e7ff290a7dcac5ac23979709886b34a3ab7e2f5f8edd4\",\"mode\":420,\"size\":5,\"mtime_unix_nano\":0}]}''"

lemma sample_root_json: "canonicalJSON dirManifest_to_json sample_root = sample_root_json"
proof -
  have "dirManifest_to_json sample_root = JObj [(''format'', JNum 1), (''entries'', JArr [JObj [(''name'', JStr (b64_std_encode ''a'')),
      (''type'', JStr ''file''), (''node'', JStr ''192957267522c32c975e7ff290a7dcac5ac23979709886b34a3ab7e2f5f8edd4''), (''mode'', JNum 420), (''size'', JNum 5), (''mtime_unix_nano'', JNum 0)]])]"
    by (simp add: dirManifest_to_json_def sample_root_def sample_entry_def dirEntry_to_json_def slice_json_def digest_json_def uint_json_def
        bytes_json_def sample_file_hex)
  moreover have "json_print (JObj [(''format'', JNum 1), (''entries'', JArr [JObj [(''name'', JStr (b64_std_encode ''a'')),
      (''type'', JStr ''file''), (''node'', JStr ''192957267522c32c975e7ff290a7dcac5ac23979709886b34a3ab7e2f5f8edd4''), (''mode'', JNum 420), (''size'', JNum 5), (''mtime_unix_nano'', JNum 0)]])])
    = sample_root_json"
    unfolding sample_root_json_def by code_simp
  ultimately show ?thesis by (simp add: canonicalJSON_def)
qed

definition sample_root_digest :: digest where
  "sample_root_digest = digestObject ''dir'' (canonicalJSON dirManifest_to_json sample_root)"

lemma sample_root_hex: "hex256 sample_root_digest = ''8ab7ea226093231431d20572fb3158dfd75fbccff3377f1974b94c7a87a0d417''"
  unfolding sample_root_digest_def sample_root_json digest_hex by code_simp

definition sample_commit :: commitManifest where
  "sample_commit = \<lparr>cm_Format = 1, cm_Generation = 1, cm_Parent = None, cm_Root = sample_root_digest, cm_PublishedAtUnix = 0,
     cm_ResetChanges = False\<rparr>"

definition sample_commit_json :: bytes where
  "sample_commit_json = ''{\"format\":1,\"generation\":1,\"root\":\"8ab7ea226093231431d20572fb3158dfd75fbccff3377f1974b94c7a87a0d417\",\"published_at_unix_nano\":0,\"reset_changes\":false}''"

lemma sample_commit_json: "canonicalJSON commitManifest_to_json sample_commit = sample_commit_json"
proof -
  have "commitManifest_to_json sample_commit = JObj [(''format'', JNum 1), (''generation'', JNum 1), (''root'', JStr ''8ab7ea226093231431d20572fb3158dfd75fbccff3377f1974b94c7a87a0d417''),
      (''published_at_unix_nano'', JNum 0), (''reset_changes'', JBool False)]"
    by (simp add: commitManifest_to_json_def sample_commit_def digest_json_def uint_json_def sample_root_hex)
  moreover have "json_print (JObj [(''format'', JNum 1), (''generation'', JNum 1), (''root'', JStr ''8ab7ea226093231431d20572fb3158dfd75fbccff3377f1974b94c7a87a0d417''),
      (''published_at_unix_nano'', JNum 0), (''reset_changes'', JBool False)]) = sample_commit_json"
    unfolding sample_commit_json_def by code_simp
  ultimately show ?thesis by (simp add: canonicalJSON_def)
qed

definition sample_commit_digest :: digest where
  "sample_commit_digest = digestObject ''commit'' (canonicalJSON commitManifest_to_json sample_commit)"

lemma sample_commit_hex: "hex256 sample_commit_digest = ''5362a121c3047661abee1638253afa8f30d7fccb41e4c0bcc8b4caf229a8563d''"
  unfolding sample_commit_digest_def sample_commit_json digest_hex by code_simp

definition sample_reference :: snapshotReference where
  "sample_reference = \<lparr>sr_Format = 1, sr_Generation = 1, sr_Commit = sample_commit_digest\<rparr>"

definition sample_reference_json :: bytes where
  "sample_reference_json = ''{\"format\":1,\"generation\":1,\"commit\":\"5362a121c3047661abee1638253afa8f30d7fccb41e4c0bcc8b4caf229a8563d\"}''"

lemma sample_reference_json: "canonicalJSON snapshotReference_to_json sample_reference = sample_reference_json"
proof -
  have "snapshotReference_to_json sample_reference = JObj [(''format'', JNum 1), (''generation'', JNum 1), (''commit'', JStr ''5362a121c3047661abee1638253afa8f30d7fccb41e4c0bcc8b4caf229a8563d'')]"
    by (simp add: snapshotReference_to_json_def sample_reference_def digest_json_def uint_json_def sample_commit_hex)
  moreover have "json_print (JObj [(''format'', JNum 1), (''generation'', JNum 1), (''commit'', JStr ''5362a121c3047661abee1638253afa8f30d7fccb41e4c0bcc8b4caf229a8563d'')]) = sample_reference_json"
    unfolding sample_reference_json_def by code_simp
  ultimately show ?thesis by (simp add: canonicalJSON_def)
qed

lemma sample_nonzero [simp]:
  "sample_chunk \<noteq> 0" "sample_file_digest \<noteq> 0" "sample_root_digest \<noteq> 0" "sample_commit_digest \<noteq> 0"
  by (rule hex256_nonzero, simp add: sample_chunk_hex sample_file_hex sample_root_hex sample_commit_hex eval_nat_numeral)+

end
