(* ===== verification/Consumer_Sample.thy ===== *)
theory Consumer_Sample
  imports Consumer_Live Sample
begin

section \<open>A consumer of the sample snapshot\<close>

text \<open>
  A store that serves the objects of \<open>Sample\<close> and never changes, and a consumer of it without a verifier,
  watermarks or a chunk cache. The hypotheses of the liveness lemmas hold for it, so the witnesses of the
  consumer's properties run on a snapshot that was really adopted and a file that was really opened.
\<close>

text \<open>The repository without its reader fixes the keys.\<close>

definition sample_keys :: "'w Repository" where
  "sample_keys = \<lparr>rp_reader = \<lparr>Get = (\<lambda>_ _. throw [ErrObjectNotFound])\<rparr>, rp_store = None, rp_prefix = [],
     rp_clientEncryption = None, rp_descriptor = None\<rparr>"

definition sample_objects :: "bytes \<rightharpoonup> bytes" where
  "sample_objects = map_of [
     (ReferenceKey (sample_keys :: unit Repository) ''main'', canonicalJSON snapshotReference_to_json sample_reference),
     (objectKey (sample_keys :: unit Repository) ''commit'' sample_commit_digest, canonicalJSON commitManifest_to_json sample_commit),
     (objectKey (sample_keys :: unit Repository) ''dir'' sample_root_digest, canonicalJSON dirManifest_to_json sample_root),
     (objectKey (sample_keys :: unit Repository) ''file'' sample_file_digest, canonicalJSON fileManifest_to_json sample_file),
     (objectKey (sample_keys :: unit Repository) ''chunk'' sample_chunk, sample_data)]"

definition sample_version :: Version where
  "sample_version = \<lparr>v_ETag = ''v1'', v_VersionID = []\<rparr>"

definition sample_repository :: "'w Repository" where
  "sample_repository = sample_keys\<lparr>rp_reader := \<lparr>Get = (\<lambda>key opt. case sample_objects key of
     None \<Rightarrow> throw [ErrObjectNotFound]
   | Some data \<Rightarrow> if go_IfNoneMatch opt = ''v1'' then throw [ErrNotModified]
       else return (Inr \<lparr>ob_Data = data, ob_Version = sample_version\<rparr>))\<rparr>\<rparr>"

definition sample_env :: "'w Env" where
  "sample_env = \<lparr>ev_ctx = return None, ev_select = return None, ev_wait = return plain_error, ev_deg = (\<lambda>_. 53),
     ev_irreducible = (\<lambda>_. True), ev_capEntries = (\<lambda>_. 1), ev_capName = (\<lambda>_. 1), ev_capChunks = (\<lambda>_. 1), ev_capTarget = (\<lambda>_. 1)\<rparr>"

definition sample_options :: "'w WatermarkStore option \<Rightarrow> 'w ConsumerOptions" where
  "sample_options wms = \<lparr>op_Cache = None, op_Watermarks = wms, op_RequirePersistentWatermark = False, op_ReferenceVerifier = None,
     op_DangerouslyAllowCustomReferenceVerifier = False, op_TrustedCheckpoint = None, op_AllowTrustOnFirstUse = False,
     op_Symlinks = SymlinkRejectExternal, op_MetadataCacheEntries = 0, op_MetadataCacheBytes = 0, op_MaxConcurrentDownloads = 0,
     op_MaxConcurrentDownloadBytes = 0, op_StrictCacheErrors = False, op_OnCacheError = None\<rparr>"

lemma sample_key_eq [simp]:
  "objectKey sample_repository = objectKey (sample_keys :: unit Repository)"
  "ReferenceKey sample_repository = ReferenceKey (sample_keys :: unit Repository)"
  "SignedReferenceKey sample_repository = SignedReferenceKey (sample_keys :: unit Repository)"
  by (intro ext; simp add: sample_repository_def objectKey_def ReferenceKey_def SignedReferenceKey_def repository_key_def Let_def sample_keys_def)+

lemma sample_objects_simps:
  "sample_objects (ReferenceKey (sample_keys :: unit Repository) ''main'') = Some (canonicalJSON snapshotReference_to_json sample_reference)"
  "sample_objects (objectKey (sample_keys :: unit Repository) ''commit'' sample_commit_digest) = Some (canonicalJSON commitManifest_to_json sample_commit)"
  "sample_objects (objectKey (sample_keys :: unit Repository) ''dir'' sample_root_digest) = Some (canonicalJSON dirManifest_to_json sample_root)"
  "sample_objects (objectKey (sample_keys :: unit Repository) ''file'' sample_file_digest) = Some (canonicalJSON fileManifest_to_json sample_file)"
  "sample_objects (objectKey (sample_keys :: unit Repository) ''chunk'' sample_chunk) = Some sample_data"
  by (simp_all add: sample_objects_def namespaces_distinct namespaces_distinct [symmetric] objectKey_inject object_kinds_def)

lemma sample_serves:
  "sample_objects key = Some data \<Longrightarrow> serves sample_repository w key data sample_version"
  by (simp add: serves_def sample_repository_def sample_version_def MaxStoreVersionTokenBytes_def)

lemma sample_calm: "calm sample_env w"
  by (simp add: calm_def sample_env_def)

lemma sample_dir_object: "dir_object sample_root_digest sample_root"
  by (simp add: dir_object_def sample_root_digest_def wf_dirManifest_def wf_dirEntry_def validateDirectoryManifest_def validate_entry_def
      sample_root_def sample_entry_def limits maxRepresentableFileBytes_def ascii_utf8_valid is_int64_def maxInt64_def sample_file_digest_def [symmetric])

lemma sample_wf_file: "wf_fileManifest sample_file"
  by (simp add: wf_fileManifest_def wf_chunkRef_def sample_file_def ascii_utf8_valid is_int64_def maxInt64_def)

lemma sample_file_valid: "validateFileManifest (ev_deg sample_env) (ev_irreducible sample_env) sample_file = None"
proof -
  have "ChunkingOptions_normalized (ev_deg sample_env) (ev_irreducible sample_env) (manifest_profile sample_file) = Inr (manifest_profile sample_file)"
    by (rule normalized_fixed) (simp_all add: manifest_profile_def sample_file_def sample_env_def maxChunkObjectBytes_def defaultPolynomial_def)
  then show ?thesis
    by (simp add: validateFileManifest_def sample_file_def limits wrap64_def)
qed

lemma sample_file_object: "file_object sample_env sample_file_digest sample_file"
  using sample_wf_file sample_file_valid by (simp add: file_object_def sample_file_digest_def)

lemma sample_wf_commit: "wf_commitManifest sample_commit" "validateCommitManifest sample_commit 1 = None"
  by (simp_all add: wf_commitManifest_def validateCommitManifest_def sample_commit_def is_int64_def maxInt64_def limits)

text \<open>The lengths of the objects.\<close>

lemma sample_lengths:
  "len (canonicalJSON fileManifest_to_json sample_file) \<le> maxMetadataObjectBytes"
  "len (canonicalJSON dirManifest_to_json sample_root) \<le> maxMetadataObjectBytes"
  "len (canonicalJSON commitManifest_to_json sample_commit) \<le> maxMetadataObjectBytes"
  by (simp_all add: sample_file_json sample_root_json sample_commit_json sample_file_json_def sample_root_json_def sample_commit_json_def limits)

lemma sample_manifests:
  "serves_manifest sample_repository w fileManifest_to_json ''file'' sample_file_digest sample_file"
  "serves_manifest sample_repository w dirManifest_to_json ''dir'' sample_root_digest sample_root"
  "serves_manifest sample_repository w commitManifest_to_json ''commit'' sample_commit_digest sample_commit"
  using sample_lengths
  by (auto simp: serves_manifest_def sample_file_digest_def [symmetric] sample_root_digest_def [symmetric] sample_commit_digest_def [symmetric]
      intro!: exI [of _ sample_version] sample_serves sample_objects_simps)

lemma sample_chunk_served:
  "serves_chunk sample_repository w \<lparr>cr_Offset = 0, cr_Size = 5, cr_Digest = sample_chunk\<rparr> sample_data"
proof -
  have "length sample_data = 5" by (simp add: sample_data_def)
  then show ?thesis
    by (auto simp: serves_chunk_def chunk_object_def sample_chunk_def [symmetric] intro!: exI [of _ sample_version] sample_serves sample_objects_simps)
qed

text \<open>The reference is small and read back.\<close>

lemma sample_reference_verified:
  "run_state (VerifySnapshotReference (ev_ctx sample_env) (canonicalJSON snapshotReference_to_json sample_reference) ''main'' None) w
   = (Inr \<lparr>si_RepositoryID = 0, si_Generation = 1, si_Commit = sample_commit_digest, si_Authenticated = False\<rparr>, w)"
proof -
  have wf: "wf_snapshotReference sample_reference" by (simp add: wf_snapshotReference_def sample_reference_def is_int64_def maxInt64_def limits)
  have "len (canonicalJSON snapshotReference_to_json sample_reference) \<le> maxReferenceBytes" "canonicalJSON snapshotReference_to_json sample_reference \<noteq> []"
    by (simp_all add: sample_reference_json sample_reference_json_def limits)
  then show ?thesis
    using sr.decode_canonical [OF wf]
    by (simp add: VerifySnapshotReference_def sample_env_def validateChannel_def ascii_utf8_valid limits sample_reference_def)
qed

subsection \<open>Its run\<close>

definition sample_consumer :: "'w WatermarkStore option \<Rightarrow> 'w Consumer" where
  "sample_consumer wms = \<lparr>cn_repository = sample_repository, cn_channel = ''main'', cn_cache = None, cn_watermarks = wms,
     cn_referenceVerifier = None, cn_trustedCheckpoint = None, cn_allowTrustOnFirstUse = False,
     cn_symlinkPolicy = SymlinkRejectExternal, cn_strictCacheErrors = False, cn_onCacheError = None, cn_downloadSlots = 8\<rparr>"

definition sample_start :: "'w \<Rightarrow> 'w cstate" where
  "sample_start w = \<lparr>cs_world = w, cs_slots = 0, cs_bytes = NewWeightedSemaphore DefaultMaxConcurrentDownloadBytes (Some [ErrResourceLimit]),
     cs_state = None, cs_watermark = zero_watermark, cs_watermarkLoaded = False, cs_checkpointValidated = zero_watermark,
     cs_metadata = newMetadataCache defaultMetadataCacheEntries defaultMetadataCacheBytes, cs_panicked = False\<rparr>"

lemma sample_channel: "repository_validateChannel sample_repository ''main'' = None"
proof -
  have "length (SignedReferenceKey (sample_keys :: unit Repository) ''main'') \<le> 100"
    by (simp add: SignedReferenceKey_def repository_key_def sample_keys_def repositoryNamespace_def) code_simp
  then show ?thesis
    by (simp add: repository_validateChannel_def validateChannel_def ascii_utf8_valid maxObjectKeyBytes_def)
qed

lemma sample_new: "NewConsumer sample_repository ''main'' (sample_options wms) w = Inr (sample_consumer wms, sample_start w)"
  unfolding NewConsumer_def sample_channel option.case
  by (simp add: sample_options_def check_verifier_def or_default_def defaultMetadataCacheEntries_def defaultMetadataCacheBytes_def
      maxMetadataCacheBytes_def DefaultMaxConcurrentDownloadBytes_def MaxConcurrentDownloadBytesLimit_def maxChunkObjectBytes_def
      sample_consumer_def sample_start_def)

definition sample_adopted :: adoptedSnapshot where
  "sample_adopted = \<lparr>as_reference = sample_reference, as_commit = sample_commit, as_version = sample_version\<rparr>"

definition sample_known :: "metadataCacheKey \<rightharpoonup> metadata" where
  "sample_known = [\<lparr>mk_kind = ''dir'', mk_digest = sample_root_digest\<rparr> \<mapsto> MDir sample_root,
     \<lparr>mk_kind = ''file'', mk_digest = sample_file_digest\<rparr> \<mapsto> MFile sample_file]"

lemma sample_start_inv:
  "cinv sample_env (0, 0) (sample_start w)" "agrees sample_env sample_known (sample_start w)"
  by (simp_all add: cinv_def agrees_def idle_def sample_start_def NewWeightedSemaphore_def newMetadataCache_inv
      DefaultMaxConcurrentDownloadBytes_def defaultMetadataCacheBytes_def maxMetadataCacheBytes_def)

lemma sample_publishes: "publishes sample_env (sample_consumer wms) sample_known w sample_adopted"
proof -
  have "serves_reference sample_env (sample_consumer wms) w sample_reference sample_version"
    using sample_serves [OF sample_objects_simps(1), where w = w] sample_reference_verified [of w]
    by (auto simp: serves_reference_def sample_consumer_def sample_reference_def limits)
  moreover have "cm_Root sample_commit = sample_root_digest" "sr_Commit sample_reference = sample_commit_digest" "sr_Generation sample_reference = 1"
    by (simp_all add: sample_commit_def sample_reference_def)
  ultimately show ?thesis
    using sample_manifests [of w] sample_dir_object sample_wf_commit
    by (auto simp: publishes_def sample_adopted_def serves_commit_def sample_consumer_def sample_known_def)
qed

definition sample_watermark :: Watermark where
  "sample_watermark = \<lparr>wm_RepositoryID = 0, wm_Generation = 1, wm_Commit = sample_commit_digest\<rparr>"

lemma sample_refresh:
  assumes "\<And>store. wms = Some store \<Longrightarrow> run_state (ws_Load store ''main'') w = (Inr None, w)
    \<and> fst (run_state (ws_CompareAndSwap store ''main'' None sample_watermark) w) = None"
  shows "\<exists>s. run_state (Refresh sample_env (sample_consumer wms)) (sample_start w) = ((\<lparr>rr_Status = RefreshUpdated, rr_Generation = 1\<rparr>, None), s)
    \<and> cs_state s = Some sample_adopted \<and> agrees sample_env sample_known s \<and> cinv sample_env (0, 0) s"
proof -
  have w: "reference_watermark (sample_consumer wms) sample_reference = sample_watermark"
    by (simp add: reference_watermark_def sample_watermark_def sample_consumer_def sample_reference_def)
  have "remembers (sample_consumer wms) (sample_start w) zero_watermark"
    using assms by (simp add: remembers_def sample_consumer_def sample_start_def zero_watermark_def split: option.split)
  moreover have "records (sample_consumer wms) w zero_watermark sample_watermark"
    using assms by (auto simp: records_def sample_consumer_def zero_watermark_def)
  ultimately obtain s where s: "run_state (Refresh sample_env (sample_consumer wms)) (sample_start w) = ((\<lparr>rr_Status = RefreshUpdated, rr_Generation = 1\<rparr>, None), s)"
    "cs_state s = Some sample_adopted" "agrees sample_env sample_known s"
    using Refresh_adopts [OF _ sample_start_inv(1) _ _ sample_start_inv(2), of w "sample_consumer wms" sample_adopted zero_watermark]
      sample_publishes [of wms w] sample_calm [of w] w
    by (auto simp: sample_start_def zero_watermark_def sample_consumer_def sample_adopted_def sample_reference_def)
  moreover have "cinv sample_env (0, 0) s"
    using wp_run [OF any.Refresh_spec [OF sample_start_inv(1)] s(1)] by blast
  ultimately show ?thesis by blast
qed

lemma sample_lookup: "lookup_entry (elems (dm_Entries sample_root)) ''a'' = Some sample_entry"
  using lookup_entry_find [OF validateDirectoryManifest_None(2) [of sample_root], of "''a''"] sample_dir_object
  by (simp add: dir_object_def sample_root_def sample_entry_def)

lemma sample_open:
  assumes "cs_state s = Some sample_adopted" "agrees sample_env sample_known s" "cinv sample_env (0, 0) s"
  shows "\<exists>s'. run_state (Open sample_env (sample_consumer wms) ''a'') s = (Inr \<lparr>fl_manifest = sample_file, fl_generation = 1\<rparr>, s') \<and> cinv sample_env (0, 0) s'"
proof -
  have "serves_walk (cn_repository (sample_consumer wms)) (cs_world s) sample_known (cm_Root (as_commit sample_adopted)) [''a''] sample_entry"
    using sample_manifests(2) [of "cs_world s"] sample_dir_object
    by (intro serves_walk.entry [OF _ _ _ sample_lookup]) (auto simp: sample_consumer_def sample_adopted_def sample_commit_def sample_known_def)
  moreover have "cleanLookupPath ''a'' = Inr [''a'']"
  proof -
    have "path_Clean ''a'' = ''a''" by code_simp
    then show ?thesis by (simp add: cleanLookupPath_def trim_prefix_def has_prefix_def Let_def limits)
  qed
  moreover have "roomy (sample_consumer wms) maxMetadataObjectBytes s"
    using assms(3) by (rule roomy_idle) (simp_all add: sample_consumer_def limits)
  ultimately have "\<exists>c. run_state (Open sample_env (sample_consumer wms) ''a'') s = (Inr \<lparr>fl_manifest = sample_file, fl_generation = 1\<rparr>, s\<lparr>cs_metadata := c\<rparr>)"
    using Open_served [of "''a''" "[''a'']" s sample_adopted "sample_consumer wms" sample_known sample_entry sample_env sample_file]
      assms sample_calm [of "cs_world s"] sample_file_object sample_manifests(1) [of "cs_world s"]
    by (auto simp: sample_entry_def sample_consumer_def sample_known_def sample_adopted_def sample_reference_def sample_file_def)
  then obtain s' where "run_state (Open sample_env (sample_consumer wms) ''a'') s = (Inr \<lparr>fl_manifest = sample_file, fl_generation = 1\<rparr>, s')" by blast
  moreover from wp_run [OF any.Open_spec [OF assms(3)] this] have "cinv sample_env (0, 0) s'" by blast
  ultimately show ?thesis by blast
qed

end
