(* ===== verification/Consumer_Properties.thy ===== *)
theory Consumer_Properties
  imports Consumer_Sample
begin

section \<open>Runs of a consumer\<close>

text \<open>
  A run interleaves the calls of a client with changes that other processes, other machines and the
  object store make to the world. The properties hold after any run.
\<close>

type_synonym 'w session = "'w cstate \<times> File list"

text \<open>The second component holds the file handles the client has opened; \<open>others\<close> bounds what the rest of
  the world does between two calls. A slice has at most \<open>maxInt64\<close> bytes.\<close>

inductive consumer_step :: "'w Env \<Rightarrow> 'w Consumer \<Rightarrow> ('w \<Rightarrow> 'w \<Rightarrow> bool) \<Rightarrow> 'w session \<Rightarrow> 'w session \<Rightarrow> bool"
  for env consumer others where
  refreshes: "run_state (Refresh env consumer) s = (r, s') \<Longrightarrow> consumer_step env consumer others (s, fs) (s', fs)"
| stats: "run_state (Stat env consumer path) s = (r, s') \<Longrightarrow> consumer_step env consumer others (s, fs) (s', fs)"
| lists: "run_state (ListDir env consumer path) s = (r, s') \<Longrightarrow> consumer_step env consumer others (s, fs) (s', fs)"
| readlinks: "run_state (Readlink env consumer path) s = (r, s') \<Longrightarrow> consumer_step env consumer others (s, fs) (s', fs)"
| opens: "run_state (Open env consumer path) s = (r, s') \<Longrightarrow>
    consumer_step env consumer others (s, fs) (s', case r of Inr f \<Rightarrow> f # fs | Inl e \<Rightarrow> fs)"
| reads: "\<lbrakk>f \<in> set fs; int room \<le> maxInt64; run_state (ReadAtContext env consumer f room offset) s = (r, s')\<rbrakk> \<Longrightarrow>
    consumer_step env consumer others (s, fs) (s', fs)"
| others: "others (cs_world s) w \<Longrightarrow> consumer_step env consumer others (s, fs) (s\<lparr>cs_world := w\<rparr>, fs)"

abbreviation consumer_run :: "'w Env \<Rightarrow> 'w Consumer \<Rightarrow> ('w \<Rightarrow> 'w \<Rightarrow> bool) \<Rightarrow> 'w session \<Rightarrow> 'w session \<Rightarrow> bool" where
  "consumer_run env consumer others \<equiv> (consumer_step env consumer others)\<^sup>*\<^sup>*"

definition session_inv :: "'w Env \<Rightarrow> 'w session \<Rightarrow> bool" where
  "session_inv env x \<longleftrightarrow> cinv env (0, 0) (fst x) \<and> (\<forall>f \<in> set (snd x). \<exists>d. file_object env d (fl_manifest f))"

lemma new_session_inv:
  assumes "NewConsumer repository channel options w = Inr (consumer, s)"
  shows "session_inv env (s, [])" "cs_state s = None" "cs_world s = w" "cs_watermark s = zero_watermark"
  using assms
  by (auto simp: NewConsumer_def session_inv_def cinv_def idle_def NewWeightedSemaphore_def Let_def not_less
      split: option.splits if_splits intro!: newMetadataCache_inv)

text \<open>The same snapshot, or one of a later generation.\<close>

definition newer :: "adoptedSnapshot \<Rightarrow> adoptedSnapshot \<Rightarrow> bool" where
  "newer a b \<longleftrightarrow> as_reference b = as_reference a \<and> as_commit b = as_commit a \<or> sr_Generation (as_reference a) < sr_Generation (as_reference b)"

lemma newer_trans: "newer a b \<Longrightarrow> newer b c \<Longrightarrow> newer a c"
  by (auto simp: newer_def)

context consumer_env
begin

lemma step_progress:
  assumes "consumer_step env consumer oth x y" "oth \<le> R" "session_inv env x"
  shows "session_inv env y \<and> R (cs_world (fst x)) (cs_world (fst y)) \<and> ((\<exists>r. refreshed (fst x) r (fst y)) \<or> stays (fst x) (fst y))"
  using assms(1)
proof cases
  case (refreshes s r s' fs)
  then have "cinv env (0, 0) s" using assms(3) by (simp add: session_inv_def)
  from wp_run [OF Refresh_spec [OF this] refreshes(3)] show ?thesis
    using refreshes assms(3) by (cases r) (auto simp: session_inv_def)
next
  case (stats path s r s' fs)
  then have "cinv env (0, 0) s" using assms(3) by (simp add: session_inv_def)
  from wp_run [OF Stat_spec [OF this] stats(3)] show ?thesis
    using stats assms(3) frame_moved by (auto simp: session_inv_def stays_def frame_def)
next
  case (lists path s r s' fs)
  then have "cinv env (0, 0) s" using assms(3) by (simp add: session_inv_def)
  from wp_run [OF ListDir_spec [OF this] lists(3)] show ?thesis
    using lists assms(3) frame_moved by (auto simp: session_inv_def stays_def frame_def)
next
  case (readlinks path s r s' fs)
  then have "cinv env (0, 0) s" using assms(3) by (simp add: session_inv_def)
  from wp_run [OF Readlink_spec [OF this] readlinks(3)] show ?thesis
    using readlinks assms(3) frame_moved by (auto simp: session_inv_def stays_def frame_def)
next
  case (opens path s r s' fs)
  then have "cinv env (0, 0) s" using assms(3) by (simp add: session_inv_def)
  from wp_run [OF Open_spec [OF this] opens(3)] show ?thesis
    using opens assms(3) frame_moved by (auto simp: session_inv_def stays_def frame_def split: sum.split)
next
  case (reads f fs room offset s r s')
  then obtain d where "cinv env (0, 0) s" "file_object env d (fl_manifest f)" using assms(3) by (auto simp: session_inv_def)
  from wp_run [OF specD [OF ReadAtContext_spec [OF this(2) reads(4)] this(1)] reads(5)] show ?thesis
    using reads assms(3) frame_moved by (auto simp: session_inv_def stays_def frame_def)
next
  case (others s w fs)
  then show ?thesis using assms(3) predicate2D [OF assms(2)] by (auto simp: session_inv_def stays_def moved_def)
qed

lemma run_progress:
  assumes "consumer_run env consumer oth x y" "oth \<le> R" "session_inv env x"
  shows "session_inv env y \<and> R (cs_world (fst x)) (cs_world (fst y))"
  using assms(1)
proof induction
  case (step y z)
  then show ?case using step_progress [OF step(2) assms(2)] R_trans by blast
qed (use assms(3) in simp)

text \<open>The adopted commit is found under the digest of the reference.\<close>

definition snapshot_ok :: "'w cstate \<Rightarrow> bool" where
  "snapshot_ok s \<longleftrightarrow> (\<forall>a. cs_state s = Some a \<longrightarrow> commit_object (sr_Commit (as_reference a)) (as_commit a)
     \<and> validateCommitManifest (as_commit a) (sr_Generation (as_reference a)) = None \<and> sr_Generation (as_reference a) \<noteq> 0)"

lemma view_Some:
  "view s' = view s \<Longrightarrow> cs_state s = Some a \<Longrightarrow> \<exists>b. cs_state s' = Some b \<and> as_reference b = as_reference a \<and> as_commit b = as_commit a"
  by (auto simp: view_def)

lemma step_snapshot:
  assumes "consumer_step env consumer oth x y" "oth \<le> R" "session_inv env x"
  shows "(snapshot_ok (fst x) \<longrightarrow> snapshot_ok (fst y))
    \<and> (\<forall>a. cs_state (fst x) = Some a \<longrightarrow> (\<exists>b. cs_state (fst y) = Some b \<and> newer a b))"
proof -
  from step_progress [OF assms] consider r where "refreshed (fst x) r (fst y)" | "stays (fst x) (fst y)" by blast
  then show ?thesis
  proof cases
    case (1 r)
    show ?thesis
    proof (cases "rr_Status (fst r) = RefreshUpdated")
      case True
      then obtain t reference where t: "ready (fst x) t" "snd r = None" "sr_Generation reference \<noteq> 0"
        "compare_reference (cs_watermark t) (cs_state t) reference = None" "adopted reference t r (fst y)"
        using 1 by (auto simp: refreshed_def)
      have "cs_state t = cs_state (fst x)" using t(1) by (simp add: ready_def moved_def)
      then show ?thesis using t(2,3,5) compare_newer(1) [OF t(4)] by (auto simp: adopted_def exposed_def snapshot_ok_def newer_def)
    next
      case False
      then have v: "view (fst y) = view (fst x)" using 1 by (simp add: refreshed_def)
      then show ?thesis using view_Some [OF v] view_Some [OF v [symmetric]] by (fastforce simp: snapshot_ok_def newer_def)
    qed
  next
    case 2
    then show ?thesis by (auto simp: stays_def moved_def snapshot_ok_def newer_def)
  qed
qed

lemma run_snapshot:
  assumes "consumer_run env consumer oth x y" "oth \<le> R" "session_inv env x"
  shows "(snapshot_ok (fst x) \<longrightarrow> snapshot_ok (fst y))
    \<and> (\<forall>a. cs_state (fst x) = Some a \<longrightarrow> (\<exists>b. cs_state (fst y) = Some b \<and> newer a b))"
  using assms(1)
proof induction
  case base
  then show ?case by (simp add: newer_def)
next
  case (step y z)
  have "session_inv env y" using run_progress [OF step(1) assms(2,3)] by blast
  from step_snapshot [OF step(2) assms(2) this] step(3) newer_trans show ?case by blast
qed

text \<open>Without a watermark store the watermark in memory follows the snapshot, and every adoption extends the
  hash chain of commits.\<close>

definition follows :: "'w cstate \<Rightarrow> bool" where
  "follows s \<longleftrightarrow> (case cs_state s of None \<Rightarrow> wm_Generation (cs_watermark s) = 0
     | Some a \<Rightarrow> wm_Generation (cs_watermark s) = sr_Generation (as_reference a) \<and> wm_Commit (cs_watermark s) = sr_Commit (as_reference a)
         \<and> sr_Generation (as_reference a) \<noteq> 0)"

lemma step_follows:
  assumes "consumer_step env consumer oth x y" "oth \<le> R" "session_inv env x"
    and n: "cn_watermarks consumer = None" and f: "follows (fst x)"
  shows "follows (fst y) \<and> (\<forall>a. cs_state (fst x) = Some a \<longrightarrow> (\<exists>b. cs_state (fst y) = Some b \<and>
    descends (sr_Commit (as_reference b)) (sr_Generation (as_reference b)) (sr_Commit (as_reference a)) (sr_Generation (as_reference a))))"
proof -
  from step_progress [OF assms(1-3)] consider r where "refreshed (fst x) r (fst y)" | "stays (fst x) (fst y)" by blast
  then show ?thesis
  proof cases
    case (1 r)
    show ?thesis
    proof (cases "rr_Status (fst r) = RefreshUpdated")
      case True
      then obtain t reference where t: "ready (fst x) t" "snd r = None" "sr_Generation reference \<noteq> 0" "adopted reference t r (fst y)"
        using 1 by (auto simp: refreshed_def)
      have "cs_state t = cs_state (fst x)" "cs_watermark t = cs_watermark (fst x)" using t(1) n by (auto simp: ready_def moved_def)
      then show ?thesis using t(2-4) f by (auto simp: adopted_def exposed_def continues_def follows_def split: option.splits)
    next
      case False
      then have v: "view (fst y) = view (fst x)" "cs_watermark (fst y) = cs_watermark (fst x)" using 1 n by (auto simp: refreshed_def)
      show ?thesis
      proof (cases "cs_state (fst x)")
        case None
        then show ?thesis using v f by (auto simp: view_def follows_def)
      next
        case (Some a)
        then show ?thesis using view_Some [OF v(1) Some] v f by (auto simp: follows_def intro: descends.same)
      qed
    qed
  next
    case 2
    then show ?thesis using f by (auto simp: stays_def moved_def follows_def intro: descends.same split: option.splits)
  qed
qed

lemma run_follows:
  assumes "consumer_run env consumer oth x y" "oth \<le> R" "session_inv env x" "cn_watermarks consumer = None" "follows (fst x)"
  shows "follows (fst y) \<and> (\<forall>a. cs_state (fst x) = Some a \<longrightarrow> (\<exists>b. cs_state (fst y) = Some b \<and>
    descends (sr_Commit (as_reference b)) (sr_Generation (as_reference b)) (sr_Commit (as_reference a)) (sr_Generation (as_reference a))))"
  using assms(1)
proof induction
  case base
  then show ?case using assms(5) by (auto intro: descends.same)
next
  case (step y z)
  have "session_inv env y" using run_progress [OF step(1) assms(2,3)] by blast
  from step_follows [OF step(2) assms(2) this assms(4)] step(3) descends_trans show ?case by blast
qed

text \<open>With a watermark store: what is exposed lies between the watermark that was durable at \<open>w0\<close> and the one
  that is durable now.\<close>

definition sandwiched :: "'w \<Rightarrow> 'w cstate \<Rightarrow> bool" where
  "sandwiched w0 s \<longleftrightarrow> wm_inv (cs_world s) \<and> wm_le (durable w0) (durable (cs_world s))
     \<and> (\<forall>a. cs_state s = Some a \<longrightarrow> wm_le (durable w0) (Some (reference_watermark consumer (as_reference a)))
          \<and> wm_le (Some (reference_watermark consumer (as_reference a))) (durable (cs_world s)))"

lemma sandwiched_view:
  assumes "sandwiched w0 s" "R (cs_world s) (cs_world s')" "view s' = view s"
  shows "sandwiched w0 s'"
  unfolding sandwiched_def
proof (intro conjI allI impI)
  show "wm_inv (cs_world s')" "wm_le (durable w0) (durable (cs_world s'))"
    using assms(1,2) durable_mono [of "cs_world s" "cs_world s'"] by (auto simp: sandwiched_def)
  fix a assume "cs_state s' = Some a"
  from view_Some [OF assms(3) [symmetric] this] obtain b where "cs_state s = Some b" "as_reference b = as_reference a" by blast
  then show "wm_le (durable w0) (Some (reference_watermark consumer (as_reference a)))"
    "wm_le (Some (reference_watermark consumer (as_reference a))) (durable (cs_world s'))"
    using assms(1,2) durable_mono [of "cs_world s" "cs_world s'"] unfolding sandwiched_def by metis+
qed

lemma sandwiched_adopted:
  assumes s: "sandwiched w0 s" and ok: "checkpoint_ok consumer" "cn_watermarks consumer \<noteq> None"
    and t: "ready s t" "compare_reference (cs_watermark t) (cs_state t) reference = None" "adopted reference t r s'" "snd r = None"
    and R: "R (cs_world s) (cs_world s')"
  shows "sandwiched w0 s'"
proof -
  let ?new = "reference_watermark consumer reference"
  have b: "bounded s t" and m: "R (cs_world s) (cs_world t)" using t(1) ok(2) by (auto simp: ready_def moved_def)
  have i: "wm_inv (cs_world s)" using s by (simp add: sandwiched_def)
  have "backed t" using b ok(1) i durable_mono [OF i m] by (auto simp: backed_def bounded_def)
  moreover obtain a where a: "cs_state s' = Some a" "as_reference a = reference"
    "cn_watermarks consumer \<noteq> None \<and> backed t \<longrightarrow> wm_le (Some ?new) (durable (cs_world s'))"
    using t(3,4) by (auto simp: adopted_def exposed_def)
  ultimately have up: "wm_le (Some ?new) (durable (cs_world s'))" using ok(2) by blast
  have "wm_le (Some (cs_watermark t)) (Some ?new)" if nz: "wm_Generation (cs_watermark t) \<noteq> 0"
  proof -
    have repo: "wm_RepositoryID (cs_watermark t) = repository_of consumer" using nz b ok(1) by (simp add: bounded_def)
    show ?thesis
    proof (cases "wm_Generation (cs_watermark t) = sr_Generation reference")
      case True
      then have "cs_watermark t = ?new" using repo compare_newer(3) [OF t(2) nz] by (auto intro!: Watermark.equality)
      then show ?thesis by simp
    next
      case False
      then show ?thesis using repo compare_newer(2) [OF t(2) nz] by (simp add: wm_le_def order_less_le)
    qed
  qed
  then have "wm_le (durable (cs_world s)) (Some ?new)"
    using b i by (cases "durable (cs_world s)") (auto simp: bounded_def intro: wm_le_trans)
  then have "wm_le (durable w0) (Some ?new)" using s wm_le_trans by (auto simp: sandwiched_def)
  then show ?thesis
    using a(1,2) up s durable_mono [OF i R] by (auto simp: sandwiched_def)
qed

lemma run_sandwiched:
  assumes "consumer_run env consumer oth x y" "oth \<le> R" "session_inv env x" "checkpoint_ok consumer" "cn_watermarks consumer \<noteq> None"
    "sandwiched w0 (fst x)"
  shows "sandwiched w0 (fst y)"
  using assms(1)
proof induction
  case (step y z)
  have "session_inv env y" using run_progress [OF step(1) assms(2,3)] by blast
  note P = step_progress [OF step(2) assms(2) this]
  from P consider r where "refreshed (fst y) r (fst z)" | "stays (fst y) (fst z)" by blast
  then show ?case
  proof cases
    case (1 r)
    show ?thesis
    proof (cases "rr_Status (fst r) = RefreshUpdated")
      case True
      then obtain t reference where "snd r = None" "ready (fst y) t" "compare_reference (cs_watermark t) (cs_state t) reference = None"
        "adopted reference t r (fst z)" using 1 by (auto simp: refreshed_def)
      then show ?thesis using sandwiched_adopted [OF step(3) assms(4,5)] P by blast
    next
      case False
      then show ?thesis using 1 P sandwiched_view [OF step(3)] by (simp add: refreshed_def)
    qed
  next
    case 2
    then show ?thesis using P step(3) by (auto simp: stays_def moved_def view_def intro: sandwiched_view)
  qed
qed (use assms(6) in simp)

end

subsection \<open>Safety\<close>

text \<open>
  C1. The snapshot a consumer exposes only moves forward. Whatever the store, the cache, the verifier and
  the context answer and whatever other processes do in between: once a snapshot is exposed, every later
  snapshot has a higher generation or is the same one; its commit manifest is valid and hashes to the digest in
  the reference; and without a watermark store it descends from the earlier one through the hash chain of parents.
\<close>

theorem consumer_never_rolls_back:
  assumes "NewConsumer repository channel options w = Inr (consumer, s0)"
    and "consumer_run env consumer others (s0, []) (s, fs)" "consumer_run env consumer others (s, fs) (s', fs')"
    and "cs_state s = Some a"
  shows "\<exists>b. cs_state s' = Some b \<and> newer a b
    \<and> commit_object (sr_Commit (as_reference b)) (as_commit b) \<and> validateCommitManifest (as_commit b) (sr_Generation (as_reference b)) = None
    \<and> (cn_watermarks consumer = None \<longrightarrow>
        descends (sr_Commit (as_reference b)) (sr_Generation (as_reference b)) (sr_Commit (as_reference a)) (sr_Generation (as_reference a)))"
proof -
  note new = new_session_inv(1) [OF assms(1), where env = env] new_session_inv(2-4) [OF assms(1)]
  have start: "any.snapshot_ok s0" "any.follows s0"
    using new(2,4) by (simp_all add: any.snapshot_ok_def any.follows_def zero_watermark_def)
  have mid: "session_inv env (s, fs)" "any.snapshot_ok s"
    using any.run_progress [OF assms(2) any_others new(1)] any.run_snapshot [OF assms(2) any_others new(1)] start(1) by auto
  obtain b where b: "cs_state s' = Some b" "newer a b" "any.snapshot_ok s'"
    using any.run_snapshot [OF assms(3) any_others mid(1)] mid(2) assms(4) by auto
  have "cn_watermarks consumer = None \<longrightarrow>
      descends (sr_Commit (as_reference b)) (sr_Generation (as_reference b)) (sr_Commit (as_reference a)) (sr_Generation (as_reference a))"
  proof
    assume n: "cn_watermarks consumer = None"
    have "any.follows s" using any.run_follows [OF assms(2) any_others new(1) n] start(2) by simp
    then show "descends (sr_Commit (as_reference b)) (sr_Generation (as_reference b)) (sr_Commit (as_reference a)) (sr_Generation (as_reference a))"
      using any.run_follows [OF assms(3) any_others mid(1) n] assms(4) b(1) by fastforce
  qed
  then show ?thesis using b by (auto simp: any.snapshot_ok_def)
qed

text \<open>The run of the sample: the snapshot is adopted, the file opened and read, the snapshot refreshed again.\<close>

lemma sample_session:
  assumes "\<And>store. wms = Some store \<Longrightarrow> run_state (ws_Load store ''main'') w = (Inr None, w)
    \<and> fst (run_state (ws_CompareAndSwap store ''main'' None sample_watermark) w) = None"
  shows "\<exists>s s'. consumer_run sample_env (sample_consumer wms) others (sample_start w, []) (s, [])
    \<and> consumer_run sample_env (sample_consumer wms) others (s, []) (s', [\<lparr>fl_manifest = sample_file, fl_generation = 1\<rparr>])
    \<and> cs_state s = Some sample_adopted \<and> cinv sample_env (0, 0) s'"
proof -
  obtain s where s: "run_state (Refresh sample_env (sample_consumer wms)) (sample_start w) = ((\<lparr>rr_Status = RefreshUpdated, rr_Generation = 1\<rparr>, None), s)"
    "cs_state s = Some sample_adopted" "agrees sample_env sample_known s" "cinv sample_env (0, 0) s" using sample_refresh [OF assms] by blast
  obtain s' where s': "run_state (Open sample_env (sample_consumer wms) ''a'') s = (Inr \<lparr>fl_manifest = sample_file, fl_generation = 1\<rparr>, s')"
    "cinv sample_env (0, 0) s'" using sample_open [OF s(2-4)] by blast
  have "consumer_step sample_env (sample_consumer wms) others (sample_start w, []) (s, [])"
    by (rule consumer_step.refreshes [OF s(1)])
  moreover have "consumer_step sample_env (sample_consumer wms) others (s, []) (s', [\<lparr>fl_manifest = sample_file, fl_generation = 1\<rparr>])"
    using consumer_step.opens [OF s'(1), of others "[]"] by simp
  ultimately show ?thesis using s(2) s'(2) by blast
qed

theorem consumer_never_rolls_back_witness:
  "\<exists>(s :: unit cstate) s' b. cs_state s = Some sample_adopted \<and> consumer_run sample_env (sample_consumer None) (\<lambda>_ _. True) (s, []) (s', [\<lparr>fl_manifest = sample_file, fl_generation = 1\<rparr>])
     \<and> cs_state s' = Some b \<and> newer sample_adopted b \<and> descends (sr_Commit (as_reference b)) (sr_Generation (as_reference b)) sample_commit_digest 1"
proof -
  obtain s s' where r: "consumer_run sample_env (sample_consumer None) (\<lambda>_ _. True) (sample_start (), []) (s, [])"
    "consumer_run sample_env (sample_consumer None) (\<lambda>_ _. True) (s, []) (s', [\<lparr>fl_manifest = sample_file, fl_generation = 1\<rparr>])"
    "cs_state s = Some sample_adopted" using sample_session [of None "()" "\<lambda>_ _. True"] by auto
  have n: "cn_watermarks (sample_consumer None) = None" "sr_Commit (as_reference sample_adopted) = sample_commit_digest"
    "sr_Generation (as_reference sample_adopted) = 1"
    by (simp_all add: sample_consumer_def sample_adopted_def sample_reference_def)
  from consumer_never_rolls_back [OF sample_new r] r(2,3) show ?thesis unfolding n by blast
qed

text \<open>
  C2. What a consumer exposes is protected by the durable watermark. With a watermark store that keeps its
  contract, and while other processes only move the durable watermark forward, the exposed snapshot is never
  behind the watermark that was durable when the consumer was created (it survives a restart), and the watermark
  that is durable now is never behind the exposed snapshot (a crash cannot roll it back).
\<close>

theorem consumer_durable:
  assumes "NewConsumer repository channel options w = Inr (consumer, s0)" "cn_watermarks consumer \<noteq> None"
    and "consumer_env env consumer durable wm_inv" "wm_inv w"
    and "consumer_run env consumer (advances durable wm_inv) (s0, []) (s, fs)" "cs_state s = Some a"
  shows "wm_le (durable w) (Some (reference_watermark consumer (as_reference a)))
    \<and> wm_le (Some (reference_watermark consumer (as_reference a))) (durable (cs_world s))"
proof -
  note new = new_session_inv(1) [OF assms(1), where env = env] new_session_inv(2-4) [OF assms(1)]
  have "consumer_env.sandwiched consumer durable wm_inv w s0"
    using new(2,3) assms(4) by (simp add: consumer_env.sandwiched_def [OF assms(3)])
  then have "consumer_env.sandwiched consumer durable wm_inv w s"
    using consumer_env.run_sandwiched [OF assms(3,5) order.refl new(1) NewConsumer_checkpoint_ok [OF assms(1)] assms(2)] by simp
  then show ?thesis using assms(6) by (simp add: consumer_env.sandwiched_def [OF assms(3)])
qed

text \<open>The consumer over the file watermark store.\<close>

lemma advances_return: "steps (advances durable wm_inv) (return x)"
  by (auto simp: steps_def advances_def)

lemma sample_consumer_env:
  assumes "watermark_store wms ''main'' durable wm_inv"
  shows "consumer_env sample_env (sample_consumer (Some wms)) durable wm_inv"
  using assms
  by (intro consumer_env.intro) (auto simp: sample_env_def sample_consumer_def sample_repository_def advances_return split: option.split)

interpretation disk_consumer: consumer_env sample_env "sample_consumer (Some (FileWatermarkStore (return None) memfs))"
  "\<lambda>w. decoded ''main'' (mf_persistent w)" "\<lambda>w. file_good ''main'' (mf_visible w, mf_persistent w)"
  by (rule sample_consumer_env) (rule mem_disk.disk.watermark_store_axioms)

lemma sample_disk:
  "run_state (watermark_Load (return None) memfs ''main'') empty_disk = (Inr None, empty_disk)"
  "fst (run_state (watermark_CompareAndSwap (return None) memfs ''main'' None sample_watermark) empty_disk) = None"
  by (simp_all add: watermark_Load_def load_finish_def watermark_CompareAndSwap_def swap_locked_def loadLocked_def replace_file_def memfs_def empty_disk_def
      encode_watermark_def validateChannel_def utf8_valid.simps sample_watermark_def join_errors_def)

theorem consumer_durable_witness:
  "\<exists>s fs. consumer_run sample_env (sample_consumer (Some (FileWatermarkStore (return None) memfs)))
       (advances (\<lambda>w. decoded ''main'' (mf_persistent w)) (\<lambda>w. file_good ''main'' (mf_visible w, mf_persistent w))) (sample_start empty_disk, []) (s, fs)
     \<and> cs_state s = Some sample_adopted \<and> wm_le (Some sample_watermark) (decoded ''main'' (mf_persistent (cs_world s)))"
proof -
  let ?wms = "FileWatermarkStore (return None) memfs"
  let ?others = "advances (\<lambda>w. decoded ''main'' (mf_persistent w)) (\<lambda>w. file_good ''main'' (mf_visible w, mf_persistent w))"
  obtain s where s: "consumer_run sample_env (sample_consumer (Some ?wms)) ?others (sample_start empty_disk, []) (s, [])" "cs_state s = Some sample_adopted"
    using sample_session [of "Some ?wms" empty_disk ?others] sample_disk by (auto simp: FileWatermarkStore_def)
  have g: "file_good ''main'' (mf_visible empty_disk, mf_persistent empty_disk)" by (simp add: file_good_def empty_disk_def)
  have w: "cn_watermarks (sample_consumer (Some ?wms)) \<noteq> None" "reference_watermark (sample_consumer (Some ?wms)) (as_reference sample_adopted) = sample_watermark"
    by (simp_all add: sample_consumer_def reference_watermark_def sample_adopted_def sample_reference_def sample_watermark_def)
  from consumer_durable [OF sample_new w(1) disk_consumer.consumer_env_axioms g s] s show ?thesis unfolding w(2) by blast
qed


text \<open>
  C3. Every byte a read returns is authentic. After any run, a handle the client holds has a valid file manifest that
  hashes to some digest, and what \<open>ReadAtContext\<close> writes is in range, at most the room, and each byte
  is the byte at its position of data with the digest and the size of the chunk that covers it, whatever the store and
  the chunk cache answered. Without an error the whole room is filled.
\<close>

theorem consumer_reads_authentic:
  assumes "NewConsumer repository channel options w = Inr (consumer, s0)"
    and "consumer_run env consumer others (s0, []) (s, fs)" "f \<in> set fs" "int room \<le> maxInt64"
    and "run_state (ReadAtContext env consumer f room offset) s = ((data, e), s')"
  shows "(\<exists>d. file_object env d (fl_manifest f)) \<and> length data \<le> room
    \<and> (data \<noteq> [] \<longrightarrow> 0 \<le> offset \<and> offset + len data \<le> file_Size f)
    \<and> (\<forall>k < length data. authentic (elems (fm_Chunks (fl_manifest f))) (offset + int k) (data ! k))
    \<and> (e = None \<longrightarrow> length data = room)"
proof -
  have i: "session_inv env (s, fs)"
    using any.run_progress [OF assms(2) any_others new_session_inv(1) [OF assms(1)]] by blast
  then obtain d where d: "file_object env d (fl_manifest f)" "cinv env (0, 0) s" using assms(3) by (auto simp: session_inv_def)
  from wp_run [OF any.specD [OF any.ReadAtContext_spec [OF d(1) assms(4)] d(2)] assms(5)] d(1) show ?thesis
    by (auto simp: file_Size_def)
qed

lemma sample_read:
  assumes "cinv sample_env (0, 0) s"
  shows "run_state (ReadAtContext sample_env (sample_consumer wms) \<lparr>fl_manifest = sample_file, fl_generation = 1\<rparr> 3 1) s = ((''ell'', None), s)"
proof -
  let ?f = "\<lparr>fl_manifest = sample_file, fl_generation = 1\<rparr>"
  have c: "elems (fm_Chunks sample_file) = [\<lparr>cr_Offset = 0, cr_Size = 5, cr_Digest = sample_chunk\<rparr>]" by (simp add: sample_file_def)
  have "run_state (ReadAtContext sample_env (sample_consumer wms) ?f 3 1) s
    = ((take 3 (drop (nat 1) (file_bytes (\<lambda>_. sample_data) ?f)), if (3 :: nat) \<noteq> 0 \<and> len (file_bytes (\<lambda>_. sample_data) ?f) < 1 + int 3 then Some [ErrEOF] else None), s)"
    using sample_file_object sample_calm [of "cs_world s"] assms sample_chunk_served [of "cs_world s"]
    by (intro ReadAtContext_served [of _ sample_file_digest]) (auto simp: sample_consumer_def c maxInt64_def)
  then show ?thesis by (simp add: file_bytes_def c sample_data_def)
qed

theorem consumer_reads_authentic_witness:
  "\<exists>(s :: unit cstate) s'. run_state (ReadAtContext sample_env (sample_consumer None) \<lparr>fl_manifest = sample_file, fl_generation = 1\<rparr> 3 1) s = ((''ell'', None), s')
     \<and> authentic [\<lparr>cr_Offset = 0, cr_Size = 5, cr_Digest = sample_chunk\<rparr>] 2 (CHR ''l'')"
proof -
  let ?f = "\<lparr>fl_manifest = sample_file, fl_generation = 1\<rparr>"
  obtain s s' where r: "consumer_run sample_env (sample_consumer None) (\<lambda>_ _. True) (sample_start (), []) (s, [])"
    "consumer_run sample_env (sample_consumer None) (\<lambda>_ _. True) (s, []) (s', [?f])" "cinv sample_env (0, 0) s'"
    using sample_session [of None "()" "\<lambda>_ _. True"] by auto
  note run = sample_read [OF r(3), of None]
  from consumer_reads_authentic [OF sample_new rtranclp_trans [OF r(1,2)] _ _ run]
  have "\<forall>k < length ''ell''. authentic (elems (fm_Chunks sample_file)) (1 + int k) (''ell'' ! k)" by (simp add: maxInt64_def)
  from spec [OF this, of 1] run show ?thesis by (auto simp: sample_file_def)
qed

text \<open>
  C4. Lookups return only what the adopted snapshot contains. After any run, \<open>Stat\<close>, \<open>ListDir\<close>, \<open>Open\<close> and
  \<open>Readlink\<close> answer from the tree of valid directories, each hashing to the digest of the entry that names it,
  below the root of the adopted commit, which hashes to the digest of the adopted reference. A symlink target that
  is returned is safe when external symlinks are rejected.
\<close>

theorem consumer_lookups_authentic:
  assumes "NewConsumer repository channel options w = Inr (consumer, s0)" "consumer_run env consumer others (s0, []) (s, fs)"
  shows "(\<forall>a. cs_state s = Some a \<longrightarrow> commit_object (sr_Commit (as_reference a)) (as_commit a))
    \<and> (\<forall>y s'. run_state (Stat env consumer path) s = (Inr y, s') \<longrightarrow>
        (\<exists>x. resolves s path x \<and> y = publicEntry (if re_isRoot x then [] else entry_name (re_entry x)) (re_entry x)))
    \<and> (\<forall>ys s'. run_state (ListDir env consumer path) s = (Inr ys, s') \<longrightarrow>
        (\<exists>x m. resolves s path x \<and> de_Type (re_entry x) = EntryDir \<and> dir_object (de_Node (re_entry x)) m
           \<and> ys = map (\<lambda>e. publicEntry (entry_name e) e) (elems (dm_Entries m))))
    \<and> (\<forall>f s'. run_state (Open env consumer path) s = (Inr f, s') \<longrightarrow>
        (\<exists>x. resolves s path x \<and> de_Type (re_entry x) = EntryFile \<and> file_object env (de_Node (re_entry x)) (fl_manifest f)
           \<and> file_Size f = de_Size (re_entry x) \<and> file_Generation f = re_generation x))
    \<and> (\<forall>target s'. run_state (Readlink env consumer path) s = (Inr target, s') \<longrightarrow>
        (\<exists>x m cs. resolves s path x \<and> de_Type (re_entry x) = EntrySymlink \<and> symlink_object (de_Node (re_entry x)) m
           \<and> target = elems (sm_Target m) \<and> cleanLookupPath path = Inr cs
           \<and> (cn_symlinkPolicy consumer = SymlinkRejectExternal \<longrightarrow> validateSafeSymlink (join_slash cs) target = None)))"
proof -
  note new = new_session_inv(1) [OF assms(1), where env = env] new_session_inv(2-4) [OF assms(1)]
  have i: "cinv env (0, 0) s" using any.run_progress [OF assms(2) any_others new(1)] by (auto simp: session_inv_def)
  have "any.snapshot_ok s"
    using any.run_snapshot [OF assms(2) any_others new(1)] new(2) by (simp add: any.snapshot_ok_def)
  then show ?thesis
    using wp_run [OF any.Stat_spec [OF i]] wp_run [OF any.ListDir_spec [OF i]] wp_run [OF any.Open_spec [OF i]] wp_run [OF any.Readlink_spec [OF i]]
    by (auto simp: any.snapshot_ok_def file_Size_def file_Generation_def)
qed

theorem consumer_lookups_authentic_witness:
  "\<exists>(s :: unit cstate) s' x. run_state (Open sample_env (sample_consumer None) ''a'') s = (Inr \<lparr>fl_manifest = sample_file, fl_generation = 1\<rparr>, s')
     \<and> resolves s ''a'' x \<and> file_object (sample_env :: unit Env) (de_Node (re_entry x)) sample_file"
proof -
  obtain s :: "unit cstate" where s: "run_state (Refresh sample_env (sample_consumer None)) (sample_start ()) = ((\<lparr>rr_Status = RefreshUpdated, rr_Generation = 1\<rparr>, None), s)"
    "cs_state s = Some sample_adopted" "agrees sample_env sample_known s" "cinv sample_env (0, 0) s" using sample_refresh [of None "()"] by auto
  obtain s' where o: "run_state (Open sample_env (sample_consumer None) ''a'') s = (Inr \<lparr>fl_manifest = sample_file, fl_generation = 1\<rparr>, s')"
    using sample_open [OF s(2-4)] by blast
  have "consumer_run sample_env (sample_consumer None) (\<lambda>_ _. True) (sample_start (), []) (s, [])"
    using consumer_step.refreshes [OF s(1)] by blast
  from consumer_lookups_authentic [OF sample_new this, THEN conjunct2, THEN conjunct2, THEN conjunct2, THEN conjunct1, rule_format, OF o]
  obtain x where "resolves s ''a'' x" "file_object (sample_env :: unit Env) (de_Node (re_entry x)) sample_file" by auto
  then show ?thesis using o by blast
qed

text \<open>
  C22. No operation of a consumer leaks a download slot or a byte of the budget, leaves a waiter behind, breaks the
  accounting of the metadata cache or reaches a panic, on any path and for any environment.
\<close>

theorem consumer_resources:
  assumes "NewConsumer repository channel options w = Inr (consumer, s0)" "consumer_run env consumer others (s0, []) (s, fs)"
  shows "cs_slots s = 0 \<and> ws_used (cs_bytes s) = 0 \<and> ws_waiters (cs_bytes s) = [] \<and> cache_inv (cs_metadata s) \<and> \<not> cs_panicked s"
  using any.run_progress [OF assms(2) any_others new_session_inv(1) [OF assms(1)]] by (auto simp: session_inv_def cinv_def idle_def)

theorem consumer_resources_witness:
  "\<exists>(s :: unit cstate) fs. cs_state s = Some sample_adopted \<and> consumer_run sample_env (sample_consumer None) (\<lambda>_ _. True) (sample_start (), []) (s, fs)
     \<and> cs_slots s = 0 \<and> ws_used (cs_bytes s) = 0 \<and> \<not> cs_panicked s"
proof -
  obtain s where r: "consumer_run sample_env (sample_consumer None) (\<lambda>_ _. True) (sample_start (), []) (s, [])" "cs_state s = Some sample_adopted"
    using sample_session [of None "()" "\<lambda>_ _. True"] by auto
  from consumer_resources [OF sample_new r(1)] r show ?thesis by blast
qed

subsection \<open>Progress\<close>

lemma new_slots: "NewConsumer repository channel options w = Inr (consumer, s) \<Longrightarrow> 0 < cn_downloadSlots consumer"
  by (auto simp: NewConsumer_def Let_def split: option.splits if_splits)





end
