(* ===== verification/Snapshot_Closure.thy ===== *)
theory Snapshot_Closure
  imports Consumer_Trust
begin

section \<open>The closure of a snapshot\<close>

text \<open>
  \<open>snapshot_closure.go\<close>: one atomic observation of a channel reference and the exact keys of the
  immutable objects that consuming it needs. The walker of the source is a record that is passed along;
  its work list is a stack whose top is the last element, as in the source. A call that fails ends the
  whole operation, so the walker is not part of an error.

  The repository is never nil in the model and an absent verifier is \<open>None\<close>, so the guards against nil
  have no counterpart.
\<close>

subsection \<open>The walker\<close>

definition DefaultMaxSnapshotClosureObjects :: int where "DefaultMaxSnapshotClosureObjects = 100000"
definition MaxSnapshotClosureObjectsLimit :: int where "MaxSnapshotClosureObjectsLimit = 1000000"
definition DefaultMaxSnapshotClosureEdges :: int where "DefaultMaxSnapshotClosureEdges = 1000000"
definition MaxSnapshotClosureEdgesLimit :: int where "MaxSnapshotClosureEdgesLimit = 100000000"
definition DefaultMaxSnapshotClosureMetadataBytes :: int where "DefaultMaxSnapshotClosureMetadataBytes = 512 * 2 ^ 20"
definition MaxSnapshotClosureMetadataBytesLimit :: int where "MaxSnapshotClosureMetadataBytesLimit = 64 * 2 ^ 30"

lemmas closure_limits = DefaultMaxSnapshotClosureObjects_def MaxSnapshotClosureObjectsLimit_def
  DefaultMaxSnapshotClosureEdges_def MaxSnapshotClosureEdgesLimit_def
  DefaultMaxSnapshotClosureMetadataBytes_def MaxSnapshotClosureMetadataBytesLimit_def

record snapshotClosureNode =
  scn_kind :: bytes
  scn_digest :: digest

record snapshotClosureWork =
  scw_node :: snapshotClosureNode
  scw_depth :: nat

record snapshotClosureWalker =
  sw_maximumObjects :: int
  sw_maximumEdges :: int
  sw_maximumMetadataBytes :: int
  sw_edges :: int
  sw_metadataBytes :: int
  sw_keys :: "bytes list"
  sw_seenKeys :: "bytes set"
  sw_scheduled :: "snapshotClosureNode set"
  sw_work :: "snapshotClosureWork list"
  sw_fileSizes :: "digest \<rightharpoonup> int"
  sw_linkSizes :: "digest \<rightharpoonup> int"

definition addKey :: "'w Repository \<Rightarrow> snapshotClosureWalker \<Rightarrow> bytes \<Rightarrow> digest \<Rightarrow> err + snapshotClosureWalker" where
  "addKey repository walker kind digest = (let key = objectKey repository kind digest in
     if key \<in> sw_seenKeys walker then Inr walker
     else if len (sw_keys walker) \<ge> sw_maximumObjects walker then Inl [ErrResourceLimit]
     else Inr (walker\<lparr>sw_seenKeys := insert key (sw_seenKeys walker), sw_keys := sw_keys walker @ [key]\<rparr>))"

definition addEdge :: "'w Env \<Rightarrow> snapshotClosureWalker \<Rightarrow> ('w, err + snapshotClosureWalker) state" where
  "addEdge env walker = do {
     e \<leftarrow> ev_ctx env;
     check e (if sw_edges walker \<ge> sw_maximumEdges walker then throw [ErrResourceLimit]
       else return (Inr (walker\<lparr>sw_edges := sw_edges walker + 1\<rparr>))) }"

definition closure_getManifest :: "'w Env \<Rightarrow> 'w Repository \<Rightarrow> ('m \<Rightarrow> json) \<Rightarrow> (json \<Rightarrow> 'm option)
    \<Rightarrow> snapshotClosureWalker \<Rightarrow> bytes \<Rightarrow> digest \<Rightarrow> ('w, err + snapshotClosureWalker \<times> 'm) state" where
  "closure_getManifest env repository to_json of_json walker kind digest = do {
     e \<leftarrow> ev_ctx env;
     check e (let remaining = sw_maximumMetadataBytes walker - sw_metadataBytes walker in
       if remaining < 1 then throw [ErrResourceLimit]
       else let limit = (if remaining > maxMetadataObjectBytes then maxMetadataObjectBytes else remaining) in do {
         r \<leftarrow> getImmutableLimited repository kind digest limit;
         ok r (\<lambda>data. ok (decodeJSON to_json of_json data) (\<lambda>value.
           return (Inr (walker\<lparr>sw_metadataBytes := sw_metadataBytes walker + len data\<rparr>, value)))) }) }"

definition record_size :: "(digest \<rightharpoonup> int) \<Rightarrow> digest \<Rightarrow> int \<Rightarrow> err + (digest \<rightharpoonup> int)" where
  "record_size sizes digest expectedSize = (case sizes digest of
     Some known \<Rightarrow> if known \<noteq> expectedSize then Inl [ErrCorruptObject] else Inr (sizes(digest \<mapsto> expectedSize))
   | None \<Rightarrow> Inr (sizes(digest \<mapsto> expectedSize)))"

text \<open>The switch of \<open>schedule\<close> over the kind of the node.\<close>

definition expect_size :: "snapshotClosureWalker \<Rightarrow> snapshotClosureNode \<Rightarrow> int \<Rightarrow> err + snapshotClosureWalker" where
  "expect_size walker node expectedSize =
     (if scn_kind node = ''file'' then
        okr (record_size (sw_fileSizes walker) (scn_digest node) expectedSize) (\<lambda>sizes. Inr (walker\<lparr>sw_fileSizes := sizes\<rparr>))
      else if scn_kind node = ''symlink'' then
        okr (record_size (sw_linkSizes walker) (scn_digest node) expectedSize) (\<lambda>sizes. Inr (walker\<lparr>sw_linkSizes := sizes\<rparr>))
      else Inr walker)"

definition schedule ::
  "'w Repository \<Rightarrow> snapshotClosureWalker \<Rightarrow> snapshotClosureNode \<Rightarrow> int \<Rightarrow> nat \<Rightarrow> err + snapshotClosureWalker" where
  "schedule repository walker node expectedSize depth =
     (if depth > maxLookupDepth then Inl [ErrResourceLimit]
      else okr (expect_size walker node expectedSize) (\<lambda>walker.
        if node \<in> sw_scheduled walker then Inr walker
        else okr (addKey repository walker (scn_kind node) (scn_digest node)) (\<lambda>walker.
          Inr (walker\<lparr>sw_scheduled := insert node (sw_scheduled walker),
            sw_work := sw_work walker @ [\<lparr>scw_node = node, scw_depth = depth\<rparr>]\<rparr>))))"

text \<open>The loop of \<open>walk\<close> over the entries of a directory.\<close>

definition entry_node :: "dirEntry \<Rightarrow> (snapshotClosureNode \<times> int) option" where
  "entry_node entry =
     (if de_Type entry = EntryDir then Some (\<lparr>scn_kind = ''dir'', scn_digest = de_Node entry\<rparr>, - 1)
      else if de_Type entry = EntryFile then Some (\<lparr>scn_kind = ''file'', scn_digest = de_Node entry\<rparr>, de_Size entry)
      else if de_Type entry = EntrySymlink then Some (\<lparr>scn_kind = ''symlink'', scn_digest = de_Node entry\<rparr>, de_Size entry)
      else None)"

fun walk_entries :: "'w Env \<Rightarrow> 'w Repository \<Rightarrow> nat \<Rightarrow> snapshotClosureWalker \<Rightarrow> dirEntry list
    \<Rightarrow> ('w, err + snapshotClosureWalker) state" where
  "walk_entries env repository depth walker [] = return (Inr walker)"
| "walk_entries env repository depth walker (entry # rest) = do {
     r \<leftarrow> addEdge env walker;
     ok r (\<lambda>walker. case entry_node entry of
         None \<Rightarrow> throw [ErrCorruptObject]
       | Some (node, expectedSize) \<Rightarrow> ok (schedule repository walker node expectedSize depth) (\<lambda>walker.
           walk_entries env repository depth walker rest)) }"

fun walk_chunks :: "'w Env \<Rightarrow> 'w Repository \<Rightarrow> snapshotClosureWalker \<Rightarrow> chunkRef list
    \<Rightarrow> ('w, err + snapshotClosureWalker) state" where
  "walk_chunks env repository walker [] = return (Inr walker)"
| "walk_chunks env repository walker (chunk # rest) = do {
     r \<leftarrow> addEdge env walker;
     ok r (\<lambda>walker. ok (addKey repository walker ''chunk'' (cr_Digest chunk)) (\<lambda>walker.
       walk_chunks env repository walker rest)) }"

text \<open>Reading a Go map: the zero value for a missing key.\<close>

definition known_size :: "(digest \<rightharpoonup> int) \<Rightarrow> digest \<Rightarrow> int" where
  "known_size sizes digest = (case sizes digest of None \<Rightarrow> 0 | Some n \<Rightarrow> n)"

text \<open>One iteration of \<open>walk\<close> on the item that was popped.\<close>

definition walk_item :: "'w Env \<Rightarrow> 'w Repository \<Rightarrow> snapshotClosureWalker \<Rightarrow> snapshotClosureWork
    \<Rightarrow> ('w, err + snapshotClosureWalker) state" where
  "walk_item env repository walker item = (let node = scw_node item; digest = scn_digest node in
     if scn_kind node = ''dir'' then do {
       r \<leftarrow> closure_getManifest env repository dirManifest_to_json dirManifest_of_json walker ''dir'' digest;
       ok r (\<lambda>(walker, manifest). check (validateDirectoryManifest manifest)
         (walk_entries env repository (scw_depth item + 1) walker (elems (dm_Entries manifest)))) }
     else if scn_kind node = ''file'' then do {
       r \<leftarrow> closure_getManifest env repository fileManifest_to_json fileManifest_of_json walker ''file'' digest;
       ok r (\<lambda>(walker, manifest). check (validateFileManifest (ev_deg env) (ev_irreducible env) manifest) (
         if known_size (sw_fileSizes walker) digest \<noteq> fm_Size manifest then throw [ErrCorruptObject]
         else walk_chunks env repository walker (elems (fm_Chunks manifest)))) }
     else if scn_kind node = ''symlink'' then do {
       r \<leftarrow> closure_getManifest env repository symlinkManifest_to_json symlinkManifest_of_json walker ''symlink'' digest;
       ok r (\<lambda>(walker, manifest). check (validateSymlinkManifest manifest) (
         if known_size (sw_linkSizes walker) digest \<noteq> len (elems (sm_Target manifest)) then throw [ErrCorruptObject]
         else return (Inr walker))) }
     else throw [ErrCorruptObject])"

subsection \<open>The walk ends\<close>

text \<open>
  Every object that is put on the work list consumes an edge, and edges are bounded: the loop runs at
  most once per edge and once for the root. To define \<open>walk\<close>, the recursion may use what the item before
  can return.
\<close>

definition results :: "('s, 'a) state \<Rightarrow> 'a set" where
  "results m = {a. \<exists>s s'. run_state m s = (a, s')}"

lemma bind_cong [fundef_cong]:
  assumes "m = m'" "\<And>a. a \<in> results m' \<Longrightarrow> f a = g a"
  shows "State_Monad.bind m f = State_Monad.bind m' g"
proof -
  have "(case run_state m s of (a, s') \<Rightarrow> run_state (f a) s') = (case run_state m s of (a, s') \<Rightarrow> run_state (g a) s')" for s
  proof (cases "run_state m s")
    case (Pair a s')
    then have "a \<in> results m'" using assms(1) by (auto simp: results_def)
    then show ?thesis using assms(2) Pair by simp
  qed
  then show ?thesis using assms(1) by (simp add: State_Monad.bind_def)
qed

lemma ok_cong [fundef_cong]: "\<lbrakk>r = r'; \<And>x. r' = Inr x \<Longrightarrow> k x = k' x\<rbrakk> \<Longrightarrow> ok r k = ok r' k'"
  by (cases r') auto

lemma check_cong [fundef_cong]: "\<lbrakk>e = e'; e' = None \<Longrightarrow> k = k'\<rbrakk> \<Longrightarrow> check e k = check e' k'"
  by (cases e') auto

lemma resultsD: "a \<in> results m \<Longrightarrow> (\<And>s. wp m (\<lambda>r _. P r) s) \<Longrightarrow> P a"
  by (auto simp: results_def dest: wp_run)

definition walk_budget :: "snapshotClosureWalker \<Rightarrow> nat" where
  "walk_budget walker = nat (sw_maximumEdges walker - sw_edges walker) + length (sw_work walker)"

lemma addKey_budget: "addKey repository walker kind digest = Inr walker' \<Longrightarrow> walk_budget walker' = walk_budget walker"
  by (auto simp: addKey_def Let_def walk_budget_def split: if_splits)

lemma expect_size_budget: "expect_size walker node n = Inr walker' \<Longrightarrow> walk_budget walker' = walk_budget walker"
  by (auto simp: expect_size_def walk_budget_def split: if_splits)

lemma schedule_budget:
  assumes "schedule repository walker node n depth = Inr walker'"
  shows "walk_budget walker' \<le> walk_budget walker + 1"
proof -
  obtain x where x: "expect_size walker node n = Inr x" and
    c: "(if node \<in> sw_scheduled x then Inr x
         else okr (addKey repository x (scn_kind node) (scn_digest node)) (\<lambda>walker.
          Inr (walker\<lparr>sw_scheduled := insert node (sw_scheduled walker),
            sw_work := sw_work walker @ [\<lparr>scw_node = node, scw_depth = depth\<rparr>]\<rparr>))) = Inr walker'"
    using assms by (auto simp: schedule_def split: if_splits)
  note b = expect_size_budget [OF x]
  show ?thesis
  proof (cases "node \<in> sw_scheduled x")
    case False
    then obtain y where "addKey repository x (scn_kind node) (scn_digest node) = Inr y"
      "walker' = y\<lparr>sw_scheduled := insert node (sw_scheduled y), sw_work := sw_work y @ [\<lparr>scw_node = node, scw_depth = depth\<rparr>]\<rparr>"
      using c by auto
    then show ?thesis using b addKey_budget [of repository x] by (simp add: walk_budget_def)
  qed (use b c in simp)
qed

lemma wp_addEdge:
  assumes "\<And>e s'. Q (Inl e) s'"
    "\<And>s'. sw_edges walker < sw_maximumEdges walker \<Longrightarrow> Q (Inr (walker\<lparr>sw_edges := sw_edges walker + 1\<rparr>)) s'"
  shows "wp (addEdge env walker) Q s"
  unfolding addEdge_def using assms by (auto simp: wp_simps intro!: wp_op [of "ev_ctx env"])

lemma edge_budget:
  "sw_edges walker < sw_maximumEdges walker \<Longrightarrow> walk_budget (walker\<lparr>sw_edges := sw_edges walker + 1\<rparr>) + 1 = walk_budget walker"
  by (simp add: walk_budget_def)

lemma walk_entries_budget:
  "wp (walk_entries env repository depth walker entries)
     (\<lambda>r _. \<forall>walker'. r = Inr walker' \<longrightarrow> walk_budget walker' \<le> walk_budget walker) s"
proof (induction entries arbitrary: walker s)
  case (Cons entry rest)
  have 1: "wp (walk_entries env repository depth x rest)
     (\<lambda>r _. \<forall>walker'. r = Inr walker' \<longrightarrow> walk_budget walker' \<le> walk_budget walker) s'"
    if "sw_edges walker < sw_maximumEdges walker"
      "schedule repository (walker\<lparr>sw_edges := sw_edges walker + 1\<rparr>) node n depth = Inr x" for x node n s'
    by (rule wp_conseq [OF Cons.IH]) (use schedule_budget [OF that(2)] edge_budget [OF that(1)] in auto)
  show ?case
    by (auto simp: wp_simps split: option.splits prod.splits intro!: wp_addEdge 1)
qed simp

lemma walk_chunks_budget:
  "wp (walk_chunks env repository walker cs)
     (\<lambda>r _. \<forall>walker'. r = Inr walker' \<longrightarrow> walk_budget walker' \<le> walk_budget walker) s"
proof (induction cs arbitrary: walker s)
  case (Cons chunk rest)
  have 1: "wp (walk_chunks env repository x rest)
     (\<lambda>r _. \<forall>walker'. r = Inr walker' \<longrightarrow> walk_budget walker' \<le> walk_budget walker) s'"
    if "sw_edges walker < sw_maximumEdges walker"
      "addKey repository (walker\<lparr>sw_edges := sw_edges walker + 1\<rparr>) ''chunk'' d = Inr x" for x d s'
    by (rule wp_conseq [OF Cons.IH]) (use addKey_budget [OF that(2)] edge_budget [OF that(1)] in auto)
  show ?case
    by (auto simp: wp_simps intro!: wp_addEdge 1)
qed simp

text \<open>What \<open>getManifest\<close> gives, for the walker and for the value.\<close>

lemma wp_closure_getManifest:
  assumes "json_codec to_json of_json wfm"
    and "\<And>e s'. Q (Inl e) s'"
    and "\<And>n value s'. \<lbrakk>wfm value; digestObject kind (canonicalJSON to_json value) = digest; 0 \<le> n;
        sw_metadataBytes walker + n \<le> sw_maximumMetadataBytes walker\<rbrakk>
       \<Longrightarrow> Q (Inr (walker\<lparr>sw_metadataBytes := sw_metadataBytes walker + n\<rparr>, value)) s'"
  shows "wp (closure_getManifest env repository to_json of_json walker kind digest) Q s"
proof -
  have D: "Q (Inr (walker\<lparr>sw_metadataBytes := sw_metadataBytes walker + len data\<rparr>, v)) s'"
    if "decodeJSON to_json of_json data = Inr v" "digestObject kind data = digest"
      "len data \<le> sw_maximumMetadataBytes walker - sw_metadataBytes walker" for data v s'
    using assms(3) [of v "len data" s'] json_codec.decode_InrD [OF assms(1) that(1)] that(2,3) by simp
  show ?thesis
    unfolding closure_getManifest_def Let_def
    by (auto simp: wp_simps assms(2) intro!: wp_op [of "ev_ctx env"] wp_conseq [OF getImmutableLimited_verified] D)
qed

lemma metadata_budget [simp]: "walk_budget (walker\<lparr>sw_metadataBytes := n\<rparr>) = walk_budget walker"
  by (simp add: walk_budget_def)

lemma walk_item_budget:
  "wp (walk_item env repository walker item)
     (\<lambda>r _. \<forall>walker'. r = Inr walker' \<longrightarrow> walk_budget walker' \<le> walk_budget walker) s"
  unfolding walk_item_def Let_def
  by (auto simp: wp_simps split: prod.splits intro!: wp_closure_getManifest [OF dm.json_codec_axioms]
      wp_closure_getManifest [OF fm.json_codec_axioms] wp_closure_getManifest [OF sm.json_codec_axioms]
      wp_conseq [OF walk_entries_budget] wp_conseq [OF walk_chunks_budget])

function closure_walk :: "'w Env \<Rightarrow> 'w Repository \<Rightarrow> snapshotClosureWalker \<Rightarrow> ('w, err + snapshotClosureWalker) state" where
  "closure_walk env repository walker =
     (if sw_work walker = [] then return (Inr walker)
      else do {
        e \<leftarrow> ev_ctx env;
        check e (do {
          r \<leftarrow> walk_item env repository (walker\<lparr>sw_work := butlast (sw_work walker)\<rparr>) (last (sw_work walker));
          ok r (\<lambda>walker. closure_walk env repository walker) }) })"
  by pat_completeness auto

termination
proof (relation "measure (\<lambda>(env, repository, walker). walk_budget walker)")
  fix env :: "'w Env" and repository walker and e :: "err option" and r walker'
  assume w: "sw_work walker \<noteq> []" and
    r: "r \<in> results (walk_item env repository (walker\<lparr>sw_work := butlast (sw_work walker)\<rparr>) (last (sw_work walker)))"
      "r = Inr walker'"
  have "walk_budget walker' \<le> walk_budget (walker\<lparr>sw_work := butlast (sw_work walker)\<rparr>)"
    using resultsD [OF r(1) walk_item_budget] r(2) by blast
  also have "\<dots> < walk_budget walker" using w by (simp add: walk_budget_def)
  finally show "((env, repository, walker'), env, repository, walker) \<in> measure (\<lambda>(env, repository, walker). walk_budget walker)"
    by simp
qed simp

declare closure_walk.simps [simp del]


subsection \<open>Resolving a closure\<close>

record 'w SnapshotClosureOptions =
  sco_ReferenceVerifier :: "'w ReferenceVerifier option"
  sco_MaxObjects :: int
  sco_MaxEdges :: int
  sco_MaxMetadataBytes :: int

record SnapshotClosure =
  sc_Snapshot :: Snapshot
  sc_ReferenceKey :: bytes
  sc_ReferenceData :: bytes
  sc_ReferenceVersion :: Version
  sc_ObjectKeys :: "bytes list"
  sc_resolutionSeal :: digest
  sc_clientEncryptionConfigured :: bool
  sc_clientEncryptionBinding :: digest

text \<open>\<open>writeUint64\<close>, \<open>writeBytes\<close> and what \<open>snapshotClosureResolutionSeal\<close> hashes.\<close>

definition write_uint64 :: "u64 \<Rightarrow> bytes" where
  "write_uint64 v = be_bytes 8 (unat v)"

definition write_bytes :: "bytes \<Rightarrow> bytes" where
  "write_bytes v = write_uint64 (of_nat (length v)) @ v"

definition closure_preimage :: "SnapshotClosure \<Rightarrow> bytes" where
  "closure_preimage closure =
     ''s3disk'' @ CHR 0x00 # ''resolved-snapshot-closure'' @ CHR 0x00 # ''v1'' @ CHR 0x00 #
     write_uint64 (ss_Generation (sc_Snapshot closure)) @ array32 (ss_Commit (sc_Snapshot closure))
     @ array32 (ss_Root (sc_Snapshot closure)) @ write_uint64 (word_of_int (ss_PublishedAt (sc_Snapshot closure)))
     @ write_bytes (sc_ReferenceKey closure) @ write_bytes (sc_ReferenceData closure)
     @ write_bytes (v_ETag (sc_ReferenceVersion closure)) @ write_bytes (v_VersionID (sc_ReferenceVersion closure))
     @ write_uint64 (of_nat (length (sc_ObjectKeys closure))) @ concat (map write_bytes (sc_ObjectKeys closure))
     @ (if sc_clientEncryptionConfigured closure then CHR 0x01 else CHR 0x00) # array32 (sc_clientEncryptionBinding closure)"

definition snapshotClosureResolutionSeal :: "SnapshotClosure \<Rightarrow> digest" where
  "snapshotClosureResolutionSeal closure = sha256 (closure_preimage closure)"

definition ValidateResolved :: "SnapshotClosure \<Rightarrow> err option" where
  "ValidateResolved closure =
     (if sc_resolutionSeal closure = 0 \<or> sc_resolutionSeal closure \<noteq> snapshotClosureResolutionSeal closure
      then Some [ErrInvalidSnapshotClosure] else None)"

definition ValidateResolvedForClientEncryption :: "SnapshotClosure \<Rightarrow> ClientEncryptionProfile option \<Rightarrow> err option" where
  "ValidateResolvedForClientEncryption closure profile = (case ValidateResolved closure of Some e \<Rightarrow> Some e
     | None \<Rightarrow> if sc_clientEncryptionConfigured closure \<noteq> (profile \<noteq> None \<and> configured profile)
           \<or> sc_clientEncryptionBinding closure \<noteq> snapshotClosureBinding profile
         then Some [ErrInvalidSnapshotClosure] else None)"

text \<open>The loop over the commits back to generation one. The counter of the source wraps, so it reaches 1 from any value.\<close>

function closure_commits :: "'w Env \<Rightarrow> 'w Repository \<Rightarrow> snapshotClosureWalker \<Rightarrow> u64 \<Rightarrow> digest \<Rightarrow> commitManifest
    \<Rightarrow> ('w, err + snapshotClosureWalker) state" where
  "closure_commits env repository walker generation commitDigest commit =
     ok (addKey repository walker ''commit'' commitDigest) (\<lambda>walker.
       if generation = 1 then return (Inr walker)
       else do {
         e \<leftarrow> ev_ctx env;
         check e (case cm_Parent commit of
             None \<Rightarrow> throw [ErrSplitBrain]
           | Some parent \<Rightarrow>
               if parent = 0 then throw [ErrSplitBrain]
               else do {
                 r \<leftarrow> closure_getManifest env repository commitManifest_to_json commitManifest_of_json walker ''commit'' parent;
                 ok r (\<lambda>(walker, ancestor). check (validateCommitManifest ancestor (generation - 1))
                   (closure_commits env repository walker (generation - 1) parent ancestor)) }) })"
  by pat_completeness auto
termination
proof (relation "measure (\<lambda>(env, repository, walker, generation, commitDigest, commit). unat (generation - 1))", goal_cases)
  case (2 env repository walker generation commitDigest commit walker')
  then have "0 < generation - 1" by (simp add: word_neq_0_conv flip: word_neq_0_conv)
  then show ?case using unat_pred_less [of 0 "generation - 1"] by simp
qed simp

declare closure_commits.simps [simp del]

definition closure_bound :: "int \<Rightarrow> int \<Rightarrow> int \<Rightarrow> err + int" where
  "closure_bound chosen standard limit = (let maximum = (if chosen = 0 then standard else chosen) in
     if maximum < 1 \<or> maximum > limit then Inl [ErrResourceLimit] else Inr maximum)"

definition new_walker :: "int \<Rightarrow> int \<Rightarrow> int \<Rightarrow> snapshotClosureWalker" where
  "new_walker objects edges metadataBytes = \<lparr>sw_maximumObjects = objects, sw_maximumEdges = edges,
     sw_maximumMetadataBytes = metadataBytes, sw_edges = 0, sw_metadataBytes = 0, sw_keys = [], sw_seenKeys = {},
     sw_scheduled = {}, sw_work = [], sw_fileSizes = Map.empty, sw_linkSizes = Map.empty\<rparr>"

text \<open>The end of \<open>ResolveSnapshotClosure\<close>: the sorted keys and the seal.\<close>

definition seal_closure :: "'w Repository \<Rightarrow> bytes \<Rightarrow> 'w ReferenceVerifier option \<Rightarrow> snapshotReference \<Rightarrow> Object
    \<Rightarrow> commitManifest \<Rightarrow> bytes list \<Rightarrow> SnapshotClosure" where
  "seal_closure repository channel verifier reference object commit keys =
     (let closure = \<lparr>sc_Snapshot = \<lparr>ss_Generation = sr_Generation reference, ss_Commit = sr_Commit reference,
            ss_Root = cm_Root commit, ss_PublishedAt = cm_PublishedAtUnix commit\<rparr>,
          sc_ReferenceKey = (if verifier \<noteq> None then SignedReferenceKey repository channel else ReferenceKey repository channel),
          sc_ReferenceData = ob_Data object, sc_ReferenceVersion = ob_Version object, sc_ObjectKeys = sort keys,
          sc_resolutionSeal = 0, sc_clientEncryptionConfigured = (rp_clientEncryption repository \<noteq> None),
          sc_clientEncryptionBinding = snapshotClosureBinding (rp_clientEncryption repository)\<rparr>
      in closure\<lparr>sc_resolutionSeal := snapshotClosureResolutionSeal closure\<rparr>)"

definition ResolveSnapshotClosure :: "'w Env \<Rightarrow> 'w Repository \<Rightarrow> bytes \<Rightarrow> 'w SnapshotClosureOptions
    \<Rightarrow> ('w, err + SnapshotClosure) state" where
  "ResolveSnapshotClosure env repository channel options =
     check (repository_validateChannel repository channel) (
     ok (closure_bound (sco_MaxObjects options) DefaultMaxSnapshotClosureObjects MaxSnapshotClosureObjectsLimit) (\<lambda>maximumObjects.
     ok (closure_bound (sco_MaxEdges options) DefaultMaxSnapshotClosureEdges MaxSnapshotClosureEdgesLimit) (\<lambda>maximumEdges.
     ok (closure_bound (sco_MaxMetadataBytes options) DefaultMaxSnapshotClosureMetadataBytes
         MaxSnapshotClosureMetadataBytesLimit) (\<lambda>maximumMetadataBytes. do {
       f \<leftarrow> getReferenceWithVerifier (ev_ctx env) repository channel [] (sco_ReferenceVerifier options);
       ok f (\<lambda>(reference, object).
         if int (unat (sr_Generation reference)) > maximumObjects then throw [ErrResourceLimit]
         else do {
           c \<leftarrow> closure_getManifest env repository commitManifest_to_json commitManifest_of_json
             (new_walker maximumObjects maximumEdges maximumMetadataBytes) ''commit'' (sr_Commit reference);
           ok c (\<lambda>(walker, commit). check (validateCommitManifest commit (sr_Generation reference)) (do {
             a \<leftarrow> closure_commits env repository walker (sr_Generation reference) (sr_Commit reference) commit;
             ok a (\<lambda>walker. ok (schedule repository walker \<lparr>scn_kind = ''dir'', scn_digest = cm_Root commit\<rparr> (- 1) 0) (\<lambda>walker. do {
               t \<leftarrow> closure_walk env repository walker;
               ok t (\<lambda>walker. return (Inr (seal_closure repository channel (sco_ReferenceVerifier options)
                 reference object commit (sw_keys walker)))) })) })) }) }))))"


subsection \<open>The walker collects exactly the reachable keys\<close>

definition node_key :: "'w Repository \<Rightarrow> snapshotClosureNode \<Rightarrow> bytes" where
  "node_key r node = objectKey r (scn_kind node) (scn_digest node)"

definition keys_ok :: "'w Repository \<Rightarrow> snapshotClosureWalker \<Rightarrow> bool" where
  "keys_ok r W \<longleftrightarrow> sw_seenKeys W = set (sw_keys W) \<and> distinct (sw_keys W) \<and> len (sw_keys W) \<le> sw_maximumObjects W
     \<and> node_key r ` sw_scheduled W \<subseteq> set (sw_keys W)"

definition sized :: "snapshotClosureWalker \<Rightarrow> snapshotClosureNode \<Rightarrow> int \<Rightarrow> bool" where
  "sized W node n \<longleftrightarrow> (scn_kind node = ''file'' \<longrightarrow> sw_fileSizes W (scn_digest node) = Some n)
     \<and> (scn_kind node = ''symlink'' \<longrightarrow> sw_linkSizes W (scn_digest node) = Some n)"

text \<open>From \<open>W\<close> to \<open>W'\<close> exactly the nodes \<open>N\<close> were scheduled, each new one once, and the keys of \<open>N\<close> and of the
  chunks \<open>D\<close> were added; recorded sizes are kept.\<close>

definition grows :: "'w Repository \<Rightarrow> snapshotClosureWalker \<Rightarrow> snapshotClosureNode set \<Rightarrow> digest set \<Rightarrow> snapshotClosureWalker \<Rightarrow> bool" where
  "grows r W N D W' \<longleftrightarrow> keys_ok r W' \<and> sw_maximumObjects W' = sw_maximumObjects W
     \<and> sw_scheduled W' = sw_scheduled W \<union> N
     \<and> set (sw_keys W') = set (sw_keys W) \<union> node_key r ` N \<union> objectKey r ''chunk'' ` D
     \<and> sw_fileSizes W \<subseteq>\<^sub>m sw_fileSizes W' \<and> sw_linkSizes W \<subseteq>\<^sub>m sw_linkSizes W'
     \<and> (\<exists>new. sw_work W' = sw_work W @ new \<and> distinct (map scw_node new) \<and> scw_node ` set new = N - sw_scheduled W)"

lemma grows_refl [simp]: "keys_ok r W \<Longrightarrow> grows r W {} {} W"
  by (simp add: grows_def)

lemma grows_keys_ok: "grows r W N D W' \<Longrightarrow> keys_ok r W'"
  by (simp add: grows_def)

lemma grows_trans:
  assumes "grows r W N D W'" "grows r W' N' D' W''"
  shows "grows r W (N \<union> N') (D \<union> D') W''"
proof -
  obtain a where a: "sw_work W' = sw_work W @ a" "distinct (map scw_node a)" "scw_node ` set a = N - sw_scheduled W"
    using assms(1) by (auto simp: grows_def)
  obtain b where b: "sw_work W'' = sw_work W' @ b" "distinct (map scw_node b)" "scw_node ` set b = N' - sw_scheduled W'"
    using assms(2) by (auto simp: grows_def)
  have s: "sw_scheduled W' = sw_scheduled W \<union> N" using assms(1) by (simp add: grows_def)
  have "distinct (map scw_node (a @ b))" "scw_node ` set (a @ b) = N \<union> N' - sw_scheduled W"
    using a b s by (auto simp: image_Un)
  then have "\<exists>new. sw_work W'' = sw_work W @ new \<and> distinct (map scw_node new) \<and> scw_node ` set new = N \<union> N' - sw_scheduled W"
    using a(1) b(1) by (intro exI [of _ "a @ b"]) simp
  then show ?thesis using assms unfolding grows_def by (auto intro: map_le_trans)
qed

lemma sized_mono: "\<lbrakk>sized W node n; grows r W N D W'\<rbrakk> \<Longrightarrow> sized W' node n"
  by (auto simp: sized_def grows_def map_le_def dom_def)

text \<open>Counters do not matter.\<close>

lemma keys_ok_counters [simp]:
  "keys_ok r (W\<lparr>sw_edges := n\<rparr>) = keys_ok r W" "keys_ok r (W\<lparr>sw_metadataBytes := n\<rparr>) = keys_ok r W"
  "keys_ok r (W\<lparr>sw_work := w\<rparr>) = keys_ok r W"
  by (simp_all add: keys_ok_def)

lemma grows_counters [simp]:
  "grows r (W\<lparr>sw_edges := n\<rparr>) N D W' = grows r W N D W'" "grows r (W\<lparr>sw_metadataBytes := n\<rparr>) N D W' = grows r W N D W'"
  by (simp_all add: grows_def)

lemma addKey_keys:
  assumes "addKey r W kind d = Inr W'" "keys_ok r W"
  obtains seen ks where "W' = W\<lparr>sw_seenKeys := seen, sw_keys := ks\<rparr>" "set ks = insert (objectKey r kind d) (set (sw_keys W))"
    "keys_ok r W'"
proof (cases "objectKey r kind d \<in> sw_seenKeys W")
  case True
  then show ?thesis using assms that [where seen = "sw_seenKeys W" and ks = "sw_keys W"] by (auto simp: addKey_def keys_ok_def Let_def)
next
  case False
  then show ?thesis
    using assms that [where seen = "insert (objectKey r kind d) (sw_seenKeys W)" and ks = "sw_keys W @ [objectKey r kind d]"]
    by (auto simp: addKey_def keys_ok_def Let_def split: if_splits)
qed

lemma addKey_grows: "\<lbrakk>addKey r W ''chunk'' d = Inr W'; keys_ok r W\<rbrakk> \<Longrightarrow> grows r W {} {d} W'"
  by (erule (1) addKey_keys) (auto simp: grows_def)

lemma record_size_Inr: "record_size sizes d n = Inr sizes' \<Longrightarrow> sizes \<subseteq>\<^sub>m sizes' \<and> sizes' d = Some n"
  by (auto simp: record_size_def map_le_def split: option.splits if_splits)

lemma expect_size_Inr:
  assumes "expect_size W node n = Inr W'"
  obtains fs ls where "W' = W\<lparr>sw_fileSizes := fs, sw_linkSizes := ls\<rparr>" "sw_fileSizes W \<subseteq>\<^sub>m fs" "sw_linkSizes W \<subseteq>\<^sub>m ls"
    "sized W' node n"
proof -
  consider "scn_kind node = ''file''" | "scn_kind node = ''symlink''" | "scn_kind node \<noteq> ''file''" "scn_kind node \<noteq> ''symlink''" by blast
  then show ?thesis
  proof cases
    case 1
    then obtain fs where "record_size (sw_fileSizes W) (scn_digest node) n = Inr fs" "W' = W\<lparr>sw_fileSizes := fs\<rparr>"
      using assms by (auto simp: expect_size_def)
    then show ?thesis using that [where fs = fs and ls = "sw_linkSizes W"] 1 record_size_Inr by (force simp: sized_def)
  next
    case 2
    then obtain ls where "record_size (sw_linkSizes W) (scn_digest node) n = Inr ls" "W' = W\<lparr>sw_linkSizes := ls\<rparr>"
      using assms by (auto simp: expect_size_def)
    then show ?thesis using that [where fs = "sw_fileSizes W" and ls = ls] 2 record_size_Inr by (force simp: sized_def)
  next
    case 3
    then show ?thesis using that [where fs = "sw_fileSizes W" and ls = "sw_linkSizes W"] assms by (simp add: expect_size_def sized_def)
  qed
qed

lemma schedule_grows:
  assumes "schedule r W node n depth = Inr W'" "keys_ok r W"
  shows "grows r W {node} {} W' \<and> sized W' node n"
proof -
  obtain X where X: "expect_size W node n = Inr X" and
    c: "(if node \<in> sw_scheduled X then Inr X
         else okr (addKey r X (scn_kind node) (scn_digest node)) (\<lambda>walker.
          Inr (walker\<lparr>sw_scheduled := insert node (sw_scheduled walker),
            sw_work := sw_work walker @ [\<lparr>scw_node = node, scw_depth = depth\<rparr>]\<rparr>))) = Inr W'"
    using assms(1) by (auto simp: schedule_def split: if_splits)
  obtain fs ls where x: "X = W\<lparr>sw_fileSizes := fs, sw_linkSizes := ls\<rparr>" "sw_fileSizes W \<subseteq>\<^sub>m fs" "sw_linkSizes W \<subseteq>\<^sub>m ls" "sized X node n"
    using expect_size_Inr [OF X] .
  have k: "keys_ok r X" using assms(2) x(1) by (simp add: keys_ok_def)
  show ?thesis
  proof (cases "node \<in> sw_scheduled X")
    case True
    then show ?thesis using c k x assms(2) by (auto simp: grows_def keys_ok_def)
  next
    case False
    then obtain Y where Y: "addKey r X (scn_kind node) (scn_digest node) = Inr Y"
      "W' = Y\<lparr>sw_scheduled := insert node (sw_scheduled Y), sw_work := sw_work Y @ [\<lparr>scw_node = node, scw_depth = depth\<rparr>]\<rparr>"
      using c by auto
    obtain seen ks where y: "Y = X\<lparr>sw_seenKeys := seen, sw_keys := ks\<rparr>"
      "set ks = insert (node_key r node) (set (sw_keys X))" "keys_ok r Y"
      using addKey_keys [OF Y(1) k] by (metis node_key_def)
    have "keys_ok r W'" using y Y(2) by (auto simp: keys_ok_def)
    then show ?thesis using y Y(2) x False by (auto simp: grows_def sized_def intro!: exI [of _ "[\<lparr>scw_node = node, scw_depth = depth\<rparr>]"])
  qed
qed

definition entry_children :: "dirEntry list \<Rightarrow> (snapshotClosureNode \<times> int) set" where
  "entry_children es = {x. \<exists>e \<in> set es. entry_node e = Some x}"

lemma entry_children_simps [simp]:
  "entry_children [] = {}"
  "entry_node e = Some x \<Longrightarrow> entry_children (e # es) = insert x (entry_children es)"
  by (auto simp: entry_children_def)

lemma walk_entries_grows:
  "keys_ok r W \<Longrightarrow> wp (walk_entries env r depth W es) (\<lambda>res _. \<forall>W'. res = Inr W' \<longrightarrow>
     grows r W (fst ` entry_children es) {} W' \<and> (\<forall>(c, n) \<in> entry_children es. sized W' c n)) s"
proof (induction es arbitrary: W s)
  case (Cons e es)
  have 1: "wp (walk_entries env r depth X es) (\<lambda>res _. \<forall>W'. res = Inr W' \<longrightarrow>
       grows r W (insert node (fst ` entry_children es)) {} W' \<and> sized W' node n \<and> (\<forall>(c, n) \<in> entry_children es. sized W' c n)) s'"
    if x: "schedule r (W\<lparr>sw_edges := m\<rparr>) node n depth = Inr X" for node n X m s'
  proof (rule wp_conseq [OF Cons.IH])
    have g: "grows r W {node} {} X" "sized X node n" using schedule_grows [OF x] Cons.prems by simp_all
    show k: "keys_ok r X" by (rule grows_keys_ok [OF g(1)])
    fix res s''
    assume h: "\<forall>W'. res = Inr W' \<longrightarrow> grows r X (fst ` entry_children es) {} W' \<and> (\<forall>(c, n) \<in> entry_children es. sized W' c n)"
    show "\<forall>W'. res = Inr W' \<longrightarrow> grows r W (insert node (fst ` entry_children es)) {} W' \<and> sized W' node n
        \<and> (\<forall>(c, n) \<in> entry_children es. sized W' c n)"
      using h grows_trans [OF g(1), of "fst ` entry_children es" "{}"] sized_mono [OF g(2)] by (simp, blast)
  qed
  show ?case
    unfolding walk_entries.simps wp_bind
    by (rule wp_addEdge) (auto simp: wp_simps simp del: walk_entries.simps split: option.splits intro!: 1)
qed simp

lemma walk_chunks_grows:
  "keys_ok r W \<Longrightarrow> wp (walk_chunks env r W cs) (\<lambda>res _. \<forall>W'. res = Inr W' \<longrightarrow> grows r W {} (cr_Digest ` set cs) W') s"
proof (induction cs arbitrary: W s)
  case (Cons c cs)
  have 1: "wp (walk_chunks env r X cs) (\<lambda>res _. \<forall>W'. res = Inr W' \<longrightarrow> grows r W {} (cr_Digest ` set (c # cs)) W') s'"
    if x: "addKey r (W\<lparr>sw_edges := m\<rparr>) ''chunk'' (cr_Digest c) = Inr X" for X m s'
  proof (rule wp_conseq [OF Cons.IH])
    note g = addKey_grows [OF x]
    show k: "keys_ok r X" using g Cons.prems by (auto dest: grows_keys_ok)
    fix res s'' assume "\<forall>W'. res = Inr W' \<longrightarrow> grows r X {} (cr_Digest ` set cs) W'"
    then show "\<forall>W'. res = Inr W' \<longrightarrow> grows r W {} (cr_Digest ` set (c # cs)) W'"
      using grows_trans [of r W "{}" "{cr_Digest c}" X "{}"] g Cons.prems by auto
  qed
  show ?case
    unfolding walk_chunks.simps wp_bind
    by (rule wp_addEdge) (auto simp: wp_simps simp del: walk_chunks.simps intro!: 1 [simplified])
qed simp


subsection \<open>The tree of the snapshot\<close>

definition node_object :: "'w Env \<Rightarrow> snapshotClosureNode \<Rightarrow> metadata \<Rightarrow> bool" where
  "node_object env node m \<longleftrightarrow> meta_ok env \<lparr>mk_kind = scn_kind node, mk_digest = scn_digest node\<rparr> m"

primrec meta_children :: "metadata \<Rightarrow> (snapshotClosureNode \<times> int) set" where
  "meta_children (MDir m) = entry_children (elems (dm_Entries m))"
| "meta_children (MFile m) = {}"
| "meta_children (MSymlink m) = {}"

primrec meta_chunks :: "metadata \<Rightarrow> digest set" where
  "meta_chunks (MDir m) = {}"
| "meta_chunks (MFile m) = cr_Digest ` set (elems (fm_Chunks m))"
| "meta_chunks (MSymlink m) = {}"

text \<open>The size a directory entry should declare; -1 stands for a directory, as in the source.\<close>

primrec meta_size :: "metadata \<Rightarrow> int" where
  "meta_size (MDir m) = - 1"
| "meta_size (MFile m) = fm_Size m"
| "meta_size (MSymlink m) = len (elems (sm_Target m))"

inductive reaches :: "(snapshotClosureNode \<rightharpoonup> metadata) \<Rightarrow> snapshotClosureNode \<Rightarrow> snapshotClosureNode \<Rightarrow> bool" for content origin where
  origin: "reaches content origin origin"
| child: "\<lbrakk>reaches content origin n; content n = Some m; (c, k) \<in> meta_children m\<rbrakk> \<Longrightarrow> reaches content origin c"

lemma reaches_mono: "reaches content origin n \<Longrightarrow> content \<subseteq>\<^sub>m content' \<Longrightarrow> reaches content' origin n"
  by (induction rule: reaches.induct) (auto simp: map_le_def dom_def intro: reaches.intros)

definition chunk_keys :: "'w Repository \<Rightarrow> (snapshotClosureNode \<rightharpoonup> metadata) \<Rightarrow> bytes set" where
  "chunk_keys r content = objectKey r ''chunk'' ` (\<Union>m \<in> ran content. meta_chunks m)"

text \<open>While \<open>walk\<close> runs, \<open>content\<close> holds the manifests of the nodes it has visited.\<close>

definition tree_inv :: "'w Env \<Rightarrow> 'w Repository \<Rightarrow> int \<Rightarrow> bytes set \<Rightarrow> snapshotClosureNode \<Rightarrow> snapshotClosureWalker
    \<Rightarrow> (snapshotClosureNode \<rightharpoonup> metadata) \<Rightarrow> bool" where
  "tree_inv env r lim base origin W content \<longleftrightarrow> keys_ok r W \<and> sw_maximumObjects W = lim \<and> distinct (map scw_node (sw_work W))
     \<and> scw_node ` set (sw_work W) \<subseteq> sw_scheduled W \<and> dom content = sw_scheduled W - scw_node ` set (sw_work W)
     \<and> origin \<in> sw_scheduled W \<and> (\<forall>n \<in> sw_scheduled W. reaches content origin n \<and> (\<exists>k. sized W n k))
     \<and> (\<forall>n m. content n = Some m \<longrightarrow> node_object env n m \<and> sized W n (meta_size m) \<and> fst ` meta_children m \<subseteq> sw_scheduled W
         \<and> (\<forall>(c, k) \<in> meta_children m. sized W c k))
     \<and> set (sw_keys W) = base \<union> node_key r ` sw_scheduled W \<union> chunk_keys r content"

lemma visit_sets:
  assumes "n \<notin> R" "insert n R \<subseteq> S"
  shows "insert n (S - insert n R) = S \<union> C - (R \<union> (C - S))" "R \<union> (C - S) \<subseteq> S \<union> C" "R \<inter> (C - S) = {}"
  using assms by blast+

lemma tree_inv_visit:
  assumes inv: "tree_inv env r lim base origin W content" and work: "sw_work W = rest @ [item]"
    and m: "node_object env (scw_node item) m" "sized W' (scw_node item) (meta_size m)" "\<forall>(c, k) \<in> meta_children m. sized W' c k"
    and g: "grows r (W\<lparr>sw_work := rest\<rparr>) (fst ` meta_children m) (meta_chunks m) W'"
  shows "tree_inv env r lim base origin W' (content(scw_node item \<mapsto> m))"
proof -
  let ?n = "scw_node item" and ?c = "content(scw_node item \<mapsto> m)"
  obtain new where new: "sw_work W' = rest @ new" "distinct (map scw_node new)"
      "scw_node ` set new = fst ` meta_children m - sw_scheduled W"
    using g by (auto simp: grows_def)
  have s: "sw_scheduled W' = sw_scheduled W \<union> fst ` meta_children m" "keys_ok r W'"
      "sw_maximumObjects W' = sw_maximumObjects W" "set (sw_keys W') = set (sw_keys W) \<union> node_key r ` fst ` meta_children m \<union> objectKey r ''chunk'' ` meta_chunks m"
    using g by (auto simp: grows_def)
  have fresh: "content ?n = None" using inv work by (auto simp: tree_inv_def dom_def)
  then have le: "content \<subseteq>\<^sub>m ?c" by (auto simp: map_le_def)
  have ran: "ran ?c = insert m (ran content)" using fresh by (simp add: ran_map_upd)
  have d: "dom content = sw_scheduled W - insert ?n (scw_node ` set rest)" "?n \<notin> scw_node ` set rest"
      "insert ?n (scw_node ` set rest) \<subseteq> sw_scheduled W" "distinct (map scw_node rest)"
    using inv work by (auto simp: tree_inv_def)
  have im: "scw_node ` set (sw_work W') = scw_node ` set rest \<union> (fst ` meta_children m - sw_scheduled W)"
    using new by (simp add: image_Un)
  have mono: "sized W' x k" if "sized W x k" for x k
    using sized_mono [OF _ g, of x k] that by (simp add: sized_def)
  have old: "sized W' n' (meta_size m')" "\<forall>(c, k) \<in> meta_children m'. sized W' c k"
    if "content n' = Some m'" for n' m'
  proof -
    have "sized W n' (meta_size m')" "\<forall>(c, k) \<in> meta_children m'. sized W c k"
      using inv that unfolding tree_inv_def by blast+
    then show "sized W' n' (meta_size m')" "\<forall>(c, k) \<in> meta_children m'. sized W' c k"
      by (auto intro: mono)
  qed
  have r1: "reaches ?c origin x" if "x \<in> sw_scheduled W" for x
    using inv that reaches_mono [OF _ le] by (auto simp: tree_inv_def)
  have r2: "reaches ?c origin x" if "x \<in> fst ` meta_children m" for x
    using that d(3) reaches.child [OF r1 [of ?n], of m] by auto
  have keys: "set (sw_keys W') = base \<union> node_key r ` sw_scheduled W' \<union> chunk_keys r ?c"
    using s inv unfolding tree_inv_def chunk_keys_def ran by auto
  show ?thesis
    unfolding tree_inv_def
  proof (intro conjI ballI allI impI)
    have "dom ?c = insert ?n (sw_scheduled W - insert ?n (scw_node ` set rest))" by (simp add: d(1))
    then show "dom ?c = sw_scheduled W' - scw_node ` set (sw_work W')" unfolding im s(1) using visit_sets(1) [OF d(2,3)] by metis
    show "scw_node ` set (sw_work W') \<subseteq> sw_scheduled W'" unfolding im s(1) by (rule visit_sets(2) [OF d(2,3)])
    have "scw_node ` set rest \<inter> scw_node ` set new = {}" unfolding new(3) by (rule visit_sets(3) [OF d(2,3)])
    then show "distinct (map scw_node (sw_work W'))" unfolding new(1) map_append distinct_append set_map using d(4) new(2) by blast
    fix x assume x: "x \<in> sw_scheduled W'"
    show "reaches ?c origin x" using x r1 r2 s(1) by blast
    show "\<exists>k. sized W' x k"
    proof (cases "x \<in> sw_scheduled W")
      case True
      then have "\<exists>k. sized W x k" using inv by (simp add: tree_inv_def)
      then show ?thesis using mono by blast
    next
      case False
      then obtain k where "(x, k) \<in> meta_children m" using x s(1) by auto
      then show ?thesis using m(3) by blast
    qed
  next
    fix n' m' assume c: "?c n' = Some m'"
    have "node_object env n' m' \<and> fst ` meta_children m' \<subseteq> sw_scheduled W" if "content n' = Some m'"
      using inv that unfolding tree_inv_def by blast
    then show "node_object env n' m'" "sized W' n' (meta_size m')" "fst ` meta_children m' \<subseteq> sw_scheduled W'"
      using c m(1,2) s(1) old(1) by (cases "n' = ?n"; simp; blast)+
    fix x assume "x \<in> meta_children m'"
    then show "case x of (c, k) \<Rightarrow> sized W' c k" using c m(3) old(2) by (auto split: if_splits)
  qed (use s keys inv in \<open>auto simp: tree_inv_def\<close>)
qed

lemma known_size_sized:
  "\<lbrakk>sized W n k; scn_kind n = ''file''\<rbrakk> \<Longrightarrow> known_size (sw_fileSizes W) (scn_digest n) = k"
  "\<lbrakk>sized W n k; scn_kind n = ''symlink''\<rbrakk> \<Longrightarrow> known_size (sw_linkSizes W) (scn_digest n) = k"
  by (simp_all add: sized_def known_size_def)


lemma walk_item_tree:
  assumes inv: "tree_inv env r lim base origin W content" and work: "sw_work W = rest @ [item]"
  shows "wp (walk_item env r (W\<lparr>sw_work := rest\<rparr>) item)
     (\<lambda>res _. \<forall>W'. res = Inr W' \<longrightarrow> (\<exists>content'. tree_inv env r lim base origin W' content')) s"
proof -
  let ?n = "scw_node item"
  have k: "keys_ok r W" and size: "\<exists>k. sized W ?n k" using inv work by (auto simp: tree_inv_def)
  have visit: "\<exists>content'. tree_inv env r lim base origin W' content'"
    if "node_object env ?n m" "sized W ?n (meta_size m)" "\<forall>(c, k) \<in> meta_children m. sized W' c k"
      "grows r (W\<lparr>sw_work := rest\<rparr>) (fst ` meta_children m) (meta_chunks m) W'" for m W'
    using tree_inv_visit [OF inv work that(1) _ that(3,4)] that(2) sized_mono [OF _ that(4), of ?n "meta_size m"]
    by (auto simp: sized_def)
  have dir: "wp (walk_entries env r depth (W\<lparr>sw_work := rest, sw_metadataBytes := b\<rparr>) (elems (dm_Entries m)))
      (\<lambda>res _. \<forall>W'. res = Inr W' \<longrightarrow> (\<exists>content'. tree_inv env r lim base origin W' content')) s'"
    if "scn_kind ?n = ''dir''" "dir_object (scn_digest ?n) m" for depth b m s'
  proof -
    have o: "node_object env ?n (MDir m)" "sized W ?n (meta_size (MDir m))" using that by (simp_all add: node_object_def sized_def)
    show ?thesis by (rule wp_conseq [OF walk_entries_grows]) (use k visit [OF o] in simp_all)
  qed
  have chunks: "wp (walk_chunks env r (W\<lparr>sw_work := rest, sw_metadataBytes := b\<rparr>) (elems (fm_Chunks m)))
      (\<lambda>res _. \<forall>W'. res = Inr W' \<longrightarrow> (\<exists>content'. tree_inv env r lim base origin W' content')) s'"
    if "scn_kind ?n = ''file''" "file_object env (scn_digest ?n) m" "known_size (sw_fileSizes W) (scn_digest ?n) = fm_Size m" for b m s'
  proof -
    have o: "node_object env ?n (MFile m)" "sized W ?n (meta_size (MFile m))"
      using size known_size_sized(1) that by (auto simp: node_object_def)
    show ?thesis by (rule wp_conseq [OF walk_chunks_grows]) (use k visit [OF o] in simp_all)
  qed
  have link: "\<exists>content'. tree_inv env r lim base origin (W\<lparr>sw_work := rest, sw_metadataBytes := b\<rparr>) content'"
    if "scn_kind ?n = ''symlink''" "symlink_object (scn_digest ?n) m" "known_size (sw_linkSizes W) (scn_digest ?n) = len (elems (sm_Target m))" for b m
  proof -
    have o: "node_object env ?n (MSymlink m)" "sized W ?n (meta_size (MSymlink m))"
      using size known_size_sized(2) that by (auto simp: node_object_def)
    have "grows r (W\<lparr>sw_work := rest\<rparr>) {} {} (W\<lparr>sw_work := rest, sw_metadataBytes := b\<rparr>)"
      using k by (simp add: grows_def)
    then show ?thesis using visit [OF o] by simp
  qed
  show ?thesis
    unfolding walk_item_def Let_def
    by (auto simp: wp_simps dir_object_def file_object_def symlink_object_def split: prod.splits
        intro!: wp_closure_getManifest [OF dm.json_codec_axioms] wp_closure_getManifest [OF fm.json_codec_axioms]
          wp_closure_getManifest [OF sm.json_codec_axioms] dir chunks link)
qed

lemma walk_tree:
  "tree_inv env r lim base origin W content \<Longrightarrow> wp (closure_walk env r W)
     (\<lambda>res _. \<forall>W'. res = Inr W' \<longrightarrow> (\<exists>content'. tree_inv env r lim base origin W' content') \<and> sw_work W' = []) s"
proof (induction env r W arbitrary: content s rule: closure_walk.induct)
  case (1 env r W content s)
  show ?case
  proof (cases "sw_work W = []")
    case True
    then show ?thesis using 1(2) by (subst closure_walk.simps) auto
  next
    case False
    then have work: "sw_work W = butlast (sw_work W) @ [last (sw_work W)]" by simp
    have step: "wp (walk_item env r (W\<lparr>sw_work := butlast (sw_work W)\<rparr>) (last (sw_work W)))
        (\<lambda>res. wp (ok res (closure_walk env r)) (\<lambda>res _. \<forall>W'. res = Inr W' \<longrightarrow> (\<exists>content'. tree_inv env r lim base origin W' content') \<and> sw_work W' = [])) s'"
      if "e = None" "run_state (ev_ctx env) s = (e, s')" for s' e
    proof (rule wp_op)
      fix res s'' assume run: "run_state (walk_item env r (W\<lparr>sw_work := butlast (sw_work W)\<rparr>) (last (sw_work W))) s' = (res, s'')"
      show "wp (ok res (closure_walk env r)) (\<lambda>res _. \<forall>W'. res = Inr W' \<longrightarrow> (\<exists>content'. tree_inv env r lim base origin W' content') \<and> sw_work W' = []) s''"
      proof (cases res)
        case (Inr X)
        obtain content' where "tree_inv env r lim base origin X content'"
          using wp_run [OF walk_item_tree [OF 1(2) work] run] Inr by blast
        moreover have "e \<in> results (ev_ctx env)"
          "res \<in> results (walk_item env r (W\<lparr>sw_work := butlast (sw_work W)\<rparr>) (last (sw_work W)))"
          using run that(2) unfolding results_def by blast+
        ultimately show ?thesis using 1(1) [OF False _ that(1) _ Inr] Inr by simp
      qed simp
    qed
    show ?thesis
      using False by (subst closure_walk.simps) (auto simp: wp_bind wp_check intro!: wp_op [of "ev_ctx env"] step)
  qed
qed


subsection \<open>The closure is exact\<close>

text \<open>The commits from generation \<open>g\<close> down to the first, each found under its digest and valid.\<close>

fun commit_chain :: "u64 \<Rightarrow> (digest \<times> commitManifest) list \<Rightarrow> bool" where
  "commit_chain g [] = False"
| "commit_chain g [(d, m)] = (g = 1 \<and> commit_object d m \<and> validateCommitManifest m g = None)"
| "commit_chain g ((d, m) # (p, n) # rest) = (g \<noteq> 1 \<and> commit_object d m \<and> validateCommitManifest m g = None
     \<and> cm_Parent m = Some p \<and> commit_chain (g - 1) ((p, n) # rest))"

text \<open>The tree below a root digest: every node that can be reached has one authenticated, valid manifest, and every
  directory entry declares the size of what it points to.\<close>

abbreviation root_node :: "digest \<Rightarrow> snapshotClosureNode" where
  "root_node d \<equiv> \<lparr>scn_kind = ''dir'', scn_digest = d\<rparr>"

definition snapshot_tree :: "'w Env \<Rightarrow> digest \<Rightarrow> (snapshotClosureNode \<rightharpoonup> metadata) \<Rightarrow> bool" where
  "snapshot_tree env d content \<longleftrightarrow> dom content = {n. reaches content (root_node d) n}
     \<and> (\<forall>n m. content n = Some m \<longrightarrow> node_object env n m
         \<and> (\<forall>(c, k) \<in> meta_children m. \<exists>m'. content c = Some m' \<and> meta_size m' = k))"

definition commit_keys :: "'w Repository \<Rightarrow> (digest \<times> commitManifest) list \<Rightarrow> bytes set" where
  "commit_keys r chain = objectKey r ''commit'' ` fst ` set chain"

definition exact_closure :: "'w Env \<Rightarrow> 'w Repository \<Rightarrow> SnapshotClosure \<Rightarrow> bool" where
  "exact_closure env r closure \<longleftrightarrow> (\<exists>commit chain content.
     commit_chain (ss_Generation (sc_Snapshot closure)) ((ss_Commit (sc_Snapshot closure), commit) # chain)
     \<and> cm_Root commit = ss_Root (sc_Snapshot closure) \<and> snapshot_tree env (ss_Root (sc_Snapshot closure)) content
     \<and> set (sc_ObjectKeys closure) = commit_keys r ((ss_Commit (sc_Snapshot closure), commit) # chain)
         \<union> node_key r ` dom content \<union> chunk_keys r content)"

lemma closure_commits_chain:
  assumes "keys_ok r W" "commit_object d c" "validateCommitManifest c g = None"
  shows "wp (closure_commits env r W g d c) (\<lambda>res _. \<forall>W'. res = Inr W' \<longrightarrow> keys_ok r W' \<and> sw_scheduled W' = sw_scheduled W
     \<and> sw_work W' = sw_work W \<and> sw_maximumObjects W' = sw_maximumObjects W
     \<and> (\<exists>chain. commit_chain g ((d, c) # chain) \<and> set (sw_keys W') = set (sw_keys W) \<union> commit_keys r ((d, c) # chain))) s"
  using assms
proof (induction "unat (g - 1)" arbitrary: W g d c s rule: less_induct)
  case (less g W d c s)
  show ?case
  proof (cases "addKey r W ''commit'' d")
    case (Inl e)
    then show ?thesis by (subst closure_commits.simps) simp
  next
    case (Inr X)
    then obtain seen ks where X: "X = W\<lparr>sw_seenKeys := seen, sw_keys := ks\<rparr>"
      "set ks = insert (objectKey r ''commit'' d) (set (sw_keys W))" "keys_ok r X"
      using addKey_keys [OF Inr less(2)] by blast
    have x: "sw_scheduled X = sw_scheduled W" "sw_work X = sw_work W" "sw_maximumObjects X = sw_maximumObjects W"
      using X(1) by simp_all
    have last: "\<exists>chain. commit_chain 1 ((d, c) # chain) \<and> set (sw_keys X) = set (sw_keys W) \<union> commit_keys r ((d, c) # chain)" if "g = 1"
      using that X less(3,4) by (intro exI [of _ "[]"]) (auto simp: commit_keys_def)
    have step: "wp (closure_commits env r (X\<lparr>sw_metadataBytes := b\<rparr>) (g - 1) p m) (\<lambda>res _. \<forall>W'. res = Inr W' \<longrightarrow> keys_ok r W'
       \<and> sw_scheduled W' = sw_scheduled W \<and> sw_work W' = sw_work W \<and> sw_maximumObjects W' = sw_maximumObjects W
       \<and> (\<exists>chain. commit_chain g ((d, c) # chain) \<and> set (sw_keys W') = set (sw_keys W) \<union> commit_keys r ((d, c) # chain))) s'"
      if g: "g \<noteq> 1" and p: "cm_Parent c = Some p" "commit_object p m" "validateCommitManifest m (g - 1) = None" for b p m s'
    proof (rule wp_conseq [OF less(1)])
      show "unat (g - 1 - 1) < unat (g - 1)" using unat_pred_less [of 0 "g - 1"] g by (simp add: word_gt_0)
      show "keys_ok r (X\<lparr>sw_metadataBytes := b\<rparr>)" "commit_object p m" "validateCommitManifest m (g - 1) = None" using X(3) p by simp_all
      have chain: "commit_chain g ((d, c) # (p, m) # chain) = commit_chain (g - 1) ((p, m) # chain)" for chain
        using g p(1) less(3,4) by simp
      have keys: "commit_keys r ((d, c) # l) = insert (objectKey r ''commit'' d) (commit_keys r l)" for l
        by (simp add: commit_keys_def)
      fix res s'' W'
      assume "\<forall>W'. res = Inr W' \<longrightarrow> keys_ok r W' \<and> sw_scheduled W' = sw_scheduled (X\<lparr>sw_metadataBytes := b\<rparr>)
        \<and> sw_work W' = sw_work (X\<lparr>sw_metadataBytes := b\<rparr>) \<and> sw_maximumObjects W' = sw_maximumObjects (X\<lparr>sw_metadataBytes := b\<rparr>)
        \<and> (\<exists>chain. commit_chain (g - 1) ((p, m) # chain)
           \<and> set (sw_keys W') = set (sw_keys (X\<lparr>sw_metadataBytes := b\<rparr>)) \<union> commit_keys r ((p, m) # chain))"
      then have h: "keys_ok r W' \<and> sw_scheduled W' = sw_scheduled W \<and> sw_work W' = sw_work W \<and> sw_maximumObjects W' = sw_maximumObjects W
        \<and> (\<exists>chain. commit_chain g ((d, c) # (p, m) # chain)
           \<and> set (sw_keys W') = set (sw_keys W) \<union> commit_keys r ((d, c) # (p, m) # chain))" if "res = Inr W'" for W'
        using that X unfolding chain keys by auto
      show "\<forall>W'. res = Inr W' \<longrightarrow> keys_ok r W' \<and> sw_scheduled W' = sw_scheduled W \<and> sw_work W' = sw_work W
        \<and> sw_maximumObjects W' = sw_maximumObjects W
        \<and> (\<exists>chain. commit_chain g ((d, c) # chain) \<and> set (sw_keys W') = set (sw_keys W) \<union> commit_keys r ((d, c) # chain))"
        using h by blast
    qed
    show ?thesis
      using Inr X(3) x by (subst closure_commits.simps) (auto simp: wp_simps last split: prod.splits simp del: commit_chain.simps
         intro!: wp_op [of "ev_ctx env"] wp_closure_getManifest [OF cm.json_codec_axioms] step simp: commit_object_def)
  qed
qed


lemma dir_child_size:
  assumes "(c, k) \<in> meta_children m" "scn_kind c = ''dir''"
  shows "k = - 1"
  using assms by (cases m) (auto simp: entry_children_def entry_node_def split: if_splits)

lemma child_kind: "(c, k) \<in> meta_children m \<Longrightarrow> scn_kind c \<in> {''dir'', ''file'', ''symlink''}"
  by (cases m) (auto simp: entry_children_def entry_node_def split: if_splits)

lemma tree_done:
  assumes inv: "tree_inv env r lim base (root_node d) W content" and fin: "sw_work W = []"
  shows "snapshot_tree env d content \<and> set (sw_keys W) = base \<union> node_key r ` dom content \<union> chunk_keys r content"
proof -
  have dom: "dom content = sw_scheduled W" using inv fin by (simp add: tree_inv_def)
  have closed: "n \<in> dom content" if "reaches content (root_node d) n" for n
    using that
  proof induction
    case origin
    then show ?case using inv dom by (simp add: tree_inv_def)
  next
    case (child n m c k)
    then have "fst ` meta_children m \<subseteq> sw_scheduled W" using inv unfolding tree_inv_def by blast
    then show ?case using child(3) dom by force
  qed
  have reach: "reaches content (root_node d) n" if "n \<in> dom content" for n
    using that inv dom by (simp add: tree_inv_def)
  have sizes: "\<exists>m'. content c = Some m' \<and> meta_size m' = k" if m: "content n = Some m" and c: "(c, k) \<in> meta_children m" for n m c k
  proof -
    have "fst ` meta_children m \<subseteq> sw_scheduled W" "sized W c k" using inv m c unfolding tree_inv_def by blast+
    then obtain m' where m': "content c = Some m'" using c dom by force
    then have "sized W c (meta_size m')" "node_object env c m'" using inv unfolding tree_inv_def by blast+
    then have "meta_size m' = k"
      using \<open>sized W c k\<close> child_kind [OF c] dir_child_size [OF c] by (cases m') (auto simp: sized_def node_object_def)
    then show ?thesis using m' by blast
  qed
  have "dom content = {n. reaches content (root_node d) n}" using closed reach by blast
  moreover have "\<forall>n m. content n = Some m \<longrightarrow> node_object env n m" using inv unfolding tree_inv_def by blast
  moreover have "set (sw_keys W) = base \<union> node_key r ` dom content \<union> chunk_keys r content"
    using inv unfolding tree_inv_def dom by blast
  ultimately show ?thesis unfolding snapshot_tree_def using sizes by fast
qed

lemma tree_start:
  assumes "keys_ok r W" "sw_scheduled W = {}" "sw_work W = []" "schedule r W (root_node d) (- 1) 0 = Inr W'"
  shows "tree_inv env r (sw_maximumObjects W) (set (sw_keys W)) (root_node d) W' Map.empty"
proof -
  have g: "grows r W {root_node d} {} W'" using schedule_grows [OF assms(4,1)] by simp
  then obtain new where new: "sw_work W' = new" "distinct (map scw_node new)" "scw_node ` set new = {root_node d}"
    using assms(2,3) by (auto simp: grows_def)
  show ?thesis
    using g new assms(2) by (auto simp: tree_inv_def grows_def chunk_keys_def sized_def reaches.origin)
qed

definition closure_objects :: "'w SnapshotClosureOptions \<Rightarrow> int" where
  "closure_objects options = (if sco_MaxObjects options = 0 then DefaultMaxSnapshotClosureObjects else sco_MaxObjects options)"

definition closure_edges :: "'w SnapshotClosureOptions \<Rightarrow> int" where
  "closure_edges options = (if sco_MaxEdges options = 0 then DefaultMaxSnapshotClosureEdges else sco_MaxEdges options)"

lemma closure_bound_Inr:
  "closure_bound (sco_MaxObjects options) DefaultMaxSnapshotClosureObjects limit = Inr n \<Longrightarrow> n = closure_objects options \<and> 1 \<le> n \<and> n \<le> limit"
  "closure_bound (sco_MaxEdges options) DefaultMaxSnapshotClosureEdges limit = Inr n \<Longrightarrow> n = closure_edges options \<and> 1 \<le> n \<and> n \<le> limit"
  by (auto simp: closure_bound_def closure_objects_def closure_edges_def Let_def split: if_splits)

lemma walked_closure:
  assumes inv: "tree_inv env r lim (commit_keys r ((sr_Commit reference, c) # chain)) (root_node (cm_Root c)) W content" "sw_work W = []"
    and chain: "commit_chain (sr_Generation reference) ((sr_Commit reference, c) # chain)"
  shows "exact_closure env r (seal_closure r channel v reference object c (sw_keys W))"
  unfolding exact_closure_def
  by (intro exI [of _ c] exI [of _ chain] exI [of _ content])
    (use tree_done [OF inv] chain in \<open>simp add: seal_closure_def Let_def\<close>)

lemma resolve_exact:
  "wp (ResolveSnapshotClosure env r channel options) (\<lambda>res _. \<forall>closure. res = Inr closure \<longrightarrow> exact_closure env r closure
     \<and> sorted (sc_ObjectKeys closure) \<and> distinct (sc_ObjectKeys closure) \<and> len (sc_ObjectKeys closure) \<le> closure_objects options) s"
proof -
  let ?Q = "\<lambda>res (_ :: 'a). \<forall>closure. res = Inr closure \<longrightarrow> exact_closure env r closure
     \<and> sorted (sc_ObjectKeys closure) \<and> distinct (sc_ObjectKeys closure) \<and> len (sc_ObjectKeys closure) \<le> closure_objects options"
  have tree: "wp (closure_walk env r W') (\<lambda>t. wp (ok t (\<lambda>walker. return (Inr (seal_closure r channel (sco_ReferenceVerifier options)
        reference object c (sw_keys walker))))) ?Q) s'"
    if W: "keys_ok r W" "sw_scheduled W = {}" "sw_work W = []" "sw_maximumObjects W = closure_objects options"
      and chain: "commit_chain (sr_Generation reference) ((sr_Commit reference, c) # chain)"
        "set (sw_keys W) = commit_keys r ((sr_Commit reference, c) # chain)"
      and sch: "schedule r W (root_node (cm_Root c)) (- 1) 0 = Inr W'" for W W' reference object c chain s'
  proof -
    have "tree_inv env r (closure_objects options) (commit_keys r ((sr_Commit reference, c) # chain)) (root_node (cm_Root c)) W' Map.empty"
      using tree_start [OF W(1-3) sch] chain(2) W(4) by simp
    from walk_tree [OF this] show ?thesis
    proof (rule wp_conseq)
      fix t :: "err + snapshotClosureWalker" and s'' assume t: "\<forall>W'. t = Inr W' \<longrightarrow> (\<exists>content'. tree_inv env r (closure_objects options)
          (commit_keys r ((sr_Commit reference, c) # chain)) (root_node (cm_Root c)) W' content') \<and> sw_work W' = []"
      have "?Q (Inr (seal_closure r channel v reference object c (sw_keys X))) s''" if x: "t = Inr X" for X v
      proof -
        obtain content where "tree_inv env r (closure_objects options) (commit_keys r ((sr_Commit reference, c) # chain))
          (root_node (cm_Root c)) X content" "sw_work X = []"
          using t x by blast
        from walked_closure [OF this chain(1)] this(1) show ?thesis
          by (auto simp: seal_closure_def Let_def tree_inv_def keys_ok_def)
      qed
      then show "wp (ok t (\<lambda>walker. return (Inr (seal_closure r channel (sco_ReferenceVerifier options)
          reference object c (sw_keys walker))))) ?Q s''"
        by (cases t) simp_all
    qed
  qed
  have commits: "wp (closure_commits env r (new_walker n e b\<lparr>sw_metadataBytes := m\<rparr>) (sr_Generation reference) (sr_Commit reference) c)
      (\<lambda>a. wp (ok a (\<lambda>walker. ok (schedule r walker (root_node (cm_Root c)) (- 1) 0) (\<lambda>walker. do {
               t \<leftarrow> closure_walk env r walker;
               ok t (\<lambda>walker. return (Inr (seal_closure r channel (sco_ReferenceVerifier options)
                 reference object c (sw_keys walker)))) }))) ?Q) s'"
    if "commit_object (sr_Commit reference) c" "validateCommitManifest c (sr_Generation reference) = None"
      "n = closure_objects options" "1 \<le> n" for reference object c n e b m s'
    by (rule wp_conseq [OF closure_commits_chain])
      (use that tree in \<open>auto simp: keys_ok_def new_walker_def wp_ok wp_bind\<close>)
  show ?thesis
    unfolding ResolveSnapshotClosure_def
    by (auto simp: wp_simps commit_object_def dest!: closure_bound_Inr split: prod.splits
        intro!: wp_op [of "getReferenceWithVerifier _ _ _ _ _"] wp_closure_getManifest [OF cm.json_codec_axioms] commits [simplified wp_ok wp_bind])
qed


subsection \<open>The number of reads\<close>

text \<open>\<open>costs reads n m\<close>: however \<open>m\<close> ends, it makes at most \<open>n\<close> reads.\<close>

definition costs :: "('w \<Rightarrow> nat) \<Rightarrow> nat \<Rightarrow> ('w, 'a) state \<Rightarrow> bool" where
  "costs reads n m \<longleftrightarrow> steps (\<lambda>w w'. reads w' \<le> reads w + n) m"

lemma costs_return [simp]: "costs reads n (return x)"
  by (simp add: costs_def steps_def)

lemma costs_weaken: "costs reads n m \<Longrightarrow> n \<le> n' \<Longrightarrow> costs reads n' m"
  unfolding costs_def steps_def by (meson add_left_mono order_trans)

lemma costs_bind:
  assumes "costs reads n m" "\<And>a. a \<in> results m \<Longrightarrow> costs reads k (f a)"
  shows "costs reads (n + k) (State_Monad.bind m f)"
  unfolding costs_def
proof (rule stepsI)
  fix w b w' assume "run_state (State_Monad.bind m f) w = (b, w')"
  then obtain a u where "run_state m w = (a, u)" "run_state (f a) u = (b, w')" by (auto simp: State_Monad.bind_def split: prod.splits)
  moreover from this have "a \<in> results m" unfolding results_def by blast
  ultimately have "reads u \<le> reads w + n" "reads w' \<le> reads u + k"
    using assms by (auto simp: costs_def steps_def)
  then show "reads w' \<le> reads w + (n + k)" by simp
qed

lemma costs_bind': "\<lbrakk>costs reads n m; \<And>a. costs reads k (f a); n + k \<le> j\<rbrakk> \<Longrightarrow> costs reads j (State_Monad.bind m f)"
  using costs_bind costs_weaken by blast

lemma costs_ok [intro!]: "(\<And>x. r = Inr x \<Longrightarrow> costs reads n (k x)) \<Longrightarrow> costs reads n (ok r k)"
  by (cases r) auto

lemma costs_check [intro!]: "(e = None \<Longrightarrow> costs reads n k) \<Longrightarrow> costs reads n (check e k)"
  by (cases e) auto

text \<open>What the environment promises: a \<open>Get\<close> is one read; polling the context and verifying a signature are none.\<close>

definition reads_once :: "('w \<Rightarrow> nat) \<Rightarrow> 'w Env \<Rightarrow> 'w Repository \<Rightarrow> 'w ReferenceVerifier option \<Rightarrow> bool" where
  "reads_once reads env r v \<longleftrightarrow> costs reads 0 (ev_ctx env) \<and> (\<forall>k opt. costs reads 1 (Get (rp_reader r) k opt))
     \<and> (\<forall>verifier. v = Some verifier \<longrightarrow> (\<forall>key m sig. costs reads 0 (rv_Verify verifier key m sig)))"

lemma closure_getManifest_costs:
  assumes "reads_once reads env r v"
  shows "costs reads 1 (closure_getManifest env r to_json of_json W kind d)"
proof -
  have ctx: "costs reads 0 (ev_ctx env)" and get: "costs reads 1 (getImmutableLimited r kind d limit)" for limit
    using assms by (auto simp: reads_once_def getImmutableLimited_def intro!: costs_bind' [where n = 1 and k = 0])
  show ?thesis
    unfolding closure_getManifest_def Let_def
    by (rule costs_bind' [OF ctx, where k = 1]) (auto intro!: costs_bind' [OF get, where k = 0])
qed

lemma walk_entries_costs: "reads_once reads env r v \<Longrightarrow> costs reads 0 (walk_entries env r depth W es)"
  by (induction es arbitrary: W)
    (auto simp: reads_once_def addEdge_def split: option.splits intro!: costs_bind' [where n = 0 and k = 0])

lemma walk_chunks_costs: "reads_once reads env r v \<Longrightarrow> costs reads 0 (walk_chunks env r W cs)"
  by (induction cs arbitrary: W)
    (auto simp: reads_once_def addEdge_def intro!: costs_bind' [where n = 0 and k = 0])

lemma walk_item_costs: "reads_once reads env r v \<Longrightarrow> costs reads 1 (walk_item env r W item)"
  unfolding walk_item_def Let_def
  by (auto intro!: costs_bind' [where n = 1 and k = 0] closure_getManifest_costs walk_entries_costs walk_chunks_costs split: prod.splits)

lemma walk_costs: "reads_once reads env r v \<Longrightarrow> costs reads (walk_budget W) (closure_walk env r W)"
proof (induction env r W rule: closure_walk.induct)
  case (1 env r W)
  show ?case
  proof (cases "sw_work W = []")
    case False
    let ?W = "W\<lparr>sw_work := butlast (sw_work W)\<rparr>"
    have b: "walk_budget W = 1 + walk_budget ?W" using False by (simp add: walk_budget_def Suc_pred)
    have rec: "costs reads (walk_budget ?W) (ok a (closure_walk env r))"
      if "e \<in> results (ev_ctx env)" "e = None" "a \<in> results (walk_item env r ?W (last (sw_work W)))" for e a
    proof (rule costs_ok)
      fix X assume a: "a = Inr X"
      then have "walk_budget X \<le> walk_budget ?W" using resultsD [OF that(3) walk_item_budget] by blast
      then show "costs reads (walk_budget ?W) (closure_walk env r X)"
        using 1(1) [OF False that a 1(2)] costs_weaken by blast
    qed
    have item: "costs reads (walk_budget W) (State_Monad.bind (walk_item env r ?W (last (sw_work W))) (\<lambda>a. ok a (closure_walk env r)))"
      if "e \<in> results (ev_ctx env)" "e = None" for e
      unfolding b using costs_bind [OF walk_item_costs [OF 1(2)] rec [OF that]] .
    have "costs reads (0 + walk_budget W) (State_Monad.bind (ev_ctx env)
        (\<lambda>e. check e (State_Monad.bind (walk_item env r ?W (last (sw_work W))) (\<lambda>a. ok a (closure_walk env r)))))"
      using 1(2) by (intro costs_bind) (auto simp: reads_once_def intro!: item)
    then show ?thesis using False by (subst closure_walk.simps) simp
  qed (subst closure_walk.simps, simp)
qed

lemma closure_commits_costs: "reads_once reads env r v \<Longrightarrow> costs reads (unat (g - 1)) (closure_commits env r W g d c)"
proof (induction "unat (g - 1)" arbitrary: W g d c rule: less_induct)
  case (less g W d c)
  show ?case
  proof (cases "g = 1")
    case False
    then have p: "unat (g - 1 - 1) < unat (g - 1)" using unat_pred_less [of 0 "g - 1"] by (simp add: word_gt_0)
    have 1: "costs reads (unat (g - 1)) (do {
        x \<leftarrow> closure_getManifest env r commitManifest_to_json commitManifest_of_json X ''commit'' q;
        ok x (\<lambda>(walker, ancestor). check (validateCommitManifest ancestor (g - 1)) (closure_commits env r walker (g - 1) q ancestor)) })" for X q
      by (rule costs_bind' [OF closure_getManifest_costs [OF less(2)], where k = "unat (g - 1 - 1)"])
        (use p less(1) [OF p less(2)] in \<open>auto split: prod.splits\<close>)
    show ?thesis
      using False less(2) by (subst closure_commits.simps)
        (auto simp: reads_once_def split: option.splits intro!: costs_bind' [where n = 0 and k = "unat (g - 1)"] 1)
  qed (subst closure_commits.simps, auto)
qed


lemma closure_commits_budget:
  "wp (closure_commits env r W g d c) (\<lambda>res _. \<forall>W'. res = Inr W' \<longrightarrow> walk_budget W' = walk_budget W) s"
proof (induction "unat (g - 1)" arbitrary: W g d c s rule: less_induct)
  case (less g W d c s)
  have step: "wp (closure_commits env r (X\<lparr>sw_metadataBytes := b\<rparr>) (g - 1) p m)
      (\<lambda>res _. \<forall>W'. res = Inr W' \<longrightarrow> walk_budget W' = walk_budget W) s'"
    if "g \<noteq> 1" "addKey r W ''commit'' d = Inr X" for X b p m s'
    by (rule wp_conseq [OF less]) (use that unat_pred_less [of 0 "g - 1"] addKey_budget [OF that(2)] in \<open>auto simp: word_gt_0\<close>)
  show ?case
    by (subst closure_commits.simps) (auto simp: wp_simps addKey_budget split: prod.splits
      intro!: wp_op [of "ev_ctx env"] wp_closure_getManifest [OF cm.json_codec_axioms] step)
qed

lemma reference_generation:
  "wp (getReferenceWithVerifier ctx r channel m v) (\<lambda>res _. \<forall>x. res = Inr x \<longrightarrow> sr_Generation (fst x) \<noteq> 0) s"
proof -
  have "wp (VerifySnapshotReference ctx data channel v) (\<lambda>res _. \<forall>i. res = Inr i \<longrightarrow> si_Generation i \<noteq> 0) s'" for data s'
    unfolding VerifySnapshotReference_def
    by (auto simp: wp_simps intro!: wp_op [of ctx] wp_op [of "verifySignedSnapshotReference _ _ _"])
  from wp_conseq [OF this] show ?thesis
    unfolding getReferenceWithVerifier_def Let_def
    by (auto simp: wp_simps intro!: wp_op [of "Get _ _ _"])
qed

lemma reference_costs:
  assumes "reads_once reads env r v"
  shows "costs reads 1 (getReferenceWithVerifier (ev_ctx env) r channel m v)"
proof -
  have ctx: "costs reads 0 (ev_ctx env)" and get: "costs reads 1 (Get (rp_reader r) k opt)" for k opt
    using assms by (auto simp: reads_once_def)
  have signed: "costs reads 0 (verifySignedSnapshotReference data channel v)" for data
    unfolding verifySignedSnapshotReference_def Let_def
    using assms by (auto simp: reads_once_def split: option.splits sum.splits intro!: costs_bind' [where n = 0 and k = 0])
  have "costs reads 0 (VerifySnapshotReference (ev_ctx env) data channel v)" for data
    unfolding VerifySnapshotReference_def
    by (rule costs_bind' [OF ctx, where k = 0])
      (use signed in \<open>auto intro!: costs_bind' [where n = 0 and k = 0] split: option.splits\<close>)
  then show ?thesis
    unfolding getReferenceWithVerifier_def Let_def
    by (intro costs_bind' [OF get, where k = 0]) (auto intro!: costs_bind' [where n = 0 and k = 0])
qed

lemma resolve_costs:
  assumes once: "reads_once reads env r (sco_ReferenceVerifier options)"
  shows "costs reads (nat (closure_objects options) + nat (closure_edges options) + 2) (ResolveSnapshotClosure env r channel options)"
proof -
  let ?n = "nat (closure_objects options)" and ?e = "nat (closure_edges options)"
  have tree: "costs reads (Suc ?e) (do { t \<leftarrow> closure_walk env r X; ok t (\<lambda>walker. return (Inr (f walker))) })"
    if "schedule r W (root_node d) (- 1) 0 = Inr X" "walk_budget W = ?e" for W X d f
    using schedule_budget [OF that(1)] that(2)
    by (auto intro!: costs_bind' [OF walk_costs [OF once], where k = 0])
  have commits: "costs reads (unat (g - 1) + (?e + 1)) (do {
      a \<leftarrow> closure_commits env r W g d c;
      ok a (\<lambda>walker. ok (schedule r walker (root_node d') (- 1) 0) (\<lambda>walker. do {
        t \<leftarrow> closure_walk env r walker; ok t (\<lambda>walker. return (Inr (f walker))) })) })"
    if "walk_budget W = ?e" for W g d d' c and f :: "snapshotClosureWalker \<Rightarrow> SnapshotClosure"
    by (rule costs_bind [OF closure_commits_costs [OF once]])
      (use that in \<open>auto intro!: tree dest!: resultsD [OF _ closure_commits_budget]\<close>)
  have start: "walk_budget W = ?e" if "x \<in> results (closure_getManifest env r commitManifest_to_json commitManifest_of_json
      (new_walker n (closure_edges options) b) ''commit'' d)" "x = Inr (W, c)" for x W c n b d
  proof -
    have "wp (closure_getManifest env r commitManifest_to_json commitManifest_of_json (new_walker n (closure_edges options) b) ''commit'' d)
      (\<lambda>x _. \<forall>W c. x = Inr (W, c) \<longrightarrow> walk_budget W = ?e) s" for s
      by (rule wp_closure_getManifest [OF cm.json_codec_axioms]) (simp_all add: walk_budget_def new_walker_def)
    from resultsD [OF that(1) this] show ?thesis using that(2) by blast
  qed
  have all: "costs reads (1 + (unat (g - 1) + (?e + 1))) (do {
      c \<leftarrow> closure_getManifest env r commitManifest_to_json commitManifest_of_json
        (new_walker (closure_objects options) (closure_edges options) b) ''commit'' d;
      ok c (\<lambda>(walker, commit). check (validateCommitManifest commit g) (do {
        a \<leftarrow> closure_commits env r walker g d commit;
        ok a (\<lambda>walker. ok (schedule r walker (root_node (cm_Root commit)) (- 1) 0) (\<lambda>walker. do {
          t \<leftarrow> closure_walk env r walker; ok t (\<lambda>walker. return (Inr (f commit walker))) })) })) })"
    for b d g and f :: "commitManifest \<Rightarrow> snapshotClosureWalker \<Rightarrow> SnapshotClosure"
    by (rule costs_bind [OF closure_getManifest_costs [OF once]]) (auto split: prod.splits intro!: commits [simplified] dest: start)
  have fits: "1 + (unat (g - 1) + (?e + 1)) \<le> ?n + ?e + 1" if "g \<noteq> 0" "int (unat g) \<le> closure_objects options" for g :: u64
  proof -
    have "unat (g - 1) < unat g" using unat_pred_less [of 0 g] that(1) by (simp add: word_gt_0)
    moreover have "unat g \<le> ?n" using that(2) by linarith
    ultimately show ?thesis by linarith
  qed
  have big: "costs reads (1 + (?n + ?e + 1)) (do {
       f \<leftarrow> getReferenceWithVerifier (ev_ctx env) r channel [] (sco_ReferenceVerifier options);
       ok f (\<lambda>(reference, object).
         if int (unat (sr_Generation reference)) > closure_objects options then throw [ErrResourceLimit]
         else do {
           c \<leftarrow> closure_getManifest env r commitManifest_to_json commitManifest_of_json
             (new_walker (closure_objects options) (closure_edges options) b) ''commit'' (sr_Commit reference);
           ok c (\<lambda>(walker, commit). check (validateCommitManifest commit (sr_Generation reference)) (do {
             a \<leftarrow> closure_commits env r walker (sr_Generation reference) (sr_Commit reference) commit;
             ok a (\<lambda>walker. ok (schedule r walker (root_node (cm_Root commit)) (- 1) 0) (\<lambda>walker. do {
               t \<leftarrow> closure_walk env r walker;
               ok t (\<lambda>walker. return (Inr (seal_closure r channel (sco_ReferenceVerifier options)
                 reference object commit (sw_keys walker)))) })) })) }) })" for b
  proof (rule costs_bind [OF reference_costs [OF once]], rule costs_ok)
    fix a x assume a: "a \<in> results (getReferenceWithVerifier (ev_ctx env) r channel [] (sco_ReferenceVerifier options))" "a = Inr x"
    have "sr_Generation (fst x) \<noteq> 0" using resultsD [OF a(1) reference_generation] a(2) by blast
    then show "costs reads (?n + ?e + 1) (case x of (reference, object) \<Rightarrow>
         if int (unat (sr_Generation reference)) > closure_objects options then throw [ErrResourceLimit]
         else do {
           c \<leftarrow> closure_getManifest env r commitManifest_to_json commitManifest_of_json
             (new_walker (closure_objects options) (closure_edges options) b) ''commit'' (sr_Commit reference);
           ok c (\<lambda>(walker, commit). check (validateCommitManifest commit (sr_Generation reference)) (do {
             a \<leftarrow> closure_commits env r walker (sr_Generation reference) (sr_Commit reference) commit;
             ok a (\<lambda>walker. ok (schedule r walker (root_node (cm_Root commit)) (- 1) 0) (\<lambda>walker. do {
               t \<leftarrow> closure_walk env r walker;
               ok t (\<lambda>walker. return (Inr (seal_closure r channel (sco_ReferenceVerifier options)
                 reference object commit (sw_keys walker)))) })) })) })"
      using costs_weaken [OF all fits, of "sr_Generation (fst x)" b "sr_Commit (fst x)"
          "\<lambda>commit walker. seal_closure r channel (sco_ReferenceVerifier options) (fst x) (snd x) commit (sw_keys walker)"]
      by (cases x) (simp add: not_less)
  qed
  show ?thesis
    unfolding ResolveSnapshotClosure_def
    by (intro costs_check costs_ok) (use big in \<open>auto dest!: closure_bound_Inr\<close>)
qed


subsection \<open>The seal\<close>

text \<open>What a value of the Go type satisfies: lengths fit an \<open>int\<close> and the time is an \<open>int64\<close>.\<close>

definition go_closure :: "SnapshotClosure \<Rightarrow> bool" where
  "go_closure c \<longleftrightarrow> is_int64 (ss_PublishedAt (sc_Snapshot c)) \<and> length (sc_ObjectKeys c) < 2 ^ 63
     \<and> (\<forall>x \<in> set (sc_ReferenceKey c # sc_ReferenceData c # v_ETag (sc_ReferenceVersion c) # v_VersionID (sc_ReferenceVersion c)
          # sc_ObjectKeys c). length x < 2 ^ 63)"

lemma write_uint64_inject [simp]: "write_uint64 a = write_uint64 b \<longleftrightarrow> a = b"
proof -
  have "unat x < 256 ^ 8" for x :: u64 using unsigned_less [of x] by simp
  then show ?thesis by (simp add: write_uint64_def be_bytes_inject word_unat_eq_iff)
qed

lemma length_write_uint64 [simp]: "length (write_uint64 a) = 8"
  by (simp add: write_uint64_def)

lemma write_uint64_append: "write_uint64 a @ x = write_uint64 b @ y \<longleftrightarrow> a = b \<and> x = y"
  by (simp add: append_eq_append_conv)

lemma array32_append: "array32 a @ x = array32 b @ y \<longleftrightarrow> a = b \<and> x = y"
  by (simp add: append_eq_append_conv)

lemma of_nat_u64_inject: "\<lbrakk>m < 2 ^ 63; n < 2 ^ 63\<rbrakk> \<Longrightarrow> (of_nat m :: u64) = of_nat n \<longleftrightarrow> m = n"
  by (simp add: word_unat_eq_iff unsigned_of_nat take_bit_eq_mod)

lemma write_bytes_append:
  "\<lbrakk>length a < 2 ^ 63; length b < 2 ^ 63\<rbrakk> \<Longrightarrow> write_bytes a @ x = write_bytes b @ y \<longleftrightarrow> a = b \<and> x = y"
  by (auto simp: write_bytes_def write_uint64_append of_nat_u64_inject append_eq_append_conv)

lemma write_all_append:
  "\<lbrakk>length as = length bs; \<forall>a \<in> set as. length a < 2 ^ 63; \<forall>b \<in> set bs. length b < 2 ^ 63\<rbrakk>
   \<Longrightarrow> concat (map write_bytes as) @ x = concat (map write_bytes bs) @ y \<longleftrightarrow> as = bs \<and> x = y"
  by (induction as bs rule: list_induct2) (auto simp: write_bytes_append)

lemma word_of_int_inject64: "\<lbrakk>is_int64 a; is_int64 b\<rbrakk> \<Longrightarrow> (word_of_int a :: u64) = word_of_int b \<longleftrightarrow> a = b"
proof
  assume "is_int64 a" "is_int64 b" "(word_of_int a :: u64) = word_of_int b"
  then have "sint (word_of_int a :: u64) = sint (word_of_int b :: u64)" "\<And>i. is_int64 i \<Longrightarrow> sint (word_of_int i :: u64) = i"
    by (auto simp: is_int64_def maxInt64_def sint_sbintrunc' signed_take_bit_int_eq_self)
  then show "a = b" using \<open>is_int64 a\<close> \<open>is_int64 b\<close> by metis
qed simp

lemma closure_preimage_inject:
  assumes "go_closure a" "go_closure b" "closure_preimage a = closure_preimage b"
  shows "a\<lparr>sc_resolutionSeal := s\<rparr> = b\<lparr>sc_resolutionSeal := s\<rparr>"
proof -
  have e: "ss_Generation (sc_Snapshot a) = ss_Generation (sc_Snapshot b)" "ss_Commit (sc_Snapshot a) = ss_Commit (sc_Snapshot b)"
    "ss_Root (sc_Snapshot a) = ss_Root (sc_Snapshot b)" "ss_PublishedAt (sc_Snapshot a) = ss_PublishedAt (sc_Snapshot b)"
    "sc_ReferenceKey a = sc_ReferenceKey b" "sc_ReferenceData a = sc_ReferenceData b"
    "v_ETag (sc_ReferenceVersion a) = v_ETag (sc_ReferenceVersion b)" "v_VersionID (sc_ReferenceVersion a) = v_VersionID (sc_ReferenceVersion b)"
    "length (sc_ObjectKeys a) = length (sc_ObjectKeys b)"
    and rest: "concat (map write_bytes (sc_ObjectKeys a))
        @ (if sc_clientEncryptionConfigured a then CHR 0x01 else CHR 0x00) # array32 (sc_clientEncryptionBinding a)
      = concat (map write_bytes (sc_ObjectKeys b))
        @ (if sc_clientEncryptionConfigured b then CHR 0x01 else CHR 0x00) # array32 (sc_clientEncryptionBinding b)"
    using assms by (simp_all add: closure_preimage_def go_closure_def write_uint64_append array32_append write_bytes_append
        word_of_int_inject64 of_nat_u64_inject)
  have k: "\<forall>x \<in> set (sc_ObjectKeys a). length x < 2 ^ 63" "\<forall>x \<in> set (sc_ObjectKeys b). length x < 2 ^ 63"
    using assms(1,2) by (simp_all add: go_closure_def)
  from iffD1 [OF write_all_append [OF e(9) k] rest] have "sc_ObjectKeys a = sc_ObjectKeys b" "sc_clientEncryptionConfigured a = sc_clientEncryptionConfigured b"
      "sc_clientEncryptionBinding a = sc_clientEncryptionBinding b"
    by (simp_all split: if_splits)
  with e(1-8) show ?thesis by simp
qed

end
