(* ===== verification/Closure_Properties.thy ===== *)
theory Closure_Properties
  imports Snapshot_Closure Consumer_Sample
begin

section \<open>Properties of snapshot closures\<close>

text \<open>
  What \<open>ResolveSnapshotClosure\<close> promises to the code that mints one capability per key: the keys are exactly
  those of the snapshot, the work is bounded by the options, and the seal binds every field. The witnesses
  resolve the closure of the sample snapshot.
\<close>

subsection \<open>The closure of the sample\<close>

lemma closure_getManifest_served:
  assumes "serves_manifest r w to_json kind d m" "decodeJSON to_json of_json (canonicalJSON to_json m) = Inr m" "calm env w"
    and "max 1 (len (canonicalJSON to_json m)) \<le> sw_maximumMetadataBytes W - sw_metadataBytes W"
  shows "run_state (closure_getManifest env r to_json of_json W kind d) w
    = (Inr (W\<lparr>sw_metadataBytes := sw_metadataBytes W + len (canonicalJSON to_json m)\<rparr>, m), w)"
proof -
  obtain v where v: "serves r w (objectKey r kind d) (canonicalJSON to_json m) v"
    and "digestObject kind (canonicalJSON to_json m) = d" "len (canonicalJSON to_json m) \<le> maxMetadataObjectBytes"
    using assms(1) by (auto simp: serves_manifest_def)
  then show ?thesis
    using assms(2-4)
    by (simp add: closure_getManifest_def getImmutableLimited_def Let_def calm_def serves_Get [OF v serves_etag [OF v]] serves_version [OF v])
qed

definition sample_closure_options :: "'w SnapshotClosureOptions" where
  "sample_closure_options = \<lparr>sco_ReferenceVerifier = None, sco_MaxObjects = 10, sco_MaxEdges = 5, sco_MaxMetadataBytes = 0\<rparr>"

lemma sample_decodes:
  "decodeJSON dirManifest_to_json dirManifest_of_json (canonicalJSON dirManifest_to_json sample_root) = Inr sample_root"
  "decodeJSON fileManifest_to_json fileManifest_of_json (canonicalJSON fileManifest_to_json sample_file) = Inr sample_file"
  "decodeJSON commitManifest_to_json commitManifest_of_json (canonicalJSON commitManifest_to_json sample_commit) = Inr sample_commit"
  using sample_dir_object sample_wf_file sample_wf_commit sample_lengths
  by (auto simp: dir_object_def dm.decode_canonical fm.decode_canonical cm.decode_canonical)

lemma sample_reads:
  assumes "sw_maximumMetadataBytes W = DefaultMaxSnapshotClosureMetadataBytes" "sw_metadataBytes W \<le> 2 ^ 20"
  shows "run_state (closure_getManifest sample_env sample_repository dirManifest_to_json dirManifest_of_json W ''dir'' sample_root_digest) w
      = (Inr (W\<lparr>sw_metadataBytes := sw_metadataBytes W + len (canonicalJSON dirManifest_to_json sample_root)\<rparr>, sample_root), w)"
    "run_state (closure_getManifest sample_env sample_repository fileManifest_to_json fileManifest_of_json W ''file'' sample_file_digest) w
      = (Inr (W\<lparr>sw_metadataBytes := sw_metadataBytes W + len (canonicalJSON fileManifest_to_json sample_file)\<rparr>, sample_file), w)"
    "run_state (closure_getManifest sample_env sample_repository commitManifest_to_json commitManifest_of_json W ''commit'' sample_commit_digest) w
      = (Inr (W\<lparr>sw_metadataBytes := sw_metadataBytes W + len (canonicalJSON commitManifest_to_json sample_commit)\<rparr>, sample_commit), w)"
proof -
  have fits: "max 1 n \<le> sw_maximumMetadataBytes W - sw_metadataBytes W" if "n \<le> maxMetadataObjectBytes" for n
    using assms that by (simp add: closure_limits limits)
  note served = closure_getManifest_served [OF sample_manifests(2) sample_decodes(1) sample_calm fits [OF sample_lengths(2)]]
    closure_getManifest_served [OF sample_manifests(1) sample_decodes(2) sample_calm fits [OF sample_lengths(1)]]
    closure_getManifest_served [OF sample_manifests(3) sample_decodes(3) sample_calm fits [OF sample_lengths(3)]]
  show "run_state (closure_getManifest sample_env sample_repository dirManifest_to_json dirManifest_of_json W ''dir'' sample_root_digest) w
      = (Inr (W\<lparr>sw_metadataBytes := sw_metadataBytes W + len (canonicalJSON dirManifest_to_json sample_root)\<rparr>, sample_root), w)"
    by (rule served(1))
  show "run_state (closure_getManifest sample_env sample_repository fileManifest_to_json fileManifest_of_json W ''file'' sample_file_digest) w
      = (Inr (W\<lparr>sw_metadataBytes := sw_metadataBytes W + len (canonicalJSON fileManifest_to_json sample_file)\<rparr>, sample_file), w)"
    by (rule served(2))
  show "run_state (closure_getManifest sample_env sample_repository commitManifest_to_json commitManifest_of_json W ''commit'' sample_commit_digest) w
      = (Inr (W\<lparr>sw_metadataBytes := sw_metadataBytes W + len (canonicalJSON commitManifest_to_json sample_commit)\<rparr>, sample_commit), w)"
    by (rule served(3))
qed

lemma sample_reference_read:
  "run_state (getReferenceWithVerifier (ev_ctx sample_env) sample_repository ''main'' [] None) w
   = (Inr (sample_reference, \<lparr>ob_Data = canonicalJSON snapshotReference_to_json sample_reference, ob_Version = sample_version\<rparr>), w)"
proof -
  note v = sample_serves [OF sample_objects_simps(1), where w = w]
  have "sample_reference = \<lparr>sr_Format = objectFormatVersion, sr_Generation = 1, sr_Commit = sample_commit_digest\<rparr>"
    by (simp add: sample_reference_def objectFormatVersion_def)
  moreover have "validateStoreVersion sample_version = None" by (simp add: sample_version_def MaxStoreVersionTokenBytes_def)
  ultimately show ?thesis
    using sample_reference_verified [of w] serves_Get [OF v serves_etag [OF v]]
    by (simp add: getReferenceWithVerifier_def Let_def del: validateStoreVersion_cases)
qed

lemma sample_small:
  "len (canonicalJSON dirManifest_to_json sample_root) \<le> 1000" "len (canonicalJSON fileManifest_to_json sample_file) \<le> 1000"
  "len (canonicalJSON commitManifest_to_json sample_commit) \<le> 1000"
  by (simp_all add: sample_file_json sample_root_json sample_commit_json sample_file_json_def sample_root_json_def sample_commit_json_def)


lemma walk_last:
  "sw_work W = [] \<Longrightarrow> closure_walk env r W = return (Inr W)"
  "sw_work W = [item] \<Longrightarrow> closure_walk env r W = do {
     e \<leftarrow> ev_ctx env;
     check e (do { x \<leftarrow> walk_item env r (W\<lparr>sw_work := []\<rparr>) item; ok x (closure_walk env r) }) }"
  by (subst closure_walk.simps, simp)+

lemma sample_nodes_distinct:
  "objectKey (sample_keys :: unit Repository) ''dir'' d \<noteq> objectKey (sample_keys :: unit Repository) ''commit'' e"
  "objectKey (sample_keys :: unit Repository) ''file'' d \<noteq> objectKey (sample_keys :: unit Repository) ''commit'' e"
  "objectKey (sample_keys :: unit Repository) ''file'' d \<noteq> objectKey (sample_keys :: unit Repository) ''dir'' e"
  "objectKey (sample_keys :: unit Repository) ''chunk'' d \<noteq> objectKey (sample_keys :: unit Repository) ''commit'' e"
  "objectKey (sample_keys :: unit Repository) ''chunk'' d \<noteq> objectKey (sample_keys :: unit Repository) ''dir'' e"
  "objectKey (sample_keys :: unit Repository) ''chunk'' d \<noteq> objectKey (sample_keys :: unit Repository) ''file'' e"
  by (simp_all add: objectKey_inject object_kinds_def)

lemma sample_closure:
  "\<exists>closure. run_state (ResolveSnapshotClosure sample_env sample_repository ''main'' sample_closure_options) w = (Inr closure, w)"
proof -
  note ctx = sample_calm [unfolded calm_def, THEN conjunct1]
  note dir = sample_dir_object [unfolded dir_object_def, THEN conjunct2, THEN conjunct2]
  let ?r = sample_repository and ?lc = "len (canonicalJSON commitManifest_to_json sample_commit)"
    and ?ld = "len (canonicalJSON dirManifest_to_json sample_root)" and ?lf = "len (canonicalJSON fileManifest_to_json sample_file)"
  let ?W = "new_walker 10 5 DefaultMaxSnapshotClosureMetadataBytes"
  have ref: "sr_Generation sample_reference = 1" "sr_Commit sample_reference = sample_commit_digest" "cm_Root sample_commit = sample_root_digest"
    by (simp_all add: sample_reference_def sample_commit_def)
  have c: "\<exists>W. run_state (closure_commits sample_env ?r (?W\<lparr>sw_metadataBytes := ?lc\<rparr>) 1 sample_commit_digest sample_commit) w = (Inr W, w)
      \<and> W = ?W\<lparr>sw_metadataBytes := ?lc, sw_seenKeys := {objectKey ?r ''commit'' sample_commit_digest},
        sw_keys := [objectKey ?r ''commit'' sample_commit_digest]\<rparr>"
    by (subst closure_commits.simps) (simp add: addKey_def new_walker_def Let_def)
  have t: "\<exists>W. run_state (closure_walk sample_env ?r (?W\<lparr>sw_metadataBytes := ?lc, sw_seenKeys := {b, a}, sw_keys := [a, b],
      sw_scheduled := {root_node sample_root_digest}, sw_work := [\<lparr>scw_node = root_node sample_root_digest, scw_depth = 0\<rparr>]\<rparr>)) w = (Inr W, w)"
    if "a = objectKey ?r ''commit'' sample_commit_digest" "b = objectKey ?r ''dir'' sample_root_digest" for a b
  proof -
    have f: "fm_Size sample_file = 5" "elems (fm_Chunks sample_file) = [\<lparr>cr_Offset = 0, cr_Size = 5, cr_Digest = sample_chunk\<rparr>]"
      "elems (dm_Entries sample_root) = [sample_entry]" "entry_node sample_entry = Some (\<lparr>scn_kind = ''file'', scn_digest = sample_file_digest\<rparr>, 5)"
      by (simp_all add: sample_file_def sample_root_def sample_entry_def entry_node_def)
    let ?f = "\<lparr>scn_kind = ''file'', scn_digest = sample_file_digest\<rparr>"
    have leaf: "\<exists>W. run_state (closure_walk sample_env ?r (?W\<lparr>sw_metadataBytes := ?lc + ?ld, sw_edges := 1, sw_seenKeys := insert k {b, a}, sw_keys := [a, b, k],
        sw_scheduled := {?f, root_node sample_root_digest}, sw_fileSizes := [sample_file_digest \<mapsto> 5],
        sw_work := [\<lparr>scw_node = ?f, scw_depth = 1\<rparr>]\<rparr>)) w = (Inr W, w)" if "k \<noteq> a" "k \<noteq> b" for k
      using sample_small
      by (simp add: walk_last walk_item_def ctx sample_reads new_walker_def addEdge_def known_size_def addKey_def Let_def
        sample_file_valid f del: sample_key_eq)
    show ?thesis
      using sample_small leaf [of "objectKey ?r ''file'' sample_file_digest"] sample_nodes_distinct that
      by (simp add: walk_last walk_item_def ctx sample_reads new_walker_def addEdge_def addKey_def Let_def f dir schedule_def
        expect_size_def record_size_def maxLookupDepth_def)
  qed
  show ?thesis
    unfolding ResolveSnapshotClosure_def sample_channel check_simps
    using c t [OF refl refl] sample_nodes_distinct
    by (auto simp: sample_closure_options_def closure_bound_def closure_limits Let_def sample_reference_read sample_reads ref
        sample_wf_commit schedule_def expect_size_def addKey_def new_walker_def)
qed


subsection \<open>Properties\<close>

text \<open>
  C7. A closure that \<open>ResolveSnapshotClosure\<close> returns is exact, whatever the store answers: there is a chain of valid
  commits from the referenced one back to generation one, and below the root of the newest commit a complete tree of
  valid manifests, each hashing to the digest it is referenced by and each of the size its directory entry declares,
  such that the object keys are precisely the keys of these commits, of the manifests of the tree and of the chunks of
  its files. The keys are sorted, without duplicates, and no more than the limit.
\<close>

theorem closure_exact:
  assumes "run_state (ResolveSnapshotClosure env repository channel options) w = (Inr closure, w')"
  shows "(\<exists>commit chain content.
      commit_chain (ss_Generation (sc_Snapshot closure)) ((ss_Commit (sc_Snapshot closure), commit) # chain)
      \<and> cm_Root commit = ss_Root (sc_Snapshot closure) \<and> snapshot_tree env (ss_Root (sc_Snapshot closure)) content
      \<and> set (sc_ObjectKeys closure) = commit_keys repository ((ss_Commit (sc_Snapshot closure), commit) # chain)
          \<union> node_key repository ` dom content \<union> chunk_keys repository content)
    \<and> sorted (sc_ObjectKeys closure) \<and> distinct (sc_ObjectKeys closure) \<and> len (sc_ObjectKeys closure) \<le> closure_objects options"
  using wp_run [OF resolve_exact assms] by (simp add: exact_closure_def)

theorem closure_exact_witness:
  "\<exists>closure. run_state (ResolveSnapshotClosure sample_env sample_repository ''main'' sample_closure_options) () = (Inr closure, ())
     \<and> sorted (sc_ObjectKeys closure) \<and> len (sc_ObjectKeys closure) \<le> 10"
proof -
  obtain closure where c: "run_state (ResolveSnapshotClosure sample_env sample_repository ''main'' sample_closure_options) () = (Inr closure, ())"
    using sample_closure [of "()"] by blast
  from closure_exact [OF this] c show ?thesis
    by (auto simp: closure_objects_def sample_closure_options_def)
qed

text \<open>
  C36. Resolving a closure always ends, after at most one read for the reference, one per commit, one per directory entry
  that was followed and one for the root: however long the history, however large or cyclic the tree the store makes up,
  and also when it fails, the number of \<open>Get\<close> calls is bounded by the limits of the options.
\<close>

theorem closure_terminates:
  assumes "\<And>w a w'. run_state (ev_ctx env) w = (a, w') \<Longrightarrow> reads w' \<le> (reads w :: nat)"
    and "\<And>key opt w a w'. run_state (Get (rp_reader repository) key opt) w = (a, w') \<Longrightarrow> reads w' \<le> reads w + 1"
    and "\<And>verifier key m sig w a w'. \<lbrakk>sco_ReferenceVerifier options = Some verifier;
        run_state (rv_Verify verifier key m sig) w = (a, w')\<rbrakk> \<Longrightarrow> reads w' \<le> reads w"
  shows "\<exists>result w'. run_state (ResolveSnapshotClosure env repository channel options) w = (result, w')
    \<and> reads w' \<le> reads w + nat (closure_objects options) + nat (closure_edges options) + 2"
proof -
  have "reads_once reads env repository (sco_ReferenceVerifier options)"
    using assms by (simp add: reads_once_def costs_def steps_def)
  from resolve_costs [OF this] show ?thesis
    by (cases "run_state (ResolveSnapshotClosure env repository channel options) w")
      (auto simp: costs_def steps_def add.assoc)
qed

text \<open>The store of the sample, counting its reads.\<close>

definition counting_repository :: "nat Repository" where
  "counting_repository = sample_repository\<lparr>rp_reader := \<lparr>Get = (\<lambda>key opt. do {
     n \<leftarrow> State_Monad.get; State_Monad.set (n + 1); Get (rp_reader sample_repository) key opt })\<rparr>\<rparr>"

theorem closure_terminates_witness:
  "\<exists>result n. run_state (ResolveSnapshotClosure sample_env counting_repository ''main'' sample_closure_options) 0 = (result, n) \<and> n \<le> 17"
proof -
  have "run_state (ev_ctx sample_env) w = (a, w') \<Longrightarrow> w' \<le> w" for w w' :: nat and a
    by (simp add: sample_env_def)
  moreover have "run_state (Get (rp_reader counting_repository) key opt) w = (a, w') \<Longrightarrow> w' \<le> w + 1" for key opt w w' a
    by (auto simp: counting_repository_def sample_repository_def State_Monad.get_def State_Monad.set_def split: option.splits if_splits)
  ultimately show ?thesis
    using closure_terminates [of sample_env "\<lambda>n. n" counting_repository sample_closure_options "''main''" 0]
    by (simp add: sample_closure_options_def closure_objects_def closure_edges_def)
qed

text \<open>
  C37. The seal binds a closure: if two closures carry the same seal and both pass \<open>ValidateResolved\<close>, then they agree in
  every field, the list of object keys included, or their encodings are two different byte strings with the same SHA-256
  digest.
\<close>

theorem closure_seal_binds:
  assumes "go_closure a" "go_closure b" "ValidateResolved a = None" "ValidateResolved b = None"
    and "sc_resolutionSeal a = sc_resolutionSeal b"
  shows "a = b \<or> (closure_preimage a \<noteq> closure_preimage b \<and> sha256 (closure_preimage a) = sha256 (closure_preimage b))"
proof (cases "closure_preimage a = closure_preimage b")
  case True
  have "a\<lparr>sc_resolutionSeal := sc_resolutionSeal a\<rparr> = a" "b\<lparr>sc_resolutionSeal := sc_resolutionSeal a\<rparr> = b"
    using assms(5) by simp_all
  with closure_preimage_inject [OF assms(1,2) True, of "sc_resolutionSeal a"] show ?thesis by simp
next
  case False
  then show ?thesis using assms(3-5) by (simp add: ValidateResolved_def snapshotClosureResolutionSeal_def split: if_splits)
qed


definition sample_sealed :: SnapshotClosure where
  "sample_sealed = \<lparr>sc_Snapshot = \<lparr>ss_Generation = 0, ss_Commit = 0, ss_Root = 0, ss_PublishedAt = 0\<rparr>, sc_ReferenceKey = [],
     sc_ReferenceData = [], sc_ReferenceVersion = \<lparr>v_ETag = [], v_VersionID = []\<rparr>, sc_ObjectKeys = [], sc_resolutionSeal = 0,
     sc_clientEncryptionConfigured = False, sc_clientEncryptionBinding = 0\<rparr>"

lemma sample_seal_nonzero: "snapshotClosureResolutionSeal sample_sealed \<noteq> 0"
proof -
  have p: "closure_preimage sample_sealed = ''s3disk'' @ CHR 0x00 # ''resolved-snapshot-closure'' @ CHR 0x00 # ''v1'' @ CHR 0x00 # replicate 153 (CHR 0x00)"
    by (simp add: closure_preimage_def sample_sealed_def write_bytes_def write_uint64_def array32_def) code_simp
  have "True \<in> set (sha256_bits (''s3disk'' @ CHR 0x00 # ''resolved-snapshot-closure'' @ CHR 0x00 # ''v1'' @ CHR 0x00 # replicate 153 (CHR 0x00)))"
    by code_simp
  then show ?thesis unfolding snapshotClosureResolutionSeal_def p by (rule sha256_nonzero)
qed

theorem closure_seal_binds_witness:
  "ValidateResolved (sample_sealed\<lparr>sc_resolutionSeal := snapshotClosureResolutionSeal sample_sealed\<rparr>) = None"
proof -
  let ?a = "sample_sealed\<lparr>sc_resolutionSeal := snapshotClosureResolutionSeal sample_sealed\<rparr>"
  have same: "closure_preimage ?a = closure_preimage sample_sealed" by (simp add: closure_preimage_def)
  then have v: "ValidateResolved ?a = None"
    using sample_seal_nonzero by (simp add: ValidateResolved_def snapshotClosureResolutionSeal_def)
  have "go_closure ?a" by (simp add: go_closure_def sample_sealed_def is_int64_def maxInt64_def)
  from closure_seal_binds [OF this this v v refl] v show ?thesis by simp
qed

end
