(* ===== verification/Path_Selection.thy ===== *)
theory Path_Selection
  imports Manifests Trust "HOL-Library.AList" "HOL-Library.Sublist"
begin

section \<open>Selected source paths\<close>

text \<open>
  The trie of selected paths of \<open>publisher.go\<close>. The map of children is an association list with one entry per
  name; the order of a Go map is never observed. A path is inserted along the trie with the updated nodes
  rebuilt on the way back, where the source changes them in place; an error abandons the whole trie.
\<close>

datatype pathSelection = PathSelection (includeAll: bool) (children: "(bytes \<times> pathSelection) list")

definition empty_selection :: pathSelection where
  "empty_selection = PathSelection False []"

text \<open>The loop over the components of one path, and the checks at its end. The number counts the nodes.\<close>

fun select_path :: "'w ctx \<Rightarrow> pathSelection \<Rightarrow> nat \<Rightarrow> bytes list \<Rightarrow> ('w, err + pathSelection \<times> nat) state" where
  "select_path ctx node nodeCount [] =
     (if includeAll node then throw [ErrInvalidPath]
      else if length (children node) \<noteq> 0 then throw [ErrInvalidPath]
      else return (Inr (PathSelection True (children node), nodeCount)))"
| "select_path ctx node nodeCount (component # rest) = do {
     e \<leftarrow> ctx;
     check e (
       if length component = 0 \<or> length component > maxEntryNameBytes then throw [ErrInvalidPath, ErrResourceLimit]
       else if includeAll node then throw [ErrInvalidPath]
       else let known = map_of (children node) component;
                child = (case known of None \<Rightarrow> empty_selection | Some c \<Rightarrow> c);
                nodeCount = (case known of None \<Rightarrow> nodeCount + 1 | Some c \<Rightarrow> nodeCount) in
         if known = None \<and> nodeCount > maxDirectoryEntries then throw [ErrInvalidPath, ErrResourceLimit]
         else do {
           r \<leftarrow> select_path ctx child nodeCount rest;
           ok r (\<lambda>(child, nodeCount).
             return (Inr (PathSelection (includeAll node) (AList.update component child (children node)), nodeCount))) }) }"

definition selected_components :: "bytes \<Rightarrow> bytes list" where
  "selected_components value = (if value = ''.'' then [] else split_slash value)"

text \<open>The loop over the values.\<close>

fun select_values :: "'w ctx \<Rightarrow> pathSelection \<Rightarrow> int \<Rightarrow> nat \<Rightarrow> bytes list \<Rightarrow> ('w, err + pathSelection) state" where
  "select_values ctx trie totalBytes nodeCount [] = return (Inr trie)"
| "select_values ctx trie totalBytes nodeCount (value # values) = do {
     e \<leftarrow> ctx;
     check e (
       if value = [] \<or> CHR 0x00 \<in> set value \<or> path_IsAbs value then throw [ErrInvalidPath]
       else if length value > maxLookupPathBytes then throw [ErrInvalidPath, ErrResourceLimit]
       else let totalBytes = totalBytes + len value; cleaned = path_Clean value in
         if totalBytes > maxMetadataObjectBytes then throw [ErrInvalidPath, ErrResourceLimit]
         else if cleaned \<noteq> value \<or> cleaned = ''..'' \<or> has_prefix cleaned ''../'' then throw [ErrInvalidPath]
         else if length (selected_components cleaned) > maxLookupDepth then throw [ErrInvalidPath, ErrResourceLimit]
         else do {
           r \<leftarrow> select_path ctx trie nodeCount (selected_components cleaned);
           ok r (\<lambda>(trie, nodeCount). select_values ctx trie totalBytes nodeCount values) }) }"

text \<open>\<open>None\<close> is the nil selection, the complete tree.\<close>

definition newPathSelectionContext :: "'w ctx \<Rightarrow> bytes list \<Rightarrow> ('w, err + pathSelection option) state" where
  "newPathSelectionContext ctx values = do {
     e \<leftarrow> ctx;
     check e (
       if length values = 0 then throw [ErrInvalidPath]
       else if length values > maxDirectoryEntries then throw [ErrInvalidPath, ErrResourceLimit]
       else do {
         r \<leftarrow> select_values ctx empty_selection 0 0 values;
         ok r (\<lambda>trie. return (Inr (if includeAll trie then None else Some trie))) }) }"

subsection \<open>What a trie selects\<close>

primrec find_node :: "pathSelection \<Rightarrow> bytes list \<Rightarrow> pathSelection option" where
  "find_node t [] = Some t"
| "find_node t (c # cs) = (case map_of (children t) c of None \<Rightarrow> None | Some u \<Rightarrow> find_node u cs)"

definition selects :: "pathSelection \<Rightarrow> bytes list \<Rightarrow> bool" where
  "selects t cs \<longleftrightarrow> (\<exists>u. find_node t cs = Some u \<and> includeAll u)"

text \<open>Which paths are published under a selection: the directories on the way to a selected path, and everything
  from a selected path on. This is how \<open>buildDirectorySelection\<close> descends: an entry without a child in the trie is
  skipped, and below an entry with \<open>includeAll\<close> the selection is nil.\<close>

fun published_by :: "pathSelection option \<Rightarrow> bytes list \<Rightarrow> bool" where
  "published_by None cs = True"
| "published_by (Some t) [] = True"
| "published_by (Some t) (c # cs) = (case map_of (children t) c of None \<Rightarrow> False
     | Some u \<Rightarrow> published_by (if includeAll u then None else Some u) cs)"

lemma select_path_spec:
  "wp (select_path ctx t n path) (\<lambda>r _. \<forall>t' n'. r = Inr (t', n') \<longrightarrow>
     (\<forall>cs. find_node t' cs \<noteq> None \<longleftrightarrow> find_node t cs \<noteq> None \<or> prefix cs path)
     \<and> (\<forall>cs. selects t' cs \<longleftrightarrow> selects t cs \<or> cs = path)
     \<and> (\<forall>p. selects t p \<longrightarrow> \<not> prefix p path \<and> \<not> prefix path p)) w"
proof (induction path arbitrary: t n w)
  case Nil
  have "\<not> selects t p" if "\<not> includeAll t" "children t = []" for p
    using that by (cases p) (auto simp: selects_def)
  moreover have "find_node (PathSelection True []) cs = (if cs = [] then Some (PathSelection True []) else None)" for cs
    by (cases cs) auto
  moreover have "find_node t cs = (if cs = [] then Some t else None)" if "children t = []" for cs
    using that by (cases cs) auto
  ultimately show ?case by (auto simp: wp_simps selects_def)
next
  case (Cons c path)
  let ?u = "case map_of (children t) c of None \<Rightarrow> empty_selection | Some u \<Rightarrow> u"
  have step: "(\<forall>cs. find_node t' cs \<noteq> None \<longleftrightarrow> find_node t cs \<noteq> None \<or> prefix cs (c # path))
      \<and> (\<forall>cs. selects t' cs \<longleftrightarrow> selects t cs \<or> cs = c # path)
      \<and> (\<forall>p. selects t p \<longrightarrow> \<not> prefix p (c # path) \<and> \<not> prefix (c # path) p)"
    if all: "\<not> includeAll t" and t': "t' = PathSelection False (AList.update c u (children t))"
      and nodes: "\<forall>cs. find_node u cs \<noteq> None \<longleftrightarrow> find_node ?u cs \<noteq> None \<or> prefix cs path"
      and sel: "\<forall>cs. selects u cs \<longleftrightarrow> selects ?u cs \<or> cs = path" "\<forall>p. selects ?u p \<longrightarrow> \<not> prefix p path \<and> \<not> prefix path p" for t' u
  proof -
    have leaf: "find_node empty_selection cs = (if cs = [] then Some empty_selection else None)" for cs
      by (cases cs) (simp_all add: empty_selection_def)
    have here: "find_node t (c # ds) \<noteq> None \<Longrightarrow> find_node ?u ds \<noteq> None" "selects t (c # ds) = selects ?u ds" for ds
      by (auto simp: selects_def empty_selection_def leaf [unfolded empty_selection_def] split: option.splits)
    have there: "find_node ?u ds \<noteq> None \<Longrightarrow> find_node t (c # ds) \<noteq> None \<or> ds = []" for ds
      by (auto simp: leaf split: option.splits if_splits)
    have other: "find_node t' (d # ds) = find_node t (d # ds)" if "d \<noteq> c" for d ds
      using that t' by (simp add: update_conv')
    have same: "find_node t' (c # ds) = find_node u ds" for ds
      using t' by (simp add: update_conv')
    have nodes': "find_node t' cs \<noteq> None \<longleftrightarrow> find_node t cs \<noteq> None \<or> prefix cs (c # path)" for cs
    proof (cases cs)
      case (Cons d ds)
      show ?thesis
      proof (cases "d = c")
        case True
        then show ?thesis using Cons same [of ds] nodes here(1) [of ds] there [of ds] by auto
      qed (use Cons other in auto)
    qed (simp add: t')
    have sel': "selects t' cs \<longleftrightarrow> selects t cs \<or> cs = c # path" for cs
    proof (cases cs)
      case (Cons d ds)
      show ?thesis
      proof (cases "d = c")
        case True
        then show ?thesis using Cons same [of ds] sel(1) here(2) [of ds] by (auto simp: selects_def)
      qed (use Cons other in \<open>auto simp: selects_def\<close>)
    qed (use all t' in \<open>simp add: selects_def\<close>)
    have anti: "\<not> prefix p (c # path) \<and> \<not> prefix (c # path) p" if "selects t p" for p
    proof (cases p)
      case Nil
      then show ?thesis using that all by (simp add: selects_def)
    next
      case (Cons d ds)
      show ?thesis
      proof (cases "d = c")
        case True
        then have "selects ?u ds" using that Cons here(2) by simp
        then show ?thesis using sel(2) Cons True by simp
      qed (use Cons in simp)
    qed
    show ?thesis using nodes' sel' anti by blast
  qed
  let ?Q = "\<lambda>r (_ :: 'a). \<forall>t' n'. r = Inr (t', n') \<longrightarrow>
     (\<forall>cs. find_node t' cs \<noteq> None \<longleftrightarrow> find_node t cs \<noteq> None \<or> prefix cs (c # path))
     \<and> (\<forall>cs. selects t' cs \<longleftrightarrow> selects t cs \<or> cs = c # path)
     \<and> (\<forall>p. selects t p \<longrightarrow> \<not> prefix p (c # path) \<and> \<not> prefix (c # path) p)"
  have rec: "wp (select_path ctx ?u m path) (\<lambda>r. wp (ok r (\<lambda>(child, nodeCount).
      return (Inr (PathSelection (includeAll t) (AList.update c child (children t)), nodeCount)))) ?Q) w'"
    if all: "\<not> includeAll t" for m w'
  proof (rule wp_conseq [OF Cons.IH])
    fix r :: "err + pathSelection \<times> nat" and s
    assume h: "\<forall>t' n'. r = Inr (t', n') \<longrightarrow> (\<forall>cs. (find_node t' cs \<noteq> None) = (find_node ?u cs \<noteq> None \<or> prefix cs path))
      \<and> (\<forall>cs. selects t' cs = (selects ?u cs \<or> cs = path)) \<and> (\<forall>p. selects ?u p \<longrightarrow> \<not> prefix p path \<and> \<not> prefix path p)"
    have "?Q (Inr (PathSelection False (AList.update c u (children t)), k)) s" if "r = Inr (u, k)" for u k
      using step [OF all refl, of u] h that by simp
    then show "wp (ok r (\<lambda>(child, nodeCount).
      return (Inr (PathSelection (includeAll t) (AList.update c child (children t)), nodeCount)))) ?Q s"
      using all by (cases r) (auto simp del: find_node.simps)
  qed
  show ?case
    unfolding select_path.simps wp_bind Let_def
    by (rule wp_op, simp only: wp_check wp_if wp_bind wp_return)
      (intro conjI impI allI; (rule rec, assumption | simp))
qed


text \<open>The whole loop: \<open>ps\<close> are the paths selected before.\<close>

definition trie_of :: "bytes list list \<Rightarrow> pathSelection \<Rightarrow> bool" where
  "trie_of ps t \<longleftrightarrow> (\<forall>cs. find_node t cs \<noteq> None \<longleftrightarrow> cs = [] \<or> (\<exists>p \<in> set ps. prefix cs p)) \<and> (\<forall>cs. selects t cs \<longleftrightarrow> cs \<in> set ps)
     \<and> distinct ps \<and> (\<forall>p \<in> set ps. \<forall>q \<in> set ps. prefix p q \<longrightarrow> p = q)"

lemma trie_of_empty: "trie_of [] empty_selection"
proof -
  have "find_node empty_selection cs = (if cs = [] then Some empty_selection else None)" for cs
    by (cases cs) (simp_all add: empty_selection_def)
  then show ?thesis by (auto simp: trie_of_def selects_def empty_selection_def)
qed

lemma trie_of_step:
  assumes "trie_of ps t" "\<forall>cs. find_node t' cs \<noteq> None \<longleftrightarrow> find_node t cs \<noteq> None \<or> prefix cs path"
    "\<forall>cs. selects t' cs \<longleftrightarrow> selects t cs \<or> cs = path" "\<forall>p. selects t p \<longrightarrow> \<not> prefix p path \<and> \<not> prefix path p"
  shows "trie_of (ps @ [path]) t'"
  using assms unfolding trie_of_def by auto

definition canonical_relative :: "bytes \<Rightarrow> bool" where
  "canonical_relative v \<longleftrightarrow> v \<noteq> [] \<and> CHR 0x00 \<notin> set v \<and> \<not> path_IsAbs v \<and> path_Clean v = v \<and> v \<noteq> ''..'' \<and> \<not> has_prefix v ''../''"

lemma select_values_spec:
  "trie_of ps t \<Longrightarrow> wp (select_values ctx t tot n values)
     (\<lambda>r _. \<forall>t'. r = Inr t' \<longrightarrow> trie_of (ps @ map selected_components values) t' \<and> (\<forall>v \<in> set values. canonical_relative v)) w"
proof (induction "values" arbitrary: ps t tot n w)
  case (Cons v vs)
  let ?Q = "\<lambda>r (_ :: 'a). \<forall>t'. r = Inr t' \<longrightarrow> trie_of (ps @ map selected_components (v # vs)) t' \<and> (\<forall>x \<in> set (v # vs). canonical_relative x)"
  have rec: "wp (select_path ctx t n (selected_components v)) (\<lambda>r. wp (ok r (\<lambda>(t, n). select_values ctx t m n vs)) ?Q) w'"
    if v: "canonical_relative v" for m w'
  proof (rule wp_conseq [OF select_path_spec])
    fix r :: "err + pathSelection \<times> nat" and s
    assume h: "\<forall>t' n'. r = Inr (t', n') \<longrightarrow>
       (\<forall>cs. (find_node t' cs \<noteq> None) = (find_node t cs \<noteq> None \<or> prefix cs (selected_components v)))
       \<and> (\<forall>cs. selects t' cs = (selects t cs \<or> cs = selected_components v))
       \<and> (\<forall>p. selects t p \<longrightarrow> \<not> prefix p (selected_components v) \<and> \<not> prefix (selected_components v) p)"
    show "wp (ok r (\<lambda>(t, n). select_values ctx t m n vs)) ?Q s"
    proof (cases r)
      case (Inr x)
      obtain t' k where x: "x = (t', k)" by (cases x)
      have "trie_of (ps @ [selected_components v]) t'" using h Inr x by (intro trie_of_step [OF Cons.prems]) simp_all
      from Cons.IH [OF this] have "wp (select_values ctx t' m k vs) ?Q s"
        by (rule wp_conseq) (use v in simp)
      then show ?thesis using Inr x by simp
    qed simp
  qed
  show ?case
  proof (cases "canonical_relative v")
    case True
    then have "path_Clean v = v" by (simp add: canonical_relative_def)
    then show ?thesis
      unfolding select_values.simps wp_bind Let_def
      by - (rule wp_op, simp only: wp_check wp_if wp_bind wp_return rec [OF True], simp)
  next
    case False
    then show ?thesis
      unfolding select_values.simps wp_bind Let_def
      by - (rule wp_op, auto simp: wp_simps canonical_relative_def)
  qed
qed simp

lemma published_by_nodes:
  "\<not> includeAll t \<Longrightarrow> published_by (Some t) cs \<longleftrightarrow> find_node t cs \<noteq> None \<or> (\<exists>p. selects t p \<and> prefix p cs)"
proof (induction cs arbitrary: t)
  case (Cons c cs)
  show ?case
  proof (cases "map_of (children t) c")
    case None
    then have "\<not> selects t p" if "prefix p (c # cs)" for p
      using that Cons.prems by (cases p) (auto simp: selects_def)
    then show ?thesis using None by auto
  next
    case (Some u)
    have s: "selects t (c # p) = selects u p" for p using Some by (simp add: selects_def)
    have p: "(\<exists>p. selects t p \<and> prefix p (c # cs)) \<longleftrightarrow> (\<exists>p. selects u p \<and> prefix p cs)"
    proof
      assume "\<exists>p. selects t p \<and> prefix p (c # cs)"
      then obtain p where p: "selects t p" "prefix p (c # cs)" by blast
      then have "p \<noteq> []" using Cons.prems by (auto simp: selects_def)
      then obtain p' where "p = c # p'" "prefix p' cs" using p(2) by (cases p) auto
      then show "\<exists>p. selects u p \<and> prefix p cs" using p(1) s by blast
    next
      assume "\<exists>p. selects u p \<and> prefix p cs"
      then show "\<exists>p. selects t p \<and> prefix p (c # cs)" using s by (metis Cons_prefix_Cons)
    qed
    show ?thesis
    proof (cases "includeAll u")
      case True
      then have "selects u []" by (simp add: selects_def)
      then show ?thesis using Some True p by auto
    next
      case False
      then show ?thesis using Cons.IH [OF False] Some p by simp
    qed
  qed
qed simp

lemma trie_of_published:
  assumes "trie_of ps t" "ps \<noteq> []"
  shows "published_by (if includeAll t then None else Some t) cs \<longleftrightarrow> (\<exists>p \<in> set ps. prefix p cs \<or> prefix cs p)"
proof (cases "includeAll t")
  case True
  then have "selects t []" by (simp add: selects_def)
  then have "[] \<in> set ps" using assms(1) by (simp add: trie_of_def)
  then show ?thesis using True by (auto intro: bexI [of _ "[]"])
next
  case False
  have "find_node t cs \<noteq> None \<longleftrightarrow> cs = [] \<or> (\<exists>p \<in> set ps. prefix cs p)" "selects t p \<longleftrightarrow> p \<in> set ps" for p
    using assms(1) unfolding trie_of_def by blast+
  moreover obtain q where "q \<in> set ps" using assms(2) by (cases ps) auto
  ultimately show ?thesis using False published_by_nodes [OF False, of cs] by auto
qed

text \<open>
  C35. A selection that is accepted is published exactly: every selected path is canonical and relative, none of them
  equals or lies below another, and a path of the source is part of the projection if and only if it is a selected path,
  lies below one, or is a directory on the way to one.
\<close>

theorem selection_exact:
  assumes "run_state (newPathSelectionContext ctx paths) w = (Inr selection, w')"
  shows "(\<forall>cs. published_by selection cs \<longleftrightarrow> (\<exists>p \<in> set paths. prefix (selected_components p) cs \<or> prefix cs (selected_components p)))
    \<and> (\<forall>p \<in> set paths. canonical_relative p)
    \<and> sorted_wrt (\<lambda>p q. \<not> prefix (selected_components p) (selected_components q) \<and> \<not> prefix (selected_components q) (selected_components p)) paths"
proof -
  have "wp (newPathSelectionContext ctx paths) (\<lambda>r _. \<forall>s. r = Inr s \<longrightarrow> (\<exists>t. s = (if includeAll t then None else Some t)
      \<and> trie_of (map selected_components paths) t \<and> paths \<noteq> [] \<and> (\<forall>p \<in> set paths. canonical_relative p))) w"
    unfolding newPathSelectionContext_def
    by (auto simp: wp_simps intro!: wp_op [of ctx] wp_conseq [OF select_values_spec [OF trie_of_empty]]) blast+
  from wp_run [OF this assms] obtain t where t: "selection = (if includeAll t then None else Some t)"
    "trie_of (map selected_components paths) t" "paths \<noteq> []" "\<forall>p \<in> set paths. canonical_relative p"
    by blast
  have "published_by selection cs \<longleftrightarrow> (\<exists>p \<in> set paths. prefix (selected_components p) cs \<or> prefix cs (selected_components p))" for cs
    using trie_of_published [OF t(2), of cs] t(1,3) by auto
  moreover have "sorted_wrt (\<lambda>p q. \<not> prefix (selected_components p) (selected_components q) \<and> \<not> prefix (selected_components q) (selected_components p)) paths"
    unfolding sorted_wrt_iff_nth_less
  proof (intro allI impI)
    fix i j assume ij: "i < j" "j < length paths"
    let ?ps = "map selected_components paths"
    have "distinct ?ps" "\<forall>p \<in> set ?ps. \<forall>q \<in> set ?ps. prefix p q \<longrightarrow> p = q" using t(2) unfolding trie_of_def by blast+
    moreover have "?ps ! i \<noteq> ?ps ! j" using \<open>distinct ?ps\<close> ij by (simp only: nth_eq_iff_index_eq length_map)
    moreover have "?ps ! i \<in> set ?ps" "?ps ! j \<in> set ?ps" by (rule nth_mem, use ij in simp)+
    ultimately show "\<not> prefix (selected_components (paths ! i)) (selected_components (paths ! j))
      \<and> \<not> prefix (selected_components (paths ! j)) (selected_components (paths ! i))"
      using ij by (metis (no_types, lifting) nth_map order.strict_trans)
  qed
  ultimately show ?thesis using t(4) by blast
qed

theorem selection_exact_witness:
  "\<exists>s. run_state (newPathSelectionContext (return None) [''a/b'', ''c'']) () = (Inr s, ())
     \<and> published_by s [''a''] \<and> published_by s [''c'', ''x''] \<and> \<not> published_by s [''a'', ''d'']"
proof -
  have c: "selected_components ''a/b'' = [''a'', ''b'']" "selected_components ''c'' = [''c'']"
    "path_Clean ''a/b'' = ''a/b''" "path_Clean ''c'' = ''c''" "\<not> path_IsAbs ''a/b''" "\<not> path_IsAbs ''c''"
    "\<not> has_prefix ''a/b'' ''../''" "\<not> has_prefix ''c'' ''../''"
    by code_simp+
  have s: "run_state (newPathSelectionContext (return None) [''a/b'', ''c'']) ()
    = (Inr (Some (PathSelection False [(''a'', PathSelection False [(''b'', PathSelection True [])]), (''c'', PathSelection True [])])), ())"
    by (simp add: newPathSelectionContext_def c empty_selection_def limits)
  show ?thesis using selection_exact [OF s] s by (auto simp: c)
qed

end
