(* ===== verification/Publication_Journal.thy ===== *)
theory Publication_Journal
  imports Watermark Repo
begin

section \<open>The publication journal\<close>

text \<open>
  \<open>publication_journal.go\<close>: the durable record of the signed publication of a channel, one file
  that holds the highest committed watermark and at most one reference update that may be in flight.
  The file is replaced like a watermark (\<open>replace_file\<close> of \<open>Watermark\<close>), through the same
  environment \<open>LocalFile\<close>.

  Values are copied in HOL, so the \<open>clone\<close> functions of the source have no counterpart, and the
  structures of the file that only repeat a structure with other field tags (watermark and version) are
  that structure with an encoder of its own. A copied empty byte slice is nil.

  The random revisions come from the world (\<open>rnd\<close>). The source draws until it finds one that it can
  use; the model draws at most \<open>tries\<close> times and then fails.

  The file after a swap can be read back if the tokens of the expected version are UTF-8. The store is
  not asked for that, and a state with another token is written to a file that no one can read.
\<close>

definition publicationJournalFormatVersion :: int where "publicationJournalFormatVersion = 1"
definition maxPublicationJournalBytes :: int where "maxPublicationJournalBytes = 32 * 2 ^ 10"

type_synonym PublicationJournalRevision = digest

definition PublicationIntentPublish :: bytes where "PublicationIntentPublish = ''publish''"
definition PublicationIntentResign :: bytes where "PublicationIntentResign = ''resign''"

record PublicationIntent =
  pi_IntentID :: digest
  pi_Kind :: bytes
  pi_Base :: "Watermark option"
  pi_Next :: Watermark
  pi_ExpectedVersion :: "Version option"
  pi_ExpectedReference :: digest
  pi_Reference :: bytes

record PublicationJournalState =
  ps_RepositoryID :: repository_id
  ps_Channel :: bytes
  ps_Committed :: "Watermark option"
  ps_Pending :: "PublicationIntent option"

record 'w PublicationJournalStore =
  pj_Load :: "bytes \<Rightarrow> ('w, err + (PublicationJournalState \<times> PublicationJournalRevision) option) state"
  pj_CompareAndSwap :: "bytes \<Rightarrow> PublicationJournalRevision option \<Rightarrow> PublicationJournalState
    \<Rightarrow> ('w, err + PublicationJournalRevision) state"

subsection \<open>The file format\<close>

record publicationJournalIntentFile =
  pf_IntentID :: digest
  pf_Kind :: bytes
  pf_Base :: "Watermark option"
  pf_Next :: Watermark
  pf_ExpectedVersion :: "Version option"
  pf_ExpectedReference :: digest
  pf_Reference :: "char slice"

record publicationJournalPayload =
  jf_Format :: int
  jf_Revision :: digest
  jf_RepositoryID :: repository_id
  jf_Channel :: bytes
  jf_Committed :: "Watermark option"
  jf_Pending :: "publicationJournalIntentFile option"

record publicationJournalFile = publicationJournalPayload +
  jf_Checksum :: digest

record publicationIntentIdentity =
  ii_Format :: int
  ii_RepositoryID :: repository_id
  ii_Channel :: bytes
  ii_Kind :: bytes
  ii_Base :: "Watermark option"
  ii_Next :: Watermark
  ii_Reference :: "char slice"

text \<open>Members that are omitted when they are empty are read in the order of the fields.\<close>

definition opt_member :: "bytes \<Rightarrow> ('a \<Rightarrow> json) \<Rightarrow> 'a option \<Rightarrow> (bytes \<times> json) list" where
  "opt_member name f v = (case v of None \<Rightarrow> [] | Some x \<Rightarrow> [(name, f x)])"

fun read_member :: "bytes \<Rightarrow> (json \<Rightarrow> 'a option) \<Rightarrow> (bytes \<times> json) list \<Rightarrow> ('a \<times> (bytes \<times> json) list) option" where
  "read_member name f [] = None"
| "read_member name f ((k, v) # kvs) = (if k = name then map_option (\<lambda>x. (x, kvs)) (f v) else None)"

fun read_opt :: "bytes \<Rightarrow> (json \<Rightarrow> 'a option) \<Rightarrow> (bytes \<times> json) list \<Rightarrow> ('a option \<times> (bytes \<times> json) list) option" where
  "read_opt name f [] = Some (None, [])"
| "read_opt name f ((k, v) # kvs) =
     (if k = name then map_option (\<lambda>x. (Some x, kvs)) (f v) else Some (None, (k, v) # kvs))"

fun object_members :: "json \<Rightarrow> (bytes \<times> json) list option" where
  "object_members (JObj kvs) = Some kvs"
| "object_members _ = None"

definition publicationJournalWatermark_to_json :: "Watermark \<Rightarrow> json" where
  "publicationJournalWatermark_to_json w = JObj [(''repository_id'', digest_json (wm_RepositoryID w)),
     (''generation'', uint_json (wm_Generation w)), (''commit'', digest_json (wm_Commit w))]"

definition publicationJournalWatermark_of_json :: "json \<Rightarrow> Watermark option" where
  "publicationJournalWatermark_of_json j = do {
     vs \<leftarrow> members [''repository_id'', ''generation'', ''commit''] j;
     repository \<leftarrow> as_digest (vs ! 0);
     generation \<leftarrow> as_uint64 (vs ! 1);
     commit \<leftarrow> as_digest (vs ! 2);
     Some \<lparr>wm_RepositoryID = repository, wm_Generation = generation, wm_Commit = commit\<rparr> }"

definition publicationJournalVersion_to_json :: "Version \<Rightarrow> json" where
  "publicationJournalVersion_to_json v = JObj ((''etag'', JStr (v_ETag v)) #
     opt_member ''version_id'' JStr (if v_VersionID v = [] then None else Some (v_VersionID v)))"

definition publicationJournalVersion_of_json :: "json \<Rightarrow> Version option" where
  "publicationJournalVersion_of_json j = do {
     kvs \<leftarrow> object_members j;
     (etag, kvs) \<leftarrow> read_member ''etag'' as_string kvs;
     (version_id, kvs) \<leftarrow> read_opt ''version_id'' as_string kvs;
     if kvs = [] then Some \<lparr>v_ETag = etag, v_VersionID = (case version_id of None \<Rightarrow> [] | Some v \<Rightarrow> v)\<rparr> else None }"

definition publicationJournalIntentFile_to_json :: "publicationJournalIntentFile \<Rightarrow> json" where
  "publicationJournalIntentFile_to_json i = JObj ([(''intent_id'', digest_json (pf_IntentID i)), (''kind'', JStr (pf_Kind i))]
     @ opt_member ''base'' publicationJournalWatermark_to_json (pf_Base i)
     @ [(''next'', publicationJournalWatermark_to_json (pf_Next i))]
     @ opt_member ''expected_version'' publicationJournalVersion_to_json (pf_ExpectedVersion i)
     @ [(''expected_reference'', digest_json (pf_ExpectedReference i)), (''reference'', bytes_json (pf_Reference i))])"

definition publicationJournalIntentFile_of_json :: "json \<Rightarrow> publicationJournalIntentFile option" where
  "publicationJournalIntentFile_of_json j = do {
     kvs \<leftarrow> object_members j;
     (intent, kvs) \<leftarrow> read_member ''intent_id'' as_digest kvs;
     (kind, kvs) \<leftarrow> read_member ''kind'' as_string kvs;
     (base, kvs) \<leftarrow> read_opt ''base'' publicationJournalWatermark_of_json kvs;
     (nxt, kvs) \<leftarrow> read_member ''next'' publicationJournalWatermark_of_json kvs;
     (version, kvs) \<leftarrow> read_opt ''expected_version'' publicationJournalVersion_of_json kvs;
     (expected, kvs) \<leftarrow> read_member ''expected_reference'' as_digest kvs;
     (reference, kvs) \<leftarrow> read_member ''reference'' as_bytes kvs;
     if kvs = [] then Some \<lparr>pf_IntentID = intent, pf_Kind = kind, pf_Base = base, pf_Next = nxt, pf_ExpectedVersion = version,
       pf_ExpectedReference = expected, pf_Reference = reference\<rparr> else None }"

definition publicationJournalPayload_members :: "'a publicationJournalPayload_scheme \<Rightarrow> (bytes \<times> json) list" where
  "publicationJournalPayload_members f = [(''format'', JNum (jf_Format f)), (''revision'', digest_json (jf_Revision f)),
       (''repository_id'', digest_json (jf_RepositoryID f)), (''channel'', JStr (jf_Channel f))]
     @ opt_member ''committed'' publicationJournalWatermark_to_json (jf_Committed f)
     @ opt_member ''pending'' publicationJournalIntentFile_to_json (jf_Pending f)"

definition publicationJournalPayload_to_json :: "'a publicationJournalPayload_scheme \<Rightarrow> json" where
  "publicationJournalPayload_to_json f = JObj (publicationJournalPayload_members f)"

definition publicationJournalFile_to_json :: "publicationJournalFile \<Rightarrow> json" where
  "publicationJournalFile_to_json f = JObj (publicationJournalPayload_members f @ [(''checksum'', digest_json (jf_Checksum f))])"

definition publicationJournalFile_of_json :: "json \<Rightarrow> publicationJournalFile option" where
  "publicationJournalFile_of_json j = do {
     kvs \<leftarrow> object_members j;
     (format, kvs) \<leftarrow> read_member ''format'' as_int64 kvs;
     (revision, kvs) \<leftarrow> read_member ''revision'' as_digest kvs;
     (repository, kvs) \<leftarrow> read_member ''repository_id'' as_digest kvs;
     (channel, kvs) \<leftarrow> read_member ''channel'' as_string kvs;
     (committed, kvs) \<leftarrow> read_opt ''committed'' publicationJournalWatermark_of_json kvs;
     (pending, kvs) \<leftarrow> read_opt ''pending'' publicationJournalIntentFile_of_json kvs;
     (checksum, kvs) \<leftarrow> read_member ''checksum'' as_digest kvs;
     if kvs = [] then Some \<lparr>jf_Format = format, jf_Revision = revision, jf_RepositoryID = repository, jf_Channel = channel,
       jf_Committed = committed, jf_Pending = pending, jf_Checksum = checksum\<rparr> else None }"

definition publicationIntentIdentity_to_json :: "publicationIntentIdentity \<Rightarrow> json" where
  "publicationIntentIdentity_to_json i = JObj ([(''format'', JNum (ii_Format i)), (''repository_id'', digest_json (ii_RepositoryID i)),
       (''channel'', JStr (ii_Channel i)), (''kind'', JStr (ii_Kind i))]
     @ opt_member ''base'' publicationJournalWatermark_to_json (ii_Base i)
     @ [(''next'', publicationJournalWatermark_to_json (ii_Next i)), (''reference'', bytes_json (ii_Reference i))])"

definition copied :: "bytes \<Rightarrow> char slice" where
  "copied bs = (if bs = [] then None else Some bs)"

lemma elems_copied [simp]: "elems (copied bs) = bs"
  by (simp add: copied_def)

subsection \<open>Identity and checksum\<close>

definition publicationIntentID ::
  "repository_id \<Rightarrow> bytes \<Rightarrow> bytes \<Rightarrow> Watermark option \<Rightarrow> Watermark \<Rightarrow> bytes \<Rightarrow> digest" where
  "publicationIntentID repositoryID channel kind base next reference =
     digestObject ''publication-intent'' (canonicalJSON publicationIntentIdentity_to_json
       \<lparr>ii_Format = publicationJournalFormatVersion, ii_RepositoryID = repositoryID, ii_Channel = channel, ii_Kind = kind,
         ii_Base = base, ii_Next = next, ii_Reference = copied reference\<rparr>)"

definition publicationReferenceDigest :: "bytes \<Rightarrow> digest" where
  "publicationReferenceDigest reference = (if reference = [] then 0 else digestObject ''publication-reference'' reference)"

definition publicationJournalChecksum :: "'a publicationJournalPayload_scheme \<Rightarrow> digest" where
  "publicationJournalChecksum disk =
     digestObject ''publication-journal'' (canonicalJSON publicationJournalPayload_to_json disk)"

definition publicationJournalFileFromState :: "PublicationJournalState \<Rightarrow> PublicationJournalRevision \<Rightarrow> publicationJournalFile" where
  "publicationJournalFileFromState state revision = \<lparr>jf_Format = publicationJournalFormatVersion, jf_Revision = revision,
     jf_RepositoryID = ps_RepositoryID state, jf_Channel = ps_Channel state, jf_Committed = ps_Committed state,
     jf_Pending = map_option (\<lambda>p. \<lparr>pf_IntentID = pi_IntentID p, pf_Kind = pi_Kind p, pf_Base = pi_Base p, pf_Next = pi_Next p,
       pf_ExpectedVersion = pi_ExpectedVersion p, pf_ExpectedReference = pi_ExpectedReference p,
       pf_Reference = copied (pi_Reference p)\<rparr>) (ps_Pending state),
     jf_Checksum = 0\<rparr>"

definition publicationJournalStateFromFile :: "publicationJournalFile \<Rightarrow> PublicationJournalState" where
  "publicationJournalStateFromFile disk = \<lparr>ps_RepositoryID = jf_RepositoryID disk, ps_Channel = jf_Channel disk,
     ps_Committed = jf_Committed disk,
     ps_Pending = map_option (\<lambda>p. \<lparr>pi_IntentID = pf_IntentID p, pi_Kind = pf_Kind p, pi_Base = pf_Base p, pi_Next = pf_Next p,
       pi_ExpectedVersion = pf_ExpectedVersion p, pi_ExpectedReference = pf_ExpectedReference p,
       pi_Reference = elems (pf_Reference p)\<rparr>) (jf_Pending disk)\<rparr>"

subsection \<open>Validation\<close>

definition validatePublicationIntentID :: "repository_id \<Rightarrow> bytes \<Rightarrow> PublicationIntent \<Rightarrow> err option" where
  "validatePublicationIntentID repositoryID channel intent =
     (if pi_IntentID intent = 0
        \<or> pi_IntentID intent \<noteq> publicationIntentID repositoryID channel (pi_Kind intent) (pi_Base intent) (pi_Next intent) (pi_Reference intent)
      then Some [ErrCorruptObject] else None)"

definition validatePublicationJournalWatermark :: "repository_id \<Rightarrow> Watermark \<Rightarrow> err option" where
  "validatePublicationJournalWatermark repositoryID watermark =
     (if wm_RepositoryID watermark \<noteq> repositoryID \<or> wm_Generation watermark = 0 \<or> wm_Commit watermark = 0
      then Some [ErrCorruptObject] else None)"

definition validatePublicationIntentReference :: "repository_id \<Rightarrow> bytes \<Rightarrow> Watermark \<Rightarrow> bytes \<Rightarrow> err option" where
  "validatePublicationIntentReference repositoryID channel next reference =
     (case decodeJSON envelope_to_json envelope_of_json reference of
        Inl _ \<Rightarrow> Some [ErrCorruptObject]
      | Inr envelope \<Rightarrow> let payload = se_Reference envelope in
          if se_Format envelope \<noteq> objectFormatVersion \<or> sp_Format payload \<noteq> objectFormatVersion
            \<or> sp_RepositoryID payload \<noteq> repositoryID \<or> sp_Channel payload \<noteq> channel
            \<or> sp_Generation payload \<noteq> wm_Generation next \<or> sp_Commit payload \<noteq> wm_Commit next
            \<or> elems (se_Signature envelope) = [] \<or> len (elems (se_Signature envelope)) > maxReferenceSignatureSize
          then Some [ErrCorruptObject]
          else if validateReferenceKeyID (sp_KeyID payload) \<noteq> None then Some [ErrCorruptObject]
          else None)"

abbreviation first_error :: "err option \<Rightarrow> err option \<Rightarrow> err option" where
  "first_error e k \<equiv> (case e of Some e \<Rightarrow> Some e | None \<Rightarrow> k)"

definition validatePublicationJournalIntent :: "repository_id \<Rightarrow> bytes \<Rightarrow> PublicationIntent \<Rightarrow> err option" where
  "validatePublicationJournalIntent repositoryID channel intent =
     (if pi_Kind intent \<noteq> PublicationIntentPublish \<and> pi_Kind intent \<noteq> PublicationIntentResign then Some [ErrCorruptObject]
      else first_error (validatePublicationJournalWatermark repositoryID (pi_Next intent))
       (first_error (case pi_Base intent of
          Some base \<Rightarrow> first_error (validatePublicationJournalWatermark repositoryID base)
            (if pi_ExpectedVersion intent = None \<or> pi_ExpectedReference intent = 0 then Some [ErrCorruptObject] else None)
        | None \<Rightarrow> if pi_ExpectedVersion intent \<noteq> None \<or> pi_ExpectedReference intent \<noteq> 0 then Some [ErrCorruptObject] else None)
       (first_error (case pi_ExpectedVersion intent of
          Some version \<Rightarrow> if v_ETag version = [] \<or> len (v_ETag version) > MaxStoreVersionTokenBytes
              \<or> len (v_VersionID version) > MaxStoreVersionTokenBytes then Some [ErrCorruptObject] else None
        | None \<Rightarrow> None)
       (first_error (if pi_Kind intent = PublicationIntentPublish
          then (case pi_Base intent of
              None \<Rightarrow> if wm_Generation (pi_Next intent) \<noteq> 1 then Some [ErrCorruptObject] else None
            | Some base \<Rightarrow> if wm_Generation base = - 1 \<or> wm_Generation (pi_Next intent) \<noteq> wm_Generation base + 1
                then Some [ErrCorruptObject] else None)
          else (case pi_Base intent of
              None \<Rightarrow> Some [ErrCorruptObject]
            | Some base \<Rightarrow> if pi_Next intent \<noteq> base then Some [ErrCorruptObject] else None))
       (if pi_Reference intent = [] \<or> len (pi_Reference intent) > maxReferenceBytes then Some [ErrResourceLimit]
        else first_error (validatePublicationIntentReference repositoryID channel (pi_Next intent) (pi_Reference intent))
          (validatePublicationIntentID repositoryID channel intent))))))"

definition validatePublicationJournalState :: "PublicationJournalState \<Rightarrow> err option" where
  "validatePublicationJournalState state =
     (if ps_RepositoryID state = 0 then Some [ErrCorruptObject]
      else if validateChannel (ps_Channel state) \<noteq> None then Some [ErrCorruptObject]
      else first_error (case ps_Committed state of None \<Rightarrow> None
          | Some committed \<Rightarrow> validatePublicationJournalWatermark (ps_RepositoryID state) committed)
       (case ps_Pending state of None \<Rightarrow> None
        | Some pending \<Rightarrow> first_error (validatePublicationJournalIntent (ps_RepositoryID state) (ps_Channel state) pending)
           (case ps_Committed state of
              None \<Rightarrow> if pi_Base pending \<noteq> None then Some [ErrCorruptObject] else None
            | Some committed \<Rightarrow> if pi_Base pending \<noteq> Some committed then Some [ErrCorruptObject] else None)))"

definition equalWatermarkPointers :: "Watermark option \<Rightarrow> Watermark option \<Rightarrow> bool" where
  "equalWatermarkPointers left right = (left = right)"

definition equalVersionPointers :: "Version option \<Rightarrow> Version option \<Rightarrow> bool" where
  "equalVersionPointers left right = (left = right)"

definition equalPublicationIntentSemantics :: "PublicationIntent option \<Rightarrow> PublicationIntent option \<Rightarrow> bool" where
  "equalPublicationIntentSemantics left right = (case (left, right) of
     (Some l, Some r) \<Rightarrow> pi_IntentID l = pi_IntentID r \<and> pi_Kind l = pi_Kind r
        \<and> equalWatermarkPointers (pi_Base l) (pi_Base r) \<and> pi_Next l = pi_Next r \<and> pi_Reference l = pi_Reference r
   | _ \<Rightarrow> left = None \<and> right = None)"

definition equalPublicationIntents :: "PublicationIntent option \<Rightarrow> PublicationIntent option \<Rightarrow> bool" where
  "equalPublicationIntents left right = (case (left, right) of
     (Some l, Some r) \<Rightarrow> pi_IntentID l = pi_IntentID r \<and> pi_Kind l = pi_Kind r
        \<and> equalWatermarkPointers (pi_Base l) (pi_Base r) \<and> pi_Next l = pi_Next r
        \<and> equalVersionPointers (pi_ExpectedVersion l) (pi_ExpectedVersion r)
        \<and> pi_ExpectedReference l = pi_ExpectedReference r \<and> pi_Reference l = pi_Reference r
   | _ \<Rightarrow> left = None \<and> right = None)"

definition validatePublicationJournalTransition :: "PublicationJournalState \<Rightarrow> PublicationJournalState \<Rightarrow> err option" where
  "validatePublicationJournalTransition current next =
     (if ps_RepositoryID current \<noteq> ps_RepositoryID next then Some [ErrUntrustedReference]
      else if ps_Channel current \<noteq> ps_Channel next then Some [ErrCorruptObject]
      else first_error (case ps_Committed current of None \<Rightarrow> None
        | Some cur \<Rightarrow> (case ps_Committed next of
            None \<Rightarrow> Some [ErrRollbackDetected]
          | Some nxt \<Rightarrow> if wm_Generation nxt < wm_Generation cur then Some [ErrRollbackDetected]
              else if wm_Generation nxt = wm_Generation cur \<and> wm_Commit nxt \<noteq> wm_Commit cur then Some [ErrSplitBrain]
              else None))
       (if ps_Pending current = None then None
        else if ps_Pending next \<noteq> None then
          (if \<not> equalWatermarkPointers (ps_Committed current) (ps_Committed next)
             \<or> \<not> equalPublicationIntentSemantics (ps_Pending current) (ps_Pending next)
           then Some [ErrPrecondition] else None)
        else None))"

subsection \<open>The file journal\<close>

text \<open>What \<open>loadLocked\<close> makes of the bytes it has read.\<close>

definition parse_journal :: "bytes \<Rightarrow> bytes \<Rightarrow> err + PublicationJournalState \<times> PublicationJournalRevision" where
  "parse_journal channel data =
     okr (decodeJSON publicationJournalFile_to_json publicationJournalFile_of_json data) (\<lambda>disk.
       if jf_Format disk \<noteq> publicationJournalFormatVersion \<or> jf_Revision disk = 0 \<or> jf_Checksum disk = 0 then Inl [ErrCorruptObject]
       else if jf_Checksum disk \<noteq> publicationJournalChecksum disk then Inl [ErrCorruptObject]
       else let state = publicationJournalStateFromFile disk in
         if ps_Channel state \<noteq> channel then Inl [ErrCorruptObject]
         else case validatePublicationJournalState state of Some e \<Rightarrow> Inl e | None \<Rightarrow> Inr (state, jf_Revision disk))"

definition journal_loadLocked ::
  "'w LocalFile \<Rightarrow> bytes \<Rightarrow> ('w, err + (PublicationJournalState \<times> PublicationJournalRevision) option) state" where
  "journal_loadLocked fs channel = do {
     l \<leftarrow> lf_lstat fs;
     ok l (\<lambda>exists. if \<not> exists then return (Inr None)
       else do {
         o' \<leftarrow> lf_open fs;
         check o' (do {
           i \<leftarrow> lf_validate fs;
           ok i (\<lambda>fileSize. if fileSize < 1 then throw [ErrCorruptObject]
             else if fileSize > maxPublicationJournalBytes then throw [ErrCorruptObject, ErrResourceLimit]
             else do {
               d \<leftarrow> lf_read fs (maxPublicationJournalBytes + 1);
               ok d (\<lambda>data. if len data > maxPublicationJournalBytes then throw [ErrCorruptObject, ErrResourceLimit]
                 else ok (parse_journal channel data) (\<lambda>s. return (Inr (Some s)))) }) }) }) }"

text \<open>The end of \<open>Load\<close>: a state that was found is made durable before it is returned.\<close>

definition journal_load_finish ::
  "'w LocalFile \<Rightarrow> err + (PublicationJournalState \<times> PublicationJournalRevision) option
   \<Rightarrow> ('w, err + (PublicationJournalState \<times> PublicationJournalRevision) option) state" where
  "journal_load_finish fs r = do {
     s \<leftarrow> (case r of Inr (Some _) \<Rightarrow> lf_syncdir fs | _ \<Rightarrow> return None);
     u \<leftarrow> lf_unlock fs;
     case r of Inl e \<Rightarrow> throw e
     | Inr v \<Rightarrow> check s (check u (return (Inr v))) }"

definition journal_Load ::
  "'w ctx \<Rightarrow> 'w LocalFile \<Rightarrow> bytes \<Rightarrow> ('w, err + (PublicationJournalState \<times> PublicationJournalRevision) option) state" where
  "journal_Load ctx fs channel = do {
     c \<leftarrow> ctx;
     check c (check (validateChannel channel) (do {
       l \<leftarrow> lf_lock fs;
       check l (do {
         r \<leftarrow> journal_loadLocked fs channel;
         journal_load_finish fs r }) })) }"

primrec newPublicationJournalRevision ::
  "('w, err + digest) state \<Rightarrow> nat \<Rightarrow> PublicationJournalRevision option \<Rightarrow> ('w, err + PublicationJournalRevision) state" where
  "newPublicationJournalRevision rnd 0 forbidden = throw plain_error"
| "newPublicationJournalRevision rnd (Suc tries) forbidden = do {
     r \<leftarrow> rnd;
     ok r (\<lambda>revision. if revision \<noteq> 0 \<and> forbidden \<noteq> Some revision then return (Inr revision)
       else newPublicationJournalRevision rnd tries forbidden) }"

definition journal_file :: "PublicationJournalState \<Rightarrow> PublicationJournalRevision \<Rightarrow> publicationJournalFile" where
  "journal_file next revision = (let disk = publicationJournalFileFromState next revision in
     disk\<lparr>jf_Checksum := publicationJournalChecksum disk\<rparr>)"

text \<open>The part of \<open>CompareAndSwap\<close> that runs with the lock held.\<close>

definition journal_swap_locked ::
  "'w ctx \<Rightarrow> 'w LocalFile \<Rightarrow> ('w, err + digest) state \<Rightarrow> nat \<Rightarrow> bytes \<Rightarrow> PublicationJournalRevision option
   \<Rightarrow> PublicationJournalState \<Rightarrow> ('w, err + PublicationJournalRevision) state" where
  "journal_swap_locked ctx fs rnd tries channel expected next = do {
     r \<leftarrow> journal_loadLocked fs channel;
     ok r (\<lambda>current.
       if expected \<noteq> map_option snd current then throw [ErrPrecondition]
       else check (case current of Some (state, _) \<Rightarrow> validatePublicationJournalTransition state next | None \<Rightarrow> None) (do {
         c \<leftarrow> ctx;
         check c (do {
           v \<leftarrow> newPublicationJournalRevision rnd tries (map_option snd current);
           ok v (\<lambda>revision. let data = canonicalJSON publicationJournalFile_to_json (journal_file next revision) in
             if len data > maxPublicationJournalBytes then throw [ErrResourceLimit]
             else do {
               e \<leftarrow> replace_file fs data;
               check e (return (Inr revision)) }) }) })) }"

definition join_result :: "err + 'a \<Rightarrow> err option \<Rightarrow> err + 'a" where
  "join_result r u = (case r of
     Inl e \<Rightarrow> Inl (e @ (case u of None \<Rightarrow> [] | Some e' \<Rightarrow> e'))
   | Inr x \<Rightarrow> (case u of None \<Rightarrow> Inr x | Some e' \<Rightarrow> Inl e'))"

definition journal_CompareAndSwap ::
  "'w ctx \<Rightarrow> 'w LocalFile \<Rightarrow> ('w, err + digest) state \<Rightarrow> nat \<Rightarrow> bytes \<Rightarrow> PublicationJournalRevision option
   \<Rightarrow> PublicationJournalState \<Rightarrow> ('w, err + PublicationJournalRevision) state" where
  "journal_CompareAndSwap ctx fs rnd tries channel expected next = do {
     c \<leftarrow> ctx;
     check c (check (validateChannel channel) (
       if ps_Channel next \<noteq> channel then throw [ErrCorruptObject]
       else check (validatePublicationJournalState next) (do {
         l \<leftarrow> lf_lock fs;
         check l (do {
           result \<leftarrow> journal_swap_locked ctx fs rnd tries channel expected next;
           u \<leftarrow> lf_unlock fs;
           return (join_result result u) }) }))) }"

definition FilePublicationJournal ::
  "'w ctx \<Rightarrow> 'w LocalFile \<Rightarrow> ('w, err + digest) state \<Rightarrow> nat \<Rightarrow> 'w PublicationJournalStore" where
  "FilePublicationJournal ctx fs rnd tries = \<lparr>pj_Load = journal_Load ctx fs,
     pj_CompareAndSwap = journal_CompareAndSwap ctx fs rnd tries\<rparr>"

subsection \<open>The codecs\<close>

lemma opt_member_simps [simp]: "opt_member name f None = []" "opt_member name f (Some x) = [(name, f x)]"
  by (simp_all add: opt_member_def)

lemma read_member_Some:
  "read_member name f kvs = Some (x, r) \<longleftrightarrow> (\<exists>v. kvs = (name, v) # r \<and> f v = Some x)"
  by (cases "(name, f, kvs)" rule: read_member.cases) auto

lemma read_opt_SomeD:
  "read_opt name f kvs = Some (x, r) \<Longrightarrow> x = None \<or> (\<exists>v y. kvs = (name, v) # r \<and> x = Some y \<and> f v = Some y)"
  by (cases "(name, f, kvs)" rule: read_opt.cases) (auto split: if_splits)

definition wf_journalVersion :: "Version \<Rightarrow> bool" where
  "wf_journalVersion v \<longleftrightarrow> utf8_valid (v_ETag v) \<and> utf8_valid (v_VersionID v)"

definition wf_journalIntent :: "publicationJournalIntentFile \<Rightarrow> bool" where
  "wf_journalIntent i \<longleftrightarrow> utf8_valid (pf_Kind i) \<and> (\<forall>v. pf_ExpectedVersion i = Some v \<longrightarrow> wf_journalVersion v)"

definition wf_journalFile :: "publicationJournalFile \<Rightarrow> bool" where
  "wf_journalFile f \<longleftrightarrow> is_int64 (jf_Format f) \<and> utf8_valid (jf_Channel f) \<and> (\<forall>i. jf_Pending f = Some i \<longrightarrow> wf_journalIntent i)"

interpretation jw: json_codec publicationJournalWatermark_to_json publicationJournalWatermark_of_json "\<lambda>_. True"
  by unfold_locales
    (auto simp: publicationJournalWatermark_to_json_def publicationJournalWatermark_of_json_def as_digest_digest_json as_uint64_uint_json)

interpretation jv: json_codec publicationJournalVersion_to_json publicationJournalVersion_of_json wf_journalVersion
  by unfold_locales
    (auto simp: publicationJournalVersion_to_json_def publicationJournalVersion_of_json_def wf_journalVersion_def bind_Some
      read_member_Some split: if_splits option.splits dest!: read_opt_SomeD dest: as_string_Some)

lemma intent_of_to:
  assumes "wf_journalIntent i"
  shows "publicationJournalIntentFile_of_json (publicationJournalIntentFile_to_json i) = Some i"
    "json_ok (publicationJournalIntentFile_to_json i)"
  using assms
  by (cases "pf_Base i"; cases "pf_ExpectedVersion i";
      simp add: publicationJournalIntentFile_to_json_def publicationJournalIntentFile_of_json_def wf_journalIntent_def
        as_digest_digest_json as_bytes_bytes_json jw.of_to jv.of_to jw.to_ok jv.to_ok)+

lemma intent_of_wf: "publicationJournalIntentFile_of_json j = Some i \<Longrightarrow> wf_journalIntent i"
  by (auto simp: publicationJournalIntentFile_of_json_def wf_journalIntent_def bind_Some read_member_Some
      split: if_splits dest!: read_opt_SomeD dest: as_string_Some jv.of_wf)

interpretation ji: json_codec publicationJournalIntentFile_to_json publicationJournalIntentFile_of_json wf_journalIntent
  using intent_of_to intent_of_wf by unfold_locales

lemma file_of_to:
  assumes "wf_journalFile f"
  shows "publicationJournalFile_of_json (publicationJournalFile_to_json f) = Some f"
    "json_ok (publicationJournalFile_to_json f)"
  using assms
  by (cases "jf_Committed f"; cases "jf_Pending f";
      simp add: publicationJournalFile_to_json_def publicationJournalFile_of_json_def publicationJournalPayload_members_def
        wf_journalFile_def as_digest_digest_json jw.of_to ji.of_to jw.to_ok ji.to_ok)+

lemma file_of_wf: "publicationJournalFile_of_json j = Some f \<Longrightarrow> wf_journalFile f"
  by (auto simp: publicationJournalFile_of_json_def wf_journalFile_def bind_Some read_member_Some
      split: if_splits dest!: read_opt_SomeD dest: as_int64_Some as_string_Some ji.of_wf)

interpretation jf: json_codec publicationJournalFile_to_json publicationJournalFile_of_json wf_journalFile
  using file_of_to file_of_wf by unfold_locales

subsection \<open>What a client may rely on\<close>

type_synonym journal_entry = "(PublicationJournalState \<times> PublicationJournalRevision) option"

text \<open>One replacement of the journal: a valid state with a new revision, reached by an allowed transition.\<close>

definition journal_step :: "journal_entry \<Rightarrow> journal_entry \<Rightarrow> bool" where
  "journal_step a b = (case b of None \<Rightarrow> False
     | Some (s', r') \<Rightarrow> r' \<noteq> 0 \<and> validatePublicationJournalState s' = None
        \<and> (case a of None \<Rightarrow> True | Some (s, r) \<Rightarrow> r' \<noteq> r \<and> validatePublicationJournalTransition s s' = None))"

abbreviation journal_steps :: "journal_entry \<Rightarrow> journal_entry \<Rightarrow> bool" where
  "journal_steps \<equiv> journal_step\<^sup>*\<^sup>*"

definition tokens_utf8 :: "PublicationJournalState \<Rightarrow> bool" where
  "tokens_utf8 s = (case ps_Pending s of None \<Rightarrow> True
     | Some i \<Rightarrow> (case pi_ExpectedVersion i of None \<Rightarrow> True | Some v \<Rightarrow> wf_journalVersion v))"

locale journal_store =
  fixes js :: "'w PublicationJournalStore" and channel :: bytes and durable :: "'w \<Rightarrow> journal_entry" and journal_inv :: "'w \<Rightarrow> bool"
  assumes Load_contract:
    "\<lbrakk>journal_inv w; run_state (pj_Load js channel) w = (r, w')\<rbrakk> \<Longrightarrow> journal_inv w' \<and> journal_steps (durable w) (durable w')
       \<and> (\<forall>v. r = Inr v \<longrightarrow> journal_steps (durable w) v \<and> journal_steps v (durable w'))"
    and CAS_contract:
    "\<lbrakk>journal_inv w; tokens_utf8 next; run_state (pj_CompareAndSwap js channel expected next) w = (c, w')\<rbrakk> \<Longrightarrow>
       journal_inv w' \<and> journal_steps (durable w) (durable w')
       \<and> (\<forall>revision. c = Inr revision \<longrightarrow> (\<exists>current. expected = map_option snd current \<and> journal_steps (durable w) current
            \<and> journal_step current (Some (next, revision)) \<and> journal_steps (Some (next, revision)) (durable w')))"

text \<open>What the transitions keep: the repository and the channel, the order of the committed watermarks, and a pending update
  until it is resolved.\<close>

definition entry_committed :: "journal_entry \<Rightarrow> Watermark option" where
  "entry_committed e = Option.bind e (\<lambda>(s, r). ps_Committed s)"

definition entry_pending :: "journal_entry \<Rightarrow> PublicationIntent option" where
  "entry_pending e = Option.bind e (\<lambda>(s, r). ps_Pending s)"

lemma entry_simps [simp]:
  "entry_committed None = None" "entry_committed (Some (s, r)) = ps_Committed s"
  "entry_pending None = None" "entry_pending (Some (s, r)) = ps_Pending s"
  by (simp_all add: entry_committed_def entry_pending_def)

lemma first_error_None: "first_error e k = None \<longleftrightarrow> e = None \<and> k = None"
  by (cases e) auto

lemma state_watermark:
  "\<lbrakk>validatePublicationJournalState s = None; ps_Committed s = Some w\<rbrakk> \<Longrightarrow> wm_RepositoryID w = ps_RepositoryID s \<and> wm_valid w"
  by (auto simp: validatePublicationJournalState_def validatePublicationJournalWatermark_def wm_valid_def first_error_None
      split: if_splits)

lemma transition_committed:
  assumes "validatePublicationJournalTransition s s' = None"
    "validatePublicationJournalState s = None" "validatePublicationJournalState s' = None"
  shows "wm_le (ps_Committed s) (ps_Committed s')"
proof (cases "ps_Committed s")
  case (Some x)
  with assms(1) obtain y where y: "ps_Committed s' = Some y" "\<not> wm_Generation y < wm_Generation x"
    "\<not> (wm_Generation y = wm_Generation x \<and> wm_Commit y \<noteq> wm_Commit x)" and r: "ps_RepositoryID s = ps_RepositoryID s'"
    by (auto simp: validatePublicationJournalTransition_def first_error_None split: if_splits option.splits)
  then have "wm_RepositoryID y = wm_RepositoryID x"
    using state_watermark [OF assms(2) Some] state_watermark [OF assms(3) y(1)] by simp
  then show ?thesis using wm_le_step y Some by simp
qed simp

definition entry_valid :: "journal_entry \<Rightarrow> bool" where
  "entry_valid e = (\<forall>s r. e = Some (s, r) \<longrightarrow> r \<noteq> 0 \<and> validatePublicationJournalState s = None)"

lemma entry_valid_simps [simp]:
  "entry_valid None" "entry_valid (Some (s, r)) \<longleftrightarrow> r \<noteq> 0 \<and> validatePublicationJournalState s = None"
  by (auto simp: entry_valid_def)

lemma step_valid: "journal_step a b \<Longrightarrow> entry_valid b"
  by (auto simp: journal_step_def split: option.splits)

lemma steps_valid: "\<lbrakk>journal_steps a b; entry_valid a\<rbrakk> \<Longrightarrow> entry_valid b"
  by (induction rule: rtranclp_induct) (auto dest: step_valid)

lemma step_committed: "\<lbrakk>journal_step a b; entry_valid a\<rbrakk> \<Longrightarrow> wm_le (entry_committed a) (entry_committed b)"
  by (cases a; cases b) (auto simp: journal_step_def transition_committed)

lemma steps_committed:
  assumes "journal_steps a b" "entry_valid a"
  shows "wm_le (entry_committed a) (entry_committed b)"
  using assms
proof (induction rule: rtranclp_induct)
  case (step b c)
  then show ?case using step_committed [of b c] steps_valid [of a b] wm_le_trans by blast
qed simp

lemma transition_pending:
  assumes "validatePublicationJournalTransition s s' = None" "ps_Pending s = Some p" "ps_Pending s' = Some q"
  shows "equalPublicationIntentSemantics (Some p) (Some q) \<and> ps_Committed s' = ps_Committed s"
  using assms unfolding validatePublicationJournalTransition_def first_error_None
  by (simp add: first_error_None equalWatermarkPointers_def split: if_splits)

lemma step_pending:
  "\<lbrakk>journal_step a b; entry_pending a = Some p; entry_pending b = Some q\<rbrakk>
    \<Longrightarrow> equalPublicationIntentSemantics (Some p) (Some q) \<and> entry_committed b = entry_committed a"
  by (cases a; cases b) (auto simp: journal_step_def dest: transition_pending)

text \<open>A pending update is only replaced by itself, or after a state without one.\<close>

lemma steps_pending:
  assumes "journal_steps a b" "entry_pending a = Some p"
  shows "(\<exists>q. entry_pending b = Some q \<and> equalPublicationIntentSemantics (Some p) (Some q) \<and> entry_committed b = entry_committed a)
    \<or> (\<exists>m. entry_pending m = None \<and> journal_steps a m \<and> journal_steps m b)"
  using assms
proof (induction rule: rtranclp_induct)
  case base
  then show ?case by (simp add: equalPublicationIntentSemantics_def equalWatermarkPointers_def)
next
  case (step b c)
  from step.IH [OF step.prems] show ?case
  proof
    assume "\<exists>q. entry_pending b = Some q \<and> equalPublicationIntentSemantics (Some p) (Some q) \<and> entry_committed b = entry_committed a"
    then obtain q where q: "entry_pending b = Some q" "equalPublicationIntentSemantics (Some p) (Some q)"
      "entry_committed b = entry_committed a" by blast
    show ?thesis
    proof (cases "entry_pending c")
      case None
      then show ?thesis using step.hyps by (meson rtranclp.rtrancl_refl rtranclp.rtrancl_into_rtrancl)
    next
      case (Some q')
      with step_pending [OF step.hyps(2) q(1) Some] q show ?thesis
        by (auto simp: equalPublicationIntentSemantics_def equalWatermarkPointers_def)
    qed
  next
    assume "\<exists>m. entry_pending m = None \<and> journal_steps a m \<and> journal_steps m b"
    then show ?thesis using step.hyps(2) by (meson rtranclp.rtrancl_into_rtrancl)
  qed
qed

context journal_store
begin

lemma wp_Load:
  assumes "journal_inv w"
    and "\<And>v w'. \<lbrakk>journal_inv w'; journal_steps (durable w) v; journal_steps v (durable w')\<rbrakk> \<Longrightarrow> Q (Inr v) w'"
    and "\<And>e w'. \<lbrakk>journal_inv w'; journal_steps (durable w) (durable w')\<rbrakk> \<Longrightarrow> Q (Inl e) w'"
  shows "wp (pj_Load js channel) Q w"
proof (rule wp_op)
  fix r w' assume "run_state (pj_Load js channel) w = (r, w')"
  from Load_contract [OF assms(1) this] show "Q r w'" using assms(2,3) by (cases r) auto
qed

lemma wp_CAS:
  assumes "journal_inv w" "tokens_utf8 next"
    and "\<And>revision current w'. \<lbrakk>journal_inv w'; expected = map_option snd current; journal_steps (durable w) current;
      journal_step current (Some (next, revision)); journal_steps (Some (next, revision)) (durable w')\<rbrakk> \<Longrightarrow> Q (Inr revision) w'"
    and "\<And>e w'. \<lbrakk>journal_inv w'; journal_steps (durable w) (durable w')\<rbrakk> \<Longrightarrow> Q (Inl e) w'"
  shows "wp (pj_CompareAndSwap js channel expected next) Q w"
proof (rule wp_op)
  fix r w' assume "run_state (pj_CompareAndSwap js channel expected next) w = (r, w')"
  from CAS_contract [OF assms(1,2) this] show "Q r w'" using assms(3,4) by (cases r) auto
qed

end

subsection \<open>The file journal keeps the contract\<close>

definition journal_decoded :: "bytes option \<Rightarrow> journal_entry" where
  "journal_decoded c = (case c of None \<Rightarrow> None
     | Some d \<Rightarrow> (case decodeJSON publicationJournalFile_to_json publicationJournalFile_of_json d of
         Inl _ \<Rightarrow> None | Inr disk \<Rightarrow> Some (publicationJournalStateFromFile disk, jf_Revision disk)))"

definition encode_journal :: "PublicationJournalState \<Rightarrow> PublicationJournalRevision \<Rightarrow> bytes" where
  "encode_journal s r = canonicalJSON publicationJournalFile_to_json (journal_file s r)"

text \<open>A readable file holds a valid state. What survives a crash is not ahead of what is visible.\<close>

definition journal_readable :: "bytes option \<Rightarrow> bool" where
  "journal_readable c \<longleftrightarrow> entry_valid (journal_decoded c) \<and> (c \<noteq> None \<longrightarrow> journal_decoded c \<noteq> None)"

definition journal_good :: "bytes option \<times> bytes option \<Rightarrow> bool" where
  "journal_good s \<longleftrightarrow> journal_readable (fst s) \<and> journal_readable (snd s)
     \<and> journal_steps (journal_decoded (snd s)) (journal_decoded (fst s))"

text \<open>Other processes follow the same discipline.\<close>

definition journal_rely :: "bytes option \<times> bytes option \<Rightarrow> bytes option \<times> bytes option \<Rightarrow> bool" where
  "journal_rely s s' \<longleftrightarrow> (journal_good s \<longrightarrow> journal_good s'
     \<and> journal_steps (journal_decoded (fst s)) (journal_decoded (fst s'))
     \<and> journal_steps (journal_decoded (snd s)) (journal_decoded (snd s')))"

lemma journal_decoded_None [simp]: "journal_decoded None = None"
  by (simp add: journal_decoded_def)

lemma parse_journal_decoded:
  "parse_journal channel d = Inr e \<Longrightarrow> journal_decoded (Some d) = Some e"
  by (auto simp: parse_journal_def journal_decoded_def Let_def split: if_splits option.splits)

lemma kind_utf8: "utf8_valid PublicationIntentPublish" "utf8_valid PublicationIntentResign"
  by (simp_all add: PublicationIntentPublish_def PublicationIntentResign_def ascii_utf8_valid)

lemma state_kind_utf8:
  "\<lbrakk>validatePublicationJournalState s = None; ps_Pending s = Some i\<rbrakk> \<Longrightarrow> utf8_valid (pi_Kind i)"
  using kind_utf8
  by (auto simp: validatePublicationJournalState_def validatePublicationJournalIntent_def first_error_None split: if_splits)

lemma state_from_file [simp]: "publicationJournalStateFromFile (journal_file s r) = s"
  by (cases "ps_Pending s")
    (simp_all add: publicationJournalStateFromFile_def journal_file_def publicationJournalFileFromState_def Let_def)

lemma revision_journal_file [simp]: "jf_Revision (journal_file s r) = r"
  by (simp add: journal_file_def publicationJournalFileFromState_def Let_def)

lemma wf_journal_file:
  assumes "validatePublicationJournalState s = None" "tokens_utf8 s"
  shows "wf_journalFile (journal_file s r)"
proof -
  have "utf8_valid (ps_Channel s)"
    using assms(1) by (auto simp: validatePublicationJournalState_def validateChannel_utf8 split: if_splits)
  then show ?thesis using assms state_kind_utf8 [OF assms(1)]
    by (auto simp: wf_journalFile_def journal_file_def publicationJournalFileFromState_def Let_def wf_journalIntent_def
        tokens_utf8_def publicationJournalFormatVersion_def is_int64_def maxInt64_def)
qed

lemma journal_decoded_encode:
  assumes "validatePublicationJournalState s = None" "tokens_utf8 s" "len (encode_journal s r) \<le> maxPublicationJournalBytes"
  shows "journal_decoded (Some (encode_journal s r)) = Some (s, r)"
proof -
  have "len (encode_journal s r) \<le> maxMetadataObjectBytes"
    using assms(3) by (simp add: maxPublicationJournalBytes_def maxMetadataObjectBytes_def)
  then show ?thesis
    using jf.decode_canonical [OF wf_journal_file [OF assms(1,2)], of r]
    by (simp add: journal_decoded_def encode_journal_def)
qed

context local_file
begin

lemma journal_loadLocked_spec:
  "wp (journal_loadLocked fs channel) (\<lambda>r w'. visible w' = visible w \<and> persistent w' = persistent w
    \<and> (\<forall>v. r = Inr v \<longrightarrow> (case v of None \<Rightarrow> visible w = None
        | Some x \<Rightarrow> \<exists>d. visible w = Some d \<and> parse_journal channel d = Inr x))) w"
proof -
  have t: "take (nat (maxPublicationJournalBytes + 1)) d = d" if "len d \<le> maxPublicationJournalBytes" for d :: bytes
    using that by (simp add: maxPublicationJournalBytes_def)
  show ?thesis unfolding journal_loadLocked_def
    by (auto simp: wp_simps t not_less intro!: wp_lstat wp_open wp_validate wp_read)
qed

end

locale journal_disk = local_file fs visible persistent temporary synced journal_rely
  for fs :: "'w LocalFile" and visible persistent temporary :: "'w \<Rightarrow> bytes option" and synced :: "'w \<Rightarrow> bool" +
  fixes channel :: bytes and ctx :: "'w ctx" and rnd :: "('w, err + digest) state" and tries :: nat
  assumes ctx_keeps: "run_state ctx w = (e, w') \<Longrightarrow> visible w' = visible w \<and> persistent w' = persistent w"
    and rnd_keeps: "run_state rnd w = (x, w') \<Longrightarrow> visible w' = visible w \<and> persistent w' = persistent w"
begin

abbreviation content :: "'w \<Rightarrow> bytes option \<times> bytes option" where
  "content w \<equiv> (visible w, persistent w)"

abbreviation journal_durable :: "'w \<Rightarrow> journal_entry" where
  "journal_durable w \<equiv> journal_decoded (persistent w)"

abbreviation file_inv :: "'w \<Rightarrow> bool" where
  "file_inv w \<equiv> journal_good (content w)"

lemma wp_journal_rely:
  assumes "file_inv w" "m \<in> {lf_lock fs, lf_unlock fs}"
    and "\<And>e w'. \<lbrakk>file_inv w'; journal_steps (journal_durable w) (journal_durable w')\<rbrakk> \<Longrightarrow> Q e w'"
  shows "wp m Q w"
proof (rule wp_op)
  fix e w' assume "run_state m w = (e, w')"
  then have "journal_rely (content w) (content w')" using assms(2) lock unlock by blast
  then show "Q e w'" using assms(1,3) by (simp add: journal_rely_def)
qed

lemma wp_ctx: "(\<And>e w'. content w' = content w \<Longrightarrow> Q e w') \<Longrightarrow> wp ctx Q w"
  by (rule wp_op) (use ctx_keeps in auto)

lemma revision_spec:
  "wp (newPublicationJournalRevision rnd n forbidden) (\<lambda>r w'. content w' = content w
    \<and> (\<forall>v. r = Inr v \<longrightarrow> v \<noteq> 0 \<and> forbidden \<noteq> Some v)) w"
proof (induction n arbitrary: w)
  case 0
  then show ?case by simp
next
  case (Suc n)
  have "wp (newPublicationJournalRevision rnd n forbidden) (\<lambda>r w'. content w' = content w
      \<and> (\<forall>v. r = Inr v \<longrightarrow> v \<noteq> 0 \<and> forbidden \<noteq> Some v)) w1" if "content w1 = content w" for w1
    using Suc.IH [of w1] that by simp
  moreover have "content w1 = content w" if "run_state rnd w = (r, w1)" for r w1
    using rnd_keeps [OF that] by simp
  ultimately show ?case by (auto simp: wp_simps intro!: wp_op [of rnd])
qed

lemma journal_loaded_spec:
  assumes "file_inv w"
  shows "wp (journal_loadLocked fs channel) (\<lambda>r w'. content w' = content w \<and> (\<forall>v. r = Inr v \<longrightarrow> v = journal_decoded (visible w))) w"
proof (rule wp_conseq [OF journal_loadLocked_spec])
  fix r w'
  assume "visible w' = visible w \<and> persistent w' = persistent w
    \<and> (\<forall>v. r = Inr v \<longrightarrow> (case v of None \<Rightarrow> visible w = None
        | Some x \<Rightarrow> \<exists>d. visible w = Some d \<and> parse_journal channel d = Inr x))"
  moreover from this have "v = journal_decoded (visible w)" if "r = Inr v" for v
    using that by (cases v) (auto dest: parse_journal_decoded)
  ultimately show "content w' = content w \<and> (\<forall>v. r = Inr v \<longrightarrow> v = journal_decoded (visible w))"
    by blast
qed

text \<open>What a found or installed state still has to pass: the synchronisation of the directory and the release of the lock.\<close>

lemma wp_journal_unlock:
  assumes "file_inv w1" "journal_steps (journal_durable w) (journal_durable w1)"
    and "\<And>u w'. \<lbrakk>file_inv w'; journal_steps (journal_durable w) (journal_durable w');
      journal_steps (journal_durable w1) (journal_durable w')\<rbrakk> \<Longrightarrow> Q u w'"
  shows "wp (lf_unlock fs) Q w1"
  by (rule wp_journal_rely [OF assms(1)]) (use assms(2,3) in \<open>auto intro: rtranclp_trans\<close>)

definition loaded :: "'w \<Rightarrow> err + journal_entry \<Rightarrow> 'w \<Rightarrow> bool" where
  "loaded w r w' \<longleftrightarrow> file_inv w' \<and> journal_steps (journal_durable w) (journal_durable w')
     \<and> (\<forall>v. r = Inr v \<longrightarrow> journal_steps (journal_durable w) v \<and> journal_steps v (journal_durable w'))"

lemma load_finish_found:
  assumes g: "file_inv w1" "journal_steps (journal_durable w) (journal_durable w1)" and v: "journal_decoded (visible w1) = Some x"
  shows "wp (journal_load_finish fs (Inr (Some x))) (loaded w) w1"
proof -
  have le: "journal_steps (journal_durable w) (Some x)"
    using g v by (auto simp: journal_good_def intro: rtranclp_trans)
  have "wp (lf_unlock fs) (\<lambda>u. wp (check s (check u (return (Inr (Some x))))) (loaded w)) w2"
    if 2: "visible w2 = visible w1" "persistent w2 \<in> {persistent w1, visible w1}" "s = None \<Longrightarrow> persistent w2 = visible w1" for s w2
  proof (rule wp_journal_unlock [where w = w])
    show "file_inv w2" "journal_steps (journal_durable w) (journal_durable w2)"
      using g 2 v le by (auto simp: journal_good_def)
    show "wp (check s (check u (return (Inr (Some x))))) (loaded w) w3"
      if "file_inv w3" "journal_steps (journal_durable w) (journal_durable w3)" "journal_steps (journal_durable w2) (journal_durable w3)" for u w3
      using that le 2(3) v by (auto simp: loaded_def check_def split: option.splits)
  qed
  then have "wp (lf_syncdir fs) (\<lambda>s. wp (lf_unlock fs) (\<lambda>u. wp (check s (check u (return (Inr (Some x))))) (loaded w))) w1"
    by (rule wp_syncdir)
  then show ?thesis by (simp add: journal_load_finish_def wp_bind_fun del: check_simps)
qed

lemma load_finish_other:
  assumes "file_inv w1" "journal_steps (journal_durable w) (journal_durable w1)"
    and "r = Inr None \<and> visible w1 = None \<or> (\<exists>e. r = Inl e)"
  shows "wp (journal_load_finish fs r) (loaded w) w1"
proof -
  have n: "journal_durable w = None" if "visible w1 = None"
  proof -
    have "journal_steps (journal_durable w) None"
      using assms(1,2) that by (auto simp: journal_good_def intro: rtranclp_trans)
    then show ?thesis by (auto elim: rtranclp.cases simp: journal_step_def)
  qed
  have "wp (lf_unlock fs) (\<lambda>u. wp (case r of Inl e \<Rightarrow> throw e | Inr v \<Rightarrow> check None (check u (return (Inr v)))) (loaded w)) w1"
    by (rule wp_journal_unlock [OF assms(1,2)])
      (use assms(3) n in \<open>auto simp: loaded_def check_def split: option.splits\<close>)
  then show ?thesis using assms(3) by (auto simp: journal_load_finish_def wp_bind)
qed

lemma journal_Load_spec:
  assumes "file_inv w"
  shows "wp (journal_Load ctx fs channel) (loaded w) w"
proof -
  have fin: "wp (journal_loadLocked fs channel) (\<lambda>r. wp (journal_load_finish fs r) (loaded w)) w2"
    if 2: "file_inv w2" "journal_steps (journal_durable w) (journal_durable w2)" for w2
  proof (rule wp_conseq [OF wp_conj [OF journal_loaded_spec [OF 2(1)] journal_loadLocked_spec]])
    fix r :: "err + journal_entry" and w3
    assume r: "(content w3 = content w2 \<and> (\<forall>v. r = Inr v \<longrightarrow> v = journal_decoded (visible w2)))
      \<and> visible w3 = visible w2 \<and> persistent w3 = persistent w2
      \<and> (\<forall>v. r = Inr v \<longrightarrow> (case v of None \<Rightarrow> visible w2 = None
        | Some x \<Rightarrow> \<exists>d. visible w2 = Some d \<and> parse_journal channel d = Inr x))"
    then have 3: "file_inv w3" "journal_steps (journal_durable w) (journal_durable w3)" using 2 by auto
    show "wp (journal_load_finish fs r) (loaded w) w3"
    proof (cases "\<exists>x. r = Inr (Some x)")
      case True
      then show ?thesis using load_finish_found [OF 3] r by auto
    next
      case False
      then have "r = Inr None \<and> visible w3 = None \<or> (\<exists>e. r = Inl e)"
        using r by (cases r; cases "journal_decoded (visible w2)") auto
      then show ?thesis by (rule load_finish_other [OF 3])
    qed
  qed
  have lock: "wp (lf_lock fs) (\<lambda>l. wp (check l (do { r \<leftarrow> journal_loadLocked fs channel; journal_load_finish fs r })) (loaded w)) w1"
    if "content w1 = content w" for w1
  proof (rule wp_journal_rely)
    fix l w2 assume 2: "file_inv w2" "journal_steps (journal_durable w1) (journal_durable w2)"
    then show "wp (check l (do { r \<leftarrow> journal_loadLocked fs channel; journal_load_finish fs r })) (loaded w) w2"
      using fin [OF 2(1)] that by (cases l) (simp_all add: wp_bind loaded_def)
  qed (use that assms in simp_all)
  have "loaded w (Inl e) w1" if "content w1 = content w" for e w1
    using that assms by (simp add: loaded_def)
  then have "wp (check c (check (validateChannel channel) (lf_lock fs \<bind> (\<lambda>l. check l (journal_loadLocked fs channel \<bind> journal_load_finish fs)))))
      (loaded w) w1" if "content w1 = content w" for c w1
    using lock [OF that] that by (cases c; cases "validateChannel channel") (simp_all add: wp_bind)
  then show ?thesis
    unfolding journal_Load_def by (auto simp: wp_bind [of ctx] intro!: wp_ctx)
qed

text \<open>Under the lock: the swap keeps the discipline, and success means that the new state survives a crash.\<close>

definition swapped :: "PublicationJournalRevision option \<Rightarrow> PublicationJournalState \<Rightarrow> 'w \<Rightarrow> err + digest \<Rightarrow> 'w \<Rightarrow> bool" where
  "swapped expected next w r w' \<longleftrightarrow> file_inv w' \<and> journal_steps (journal_durable w) (journal_durable w')
     \<and> (\<forall>revision. r = Inr revision \<longrightarrow> (\<exists>current. expected = map_option snd current \<and> journal_steps (journal_durable w) current
            \<and> journal_step current (Some (next, revision)) \<and> journal_steps (Some (next, revision)) (journal_durable w')))"

lemma swapped_error: "\<lbrakk>file_inv w; content w' = content w\<rbrakk> \<Longrightarrow> swapped expected next w (Inl e) w'"
  by (simp add: swapped_def)

lemma replace_journal:
  assumes "file_inv w" "content w1 = content w" "tokens_utf8 next" "expected = map_option snd (journal_decoded (visible w))"
    and "journal_step (journal_decoded (visible w)) (Some (next, revision))"
    and "len (encode_journal next revision) \<le> maxPublicationJournalBytes"
  shows "wp (replace_file fs (encode_journal next revision))
    (\<lambda>e. wp (check e (return (Inr revision))) (swapped expected next w)) w1"
proof (rule wp_conseq [OF replace_file_spec])
  fix e w' assume r: "replaced (encode_journal next revision) w1 e w'"
  have v: "validatePublicationJournalState next = None" "revision \<noteq> 0" using step_valid [OF assms(5)] by simp_all
  have d: "journal_decoded (Some (encode_journal next revision)) = Some (next, revision)"
    by (rule journal_decoded_encode [OF v(1) assms(3,6)])
  have rd: "journal_readable (Some (encode_journal next revision))" using d v by (simp add: journal_readable_def)
  have le: "journal_steps (journal_durable w) (journal_decoded (visible w))" using assms(1) by (simp add: journal_good_def)
  then have le2: "journal_steps (journal_durable w) (Some (next, revision))" using assms(5) by (rule rtranclp.rtrancl_into_rtrancl)
  have inv: "file_inv w' \<and> journal_steps (journal_durable w) (journal_durable w')"
    using r assms(1,2) rd d le le2 unfolding replaced_def journal_good_def by (auto split: if_splits)
  show "wp (check e (return (Inr revision))) (swapped expected next w) w'"
  proof (cases e)
    case None
    then have "journal_durable w' = Some (next, revision)" using r d by (simp add: replaced_def)
    then show ?thesis using None inv le assms(4,5) by (auto simp: swapped_def)
  next
    case (Some a)
    then show ?thesis using inv by (simp add: swapped_def)
  qed
qed


lemma journal_swap_spec:
  assumes "file_inv w" "tokens_utf8 next" "validatePublicationJournalState next = None"
  shows "wp (journal_swap_locked ctx fs rnd tries channel expected next) (swapped expected next w) w"
proof -
  have rep: "wp (newPublicationJournalRevision rnd tries (map_option snd current)) (\<lambda>v. wp (ok v (\<lambda>revision.
      let data = canonicalJSON publicationJournalFile_to_json (journal_file next revision) in
             if len data > maxPublicationJournalBytes then throw [ErrResourceLimit]
             else do {
               e \<leftarrow> replace_file fs data;
               check e (return (Inr revision)) })) (swapped expected next w)) w2"
    if c: "content w2 = content w" "current = journal_decoded (visible w)" "expected = map_option snd current"
      "case current of Some (state, _) \<Rightarrow> validatePublicationJournalTransition state next = None | None \<Rightarrow> True" for current w2
  proof (rule wp_conseq [OF revision_spec])
    fix v :: "err + digest" and w3 assume v: "content w3 = content w2 \<and> (\<forall>x. v = Inr x \<longrightarrow> x \<noteq> 0 \<and> map_option snd current \<noteq> Some x)"
    have e: "swapped expected next w (Inl e) w3" for e using swapped_error assms(1) v c(1) by simp
    show "wp (ok v (\<lambda>revision.
      let data = canonicalJSON publicationJournalFile_to_json (journal_file next revision) in
             if len data > maxPublicationJournalBytes then throw [ErrResourceLimit]
             else do {
               e \<leftarrow> replace_file fs data;
               check e (return (Inr revision)) })) (swapped expected next w) w3"
    proof (cases v)
      case (Inl a)
      then show ?thesis using e by simp
    next
      case (Inr revision)
      then have "revision \<noteq> 0" "map_option snd current \<noteq> Some revision" using v by blast+
      then have "journal_step current (Some (next, revision))"
        using c(4) assms(3) by (auto simp: journal_step_def split: option.splits)
      then show ?thesis
        using Inr e replace_journal [OF assms(1) _ assms(2), of w3 expected revision] v c
        by (simp add: encode_journal_def wp_simps Let_def not_less)
    qed
  qed
  show ?thesis
    unfolding journal_swap_locked_def wp_bind [of "journal_loadLocked fs channel"]
  proof (rule wp_conseq [OF journal_loaded_spec [OF assms(1)]])
    fix r :: "err + journal_entry" and w1
    assume l: "content w1 = content w \<and> (\<forall>v. r = Inr v \<longrightarrow> v = journal_decoded (visible w))"
    have e: "swapped expected next w (Inl e) w2" if "content w2 = content w" for e w2 using swapped_error assms(1) that by simp
    show "wp (ok r (\<lambda>current.
       if expected \<noteq> map_option snd current then throw [ErrPrecondition]
       else check (case current of Some (state, _) \<Rightarrow> validatePublicationJournalTransition state next | None \<Rightarrow> None) (do {
         c \<leftarrow> ctx;
         check c (do {
           v \<leftarrow> newPublicationJournalRevision rnd tries (map_option snd current);
           ok v (\<lambda>revision. let data = canonicalJSON publicationJournalFile_to_json (journal_file next revision) in
             if len data > maxPublicationJournalBytes then throw [ErrResourceLimit]
             else do {
               e \<leftarrow> replace_file fs data;
               check e (return (Inr revision)) }) }) }))) (swapped expected next w) w1"
    proof (cases r)
      case (Inl a)
      then show ?thesis using e l by simp
    next
      case (Inr current)
      have poll: "wp ctx (\<lambda>c. wp (check c (do {
           v \<leftarrow> newPublicationJournalRevision rnd tries (map_option snd current);
           ok v (\<lambda>revision. let data = canonicalJSON publicationJournalFile_to_json (journal_file next revision) in
             if len data > maxPublicationJournalBytes then throw [ErrResourceLimit]
             else do {
               e \<leftarrow> replace_file fs data;
               check e (return (Inr revision)) }) })) (swapped expected next w)) w1"
        if "expected = map_option snd current"
          "case current of Some (state, _) \<Rightarrow> validatePublicationJournalTransition state next = None | None \<Rightarrow> True"
      proof (rule wp_ctx)
        fix c w2 assume "content w2 = content w1"
        then show "wp (check c (do {
           v \<leftarrow> newPublicationJournalRevision rnd tries (map_option snd current);
           ok v (\<lambda>revision. let data = canonicalJSON publicationJournalFile_to_json (journal_file next revision) in
             if len data > maxPublicationJournalBytes then throw [ErrResourceLimit]
             else do {
               e \<leftarrow> replace_file fs data;
               check e (return (Inr revision)) }) })) (swapped expected next w) w2"
          using rep [of w2 current] that l e [of w2] Inr by (cases c) (simp_all add: wp_bind [of "newPublicationJournalRevision _ _ _"])
      qed
      show ?thesis
      proof (cases "case current of Some (state, _) \<Rightarrow> validatePublicationJournalTransition state next | None \<Rightarrow> None")
        case None
        then have "case current of Some (state, _) \<Rightarrow> validatePublicationJournalTransition state next = None | None \<Rightarrow> True"
          by (auto split: option.splits)
        then show ?thesis using poll e [of w1] l Inr None by (simp add: wp_bind [of ctx] wp_if)
      next
        case (Some a)
        then show ?thesis using e [of w1] l Inr by (auto simp: wp_if)
      qed
    qed
  qed
qed

lemma swapped_unlock:
  assumes "swapped expected next w r w1"
  shows "wp (lf_unlock fs) (\<lambda>u. swapped expected next w (join_result r u)) w1"
proof (rule wp_journal_unlock)
  fix u w' assume "file_inv w'" "journal_steps (journal_durable w) (journal_durable w')" "journal_steps (journal_durable w1) (journal_durable w')"
  moreover have "r = Inr revision" if "join_result r u = Inr revision" for revision
    using that by (auto simp: join_result_def split: sum.splits option.splits)
  ultimately show "swapped expected next w (join_result r u) w'"
    using assms unfolding swapped_def by (blast intro: rtranclp_trans)
qed (use assms in \<open>simp_all add: swapped_def\<close>)

lemma swapped_from: "\<lbrakk>swapped expected next w1 r w2; journal_steps (journal_durable w) (journal_durable w1)\<rbrakk> \<Longrightarrow> swapped expected next w r w2"
  unfolding swapped_def by (blast intro: rtranclp_trans)

lemma journal_CAS_spec:
  assumes "file_inv w" "tokens_utf8 next"
  shows "wp (journal_CompareAndSwap ctx fs rnd tries channel expected next) (swapped expected next w) w"
proof -
  have locked: "wp (journal_swap_locked ctx fs rnd tries channel expected next)
      (\<lambda>r. wp (lf_unlock fs) (\<lambda>u. swapped expected next w (join_result r u))) w2"
    if "file_inv w2" "journal_steps (journal_durable w) (journal_durable w2)" "validatePublicationJournalState next = None" for w2
    by (rule wp_conseq [OF journal_swap_spec [OF that(1) assms(2) that(3)]]) (rule swapped_unlock, rule swapped_from [OF _ that(2)])
  have lock: "wp (lf_lock fs) (\<lambda>l. wp (check l (do {
           result \<leftarrow> journal_swap_locked ctx fs rnd tries channel expected next;
           u \<leftarrow> lf_unlock fs;
           return (join_result result u) })) (swapped expected next w)) w1"
    if "content w1 = content w" "validatePublicationJournalState next = None" for w1
  proof (rule wp_journal_rely)
    fix l w2 assume 2: "file_inv w2" "journal_steps (journal_durable w1) (journal_durable w2)"
    then show "wp (check l (do {
           result \<leftarrow> journal_swap_locked ctx fs rnd tries channel expected next;
           u \<leftarrow> lf_unlock fs;
           return (join_result result u) })) (swapped expected next w) w2"
      using locked [OF 2(1)] that by (cases l) (simp_all add: wp_bind_fun wp_return_fun swapped_def [of _ _ _ "Inl _"])
  qed (use that assms in simp_all)
  have "wp (check c (check (validateChannel channel) (
       if ps_Channel next \<noteq> channel then throw [ErrCorruptObject]
       else check (validatePublicationJournalState next) (lf_lock fs \<bind> (\<lambda>l. check l (do {
           result \<leftarrow> journal_swap_locked ctx fs rnd tries channel expected next;
           u \<leftarrow> lf_unlock fs;
           return (join_result result u) })))))) (swapped expected next w) w1"
    if "content w1 = content w" for c w1
    using lock [OF that] swapped_error [OF assms(1) that]
    by (cases c; cases "validateChannel channel"; cases "validatePublicationJournalState next") (simp_all add: wp_bind [of "lf_lock fs"])
  then show ?thesis
    unfolding journal_CompareAndSwap_def by (auto simp: wp_bind [of ctx] intro!: wp_ctx)
qed

lemma file_journal_store: "journal_store (FilePublicationJournal ctx fs rnd tries) channel journal_durable file_inv"
proof
  show "file_inv w' \<and> journal_steps (journal_durable w) (journal_durable w')
       \<and> (\<forall>v. r = Inr v \<longrightarrow> journal_steps (journal_durable w) v \<and> journal_steps v (journal_durable w'))"
    if "file_inv w" "run_state (pj_Load (FilePublicationJournal ctx fs rnd tries) channel) w = (r, w')" for w r w'
    using wp_run [OF journal_Load_spec [OF that(1)]] that(2) by (simp add: FilePublicationJournal_def loaded_def)
  show "file_inv w' \<and> journal_steps (journal_durable w) (journal_durable w')
       \<and> (\<forall>revision. r = Inr revision \<longrightarrow> (\<exists>current. expected = map_option snd current \<and> journal_steps (journal_durable w) current
            \<and> journal_step current (Some (next, revision)) \<and> journal_steps (Some (next, revision)) (journal_durable w')))"
    if "file_inv w" "tokens_utf8 next" "run_state (pj_CompareAndSwap (FilePublicationJournal ctx fs rnd tries) channel expected next) w = (r, w')"
    for w expected "next" r w'
    using wp_run [OF journal_CAS_spec [OF that(1,2)]] that(3) by (simp add: FilePublicationJournal_def swapped_def)
qed

end

sublocale journal_disk \<subseteq> journal: journal_store "FilePublicationJournal ctx fs rnd tries" channel
  "\<lambda>w. journal_decoded (persistent w)" "\<lambda>w. journal_good (visible w, persistent w)"
  by (rule file_journal_store)

subsection \<open>Properties\<close>

lemma journal_rely_refl [simp]: "journal_rely s s"
  by (simp add: journal_rely_def)

lemma memfs_journal: "journal_disk memfs mf_visible mf_persistent mf_temporary mf_synced (return None) (return (Inr revision))"
  by unfold_locales (auto simp: memfs_def split: option.splits)

interpretation mem_journal: journal_disk memfs mf_visible mf_persistent mf_temporary mf_synced "''main''" "return None" "return (Inr 7)" 1
  by (rule memfs_journal)


definition demo_state :: PublicationJournalState where
  "demo_state = \<lparr>ps_RepositoryID = 1, ps_Channel = ''main'', ps_Committed = Some \<lparr>wm_RepositoryID = 1, wm_Generation = 3, wm_Commit = 5\<rparr>,
     ps_Pending = None\<rparr>"

lemma demo_state_valid: "validatePublicationJournalState demo_state = None"
  by (simp add: validatePublicationJournalState_def demo_state_def validatePublicationJournalWatermark_def validateChannel_def utf8_valid.simps)

lemma demo_journal_fits: "len (encode_journal demo_state 7) \<le> maxPublicationJournalBytes"
proof -
  have "length (json_print (publicationJournalFile_to_json (journal_file demo_state 7))) \<le> 32768"
    using length_print_string [of "hex256 7"] length_print_string [of "hex256 5"] length_print_string [of "hex256 1"]
      length_print_string [of "hex256 (publicationJournalChecksum (publicationJournalFileFromState demo_state 7))"]
      length_dec_uint64 [of 3] length_dec [of 1 1] length_print_string [of "''main''"]
      length_print_string [of "''format''"] length_print_string [of "''revision''"] length_print_string [of "''repository_id''"]
      length_print_string [of "''channel''"] length_print_string [of "''committed''"] length_print_string [of "''generation''"]
      length_print_string [of "''commit''"] length_print_string [of "''checksum''"]
    by (simp add: publicationJournalFile_to_json_def publicationJournalPayload_members_def journal_file_def Let_def
        publicationJournalFileFromState_def demo_state_def publicationJournalWatermark_to_json_def
        publicationJournalFormatVersion_def digest_json_def uint_json_def dec_int_def)
  then show ?thesis by (simp add: encode_journal_def canonicalJSON_def maxPublicationJournalBytes_def)
qed

lemma demo_journal_swap:
  "run_state (journal_CompareAndSwap (return None) memfs (return (Inr 7)) 1 ''main'' None demo_state) empty_disk
   = (Inr 7, \<lparr>mf_visible = Some (encode_journal demo_state 7), mf_persistent = Some (encode_journal demo_state 7),
       mf_temporary = None, mf_synced = True\<rparr>)"
proof -
  have c: "validateChannel ''main'' = None" by (simp add: validateChannel_def utf8_valid.simps)
  have p: "ps_Channel demo_state = ''main''" by (simp add: demo_state_def)
  show ?thesis using demo_journal_fits
    by (simp add: journal_CompareAndSwap_def journal_swap_locked_def journal_loadLocked_def replace_file_def memfs_def empty_disk_def
        encode_journal_def c p demo_state_valid join_result_def Let_def not_less One_nat_def)
qed


text \<open>
  C39. The journal accepts a state that it can never read again. If the entity tag of the expected version of a valid
  state is replaced by a byte that is not UTF-8, which no check of a store version excludes, the validation of
  the state still accepts it, and the file that \<open>CompareAndSwap\<close> then installs is refused by every later load with
  \<open>ErrCorruptObject\<close>: the JSON text has lost the byte.
\<close>

theorem journal_token_unreadable:
  assumes "ps_Pending state = Some intent" "pi_ExpectedVersion intent = Some version"
    and "v_ETag version \<noteq> []" "len (v_ETag version) \<le> MaxStoreVersionTokenBytes"
    and "state' = state\<lparr>ps_Pending := Some (intent\<lparr>pi_ExpectedVersion := Some (version\<lparr>v_ETag := [CHR 0xFF]\<rparr>)\<rparr>)\<rparr>"
    and "len (encode_journal state' revision) \<le> maxPublicationJournalBytes"
  shows "validatePublicationJournalState state' = validatePublicationJournalState state
    \<and> parse_journal channel (encode_journal state' revision) = Inl [ErrCorruptObject]"
proof
  have n: "len [CHR 0xFF] \<le> MaxStoreVersionTokenBytes" by (simp add: MaxStoreVersionTokenBytes_def)
  have i: "validatePublicationJournalIntent r c (intent\<lparr>pi_ExpectedVersion := Some (version\<lparr>v_ETag := [CHR 0xFF]\<rparr>)\<rparr>)
      = validatePublicationJournalIntent r c intent" for r c
    using assms(2-4) n by (simp add: validatePublicationJournalIntent_def validatePublicationIntentID_def cong: option.case_cong)
  show "validatePublicationJournalState state' = validatePublicationJournalState state"
    using assms(1,5) by (simp add: validatePublicationJournalState_def i cong: option.case_cong)
  have "\<not> utf8_valid [CHR 0xFF]" by (simp add: utf8_valid.simps rune_len_def)
  then have "\<not> json_ok (publicationJournalFile_to_json (journal_file state' revision))"
    by (simp add: assms(5) publicationJournalFile_to_json_def publicationJournalPayload_members_def journal_file_def Let_def
        publicationJournalFileFromState_def publicationJournalIntentFile_to_json_def publicationJournalVersion_to_json_def)
  moreover have "len (encode_journal state' revision) \<le> maxMetadataObjectBytes"
    using assms(6) by (simp add: maxPublicationJournalBytes_def maxMetadataObjectBytes_def)
  ultimately show "parse_journal channel (encode_journal state' revision) = Inl [ErrCorruptObject]"
    using jf.decode_not_ok by (simp add: parse_journal_def encode_journal_def canonicalJSON_def)
qed

definition demo_intent :: PublicationIntent where
  "demo_intent = \<lparr>pi_IntentID = 1, pi_Kind = PublicationIntentResign, pi_Base = None,
     pi_Next = \<lparr>wm_RepositoryID = 1, wm_Generation = 3, wm_Commit = 5\<rparr>,
     pi_ExpectedVersion = Some \<lparr>v_ETag = ''e'', v_VersionID = []\<rparr>, pi_ExpectedReference = 1, pi_Reference = ''r''\<rparr>"

theorem journal_token_unreadable_witness:
  "parse_journal ''main'' (encode_journal (demo_state\<lparr>ps_Pending := Some (demo_intent\<lparr>pi_ExpectedVersion :=
     Some \<lparr>v_ETag = [CHR 0xFF], v_VersionID = []\<rparr>\<rparr>)\<rparr>) 7) = Inl [ErrCorruptObject]"
proof -
  let ?s = "demo_state\<lparr>ps_Pending := Some (demo_intent\<lparr>pi_ExpectedVersion := Some \<lparr>v_ETag = [CHR 0xFF], v_VersionID = []\<rparr>\<rparr>)\<rparr>"
  have "length (b64_std_encode ''r'') = 4" by code_simp
  then have "length (json_print (publicationJournalFile_to_json (journal_file ?s 7))) \<le> 32768"
    using length_print_string [of "hex256 7"] length_print_string [of "hex256 5"] length_print_string [of "hex256 1"]
      length_print_string [of "hex256 (publicationJournalChecksum (publicationJournalFileFromState ?s 7))"]
      length_dec_uint64 [of 3] length_dec [of 1 1] length_print_string [of "''main''"]
      length_print_string [of "''format''"] length_print_string [of "''revision''"] length_print_string [of "''repository_id''"]
      length_print_string [of "''channel''"] length_print_string [of "''committed''"] length_print_string [of "''generation''"]
      length_print_string [of "''commit''"] length_print_string [of "''checksum''"] length_print_string [of "''pending''"]
      length_print_string [of "''intent_id''"] length_print_string [of "''kind''"] length_print_string [of "''resign''"]
      length_print_string [of "''next''"] length_print_string [of "''expected_version''"] length_print_string [of "''etag''"]
      length_print_string [of "[CHR 0xFF]"] length_print_string [of "''expected_reference''"] length_print_string [of "''reference''"]
      length_print_string [of "b64_std_encode ''r''"]
    by (simp add: publicationJournalFile_to_json_def publicationJournalPayload_members_def journal_file_def Let_def
        publicationJournalFileFromState_def demo_state_def publicationJournalWatermark_to_json_def
        publicationJournalIntentFile_to_json_def publicationJournalVersion_to_json_def demo_intent_def PublicationIntentResign_def
        publicationJournalFormatVersion_def digest_json_def uint_json_def dec_int_def bytes_json_def copied_def)
  then have "len (encode_journal ?s 7) \<le> maxPublicationJournalBytes"
    by (simp add: encode_journal_def canonicalJSON_def maxPublicationJournalBytes_def)
  then show ?thesis
    by - (rule conjunct2 [OF journal_token_unreadable [of "demo_state\<lparr>ps_Pending := Some demo_intent\<rparr>" demo_intent "\<lparr>v_ETag = ''e'', v_VersionID = []\<rparr>"]],
      simp_all add: demo_intent_def MaxStoreVersionTokenBytes_def)
qed

end
