(* ===== verification/Publication.thy ===== *)
theory Publication
  imports Publication_Journal Manifests
begin

section \<open>Signed publication and its recovery\<close>

text \<open>
  \<open>publication_recovery.go\<close>, and the part of \<open>publisher.go\<close> that validates ancestry and checkpoints.

  The publisher is the record of its constant fields; the two maps it changes and the world are the record
  \<open>pub\<close>, and \<open>plift\<close> is an operation of the world in it. Operations that do not use the maps are
  defined on the world alone. In signed mode the verifier and the journal are never nil, which
  \<open>NewPublisher\<close> ensures; a nil journal is rendered as a plain error. The address of the publisher
  stands for the pointer that \<open>Commit\<close> compares.

  The loops over commit ancestors recurse on the generation, and the recovery loop on the number of attempts.
\<close>

definition publicationRecoveryAttempts :: nat where "publicationRecoveryAttempts = 4"

datatype PublicationRecoveryOutcome = PublicationRecoveryNone | PublicationRecoveryApplied | PublicationRecoverySuperseded

record PublicationRecovery =
  pr_Outcome :: PublicationRecoveryOutcome
  pr_IntentID :: digest
  pr_Current :: Snapshot

definition zero_snapshot :: Snapshot where
  "zero_snapshot = \<lparr>ss_Generation = 0, ss_Commit = 0, ss_Root = 0, ss_PublishedAt = 0\<rparr>"

record ProtectedSourceFile =
  pp_Path :: bytes
  pp_AllowMissingInitially :: bool

record 'w Publisher =
  pb_address :: nat
  pb_repository :: "'w Repository"
  pb_chunking :: ChunkingOptions
  pb_stableReadTries :: int
  pb_symlinks :: SymlinkPolicy
  pb_protectedSourceFiles :: "ProtectedSourceFile list"
  pb_now :: "('w, int) state"
  pb_referenceSigner :: "'w ReferenceSigner option"
  pb_referenceVerifier :: "'w ReferenceVerifier option"
  pb_publicationJournal :: "'w PublicationJournalStore option"
  pb_trustedCheckpoint :: "Watermark option"
  pb_allowTrustOnFirstUse :: bool

record 'w pub =
  pb_world :: 'w
  pb_checkpointValidated :: "bytes \<Rightarrow> Watermark option"
  pb_protectedSourceSeen :: "bytes \<Rightarrow> bool"

record StagedSnapshot =
  st_publisher :: nat
  st_channel :: bytes
  st_expected :: "Version option"
  st_referenceData :: bytes
  st_publicationState :: "PublicationJournalState option"
  st_publicationRevision :: "PublicationJournalRevision option"
  st_publicationIntent :: "PublicationIntent option"
  st_unchanged :: bool
  st_snapshot :: Snapshot

type_synonym ('w, 'a) pm = "('w pub, 'a) state"

definition plift :: "('w, 'a) state \<Rightarrow> ('w, 'a) pm" where
  "plift m = State (\<lambda>s. case run_state m (pb_world s) of (a, w) \<Rightarrow> (a, s\<lparr>pb_world := w\<rparr>))"

definition validated :: "bytes \<Rightarrow> Watermark \<Rightarrow> ('w, unit) pm" where
  "validated channel watermark = State (\<lambda>s. ((), s\<lparr>pb_checkpointValidated := (pb_checkpointValidated s)(channel \<mapsto> watermark)\<rparr>))"

definition verifier_id :: "'w Publisher \<Rightarrow> repository_id" where
  "verifier_id publisher = (case pb_referenceVerifier publisher of None \<Rightarrow> 0 | Some v \<Rightarrow> rv_RepositoryID v)"

definition with_journal :: "'w Publisher \<Rightarrow> ('w PublicationJournalStore \<Rightarrow> ('w, err + 'a) state) \<Rightarrow> ('w, err + 'a) state" where
  "with_journal publisher f = (case pb_publicationJournal publisher of None \<Rightarrow> throw plain_error | Some js \<Rightarrow> f js)"

definition getCommit :: "'w Publisher \<Rightarrow> digest \<Rightarrow> ('w, err + commitManifest) state" where
  "getCommit publisher digest =
     getManifest (pb_repository publisher) commitManifest_to_json commitManifest_of_json ''commit'' digest"

subsection \<open>Ancestry and checkpoints\<close>

text \<open>The loop of \<open>validatePublicationDescendant\<close>.\<close>

function publication_ancestry ::
  "'w ctx \<Rightarrow> 'w Publisher \<Rightarrow> Watermark \<Rightarrow> u64 \<Rightarrow> digest option \<Rightarrow> ('w, err + digest option) state" where
  "publication_ancestry ctx publisher anchor generation parent =
     (if generation > wm_Generation anchor then do {
        c \<leftarrow> ctx;
        check c (case parent of None \<Rightarrow> throw [ErrSplitBrain]
          | Some p \<Rightarrow> if p = 0 then throw [ErrSplitBrain]
              else do {
                r \<leftarrow> getCommit publisher p;
                ok r (\<lambda>ancestor. check (validateCommitManifest ancestor generation)
                  (publication_ancestry ctx publisher anchor (generation - 1) (cm_Parent ancestor))) }) }
      else return (Inr parent))"
  by pat_completeness auto
termination
  by (relation "measure (\<lambda>(ctx, publisher, anchor, generation, parent). unat generation)") auto

declare publication_ancestry.simps [simp del]

definition validatePublicationDescendant ::
  "'w ctx \<Rightarrow> 'w Publisher \<Rightarrow> snapshotReference \<Rightarrow> commitManifest \<Rightarrow> Watermark \<Rightarrow> ('w, err option) state" where
  "validatePublicationDescendant ctx publisher reference commit anchor =
     (if sr_Generation reference \<le> wm_Generation anchor then return (Some [ErrSplitBrain])
      else if unat (sr_Generation reference - wm_Generation anchor) > maxCommitWalk then return (Some [ErrResourceLimit])
      else do {
        r \<leftarrow> publication_ancestry ctx publisher anchor (sr_Generation reference - 1) (cm_Parent commit);
        return (case r of Inl e \<Rightarrow> Some e
          | Inr parent \<Rightarrow> if parent \<noteq> Some (wm_Commit anchor) then Some [ErrSplitBrain] else None) })"

definition reference_of :: "Watermark \<Rightarrow> snapshotReference" where
  "reference_of w = \<lparr>sr_Format = objectFormatVersion, sr_Generation = wm_Generation w, sr_Commit = wm_Commit w\<rparr>"

text \<open>The end of \<open>validatePublicationCheckpoint\<close>: the watermark is ahead of the checkpoint.\<close>

definition publication_checkpoint_walk ::
  "'w ctx \<Rightarrow> 'w Publisher \<Rightarrow> bytes \<Rightarrow> Watermark \<Rightarrow> Watermark \<Rightarrow> ('w, err option) pm" where
  "publication_checkpoint_walk ctx publisher channel watermark anchor = do {
     r \<leftarrow> plift (getCommit publisher (wm_Commit watermark));
     case r of Inl e \<Rightarrow> return (Some e)
     | Inr commit \<Rightarrow> (case validateCommitManifest commit (wm_Generation watermark) of Some e \<Rightarrow> return (Some e)
       | None \<Rightarrow> errs (plift (validatePublicationDescendant ctx publisher (reference_of watermark) commit anchor))
           (do { _ \<leftarrow> validated channel watermark; return None })) }"

definition validatePublicationCheckpoint ::
  "'w ctx \<Rightarrow> 'w Publisher \<Rightarrow> bytes \<Rightarrow> Watermark \<Rightarrow> Watermark \<Rightarrow> ('w, err option) pm" where
  "validatePublicationCheckpoint ctx publisher channel watermark checkpoint = do {
     s \<leftarrow> State_Monad.get;
     let known = pb_checkpointValidated s channel;
         anchor = (case known of None \<Rightarrow> checkpoint | Some v \<Rightarrow> v) in
     if known \<noteq> None \<and> wm_Generation watermark < wm_Generation anchor then return (Some [ErrRollbackDetected])
     else if known \<noteq> None \<and> wm_Generation watermark = wm_Generation anchor \<and> wm_Commit watermark \<noteq> wm_Commit anchor
       then return (Some [ErrSplitBrain])
     else if known = Some watermark then return None
     else if wm_RepositoryID watermark \<noteq> wm_RepositoryID checkpoint then return (Some [ErrUntrustedReference])
     else if wm_Generation watermark < wm_Generation checkpoint then return (Some [ErrRollbackDetected])
     else if wm_Generation watermark = wm_Generation checkpoint then
       (if wm_Commit watermark \<noteq> wm_Commit checkpoint then return (Some [ErrSplitBrain])
        else do { _ \<leftarrow> validated channel watermark; return None })
     else publication_checkpoint_walk ctx publisher channel watermark anchor }"

subsection \<open>The journal of the publisher\<close>

definition validateLoadedPublicationJournal ::
  "'w ctx \<Rightarrow> 'w Publisher \<Rightarrow> bytes \<Rightarrow> PublicationJournalState \<Rightarrow> ('w, err option) pm" where
  "validateLoadedPublicationJournal ctx publisher channel state = (case validatePublicationJournalState state of
     Some e \<Rightarrow> return (Some e)
   | None \<Rightarrow>
       if ps_RepositoryID state \<noteq> verifier_id publisher \<or> ps_Channel state \<noteq> channel then return (Some [ErrUntrustedReference])
       else (case pb_trustedCheckpoint publisher of None \<Rightarrow> return None
         | Some checkpoint \<Rightarrow> (case ps_Committed state of
             None \<Rightarrow> return (Some [ErrRollbackDetected])
           | Some committed \<Rightarrow>
               if wm_Generation committed < wm_Generation checkpoint then return (Some [ErrRollbackDetected])
               else if wm_Generation committed = wm_Generation checkpoint \<and> wm_Commit committed \<noteq> wm_Commit checkpoint
                 then return (Some [ErrSplitBrain])
               else validatePublicationCheckpoint ctx publisher channel committed checkpoint)))"

definition loadPublicationJournal :: "'w ctx \<Rightarrow> 'w Publisher \<Rightarrow> bytes \<Rightarrow> ('w, err + journal_entry) pm" where
  "loadPublicationJournal ctx publisher channel = do {
     l \<leftarrow> plift (with_journal publisher (\<lambda>js. pj_Load js channel));
     ok l (\<lambda>found. case found of None \<Rightarrow> return (Inr None)
       | Some (state, revision) \<Rightarrow> if revision = 0 then throw [ErrCorruptObject]
           else do {
             e \<leftarrow> validateLoadedPublicationJournal ctx publisher channel state;
             check e (return (Inr (Some (state, revision)))) }) }"

definition compareAndSwapPublicationJournal ::
  "'w Publisher \<Rightarrow> bytes \<Rightarrow> PublicationJournalRevision option \<Rightarrow> PublicationJournalState
   \<Rightarrow> ('w, err + PublicationJournalRevision) state" where
  "compareAndSwapPublicationJournal publisher channel expected next = with_journal publisher (\<lambda>js. do {
     r \<leftarrow> pj_CompareAndSwap js channel expected next;
     ok r (\<lambda>revision. if revision = 0 then throw [ErrStoreIncompatible] else return (Inr revision)) })"

text \<open>When the first state of the journal could not be stored: what is durable instead.\<close>

definition reload_initialized ::
  "'w ctx \<Rightarrow> 'w Publisher \<Rightarrow> bytes \<Rightarrow> err \<Rightarrow> ('w, err + PublicationJournalState \<times> PublicationJournalRevision) pm" where
  "reload_initialized ctx publisher channel casErr =
     (if errors_Is casErr ErrStoreIncompatible then throw casErr
      else do {
        l \<leftarrow> loadPublicationJournal ctx publisher channel;
        case l of Inl e \<Rightarrow> throw (casErr @ e)
        | Inr None \<Rightarrow> throw casErr
        | Inr (Some loaded) \<Rightarrow> return (Inr loaded) })"

definition loadOrInitializePublicationJournal ::
  "'w ctx \<Rightarrow> 'w Publisher \<Rightarrow> bytes \<Rightarrow> ('w, err + PublicationJournalState \<times> PublicationJournalRevision) pm" where
  "loadOrInitializePublicationJournal ctx publisher channel = do {
     l \<leftarrow> loadPublicationJournal ctx publisher channel;
     ok l (\<lambda>found. let untrusted = (pb_trustedCheckpoint publisher = None \<and> \<not> pb_allowTrustOnFirstUse publisher) in
       case found of
         Some (state, revision) \<Rightarrow>
           if ps_Committed state = None \<and> ps_Pending state = None \<and> untrusted then throw [ErrTrustStateRequired]
           else return (Inr (state, revision))
       | None \<Rightarrow>
           if untrusted then throw [ErrTrustStateRequired]
           else let state = \<lparr>ps_RepositoryID = verifier_id publisher, ps_Channel = channel,
                  ps_Committed = pb_trustedCheckpoint publisher, ps_Pending = None\<rparr>
             in do {
               c \<leftarrow> plift (compareAndSwapPublicationJournal publisher channel None state);
               case c of
                 Inr revision \<Rightarrow> do {
                   _ \<leftarrow> (case pb_trustedCheckpoint publisher of None \<Rightarrow> return () | Some checkpoint \<Rightarrow> validated channel checkpoint);
                   return (Inr (state, revision)) }
               | Inl e \<Rightarrow> reload_initialized ctx publisher channel e }) }"

subsection \<open>Steps of the recovery\<close>

definition readPublicationCommit :: "'w Publisher \<Rightarrow> Watermark \<Rightarrow> ('w, err + commitManifest) state" where
  "readPublicationCommit publisher watermark = do {
     r \<leftarrow> getCommit publisher (wm_Commit watermark);
     ok r (\<lambda>commit. check (validateCommitManifest commit (wm_Generation watermark)) (return (Inr commit))) }"

definition snapshotFromPublicationCommit :: "Watermark \<Rightarrow> commitManifest \<Rightarrow> Snapshot" where
  "snapshotFromPublicationCommit watermark commit = \<lparr>ss_Generation = wm_Generation watermark, ss_Commit = wm_Commit watermark,
     ss_Root = cm_Root commit, ss_PublishedAt = cm_PublishedAtUnix commit\<rparr>"

definition snapshotForPublicationWatermark :: "'w Publisher \<Rightarrow> Watermark \<Rightarrow> ('w, err + Snapshot) state" where
  "snapshotForPublicationWatermark publisher watermark = do {
     r \<leftarrow> readPublicationCommit publisher watermark;
     ok r (\<lambda>commit. return (Inr (snapshotFromPublicationCommit watermark commit))) }"

definition publicationDescends :: "'w ctx \<Rightarrow> 'w Publisher \<Rightarrow> Watermark \<Rightarrow> commitManifest \<Rightarrow> Watermark \<Rightarrow> ('w, err + bool) state" where
  "publicationDescends ctx publisher candidate commit anchor = do {
     e \<leftarrow> validatePublicationDescendant ctx publisher (reference_of candidate) commit anchor;
     case e of None \<Rightarrow> return (Inr True)
     | Some e \<Rightarrow> if errors_Is e ErrSplitBrain then return (Inr False) else throw e }"

text \<open>The loop of \<open>validSupersedingPublication\<close> down to the first generation.\<close>

function superseding_history :: "'w Publisher \<Rightarrow> u64 \<Rightarrow> digest option \<Rightarrow> ('w, err + bool) state" where
  "superseding_history publisher generation parent =
     (if generation > 0 then
        (case parent of None \<Rightarrow> return (Inr False)
          | Some p \<Rightarrow> if p = 0 then return (Inr False)
              else do {
                r \<leftarrow> getCommit publisher p;
                ok r (\<lambda>ancestor. check (validateCommitManifest ancestor generation)
                  (superseding_history publisher (generation - 1) (cm_Parent ancestor))) })
      else return (Inr (parent = None)))"
  by pat_completeness auto
termination
  by (relation "measure (\<lambda>(publisher, generation, parent). unat generation)") auto

declare superseding_history.simps [simp del]

definition validSupersedingPublication ::
  "'w ctx \<Rightarrow> 'w Publisher \<Rightarrow> Watermark \<Rightarrow> commitManifest \<Rightarrow> Watermark option \<Rightarrow> ('w, err + bool) state" where
  "validSupersedingPublication ctx publisher candidate commit base = (case base of
     Some base \<Rightarrow> if wm_Generation candidate \<le> wm_Generation base then return (Inr False)
       else publicationDescends ctx publisher candidate commit base
   | None \<Rightarrow>
       if wm_Generation candidate = 1 then return (Inr (cm_Parent commit = None))
       else if unat (wm_Generation candidate) > maxCommitWalk then throw [ErrResourceLimit]
       else superseding_history publisher (wm_Generation candidate - 1) (cm_Parent commit))"

definition validatePendingPublication :: "'w Publisher \<Rightarrow> bytes \<Rightarrow> PublicationIntent \<Rightarrow> ('w, err + Snapshot) state" where
  "validatePendingPublication publisher channel intent = check (validatePublicationJournalIntent (verifier_id publisher) channel intent) (do {
     v \<leftarrow> verifySignedSnapshotReference (pi_Reference intent) channel (pb_referenceVerifier publisher);
     ok v (\<lambda>reference.
       if sr_Generation reference \<noteq> wm_Generation (pi_Next intent) \<or> sr_Commit reference \<noteq> wm_Commit (pi_Next intent)
       then throw [ErrCorruptObject]
       else do {
         r \<leftarrow> readPublicationCommit publisher (pi_Next intent);
         ok r (\<lambda>commit.
           if pi_Kind intent = PublicationIntentPublish
             \<and> (case pi_Base intent of None \<Rightarrow> cm_Parent commit \<noteq> None | Some base \<Rightarrow> cm_Parent commit \<noteq> Some (wm_Commit base))
           then throw [ErrSplitBrain]
           else return (Inr (snapshotFromPublicationCommit (pi_Next intent) commit))) }) })"

text \<open>The end of \<open>refreshPublicationObservation\<close>: the journal after a swap that reported an error.\<close>

definition reload_observation ::
  "'w ctx \<Rightarrow> 'w Publisher \<Rightarrow> bytes \<Rightarrow> PublicationJournalState \<Rightarrow> PublicationJournalState \<Rightarrow> err
   \<Rightarrow> ('w, err + PublicationJournalState \<times> PublicationJournalRevision) pm" where
  "reload_observation ctx publisher channel state desired casErr =
     (if errors_Is casErr ErrStoreIncompatible then throw casErr
      else do {
        l \<leftarrow> loadPublicationJournal ctx publisher channel;
        case l of Inl e \<Rightarrow> throw (casErr @ e)
        | Inr None \<Rightarrow> throw [ErrRollbackDetected]
        | Inr (Some (loaded, loadedRevision)) \<Rightarrow>
            if ps_Pending loaded = None \<or> \<not> equalPublicationIntentSemantics (ps_Pending state) (ps_Pending loaded)
            then throw [ErrPublishConflict]
            else if equalPublicationIntents (ps_Pending loaded) (ps_Pending desired) then return (Inr (loaded, loadedRevision))
            else throw [ErrPublishConflict] })"

definition refreshPublicationObservation ::
  "'w ctx \<Rightarrow> 'w Publisher \<Rightarrow> bytes \<Rightarrow> PublicationJournalState \<Rightarrow> PublicationJournalRevision \<Rightarrow> Object
   \<Rightarrow> ('w, err + PublicationJournalState \<times> PublicationJournalRevision) pm" where
  "refreshPublicationObservation ctx publisher channel state revision object = (case ps_Pending state of
     None \<Rightarrow> throw [ErrPrecondition]
   | Some pending \<Rightarrow>
       if pi_Base pending = None then throw [ErrPrecondition]
       else if v_ETag (ob_Version object) = [] then throw [ErrStoreIncompatible]
       else let desired = state\<lparr>ps_Pending := Some (pending\<lparr>pi_ExpectedVersion := Some (ob_Version object),
              pi_ExpectedReference := publicationReferenceDigest (ob_Data object)\<rparr>)\<rparr>
         in if equalPublicationIntents (ps_Pending state) (ps_Pending desired) then return (Inr (state, revision))
            else do {
              c \<leftarrow> plift (compareAndSwapPublicationJournal publisher channel (Some revision) desired);
              case c of Inr newRevision \<Rightarrow> return (Inr (desired, newRevision))
              | Inl e \<Rightarrow> reload_observation ctx publisher channel state desired e })"

definition reloadPublicationRecovery ::
  "'w ctx \<Rightarrow> 'w Publisher \<Rightarrow> bytes \<Rightarrow> PublicationIntent \<Rightarrow> ('w, err + PublicationJournalState \<times> PublicationJournalRevision) pm" where
  "reloadPublicationRecovery ctx publisher channel initial = do {
     l \<leftarrow> loadPublicationJournal ctx publisher channel;
     ok l (\<lambda>found. case found of
       None \<Rightarrow> throw [ErrRollbackDetected]
     | Some (state, revision) \<Rightarrow>
         if ps_Pending state \<noteq> None \<and> \<not> equalPublicationIntentSemantics (Some initial) (ps_Pending state)
         then throw [ErrPublishConflict] else return (Inr (state, revision))) }"

definition finalizePublication ::
  "'w ctx \<Rightarrow> 'w Publisher \<Rightarrow> PublicationJournalState \<Rightarrow> PublicationJournalRevision \<Rightarrow> Watermark \<Rightarrow> Snapshot
   \<Rightarrow> PublicationRecoveryOutcome \<Rightarrow> ('w, err + PublicationRecovery) pm" where
  "finalizePublication ctx publisher state revision committed snapshot outcome =
     (let intentID = (case ps_Pending state of None \<Rightarrow> 0 | Some p \<Rightarrow> pi_IntentID p);
          result = \<lparr>pr_Outcome = outcome, pr_IntentID = intentID, pr_Current = snapshot\<rparr>;
          desired = state\<lparr>ps_Committed := Some committed, ps_Pending := None\<rparr> in
      if ss_Generation snapshot \<noteq> wm_Generation committed \<or> ss_Commit snapshot \<noteq> wm_Commit committed \<or> ss_Root snapshot = 0
      then throw [ErrCorruptObject]
      else do {
        c \<leftarrow> plift (compareAndSwapPublicationJournal publisher (ps_Channel state) (Some revision) desired);
        case c of Inr _ \<Rightarrow> return (Inr result)
        | Inl casErr \<Rightarrow>
            if errors_Is casErr ErrStoreIncompatible then throw casErr
            else do {
              l \<leftarrow> loadPublicationJournal ctx publisher (ps_Channel state);
              case l of Inl e \<Rightarrow> throw (casErr @ e)
              | Inr None \<Rightarrow> throw (ErrPublishIndeterminate # casErr)
              | Inr (Some (loaded, _)) \<Rightarrow>
                  if ps_Pending loaded \<noteq> None \<or> \<not> equalWatermarkPointers (ps_Committed loaded) (ps_Committed desired)
                  then throw (ErrPublishIndeterminate # casErr) else return (Inr result) } })"

definition remote_watermark :: "'w Publisher \<Rightarrow> snapshotReference \<Rightarrow> Watermark" where
  "remote_watermark publisher reference = \<lparr>wm_RepositoryID = verifier_id publisher, wm_Generation = sr_Generation reference,
     wm_Commit = sr_Commit reference\<rparr>"

text \<open>What \<open>classifyResolvedResign\<close> concludes from the remote reference.\<close>

definition resign_outcome ::
  "'w ctx \<Rightarrow> 'w Publisher \<Rightarrow> PublicationIntent \<Rightarrow> snapshotReference \<Rightarrow> Object \<Rightarrow> commitManifest \<Rightarrow> ('w, err + PublicationRecovery) state" where
  "resign_outcome ctx publisher intent reference object remoteCommit =
     (let remote = remote_watermark publisher reference;
          result = (\<lambda>outcome. \<lparr>pr_Outcome = outcome, pr_IntentID = pi_IntentID intent,
            pr_Current = snapshotFromPublicationCommit remote remoteCommit\<rparr>) in
      if wm_Generation remote < wm_Generation (pi_Next intent) then throw [ErrRollbackDetected]
      else if wm_Generation remote = wm_Generation (pi_Next intent) \<and> wm_Commit remote \<noteq> wm_Commit (pi_Next intent)
        then throw [ErrSplitBrain]
      else if remote = pi_Next intent \<and> ob_Data object = pi_Reference intent then return (Inr (result PublicationRecoveryApplied))
      else if remote = pi_Next intent \<and> publicationReferenceDigest (ob_Data object) = pi_ExpectedReference intent
        then throw [ErrPublishIndeterminate]
      else if wm_Generation remote > wm_Generation (pi_Next intent) then do {
        e \<leftarrow> validatePublicationDescendant ctx publisher reference remoteCommit (pi_Next intent);
        check e (return (Inr (result PublicationRecoverySuperseded))) }
      else return (Inr (result PublicationRecoverySuperseded)))"

definition classifyResolvedResign ::
  "'w ctx \<Rightarrow> 'w Publisher \<Rightarrow> bytes \<Rightarrow> PublicationIntent \<Rightarrow> Watermark \<Rightarrow> ('w, err + PublicationRecovery) state" where
  "classifyResolvedResign ctx publisher channel intent committed = do {
     g \<leftarrow> getReferenceWithVerifier ctx (pb_repository publisher) channel [] (pb_referenceVerifier publisher);
     case g of Inl e \<Rightarrow> throw (ErrPublishIndeterminate # e)
     | Inr (reference, object) \<Rightarrow> let remote = remote_watermark publisher reference in do {
         r \<leftarrow> readPublicationCommit publisher remote;
         ok r (\<lambda>remoteCommit.
           if wm_Generation remote < wm_Generation committed then throw [ErrRollbackDetected]
           else if wm_Generation remote = wm_Generation committed \<and> wm_Commit remote \<noteq> wm_Commit committed then throw [ErrSplitBrain]
           else do {
             e \<leftarrow> (if wm_Generation remote > wm_Generation committed
                  then validatePublicationDescendant ctx publisher reference remoteCommit committed else return None);
             check e (resign_outcome ctx publisher intent reference object remoteCommit) }) } }"

definition classifyResolvedPublication ::
  "'w ctx \<Rightarrow> 'w Publisher \<Rightarrow> bytes \<Rightarrow> PublicationIntent \<Rightarrow> Watermark option \<Rightarrow> ('w, err + PublicationRecovery) state" where
  "classifyResolvedPublication ctx publisher channel intent committed = (case committed of
     None \<Rightarrow> throw [ErrRollbackDetected]
   | Some committed \<Rightarrow>
       if pi_Kind intent = PublicationIntentResign then classifyResolvedResign ctx publisher channel intent committed
       else do {
         r \<leftarrow> snapshotForPublicationWatermark publisher committed;
         ok r (\<lambda>snapshot. let result = (\<lambda>outcome. \<lparr>pr_Outcome = outcome, pr_IntentID = pi_IntentID intent, pr_Current = snapshot\<rparr>) in
           if committed = pi_Next intent then return (Inr (result PublicationRecoveryApplied))
           else if wm_Generation committed > wm_Generation (pi_Next intent) then do {
             c \<leftarrow> readPublicationCommit publisher committed;
             ok c (\<lambda>commit. do {
               a \<leftarrow> publicationDescends ctx publisher committed commit (pi_Next intent);
               ok a (\<lambda>applied. return (Inr (result (if applied then PublicationRecoveryApplied else PublicationRecoverySuperseded)))) }) }
           else return (Inr (result PublicationRecoverySuperseded))) })"

subsection \<open>Recovery\<close>

text \<open>
  One retry of the recorded update: the compare-and-swap of the reference, then the end of the publication or the
  journal as it is now, with which the loop goes on.
\<close>

definition retry_reference ::
  "'w ctx \<Rightarrow> 'w Publisher \<Rightarrow> bytes \<Rightarrow> PublicationIntent \<Rightarrow> Snapshot \<Rightarrow> Version option
   \<Rightarrow> PublicationJournalState \<Rightarrow> PublicationJournalRevision \<Rightarrow> PublicationIntent
   \<Rightarrow> (PublicationJournalState \<Rightarrow> PublicationJournalRevision \<Rightarrow> err \<Rightarrow> ('w, err + PublicationRecovery) pm)
   \<Rightarrow> ('w, err + PublicationRecovery) pm" where
  "retry_reference ctx publisher channel initial target expected state revision pending continue = do {
     c \<leftarrow> plift (compareAndSwap (pb_repository publisher) (SignedReferenceKey (pb_repository publisher) channel) expected (pi_Reference pending));
     case c of
       Inr _ \<Rightarrow> finalizePublication ctx publisher state revision (pi_Next pending) target PublicationRecoveryApplied
     | Inl lastErr \<Rightarrow> do {
         r \<leftarrow> reloadPublicationRecovery ctx publisher channel initial;
         ok r (\<lambda>(state, revision). continue state revision lastErr) } }"

text \<open>The same after the observation of the reference has been recorded.\<close>

definition refresh_and_retry ::
  "'w ctx \<Rightarrow> 'w Publisher \<Rightarrow> bytes \<Rightarrow> PublicationIntent \<Rightarrow> Snapshot \<Rightarrow> Object
   \<Rightarrow> PublicationJournalState \<Rightarrow> PublicationJournalRevision
   \<Rightarrow> (PublicationJournalState \<Rightarrow> PublicationJournalRevision \<Rightarrow> err \<Rightarrow> ('w, err + PublicationRecovery) pm)
   \<Rightarrow> ('w, err + PublicationRecovery) pm" where
  "refresh_and_retry ctx publisher channel initial target object state revision continue = do {
     r \<leftarrow> refreshPublicationObservation ctx publisher channel state revision object;
     ok r (\<lambda>(state, revision). case ps_Pending state of None \<Rightarrow> throw plain_error
       | Some pending \<Rightarrow> retry_reference ctx publisher channel initial target (Some (ob_Version object)) state revision pending continue) }"

text \<open>The end of an attempt: another authenticated branch may have won.\<close>

definition accept_winner ::
  "'w ctx \<Rightarrow> 'w Publisher \<Rightarrow> PublicationJournalState \<Rightarrow> PublicationJournalRevision \<Rightarrow> PublicationIntent
   \<Rightarrow> Watermark \<Rightarrow> commitManifest \<Rightarrow> ('w, err + PublicationRecovery) pm" where
  "accept_winner ctx publisher state revision pending remote remoteCommit = do {
     v \<leftarrow> plift (validSupersedingPublication ctx publisher remote remoteCommit (pi_Base pending));
     ok v (\<lambda>validWinner.
       if validWinner then finalizePublication ctx publisher state revision remote
         (snapshotFromPublicationCommit remote remoteCommit) PublicationRecoverySuperseded
       else throw [ErrSplitBrain]) }"

text \<open>The remote generation is past the one of the pending update.\<close>

definition accept_later ::
  "'w ctx \<Rightarrow> 'w Publisher \<Rightarrow> PublicationJournalState \<Rightarrow> PublicationJournalRevision \<Rightarrow> PublicationIntent
   \<Rightarrow> Watermark \<Rightarrow> commitManifest \<Rightarrow> ('w, err + PublicationRecovery) pm" where
  "accept_later ctx publisher state revision pending remote remoteCommit = do {
     d \<leftarrow> plift (publicationDescends ctx publisher remote remoteCommit (pi_Next pending));
     ok d (\<lambda>includesTarget. let finish = finalizePublication ctx publisher state revision remote (snapshotFromPublicationCommit remote remoteCommit) in
       if pi_Kind pending = PublicationIntentResign then
         (if \<not> includesTarget then throw [ErrSplitBrain] else finish PublicationRecoverySuperseded)
       else if includesTarget then finish PublicationRecoveryApplied
       else accept_winner ctx publisher state revision pending remote remoteCommit) }"

text \<open>What an attempt does with the reference it has read.\<close>

definition resolve_remote ::
  "'w ctx \<Rightarrow> 'w Publisher \<Rightarrow> bytes \<Rightarrow> PublicationIntent \<Rightarrow> Snapshot \<Rightarrow> PublicationJournalState \<Rightarrow> PublicationJournalRevision
   \<Rightarrow> PublicationIntent \<Rightarrow> snapshotReference \<Rightarrow> Object
   \<Rightarrow> (PublicationJournalState \<Rightarrow> PublicationJournalRevision \<Rightarrow> err \<Rightarrow> ('w, err + PublicationRecovery) pm)
   \<Rightarrow> ('w, err + PublicationRecovery) pm" where
  "resolve_remote ctx publisher channel initial target state revision pending reference object continue =
     (let remote = remote_watermark publisher reference in do {
       r \<leftarrow> plift (readPublicationCommit publisher remote);
       ok r (\<lambda>remoteCommit. let finish = finalizePublication ctx publisher state revision remote (snapshotFromPublicationCommit remote remoteCommit) in
         if (case ps_Committed state of None \<Rightarrow> False | Some committed \<Rightarrow> wm_Generation remote < wm_Generation committed)
           then throw [ErrRollbackDetected]
         else if (case ps_Committed state of None \<Rightarrow> False
             | Some committed \<Rightarrow> wm_Generation remote = wm_Generation committed \<and> wm_Commit remote \<noteq> wm_Commit committed)
           then throw [ErrSplitBrain]
         else if pi_Kind pending = PublicationIntentResign \<and> remote = pi_Next pending then
           (if ob_Data object = pi_Reference pending then finish PublicationRecoveryApplied
            else if publicationReferenceDigest (ob_Data object) \<noteq> pi_ExpectedReference pending then finish PublicationRecoverySuperseded
            else refresh_and_retry ctx publisher channel initial target object state revision continue)
         else if remote = pi_Next pending then finish PublicationRecoveryApplied
         else if wm_Generation remote > wm_Generation (pi_Next pending)
           then accept_later ctx publisher state revision pending remote remoteCommit
         else if pi_Base pending = Some remote
           then refresh_and_retry ctx publisher channel initial target object state revision continue
         else accept_winner ctx publisher state revision pending remote remoteCommit) })"

primrec recovery_attempts ::
  "'w ctx \<Rightarrow> 'w Publisher \<Rightarrow> bytes \<Rightarrow> PublicationIntent \<Rightarrow> Snapshot \<Rightarrow> nat \<Rightarrow> PublicationJournalState \<Rightarrow> PublicationJournalRevision
   \<Rightarrow> err \<Rightarrow> ('w, err + PublicationRecovery) pm" where
  "recovery_attempts ctx publisher channel initial target 0 state revision lastErr = throw (ErrPublishIndeterminate # lastErr)"
| "recovery_attempts ctx publisher channel initial target (Suc n) state revision lastErr = do {
     c \<leftarrow> plift ctx;
     case c of Some e \<Rightarrow> throw (ErrPublishIndeterminate # e)
     | None \<Rightarrow> (case ps_Pending state of
         None \<Rightarrow> plift (classifyResolvedPublication ctx publisher channel initial (ps_Committed state))
       | Some pending \<Rightarrow>
           if \<not> equalPublicationIntentSemantics (Some initial) (Some pending) then throw [ErrPublishConflict]
           else do {
             g \<leftarrow> plift (getReferenceWithVerifier ctx (pb_repository publisher) channel [] (pb_referenceVerifier publisher));
             let continue = recovery_attempts ctx publisher channel initial target n in
             case g of
               Inl getErr \<Rightarrow>
                 if errors_Is getErr ErrObjectNotFound then
                   (if pi_Base pending \<noteq> None then throw [ErrRollbackDetected]
                    else retry_reference ctx publisher channel initial target None state revision pending continue)
                 else throw (ErrPublishIndeterminate # getErr)
             | Inr (reference, object) \<Rightarrow>
                 resolve_remote ctx publisher channel initial target state revision pending reference object continue }) }"

definition recoverPublication ::
  "'w ctx \<Rightarrow> 'w Publisher \<Rightarrow> bytes \<Rightarrow> PublicationJournalState \<Rightarrow> PublicationJournalRevision \<Rightarrow> ('w, err + PublicationRecovery) pm" where
  "recoverPublication ctx publisher channel state revision = (case ps_Pending state of
     None \<Rightarrow> return (Inr \<lparr>pr_Outcome = PublicationRecoveryNone, pr_IntentID = 0, pr_Current = zero_snapshot\<rparr>)
   | Some initial \<Rightarrow> do {
       t \<leftarrow> plift (validatePendingPublication publisher channel initial);
       ok t (\<lambda>target. recovery_attempts ctx publisher channel initial target publicationRecoveryAttempts state revision plain_error) })"

definition preparePublicationJournal ::
  "'w ctx \<Rightarrow> 'w Publisher \<Rightarrow> bytes \<Rightarrow> ('w, err + PublicationJournalState \<times> PublicationJournalRevision) pm" where
  "preparePublicationJournal ctx publisher channel = do {
     l \<leftarrow> loadOrInitializePublicationJournal ctx publisher channel;
     ok l (\<lambda>(state, revision). if ps_Pending state = None then return (Inr (state, revision))
       else do {
         r \<leftarrow> recoverPublication ctx publisher channel state revision;
         ok r (\<lambda>_. do {
           l \<leftarrow> loadPublicationJournal ctx publisher channel;
           ok l (\<lambda>found. case found of None \<Rightarrow> throw [ErrPublishIndeterminate]
             | Some (state, revision) \<Rightarrow> if ps_Pending state \<noteq> None then throw [ErrPublishIndeterminate]
                 else return (Inr (state, revision))) }) }) }"

definition RecoverPublication :: "'w ctx \<Rightarrow> 'w Publisher \<Rightarrow> bytes \<Rightarrow> ('w, err + PublicationRecovery) pm" where
  "RecoverPublication ctx publisher channel =
     (if pb_referenceVerifier publisher = None \<or> pb_publicationJournal publisher = None then throw [ErrUntrustedReference]
      else check (repository_validateChannel (pb_repository publisher) channel) (do {
        l \<leftarrow> loadOrInitializePublicationJournal ctx publisher channel;
        ok l (\<lambda>(state, revision). case ps_Pending state of
          None \<Rightarrow> do {
            r \<leftarrow> (case ps_Committed state of None \<Rightarrow> return (Inr zero_snapshot)
                 | Some committed \<Rightarrow> plift (snapshotForPublicationWatermark publisher committed));
            ok r (\<lambda>current. return (Inr \<lparr>pr_Outcome = PublicationRecoveryNone, pr_IntentID = 0, pr_Current = current\<rparr>)) }
        | Some _ \<Rightarrow> recoverPublication ctx publisher channel state revision) }))"

subsection \<open>Adopting the remote reference and committing\<close>

definition acceptObservedPublication ::
  "'w ctx \<Rightarrow> 'w Publisher \<Rightarrow> bytes \<Rightarrow> PublicationJournalState \<Rightarrow> PublicationJournalRevision \<Rightarrow> snapshotReference \<Rightarrow> commitManifest
   \<Rightarrow> ('w, err + PublicationJournalState \<times> PublicationJournalRevision) pm" where
  "acceptObservedPublication ctx publisher channel state revision reference commit =
     (if ps_Pending state \<noteq> None then throw [ErrPublishIndeterminate]
      else let candidate = remote_watermark publisher reference;
               desired = state\<lparr>ps_Committed := Some candidate\<rparr> in
        if ps_Committed state = Some candidate then return (Inr (state, revision))
        else do {
          e \<leftarrow> (case ps_Committed state of None \<Rightarrow> return None
               | Some committed \<Rightarrow>
                   if wm_Generation candidate < wm_Generation committed then return (Some [ErrRollbackDetected])
                   else if wm_Generation candidate = wm_Generation committed \<and> wm_Commit candidate \<noteq> wm_Commit committed
                     then return (Some [ErrSplitBrain])
                   else plift (validatePublicationDescendant ctx publisher reference commit committed));
          check e (do {
            c \<leftarrow> plift (compareAndSwapPublicationJournal publisher channel (Some revision) desired);
            case c of Inr newRevision \<Rightarrow> return (Inr (desired, newRevision))
            | Inl casErr \<Rightarrow>
                if errors_Is casErr ErrStoreIncompatible then throw casErr
                else do {
                  l \<leftarrow> loadPublicationJournal ctx publisher channel;
                  case l of Inl e \<Rightarrow> throw (casErr @ e)
                  | Inr found \<Rightarrow>
                      (case found of
                         Some (loaded, loadedRevision) \<Rightarrow>
                           if ps_Pending loaded = None \<and> equalWatermarkPointers (ps_Committed loaded) (ps_Committed desired)
                           then return (Inr (loaded, loadedRevision))
                           else if errors_Is casErr ErrPrecondition then throw [ErrPublishConflict] else throw casErr
                       | None \<Rightarrow> if errors_Is casErr ErrPrecondition then throw [ErrPublishConflict] else throw casErr) } }) })"

text \<open>
  The loop of \<open>commitSignedPublication\<close> that records the intent. \<open>None\<close> means that it is recorded, \<open>Some\<close> that
  another process has already brought it to the remote.
\<close>

primrec begin_publication ::
  "'w ctx \<Rightarrow> 'w Publisher \<Rightarrow> StagedSnapshot \<Rightarrow> PublicationIntent \<Rightarrow> nat \<Rightarrow> PublicationJournalState \<Rightarrow> PublicationJournalRevision
   \<Rightarrow> ('w, err + Snapshot option) pm" where
  "begin_publication ctx publisher staged intent 0 state revision = throw [ErrPublishConflict]"
| "begin_publication ctx publisher staged intent (Suc n) state revision = do {
     c \<leftarrow> plift (compareAndSwapPublicationJournal publisher (st_channel staged) (Some revision) (state\<lparr>ps_Pending := Some intent\<rparr>));
     case c of Inr _ \<Rightarrow> return (Inr None)
     | Inl casErr \<Rightarrow>
         if errors_Is casErr ErrStoreIncompatible then throw casErr
         else do {
           l \<leftarrow> loadPublicationJournal ctx publisher (st_channel staged);
           case l of Inl e \<Rightarrow> throw (casErr @ e)
           | Inr None \<Rightarrow> throw [ErrRollbackDetected]
           | Inr (Some (loaded, loadedRevision)) \<Rightarrow>
               if ps_Pending loaded \<noteq> None then
                 (if \<not> equalPublicationIntents (ps_Pending loaded) (Some intent) then throw [ErrPublishConflict]
                  else return (Inr None))
               else if equalWatermarkPointers (ps_Committed loaded) (pi_Base intent)
                 then begin_publication ctx publisher staged intent n loaded loadedRevision
               else do {
                 r \<leftarrow> plift (classifyResolvedPublication ctx publisher (st_channel staged) intent (ps_Committed loaded));
                 ok r (\<lambda>resolved. if pr_Outcome resolved = PublicationRecoveryApplied then return (Inr (Some (st_snapshot staged)))
                   else throw [ErrPublishConflict]) } } }"

text \<open>The end of \<open>commitSignedPublication\<close>: the recovery found nothing pending any more.\<close>

definition commit_resolved ::
  "'w ctx \<Rightarrow> 'w Publisher \<Rightarrow> StagedSnapshot \<Rightarrow> PublicationIntent \<Rightarrow> ('w, err + Snapshot) pm" where
  "commit_resolved ctx publisher staged intent = do {
     l \<leftarrow> loadPublicationJournal ctx publisher (st_channel staged);
     ok l (\<lambda>found. case found of None \<Rightarrow> throw [ErrPublishConflict]
       | Some (loaded, _) \<Rightarrow> do {
           r \<leftarrow> plift (classifyResolvedPublication ctx publisher (st_channel staged) intent (ps_Committed loaded));
           ok r (\<lambda>resolved. if pr_Outcome resolved = PublicationRecoveryApplied then return (Inr (st_snapshot staged))
             else throw [ErrPublishConflict]) }) }"

definition commitSignedPublication :: "'w ctx \<Rightarrow> 'w Publisher \<Rightarrow> StagedSnapshot \<Rightarrow> ('w, err + Snapshot) pm" where
  "commitSignedPublication ctx publisher staged =
     (case (st_publicationState staged, st_publicationRevision staged, st_publicationIntent staged) of
        (Some state, Some revision, Some intent) \<Rightarrow>
          if ps_Pending state \<noteq> None \<or> \<not> equalWatermarkPointers (ps_Committed state) (pi_Base intent) then throw [ErrPublishConflict]
          else do {
            b \<leftarrow> begin_publication ctx publisher staged intent 2 state revision;
            ok b (\<lambda>resolved. case resolved of Some snapshot \<Rightarrow> return (Inr snapshot)
              | None \<Rightarrow> do {
                  r \<leftarrow> RecoverPublication ctx publisher (st_channel staged);
                  ok r (\<lambda>recovery.
                    if pr_Outcome recovery = PublicationRecoveryApplied \<and> pr_IntentID recovery = pi_IntentID intent
                    then return (Inr (st_snapshot staged))
                    else if pr_Outcome recovery = PublicationRecoveryNone then commit_resolved ctx publisher staged intent
                    else throw [ErrPublishConflict]) }) }
      | _ \<Rightarrow> throw [ErrCorruptObject])"

end
