(* ===== verification/Source_Tree.thy ===== *)
theory Source_Tree
  imports Publication Path_Selection Symlink
begin

section \<open>Scanning the source tree\<close>

text \<open>
  The part of \<open>publisher.go\<close> that reads a local tree and uploads its manifests and chunks, with
  \<open>chunking.go\<close>. The operating system and the content-defined chunker, a package of another
  repository, are the record \<open>SourceFS\<close>: one field per call of the source, and the source may be changed by
  others between any two calls. A handle is a number. \<open>os.SameFile\<close> compares the identity of two
  files. \<open>ReadDir\<close> of a positive count returns at least one entry or an error, as its documentation says, which the
  type \<open>ReadDirResult\<close> expresses. \<open>io.EOF\<close> of the chunker is \<open>None\<close>.

  The recursion over directories is on the number of components that are left below a directory, which starts
  at \<open>maxLookupDepth\<close>: the source refuses an entry below that depth before it descends.
\<close>

record FileInfo =
  fi_Mode :: "32 word"
  fi_Size :: int
  fi_ModTime :: int
  fi_identity :: nat

datatype ReadDirResult = Batch bytes "bytes list" | Last "bytes list" err

record 'w SourceFS =
  fs_Abs :: "bytes \<Rightarrow> ('w, err + bytes) state"
  os_Lstat :: "bytes \<Rightarrow> ('w, err + FileInfo) state"
  os_Open :: "bytes \<Rightarrow> ('w, err + nat) state"
  os_OpenRoot :: "bytes \<Rightarrow> ('w, err + nat) state"
  root_Open :: "nat \<Rightarrow> bytes \<Rightarrow> ('w, err + nat) state"
  root_Lstat :: "nat \<Rightarrow> bytes \<Rightarrow> ('w, err + FileInfo) state"
  root_Stat :: "nat \<Rightarrow> bytes \<Rightarrow> ('w, err + FileInfo) state"
  root_Readlink :: "nat \<Rightarrow> bytes \<Rightarrow> ('w, err + bytes) state"
  root_Close :: "nat \<Rightarrow> ('w, err option) state"
  file_Stat :: "nat \<Rightarrow> ('w, err + FileInfo) state"
  file_ReadDir :: "nat \<Rightarrow> nat \<Rightarrow> ('w, ReadDirResult) state"
  file_Close :: "nat \<Rightarrow> ('w, err option) state"
  chunker_New :: "nat \<Rightarrow> ChunkingOptions \<Rightarrow> ('w, nat) state"
  chunker_Next :: "nat \<Rightarrow> ('w, err + bytes option) state"
  chunker_deg :: "u64 \<Rightarrow> int"
  chunker_irreducible :: "u64 \<Rightarrow> bool"

subsection \<open>File modes\<close>

text \<open>The bits of \<open>fs.FileMode\<close>.\<close>

definition ModeDir :: "32 word" where "ModeDir = 0x80000000"
definition ModeSymlink :: "32 word" where "ModeSymlink = 0x08000000"
definition ModeType :: "32 word" where "ModeType = 0x8F280000"

definition IsDir :: "FileInfo \<Rightarrow> bool" where "IsDir info = (fi_Mode info AND ModeDir \<noteq> 0)"
definition IsRegular :: "FileInfo \<Rightarrow> bool" where "IsRegular info = (fi_Mode info AND ModeType = 0)"
definition is_symlink :: "FileInfo \<Rightarrow> bool" where "is_symlink info = (fi_Mode info AND ModeSymlink \<noteq> 0)"
definition Perm :: "FileInfo \<Rightarrow> 32 word" where "Perm info = fi_Mode info AND 0x1FF"

definition SameFile :: "FileInfo \<Rightarrow> FileInfo \<Rightarrow> bool" where
  "SameFile a b = (fi_identity a = fi_identity b)"

definition stableFileInfo :: "FileInfo \<Rightarrow> FileInfo \<Rightarrow> bool" where
  "stableFileInfo before after \<longleftrightarrow> SameFile before after \<and> fi_Size before = fi_Size after
     \<and> fi_ModTime before = fi_ModTime after \<and> fi_Mode before = fi_Mode after"

subsection \<open>Files\<close>

text \<open>\<open>walkChunks\<close> with the visitor of \<open>buildFile\<close>.\<close>

function file_chunks ::
  "'w ctx \<Rightarrow> 'w SourceFS \<Rightarrow> 'w Publisher \<Rightarrow> nat \<Rightarrow> chunkRef list \<Rightarrow> int \<Rightarrow> ('w, err + chunkRef list \<times> int) state" where
  "file_chunks ctx fs publisher splitter refs offset = do {
     c \<leftarrow> ctx;
     check c (do {
       n \<leftarrow> chunker_Next fs splitter;
       ok n (\<lambda>chunk. case chunk of None \<Rightarrow> return (Inr (refs, offset))
         | Some data \<Rightarrow>
             if length refs \<ge> maxFileChunks then throw [ErrResourceLimit]
             else do {
               p \<leftarrow> putImmutable (pb_repository publisher) ''chunk'' data;
               ok p (\<lambda>digest. if digest \<noteq> digestObject ''chunk'' data then throw [ErrCorruptObject]
                 else file_chunks ctx fs publisher splitter
                   (refs @ [\<lparr>cr_Offset = offset, cr_Size = len data, cr_Digest = digest\<rparr>]) (wrap64 (offset + len data))) }) }) }"
  by pat_completeness auto
termination
  by (relation "measure (\<lambda>(ctx, fs, publisher, splitter, refs, offset). maxFileChunks - length refs)") auto

declare file_chunks.simps [simp del]

definition walkChunks ::
  "'w ctx \<Rightarrow> 'w SourceFS \<Rightarrow> 'w Publisher \<Rightarrow> nat \<Rightarrow> ('w, err + chunkRef list \<times> int) state" where
  "walkChunks ctx fs publisher handle =
     ok (ChunkingOptions_normalized (chunker_deg fs) (chunker_irreducible fs) (pb_chunking publisher)) (\<lambda>options. do {
       splitter \<leftarrow> chunker_New fs handle options;
       file_chunks ctx fs publisher splitter [] 0 })"

definition file_manifest :: "'w Publisher \<Rightarrow> chunkRef list \<Rightarrow> int \<Rightarrow> fileManifest" where
  "file_manifest publisher refs offset = (let chunking = pb_chunking publisher in
     \<lparr>fm_Format = objectFormatVersion, fm_Algorithm = ''rabin-v1'', fm_MinSize = co_MinSize chunking,
      fm_AvgSize = co_AverageSize chunking, fm_MaxSize = co_MaxSize chunking, fm_Polynomial = co_Polynomial chunking,
      fm_Size = offset, fm_Chunks = Some refs\<rparr>)"

definition close_throw :: "'w SourceFS \<Rightarrow> nat \<Rightarrow> err \<Rightarrow> ('w, err + 'a) state" where
  "close_throw fs handle e = do { _ \<leftarrow> file_Close fs handle; throw e }"

text \<open>An attempt of \<open>buildFile\<close> after the file has been opened and its identity checked; \<open>None\<close> means that the file changed.\<close>

definition read_file ::
  "'w ctx \<Rightarrow> 'w SourceFS \<Rightarrow> 'w Publisher \<Rightarrow> nat \<Rightarrow> bytes \<Rightarrow> nat \<Rightarrow> FileInfo \<Rightarrow> ('w, err + (digest \<times> int \<times> FileInfo) option) state" where
  "read_file ctx fs publisher sourceRoot path handle before = do {
     k \<leftarrow> walkChunks ctx fs publisher handle;
     a \<leftarrow> file_Stat fs handle;
     cl \<leftarrow> file_Close fs handle;
     ok k (\<lambda>(refs, offset). ok a (\<lambda>after. check cl (do {
       cur \<leftarrow> root_Stat fs sourceRoot path;
       if (case cur of Inl _ \<Rightarrow> False
           | Inr current \<Rightarrow> SameFile after current \<and> stableFileInfo before after \<and> fi_Size after = offset) then do {
         d \<leftarrow> putManifest (pb_repository publisher) fileManifest_to_json ''file'' (file_manifest publisher refs offset);
         ok d (\<lambda>digest. return (Inr (Some (digest, offset, after)))) }
       else (case cur of Inl e \<Rightarrow> if \<not> errors_Is e ErrNotExist then throw e else return (Inr None)
             | Inr _ \<Rightarrow> return (Inr None)) }))) }"

primrec build_file_attempts ::
  "'w ctx \<Rightarrow> 'w SourceFS \<Rightarrow> 'w Publisher \<Rightarrow> nat \<Rightarrow> bytes \<Rightarrow> FileInfo \<Rightarrow> (nat \<times> FileInfo) list \<Rightarrow> nat
   \<Rightarrow> ('w, err + digest \<times> int \<times> FileInfo) state" where
  "build_file_attempts ctx fs publisher sourceRoot path expected protected 0 = throw [ErrUnstableFile]"
| "build_file_attempts ctx fs publisher sourceRoot path expected protected (Suc n) = do {
     f \<leftarrow> root_Open fs sourceRoot path;
     case f of Inl e \<Rightarrow> throw (if errors_Is e ErrNotExist then ErrUnstableFile # e else e)
     | Inr handle \<Rightarrow> do {
         s \<leftarrow> file_Stat fs handle;
         case s of Inl e \<Rightarrow> close_throw fs handle e
         | Inr before \<Rightarrow>
             if \<not> IsRegular before \<or> \<not> SameFile expected before then close_throw fs handle [ErrUnstableFile]
             else if list_ex (\<lambda>(_, info). SameFile before info) protected then close_throw fs handle [ErrProtectedSourceFile]
             else if fi_Size before > int maxFileChunks * co_MaxSize (pb_chunking publisher) then close_throw fs handle [ErrResourceLimit]
             else do {
               r \<leftarrow> read_file ctx fs publisher sourceRoot path handle before;
               ok r (\<lambda>result. case result of Some x \<Rightarrow> return (Inr x)
                 | None \<Rightarrow> build_file_attempts ctx fs publisher sourceRoot path expected protected n) } } }"

definition buildFile ::
  "'w ctx \<Rightarrow> 'w SourceFS \<Rightarrow> 'w Publisher \<Rightarrow> nat \<Rightarrow> bytes \<Rightarrow> FileInfo \<Rightarrow> (nat \<times> FileInfo) list
   \<Rightarrow> ('w, err + digest \<times> int \<times> FileInfo) state" where
  "buildFile ctx fs publisher sourceRoot path expected protected =
     build_file_attempts ctx fs publisher sourceRoot path expected protected (nat (pb_stableReadTries publisher))"

subsection \<open>Symbolic links\<close>

definition buildSymlink :: "'w SourceFS \<Rightarrow> 'w Publisher \<Rightarrow> nat \<Rightarrow> bytes \<Rightarrow> FileInfo \<Rightarrow> ('w, err + digest \<times> int) state" where
  "buildSymlink fs publisher sourceRoot linkPath expected = do {
     b \<leftarrow> root_Lstat fs sourceRoot linkPath;
     case b of Inl _ \<Rightarrow> throw [ErrUnstableFile]
     | Inr before \<Rightarrow>
         if \<not> SameFile expected before \<or> \<not> stableFileInfo expected before \<or> \<not> is_symlink before then throw [ErrUnstableFile]
         else do {
           t \<leftarrow> root_Readlink fs sourceRoot linkPath;
           ok t (\<lambda>target. do {
             a \<leftarrow> root_Lstat fs sourceRoot linkPath;
             case a of Inl _ \<Rightarrow> throw [ErrUnstableFile]
             | Inr after \<Rightarrow>
                 if \<not> SameFile before after \<or> \<not> stableFileInfo before after then throw [ErrUnstableFile]
                 else if target = [] \<or> length target > maxSymlinkTargetBytes then throw [ErrResourceLimit]
                 else check (if pb_symlinks publisher = SymlinkRejectExternal then validateSafeSymlink linkPath target else None) (do {
                   d \<leftarrow> putManifest (pb_repository publisher) symlinkManifest_to_json ''symlink''
                     \<lparr>sm_Format = objectFormatVersion, sm_Target = Some target\<rparr>;
                   ok d (\<lambda>digest. return (Inr (digest, len target))) }) }) } }"

subsection \<open>Directories\<close>

function read_names :: "'w ctx \<Rightarrow> 'w SourceFS \<Rightarrow> nat \<Rightarrow> bytes list \<Rightarrow> ('w, err + bytes list) state" where
  "read_names ctx fs handle names = do {
     c \<leftarrow> ctx;
     check c (do {
       b \<leftarrow> file_ReadDir fs handle 1024;
       case b of
         Batch n ns \<Rightarrow>
           if length (names @ n # ns) > maxDirectoryEntries then throw [ErrResourceLimit]
           else read_names ctx fs handle (names @ n # ns)
       | Last ns e \<Rightarrow>
           if length (names @ ns) > maxDirectoryEntries then throw [ErrResourceLimit]
           else if errors_Is e ErrEOF then return (Inr (names @ ns)) else throw e }) }"
  by pat_completeness auto
termination
  by (relation "measure (\<lambda>(ctx, fs, handle, names). maxDirectoryEntries - length names)") auto

declare read_names.simps [simp del]

text \<open>The listing of a directory, from the opened handle until it is closed; the deferred close runs on every error.\<close>

definition list_directory :: "'w ctx \<Rightarrow> 'w SourceFS \<Rightarrow> nat \<Rightarrow> FileInfo \<Rightarrow> ('w, err + FileInfo \<times> bytes list) state" where
  "list_directory ctx fs handle expected = do {
     r \<leftarrow> (do {
       s \<leftarrow> file_Stat fs handle;
       ok s (\<lambda>before.
         if \<not> IsDir before \<or> \<not> SameFile expected before \<or> \<not> stableFileInfo expected before then throw [ErrUnstableFile]
         else do {
           n \<leftarrow> read_names ctx fs handle [];
           ok n (\<lambda>names. do {
             c \<leftarrow> ctx;
             check c (do {
               cl \<leftarrow> file_Close fs handle;
               check cl (return (Inr (before, names))) }) }) }) });
     case r of Inl e \<Rightarrow> close_throw fs handle e | Inr x \<Rightarrow> return (Inr x) }"

definition UnixNano :: "FileInfo \<Rightarrow> int" where
  "UnixNano info = wrap64 (fi_ModTime info)"

text \<open>
  The entry of one name. \<open>build_child\<close> builds the directory below; a nested selection means that the
  directory is published as an ancestor only.
\<close>

definition build_item ::
  "(bytes \<Rightarrow> FileInfo \<Rightarrow> pathSelection option \<Rightarrow> ('w, err + digest) state)
   \<Rightarrow> 'w ctx \<Rightarrow> 'w SourceFS \<Rightarrow> 'w Publisher \<Rightarrow> nat \<Rightarrow> (nat \<times> FileInfo) list \<Rightarrow> pathSelection option \<Rightarrow> bytes \<Rightarrow> bytes \<Rightarrow> FileInfo
   \<Rightarrow> ('w, err + dirEntry) state" where
  "build_item build_child ctx fs publisher sourceRoot protected childSelection name childPath info =
     (let item = \<lparr>de_Name = Some name, de_Type = [], de_Node = 0, de_Mode = Perm info, de_Size = fi_Size info,
            de_ModTimeUnixNano = UnixNano info\<rparr> in
      if IsRegular info then do {
        r \<leftarrow> buildFile ctx fs publisher sourceRoot childPath info protected;
        ok r (\<lambda>(node, fileSize, stableInfo). return (Inr (item\<lparr>de_Type := EntryFile, de_Node := node, de_Size := fileSize,
          de_Mode := Perm stableInfo, de_ModTimeUnixNano := UnixNano stableInfo\<rparr>))) }
      else if IsDir info then
        (let nested = (case childSelection of Some c \<Rightarrow> if includeAll c then None else Some c | None \<Rightarrow> None) in do {
          r \<leftarrow> build_child childPath info nested;
          ok r (\<lambda>node. return (Inr (item\<lparr>de_Type := EntryDir, de_Node := node, de_Size := 0,
            de_ModTimeUnixNano := (if nested = None then UnixNano info else 0)\<rparr>))) })
      else if is_symlink info then do {
        r \<leftarrow> buildSymlink fs publisher sourceRoot childPath info;
        ok r (\<lambda>(node, targetSize). return (Inr (item\<lparr>de_Type := EntrySymlink, de_Node := node, de_Size := targetSize\<rparr>))) }
      else throw [ErrUnsupportedType])"

definition build_entry ::
  "(bytes \<Rightarrow> FileInfo \<Rightarrow> pathSelection option \<Rightarrow> ('w, err + digest) state)
   \<Rightarrow> 'w ctx \<Rightarrow> 'w SourceFS \<Rightarrow> 'w Publisher \<Rightarrow> nat \<Rightarrow> (nat \<times> FileInfo) list \<Rightarrow> bytes \<Rightarrow> nat \<Rightarrow> pathSelection option \<Rightarrow> bytes
   \<Rightarrow> ('w, err + dirEntry) state" where
  "build_entry build_child ctx fs publisher sourceRoot protected directory depth childSelection name =
     (let childPath = path_Join2 directory name in
      if name = [] \<or> length name > maxEntryNameBytes then throw [ErrResourceLimit]
      else if depth \<ge> maxLookupDepth then throw [ErrResourceLimit]
      else if length childPath > maxLookupPathBytes then throw [ErrResourceLimit]
      else do {
        l \<leftarrow> root_Lstat fs sourceRoot childPath;
        ok l (\<lambda>info. if (case childSelection of Some c \<Rightarrow> \<not> includeAll c | None \<Rightarrow> False) \<and> \<not> IsDir info then throw [ErrNotDirectory]
          else build_item build_child ctx fs publisher sourceRoot protected childSelection name childPath info) })"

primrec build_entries ::
  "(bytes \<Rightarrow> FileInfo \<Rightarrow> pathSelection option \<Rightarrow> ('w, err + digest) state)
   \<Rightarrow> 'w ctx \<Rightarrow> 'w SourceFS \<Rightarrow> 'w Publisher \<Rightarrow> nat \<Rightarrow> (nat \<times> FileInfo) list \<Rightarrow> bytes \<Rightarrow> nat \<Rightarrow> pathSelection option
   \<Rightarrow> bytes list \<Rightarrow> dirEntry list \<Rightarrow> bytes list \<Rightarrow> ('w, err + dirEntry list \<times> bytes list) state" where
  "build_entries build_child ctx fs publisher sourceRoot protected directory depth selection [] items matched =
     return (Inr (items, matched))"
| "build_entries build_child ctx fs publisher sourceRoot protected directory depth selection (name # names) items matched = do {
     c \<leftarrow> ctx;
     check c (let childSelection = (case selection of None \<Rightarrow> None | Some t \<Rightarrow> map_of (children t) name) in
       if selection \<noteq> None \<and> childSelection = None
       then build_entries build_child ctx fs publisher sourceRoot protected directory depth selection names items matched
       else do {
         r \<leftarrow> build_entry build_child ctx fs publisher sourceRoot protected directory depth childSelection name;
         ok r (\<lambda>item. build_entries build_child ctx fs publisher sourceRoot protected directory depth selection names
           (items @ [item]) (if selection = None then matched else List.insert name matched)) }) }"

text \<open>Whether the directory is still the one that was listed.\<close>

definition directory_unchanged :: "'w SourceFS \<Rightarrow> nat \<Rightarrow> bytes \<Rightarrow> FileInfo \<Rightarrow> ('w, bool) state" where
  "directory_unchanged fs sourceRoot directory before = do {
     o' \<leftarrow> root_Open fs sourceRoot directory;
     case o' of Inl _ \<Rightarrow> return False
     | Inr handle \<Rightarrow> do {
         a \<leftarrow> file_Stat fs handle;
         cl \<leftarrow> file_Close fs handle;
         cur \<leftarrow> root_Lstat fs sourceRoot directory;
         return (case (a, cl, cur) of
             (Inr after, None, Inr current) \<Rightarrow> SameFile before after \<and> SameFile after current
               \<and> stableFileInfo before after \<and> stableFileInfo after current
           | _ \<Rightarrow> False) } }"

definition build_directory_with ::
  "(bytes \<Rightarrow> FileInfo \<Rightarrow> pathSelection option \<Rightarrow> ('w, err + digest) state)
   \<Rightarrow> 'w ctx \<Rightarrow> 'w SourceFS \<Rightarrow> 'w Publisher \<Rightarrow> nat \<Rightarrow> (nat \<times> FileInfo) list \<Rightarrow> nat \<Rightarrow> bytes \<Rightarrow> FileInfo \<Rightarrow> pathSelection option
   \<Rightarrow> ('w, err + digest) state" where
  "build_directory_with build_child ctx fs publisher sourceRoot protected depth directory expected selection = do {
     c \<leftarrow> ctx;
     check c (if depth > maxLookupDepth \<or> length directory > maxLookupPathBytes then throw [ErrResourceLimit]
       else do {
         h \<leftarrow> root_Open fs sourceRoot directory;
         ok h (\<lambda>handle. do {
           l \<leftarrow> list_directory ctx fs handle expected;
           ok l (\<lambda>(before, names). do {
             b \<leftarrow> build_entries build_child ctx fs publisher sourceRoot protected directory depth selection names [] [];
             ok b (\<lambda>(items, matched). do {
               c \<leftarrow> ctx;
               check c (do {
                 unchanged \<leftarrow> directory_unchanged fs sourceRoot directory before;
                 if \<not> unchanged then throw [ErrUnstableFile]
                 else if (case selection of None \<Rightarrow> False | Some t \<Rightarrow> length matched \<noteq> length (children t)) then throw [ErrPathNotFound]
                 else putManifest (pb_repository publisher) dirManifest_to_json ''dir''
                   \<lparr>dm_Format = objectFormatVersion, dm_Entries = Some (sort_key entry_name items)\<rparr> }) }) }) }) }) }"

primrec build_directory ::
  "'w ctx \<Rightarrow> 'w SourceFS \<Rightarrow> 'w Publisher \<Rightarrow> nat \<Rightarrow> (nat \<times> FileInfo) list \<Rightarrow> nat
   \<Rightarrow> bytes \<Rightarrow> FileInfo \<Rightarrow> pathSelection option \<Rightarrow> ('w, err + digest) state" where
  "build_directory ctx fs publisher sourceRoot protected 0 =
     build_directory_with (\<lambda>_ _ _. throw [ErrResourceLimit]) ctx fs publisher sourceRoot protected maxLookupDepth"
| "build_directory ctx fs publisher sourceRoot protected (Suc room) =
     build_directory_with (build_directory ctx fs publisher sourceRoot protected room) ctx fs publisher sourceRoot protected
       (maxLookupDepth - Suc room)"

definition buildDirectorySelection ::
  "'w ctx \<Rightarrow> 'w SourceFS \<Rightarrow> 'w Publisher \<Rightarrow> nat \<Rightarrow> bytes \<Rightarrow> FileInfo \<Rightarrow> nat \<Rightarrow> pathSelection option \<Rightarrow> (nat \<times> FileInfo) list
   \<Rightarrow> ('w, err + digest) state" where
  "buildDirectorySelection ctx fs publisher sourceRoot directory expected depth selection protected =
     build_directory ctx fs publisher sourceRoot protected (maxLookupDepth - depth) directory expected selection"

end
