(* ===== verification/Publisher.thy ===== *)
theory Publisher
  imports Source_Tree Repo_Descriptor
begin

section \<open>The publisher\<close>

text \<open>
  \<open>publisher.go\<close>: construction, protected source files, staging, committing and re-signing. A nil
  context or repository and typed nil interfaces have no counterpart; \<open>clock\<close> is \<open>time.Now\<close>, in
  nanoseconds. \<open>filepath.Clean\<close> is \<open>path.Clean\<close>, as on a Unix system.

  \<open>stage\<close> is one function in the source. Here it is cut at the points where it has read the current reference
  (\<open>stage_base\<close>) and where the tree is built (\<open>stage_commit\<close>); the deferred closes are written out.
\<close>

definition maxProtectedSourceFiles :: nat where "maxProtectedSourceFiles = 64"
definition maxProtectedSourcePathBytes :: nat where "maxProtectedSourcePathBytes = 64 * 2 ^ 10"
definition maxProtectedSourceTotalBytes :: nat where "maxProtectedSourceTotalBytes = 2 ^ 20"

record 'w PublisherOptions =
  po_Chunking :: ChunkingOptions
  po_StableReadTries :: int
  po_Symlinks :: SymlinkPolicy
  po_ProtectedSourceFiles :: "ProtectedSourceFile list"
  po_DangerouslyAllowUncommissionedRepository :: bool
  po_ReferenceSigner :: "'w ReferenceSigner option"
  po_ReferenceVerifier :: "'w ReferenceVerifier option"
  po_PublicationJournal :: "'w PublicationJournalStore option"
  po_TrustedCheckpoint :: "Watermark option"
  po_AllowTrustOnFirstUse :: bool
  po_Now :: "('w, int) state option"

subsection \<open>Protected source files\<close>

primrec normalize_protected ::
  "'w SourceFS \<Rightarrow> ProtectedSourceFile list \<Rightarrow> nat \<Rightarrow> ProtectedSourceFile list \<Rightarrow> ('w, err + ProtectedSourceFile list) state" where
  "normalize_protected fs [] totalBytes result = return (Inr result)"
| "normalize_protected fs (value # values) totalBytes result =
     (if pp_Path value = [] \<or> CHR 0x00 \<in> set (pp_Path value) \<or> length (pp_Path value) > maxProtectedSourcePathBytes
      then throw [ErrInvalidPath]
      else do {
        a \<leftarrow> fs_Abs fs (pp_Path value);
        case a of Inl _ \<Rightarrow> throw [ErrInvalidPath]
        | Inr absolute \<Rightarrow> let absolute = path_Clean absolute; totalBytes = totalBytes + length absolute in
            if length absolute > maxProtectedSourcePathBytes then throw [ErrResourceLimit]
            else if totalBytes > maxProtectedSourceTotalBytes then throw [ErrResourceLimit]
            else if absolute \<in> pp_Path ` set result then throw [ErrInvalidPath]
            else normalize_protected fs values totalBytes
              (result @ [\<lparr>pp_Path = absolute, pp_AllowMissingInitially = pp_AllowMissingInitially value\<rparr>]) })"

definition normalizeProtectedSourceFiles ::
  "'w SourceFS \<Rightarrow> ProtectedSourceFile list \<Rightarrow> ('w, err + ProtectedSourceFile list) state" where
  "normalizeProtectedSourceFiles fs values =
     (if length values > maxProtectedSourceFiles then throw [ErrResourceLimit] else normalize_protected fs values 0 [])"

primrec initiallyObservedProtectedSourceFiles ::
  "'w SourceFS \<Rightarrow> ProtectedSourceFile list \<Rightarrow> (bytes \<Rightarrow> bool) \<Rightarrow> ('w, err + (bytes \<Rightarrow> bool)) state" where
  "initiallyObservedProtectedSourceFiles fs [] seen = return (Inr seen)"
| "initiallyObservedProtectedSourceFiles fs (value # values) seen =
     (if \<not> pp_AllowMissingInitially value then initiallyObservedProtectedSourceFiles fs values seen
      else do {
        l \<leftarrow> os_Lstat fs (pp_Path value);
        case l of
          Inr _ \<Rightarrow> initiallyObservedProtectedSourceFiles fs values (seen(pp_Path value := True))
        | Inl e \<Rightarrow> if errors_Is e ErrNotExist then initiallyObservedProtectedSourceFiles fs values seen
            else throw [ErrProtectedSourceFile] })"

primrec closeProtectedSourceFiles :: "'w SourceFS \<Rightarrow> (nat \<times> FileInfo) list \<Rightarrow> ('w, unit) state" where
  "closeProtectedSourceFiles fs [] = return ()"
| "closeProtectedSourceFiles fs (identity # identities) = do {
     _ \<leftarrow> file_Close fs (fst identity);
     closeProtectedSourceFiles fs identities }"

definition observed :: "bytes \<Rightarrow> ('w, unit) pm" where
  "observed path = State (\<lambda>s. ((), s\<lparr>pb_protectedSourceSeen := (pb_protectedSourceSeen s)(path := True)\<rparr>))"

text \<open>Opening one protected file that has been seen; \<open>None\<close> is an alias of an identity that is pinned already.\<close>

definition pin_protected ::
  "'w SourceFS \<Rightarrow> bytes \<Rightarrow> FileInfo \<Rightarrow> (nat \<times> FileInfo) list \<Rightarrow> ('w, err + (nat \<times> FileInfo) option) state" where
  "pin_protected fs path linked identities =
     (if is_symlink linked \<or> \<not> IsRegular linked then throw [ErrProtectedSourceFile]
      else do {
        h \<leftarrow> os_Open fs path;
        case h of Inl _ \<Rightarrow> throw [ErrProtectedSourceFile]
        | Inr handle \<Rightarrow> do {
            s \<leftarrow> file_Stat fs handle;
            c \<leftarrow> os_Lstat fs path;
            case (s, c) of
              (Inr opened, Inr current) \<Rightarrow>
                if \<not> IsRegular opened \<or> is_symlink current \<or> \<not> IsRegular current \<or> \<not> SameFile linked opened \<or> \<not> SameFile opened current
                then close_throw fs handle [ErrProtectedSourceFile, ErrUnstableFile]
                else if list_ex (\<lambda>(_, info). SameFile opened info) identities then do {
                  _ \<leftarrow> file_Close fs handle;
                  return (Inr None) }
                else return (Inr (Some (handle, opened)))
            | _ \<Rightarrow> close_throw fs handle [ErrProtectedSourceFile, ErrUnstableFile] } })"

primrec capture_protected ::
  "'w ctx \<Rightarrow> 'w SourceFS \<Rightarrow> ProtectedSourceFile list \<Rightarrow> (nat \<times> FileInfo) list \<Rightarrow> ('w, err + (nat \<times> FileInfo) list) pm" where
  "capture_protected ctx fs [] identities = return (Inr identities)"
| "capture_protected ctx fs (protected # rest) identities =
     (let fail = (\<lambda>e. do { _ \<leftarrow> plift (closeProtectedSourceFiles fs identities); throw e }) in do {
       c \<leftarrow> plift ctx;
       case c of Some e \<Rightarrow> fail e
       | None \<Rightarrow> do {
           l \<leftarrow> plift (os_Lstat fs (pp_Path protected));
           case l of
             Inl e \<Rightarrow>
               if errors_Is e ErrNotExist then do {
                 s \<leftarrow> State_Monad.get;
                 if pp_AllowMissingInitially protected \<and> \<not> pb_protectedSourceSeen s (pp_Path protected)
                 then capture_protected ctx fs rest identities
                 else fail [ErrProtectedSourceFile] }
               else fail [ErrProtectedSourceFile]
           | Inr linked \<Rightarrow> do {
               _ \<leftarrow> observed (pp_Path protected);
               p \<leftarrow> plift (pin_protected fs (pp_Path protected) linked identities);
               case p of Inl e \<Rightarrow> fail e
               | Inr None \<Rightarrow> capture_protected ctx fs rest identities
               | Inr (Some identity) \<Rightarrow> capture_protected ctx fs rest (identities @ [identity]) } } })"

definition captureProtectedSourceFiles :: "'w ctx \<Rightarrow> 'w SourceFS \<Rightarrow> 'w Publisher \<Rightarrow> ('w, err + (nat \<times> FileInfo) list) pm" where
  "captureProtectedSourceFiles ctx fs publisher = capture_protected ctx fs (pb_protectedSourceFiles publisher) []"

subsection \<open>Construction\<close>

definition publisher_chunking :: "'w SourceFS \<Rightarrow> 'w Repository \<Rightarrow> 'w PublisherOptions \<Rightarrow> err + ChunkingOptions" where
  "publisher_chunking fs repository options = (case rp_descriptor repository of
     Some descriptor \<Rightarrow>
       if po_Chunking options = \<lparr>co_MinSize = 0, co_AverageSize = 0, co_MaxSize = 0, co_Polynomial = 0\<rparr>
       then Inr (descriptor_ChunkingOptions descriptor)
       else okr (ChunkingOptions_normalized (chunker_deg fs) (chunker_irreducible fs) (po_Chunking options)) (\<lambda>normalized.
         if normalized \<noteq> descriptor_ChunkingOptions descriptor then Inl [ErrRepositoryConfigurationMismatch] else Inr normalized)
   | None \<Rightarrow> ChunkingOptions_normalized (chunker_deg fs) (chunker_irreducible fs) (po_Chunking options))"

definition publisher_trust :: "'w Repository \<Rightarrow> 'w PublisherOptions \<Rightarrow> err option" where
  "publisher_trust repository options = (case (po_ReferenceSigner options, po_ReferenceVerifier options) of
     (Some signer, Some verifier) \<Rightarrow>
       if sg_RepositoryID signer = 0 \<or> sg_RepositoryID signer \<noteq> rv_RepositoryID verifier then Some [ErrUntrustedReference]
       else if (case rp_descriptor repository of None \<Rightarrow> False | Some d \<Rightarrow> sg_RepositoryID signer \<noteq> rd_RepositoryID d)
         then Some [ErrUntrustedReference]
       else if po_PublicationJournal options = None then Some [ErrTrustStateRequired]
       else (case po_TrustedCheckpoint options of None \<Rightarrow> None
         | Some checkpoint \<Rightarrow>
             if wm_RepositoryID checkpoint \<noteq> rv_RepositoryID verifier \<or> wm_Generation checkpoint = 0 \<or> wm_Commit checkpoint = 0
             then Some [ErrUntrustedReference] else None)
   | (None, None) \<Rightarrow>
       if po_PublicationJournal options \<noteq> None \<or> po_TrustedCheckpoint options \<noteq> None \<or> po_AllowTrustOnFirstUse options
       then Some plain_error else None
   | _ \<Rightarrow> Some plain_error)"

text \<open>The new publisher and the protected files that have been seen.\<close>

definition NewPublisher ::
  "nat \<Rightarrow> ('w, int) state \<Rightarrow> 'w SourceFS \<Rightarrow> 'w Repository \<Rightarrow> 'w PublisherOptions \<Rightarrow> ('w, err + 'w Publisher \<times> (bytes \<Rightarrow> bool)) state" where
  "NewPublisher address clock fs repository options =
     (if rp_store repository = None then throw [ErrRepositoryReadOnly]
      else if rp_descriptor repository = None \<and> \<not> po_DangerouslyAllowUncommissionedRepository options
        then throw [ErrRepositoryNotInitialized]
      else ok (publisher_chunking fs repository options) (\<lambda>chunking.
        let tries = (if po_StableReadTries options = 0 then 3 else po_StableReadTries options) in
        if tries < 1 \<or> tries > 100 then throw plain_error
        else check (publisher_trust repository options) (do {
          p \<leftarrow> normalizeProtectedSourceFiles fs (po_ProtectedSourceFiles options);
          ok p (\<lambda>protected. do {
            s \<leftarrow> initiallyObservedProtectedSourceFiles fs protected (\<lambda>_. False);
            ok s (\<lambda>seen. return (Inr (\<lparr>pb_address = address, pb_repository = repository, pb_chunking = chunking,
              pb_stableReadTries = tries, pb_symlinks = po_Symlinks options, pb_protectedSourceFiles = protected,
              pb_now = (case po_Now options of None \<Rightarrow> clock | Some now \<Rightarrow> now),
              pb_referenceSigner = po_ReferenceSigner options, pb_referenceVerifier = po_ReferenceVerifier options,
              pb_publicationJournal = po_PublicationJournal options, pb_trustedCheckpoint = po_TrustedCheckpoint options,
              pb_allowTrustOnFirstUse = po_AllowTrustOnFirstUse options\<rparr>, seen))) }) })))"

definition new_pub :: "'w \<Rightarrow> (bytes \<Rightarrow> bool) \<Rightarrow> 'w pub" where
  "new_pub w seen = \<lparr>pb_world = w, pb_checkpointValidated = Map.empty, pb_protectedSourceSeen = seen\<rparr>"

subsection \<open>Staging\<close>

text \<open>What a new snapshot is based on: the current reference and its commit, and the journal in signed mode.\<close>

record stage_base =
  sb_current :: "(snapshotReference \<times> commitManifest \<times> Object) option"
  sb_journal :: "(PublicationJournalState \<times> PublicationJournalRevision) option"

definition read_base :: "'w ctx \<Rightarrow> 'w Publisher \<Rightarrow> bytes \<Rightarrow> ('w, err + stage_base) pm" where
  "read_base ctx publisher channel = do {
     j \<leftarrow> (case pb_referenceVerifier publisher of None \<Rightarrow> return (Inr None)
          | Some _ \<Rightarrow> do {
              p \<leftarrow> preparePublicationJournal ctx publisher channel;
              ok p (\<lambda>journal. return (Inr (Some journal))) });
     ok j (\<lambda>journal. do {
       g \<leftarrow> plift (getReferenceWithVerifier ctx (pb_repository publisher) channel [] (pb_referenceVerifier publisher));
       case g of
         Inl e \<Rightarrow>
           if \<not> errors_Is e ErrObjectNotFound then throw e
           else if (case journal of None \<Rightarrow> False | Some (state, _) \<Rightarrow> ps_Committed state \<noteq> None) then throw [ErrRollbackDetected]
           else return (Inr \<lparr>sb_current = None, sb_journal = journal\<rparr>)
       | Inr (current, object) \<Rightarrow> do {
           m \<leftarrow> plift (getCommit publisher (sr_Commit current));
           ok m (\<lambda>commit. check (validateCommitManifest commit (sr_Generation current)) (do {
             a \<leftarrow> (case journal of None \<Rightarrow> return (Inr None)
                  | Some (state, revision) \<Rightarrow> do {
                      p \<leftarrow> acceptObservedPublication ctx publisher channel state revision current commit;
                      ok p (\<lambda>journal. return (Inr (Some journal))) });
             ok a (\<lambda>journal. if sr_Generation current = - 1 then throw [ErrGenerationExhausted]
               else return (Inr \<lparr>sb_current = Some (current, commit, object), sb_journal = journal\<rparr>)) })) } }) }"

text \<open>The intent of a new publication.\<close>

definition publication_intent ::
  "'w Publisher \<Rightarrow> bytes \<Rightarrow> bytes \<Rightarrow> Watermark option \<Rightarrow> Watermark \<Rightarrow> Object option \<Rightarrow> bytes \<Rightarrow> PublicationIntent" where
  "publication_intent publisher channel kind base next object referenceData =
     \<lparr>pi_IntentID = publicationIntentID (verifier_id publisher) channel kind base next referenceData, pi_Kind = kind,
      pi_Base = base, pi_Next = next, pi_ExpectedVersion = map_option ob_Version object,
      pi_ExpectedReference = (case object of None \<Rightarrow> 0 | Some ob \<Rightarrow> publicationReferenceDigest (ob_Data ob)),
      pi_Reference = referenceData\<rparr>"

text \<open>The end of \<open>stage\<close>: the commit of a tree that has been uploaded, and its reference.\<close>

definition stage_new ::
  "'w Publisher \<Rightarrow> bytes \<Rightarrow> stage_base \<Rightarrow> digest \<Rightarrow> StagedSnapshot \<Rightarrow> ('w, err + StagedSnapshot) state" where
  "stage_new publisher channel base rootDigest staged =
     (let object = map_option (\<lambda>(_, _, ob). ob) (sb_current base);
          generation = (case sb_current base of None \<Rightarrow> 1 | Some (current, _) \<Rightarrow> sr_Generation current + 1);
          parent = (case sb_current base of None \<Rightarrow> None | Some (current, _) \<Rightarrow> Some (sr_Commit current)) in do {
       publishedAt \<leftarrow> pb_now publisher;
       p \<leftarrow> putManifest (pb_repository publisher) commitManifest_to_json ''commit'' \<lparr>cm_Format = objectFormatVersion,
         cm_Generation = generation, cm_Parent = parent, cm_Root = rootDigest, cm_PublishedAtUnix = wrap64 publishedAt, cm_ResetChanges = True\<rparr>;
       ok p (\<lambda>commitDigest.
         let reference = \<lparr>sr_Format = objectFormatVersion, sr_Generation = generation, sr_Commit = commitDigest\<rparr> in do {
         d \<leftarrow> (case pb_referenceSigner publisher of
               None \<Rightarrow> return (Inr (canonicalJSON snapshotReference_to_json reference))
             | Some _ \<Rightarrow> signSnapshotReference channel reference (pb_referenceSigner publisher) (pb_referenceVerifier publisher));
         ok d (\<lambda>referenceData.
           if len referenceData > maxReferenceBytes then throw [ErrResourceLimit]
           else let snapshot = \<lparr>ss_Generation = generation, ss_Commit = commitDigest, ss_Root = rootDigest, ss_PublishedAt = publishedAt\<rparr>;
                    staged = staged\<lparr>st_referenceData := referenceData, st_snapshot := snapshot\<rparr> in
             if pb_referenceVerifier publisher = None then return (Inr staged)
             else let intent = publication_intent publisher channel PublicationIntentPublish
                        (case sb_journal base of None \<Rightarrow> None | Some (state, _) \<Rightarrow> ps_Committed state)
                        (remote_watermark publisher reference) object referenceData in
               check (validatePublicationJournalIntent (verifier_id publisher) channel intent)
                 (return (Inr (staged\<lparr>st_publicationIntent := Some intent\<rparr>)))) }) })"

definition stage_commit :: "'w Publisher \<Rightarrow> bytes \<Rightarrow> stage_base \<Rightarrow> digest \<Rightarrow> ('w, err + StagedSnapshot) state" where
  "stage_commit publisher channel base rootDigest =
     (let staged = \<lparr>st_publisher = pb_address publisher, st_channel = channel,
            st_expected = map_option (\<lambda>(_, _, ob). ob_Version ob) (sb_current base),
            st_referenceData = [], st_publicationState = map_option fst (sb_journal base),
            st_publicationRevision = map_option snd (sb_journal base), st_publicationIntent = None, st_unchanged = False,
            st_snapshot = zero_snapshot\<rparr> in
      case sb_current base of
        Some (current, previous, _) \<Rightarrow>
          if cm_Root previous = rootDigest then return (Inr (staged\<lparr>st_unchanged := True,
            st_snapshot := \<lparr>ss_Generation = sr_Generation current, ss_Commit = sr_Commit current, ss_Root = cm_Root previous,
              ss_PublishedAt = cm_PublishedAtUnix previous\<rparr>\<rparr>))
          else stage_new publisher channel base rootDigest staged
      | None \<Rightarrow> stage_new publisher channel base rootDigest staged)"

text \<open>The scan: the protected files stay open until the snapshot is staged.\<close>

definition stage_scan ::
  "'w ctx \<Rightarrow> 'w SourceFS \<Rightarrow> 'w Publisher \<Rightarrow> bytes \<Rightarrow> bytes \<Rightarrow> nat \<Rightarrow> FileInfo \<Rightarrow> pathSelection option \<Rightarrow> stage_base
   \<Rightarrow> ('w, err + StagedSnapshot) pm" where
  "stage_scan ctx fs publisher source channel sourceRoot info selection base = do {
     p \<leftarrow> captureProtectedSourceFiles ctx fs publisher;
     ok p (\<lambda>protected. do {
       r \<leftarrow> plift (do {
         b \<leftarrow> buildDirectorySelection ctx fs publisher sourceRoot ''.'' info 0 selection protected;
         ok b (\<lambda>rootDigest. do {
           l \<leftarrow> os_Lstat fs source;
           if (case l of Inl _ \<Rightarrow> False
               | Inr current \<Rightarrow> IsDir current \<and> SameFile info current \<and> stableFileInfo info current)
           then stage_commit publisher channel base rootDigest
           else throw [ErrUnstableFile] }) });
       _ \<leftarrow> plift (closeProtectedSourceFiles fs protected);
       return r }) }"

text \<open>Whether the opened root is the directory that was named.\<close>

definition root_identity :: "'w SourceFS \<Rightarrow> nat \<Rightarrow> FileInfo \<Rightarrow> ('w, err option) state" where
  "root_identity fs sourceRoot info = do {
     h \<leftarrow> root_Open fs sourceRoot ''.'';
     case h of Inl e \<Rightarrow> return (Some e)
     | Inr handle \<Rightarrow> do {
         s \<leftarrow> file_Stat fs handle;
         cl \<leftarrow> file_Close fs handle;
         return (case (s, cl) of
             (Inr rootInfo, None) \<Rightarrow> if IsDir rootInfo \<and> SameFile info rootInfo then None else Some [ErrUnstableFile]
           | _ \<Rightarrow> Some [ErrUnstableFile]) } }"

definition stage ::
  "'w ctx \<Rightarrow> 'w SourceFS \<Rightarrow> 'w Publisher \<Rightarrow> bytes \<Rightarrow> bytes \<Rightarrow> pathSelection option \<Rightarrow> ('w, err + StagedSnapshot) pm" where
  "stage ctx fs publisher source channel selection = do {
     c \<leftarrow> plift ctx;
     check c (check (repository_validateChannel (pb_repository publisher) channel) (do {
       a \<leftarrow> plift (fs_Abs fs source);
       ok a (\<lambda>source. do {
         c \<leftarrow> plift ctx;
         check c (do {
           l \<leftarrow> plift (os_Lstat fs source);
           ok l (\<lambda>info. if \<not> IsDir info then throw [ErrNotDirectory]
             else do {
               c \<leftarrow> plift ctx;
               check c (do {
                 o' \<leftarrow> plift (os_OpenRoot fs source);
                 ok o' (\<lambda>sourceRoot. do {
                   r \<leftarrow> (do {
                     i \<leftarrow> plift (root_identity fs sourceRoot info);
                     check i (do {
                       b \<leftarrow> read_base ctx publisher channel;
                       ok b (\<lambda>base. stage_scan ctx fs publisher source channel sourceRoot info selection base) }) });
                   _ \<leftarrow> plift (root_Close fs sourceRoot);
                   return r }) }) }) }) }) })) }"

definition Stage :: "'w ctx \<Rightarrow> 'w SourceFS \<Rightarrow> 'w Publisher \<Rightarrow> bytes \<Rightarrow> bytes \<Rightarrow> ('w, err + StagedSnapshot) pm" where
  "Stage ctx fs publisher source channel = stage ctx fs publisher source channel None"

definition StageSelected ::
  "'w ctx \<Rightarrow> 'w SourceFS \<Rightarrow> 'w Publisher \<Rightarrow> bytes \<Rightarrow> bytes \<Rightarrow> bytes list \<Rightarrow> ('w, err + StagedSnapshot) pm" where
  "StageSelected ctx fs publisher source channel paths = do {
     s \<leftarrow> plift (newPathSelectionContext ctx paths);
     ok s (\<lambda>selection. stage ctx fs publisher source channel selection) }"

subsection \<open>Committing\<close>

datatype commitOutcome = commitUnknown | commitApplied | commitRejected

definition referenceKey :: "'w Publisher \<Rightarrow> bytes \<Rightarrow> bytes" where
  "referenceKey publisher channel =
     (if pb_referenceVerifier publisher \<noteq> None then SignedReferenceKey (pb_repository publisher) channel
      else ReferenceKey (pb_repository publisher) channel)"

text \<open>The loop of \<open>reconcileCommit\<close> down to the generation of the staged snapshot.\<close>

function commit_walk :: "'w ctx \<Rightarrow> 'w Publisher \<Rightarrow> u64 \<Rightarrow> u64 \<Rightarrow> digest \<Rightarrow> ('w, err + digest) state" where
  "commit_walk ctx publisher target generation digest =
     (if generation > target then do {
        c \<leftarrow> ctx;
        check c (do {
          m \<leftarrow> getCommit publisher digest;
          ok m (\<lambda>commit. check (validateCommitManifest commit generation)
            (case cm_Parent commit of None \<Rightarrow> throw plain_error
             | Some parent \<Rightarrow> commit_walk ctx publisher target (generation - 1) parent)) }) }
      else return (Inr digest))"
  by pat_completeness auto
termination
  by (relation "measure (\<lambda>(ctx, publisher, target, generation, digest). unat generation)") auto

declare commit_walk.simps [simp del]

text \<open>The outcome and the error, which only comes with \<open>commitUnknown\<close>.\<close>

definition reconcileCommit :: "'w ctx \<Rightarrow> 'w Publisher \<Rightarrow> StagedSnapshot \<Rightarrow> ('w, commitOutcome \<times> err option) state" where
  "reconcileCommit ctx publisher staged = do {
     g \<leftarrow> getReferenceWithVerifier ctx (pb_repository publisher) (st_channel staged) [] (pb_referenceVerifier publisher);
     case g of Inl e \<Rightarrow> return (commitUnknown, Some e)
     | Inr (reference, _) \<Rightarrow> let target = ss_Generation (st_snapshot staged) in
         if sr_Generation reference < target then return (commitUnknown, None)
         else if unat (sr_Generation reference - target) > maxCommitWalk then return (commitUnknown, Some [ErrResourceLimit])
         else do {
           w \<leftarrow> commit_walk ctx publisher target (sr_Generation reference) (sr_Commit reference);
           return (case w of Inl e \<Rightarrow> (commitUnknown, Some e)
             | Inr digest \<Rightarrow> (if digest = ss_Commit (st_snapshot staged) then commitApplied else commitRejected, None)) } }"

definition indeterminatePublishError :: "err \<Rightarrow> err option \<Rightarrow> err" where
  "indeterminatePublishError casErr reconcileErr = (case reconcileErr of
     Some e \<Rightarrow> ErrPublishIndeterminate # casErr @ e | None \<Rightarrow> ErrPublishIndeterminate # casErr)"

definition finishCommitted :: "StagedSnapshot \<Rightarrow> ('w, err + Snapshot) state" where
  "finishCommitted staged = return (Inr (st_snapshot staged))"

text \<open>A commit of a tree that has not changed: the reference must still be the one that was read.\<close>

definition commit_unchanged :: "'w ctx \<Rightarrow> 'w Publisher \<Rightarrow> StagedSnapshot \<Rightarrow> ('w, err + Snapshot) state" where
  "commit_unchanged ctx publisher staged = (case st_expected staged of None \<Rightarrow> throw plain_error
   | Some version \<Rightarrow> do {
       g \<leftarrow> getReferenceWithVerifier ctx (pb_repository publisher) (st_channel staged) (v_ETag version) (pb_referenceVerifier publisher);
       case g of
         Inl e \<Rightarrow> if errors_Is e ErrNotModified then return (Inr (st_snapshot staged))
           else if errors_Is e ErrObjectNotFound then throw [ErrPublishConflict] else throw e
       | Inr (reference, _) \<Rightarrow>
           if sr_Generation reference = ss_Generation (st_snapshot staged) \<and> sr_Commit reference = ss_Commit (st_snapshot staged)
           then return (Inr (st_snapshot staged)) else throw [ErrPublishConflict] })"

definition commit_unsigned :: "'w ctx \<Rightarrow> 'w Publisher \<Rightarrow> StagedSnapshot \<Rightarrow> ('w, err + Snapshot) state" where
  "commit_unsigned ctx publisher staged = do {
     c \<leftarrow> compareAndSwap (pb_repository publisher) (referenceKey publisher (st_channel staged)) (st_expected staged) (st_referenceData staged);
     case c of Inr _ \<Rightarrow> finishCommitted staged
     | Inl casErr \<Rightarrow> do {
         (outcome, reconcileErr) \<leftarrow> reconcileCommit ctx publisher staged;
         case outcome of commitApplied \<Rightarrow> finishCommitted staged
         | commitRejected \<Rightarrow> throw [ErrPublishConflict]
         | commitUnknown \<Rightarrow> throw (indeterminatePublishError casErr reconcileErr) } }"

definition Commit :: "'w ctx \<Rightarrow> 'w Publisher \<Rightarrow> StagedSnapshot \<Rightarrow> ('w, err + Snapshot) pm" where
  "Commit ctx publisher staged =
     (if st_publisher staged \<noteq> pb_address publisher \<or> st_channel staged = [] then throw plain_error
      else if st_unchanged staged then plift (commit_unchanged ctx publisher staged)
      else if st_publicationIntent staged \<noteq> None then commitSignedPublication ctx publisher staged
      else plift (commit_unsigned ctx publisher staged))"

definition Publish :: "'w ctx \<Rightarrow> 'w SourceFS \<Rightarrow> 'w Publisher \<Rightarrow> bytes \<Rightarrow> bytes \<Rightarrow> ('w, err + Snapshot) pm" where
  "Publish ctx fs publisher source channel = do {
     s \<leftarrow> Stage ctx fs publisher source channel;
     ok s (\<lambda>staged. Commit ctx publisher staged) }"

definition PublishSelected ::
  "'w ctx \<Rightarrow> 'w SourceFS \<Rightarrow> 'w Publisher \<Rightarrow> bytes \<Rightarrow> bytes \<Rightarrow> bytes list \<Rightarrow> ('w, err + Snapshot) pm" where
  "PublishSelected ctx fs publisher source channel paths = do {
     s \<leftarrow> StageSelected ctx fs publisher source channel paths;
     ok s (\<lambda>staged. Commit ctx publisher staged) }"

subsection \<open>Signing again\<close>

text \<open>The end of \<open>ResignReference\<close>: the new envelope of the current snapshot.\<close>

definition resign_current ::
  "'w ctx \<Rightarrow> 'w Publisher \<Rightarrow> bytes \<Rightarrow> PublicationJournalState \<Rightarrow> PublicationJournalRevision \<Rightarrow> snapshotReference \<Rightarrow> Object \<Rightarrow> commitManifest
   \<Rightarrow> ('w, err + Snapshot) pm" where
  "resign_current ctx publisher channel state revision reference object commit = do {
     d \<leftarrow> plift (signSnapshotReference channel reference (pb_referenceSigner publisher) (pb_referenceVerifier publisher));
     ok d (\<lambda>referenceData.
       let watermark = remote_watermark publisher reference; snapshot = snapshotFromPublicationCommit watermark commit in
       if len referenceData > maxReferenceBytes then throw [ErrResourceLimit]
       else if ob_Data object = referenceData then return (Inr snapshot)
       else if v_ETag (ob_Version object) = [] then throw [ErrStoreIncompatible]
       else commitSignedPublication ctx publisher \<lparr>st_publisher = pb_address publisher, st_channel = channel,
         st_expected = Some (ob_Version object), st_referenceData = referenceData, st_publicationState = Some state,
         st_publicationRevision = Some revision,
         st_publicationIntent = Some (publication_intent publisher channel PublicationIntentResign (Some watermark) watermark (Some object) referenceData),
         st_unchanged = False, st_snapshot = snapshot\<rparr>) }"

definition ResignReference :: "'w ctx \<Rightarrow> 'w Publisher \<Rightarrow> bytes \<Rightarrow> ('w, err + Snapshot) pm" where
  "ResignReference ctx publisher channel =
     (if pb_referenceSigner publisher = None \<or> pb_referenceVerifier publisher = None then throw [ErrUntrustedReference]
      else check (repository_validateChannel (pb_repository publisher) channel) (do {
        p \<leftarrow> preparePublicationJournal ctx publisher channel;
        ok p (\<lambda>(state, revision). do {
          g \<leftarrow> plift (getReferenceWithVerifier ctx (pb_repository publisher) channel [] (pb_referenceVerifier publisher));
          case g of Inl e \<Rightarrow> throw (if ps_Committed state \<noteq> None \<and> errors_Is e ErrObjectNotFound then [ErrRollbackDetected] else e)
          | Inr (reference, object) \<Rightarrow> do {
              m \<leftarrow> plift (getCommit publisher (sr_Commit reference));
              ok m (\<lambda>commit. check (validateCommitManifest commit (sr_Generation reference)) (do {
                a \<leftarrow> acceptObservedPublication ctx publisher channel state revision reference commit;
                ok a (\<lambda>(state, revision). resign_current ctx publisher channel state revision reference object commit) })) } }) }))"

end
