(* ===== verification/Write_Ahead.thy ===== *)
theory Write_Ahead
  imports Publisher
begin

section \<open>Signed references are recorded before they are exposed\<close>

text \<open>
  Every environment of the publisher is observed through a log: \<open>Recorded\<close> when the journal reports that it
  holds a pending reference, \<open>Exposed\<close> when the publisher asks the store to swap a reference. The store and the
  journal may fail, lie and interleave with others in any way; the log only notes what the publisher was told and
  what it asked for. The theorem is that in signed mode the bytes of every request were recorded before.
\<close>

datatype event = Recorded bytes | Exposed bytes bytes

fun write_ahead :: "bytes set \<Rightarrow> bytes set \<Rightarrow> event list \<Rightarrow> bool" where
  "write_ahead keys recorded [] = True"
| "write_ahead keys recorded (Recorded reference # log) = write_ahead keys (insert reference recorded) log"
| "write_ahead keys recorded (Exposed key reference # log) =
     ((key \<in> keys \<longrightarrow> reference \<in> recorded) \<and> write_ahead keys recorded log)"

definition recorded_in :: "event list \<Rightarrow> bytes set" where
  "recorded_in log = {reference. Recorded reference \<in> set log}"

lemma recorded_in_append [simp]: "recorded_in (xs @ ys) = recorded_in xs \<union> recorded_in ys"
  by (auto simp: recorded_in_def)

lemma recorded_in_simps [simp]: "recorded_in [] = {}" "recorded_in (Recorded b # l) = insert b (recorded_in l)"
  "recorded_in (Exposed k b # l) = recorded_in l"
  by (auto simp: recorded_in_def)

lemma write_ahead_append:
  "write_ahead keys recorded (xs @ ys) \<longleftrightarrow> write_ahead keys recorded xs \<and> write_ahead keys (recorded \<union> recorded_in xs) ys"
  by (induction keys recorded xs rule: write_ahead.induct) simp_all

lemma write_ahead_recorded: "write_ahead keys recorded (map Recorded bs)"
  by (induction bs arbitrary: recorded) auto

subsection \<open>Programs that stay within a preorder on states\<close>

definition within :: "('s \<Rightarrow> 's \<Rightarrow> bool) \<Rightarrow> ('s, 'a) state \<Rightarrow> bool" where
  "within R m \<longleftrightarrow> (\<forall>s. wp m (\<lambda>_. R s) s)"

lemma withinI: "(\<And>s a s'. run_state m s = (a, s') \<Longrightarrow> R s s') \<Longrightarrow> within R m"
  by (auto simp: within_def intro: wp_op)

lemma withinD: "within R m \<Longrightarrow> run_state m s = (a, s') \<Longrightarrow> R s s'"
  unfolding within_def using wp_run by fastforce

lemma within_wp: "\<lbrakk>within R m; \<And>a s'. R s s' \<Longrightarrow> Q a s'\<rbrakk> \<Longrightarrow> wp m Q s"
  by (rule wp_op) (blast dest: withinD)

locale state_preorder =
  fixes R :: "'s \<Rightarrow> 's \<Rightarrow> bool"
  assumes refl: "R s s" and trans: "\<lbrakk>R s s'; R s' s''\<rbrakk> \<Longrightarrow> R s s''"
begin

lemma within_return: "within R (return x)"
  by (simp add: within_def refl)

lemma within_get: "within R State_Monad.get"
  by (simp add: within_def wp_get refl)

lemma within_bind:
  assumes "within R m" "\<And>a. within R (f a)"
  shows "within R (State_Monad.bind m f)"
  unfolding within_def wp_bind
proof (intro allI, rule within_wp [OF assms(1)])
  fix s a s' assume "R s s'"
  then show "wp (f a) (\<lambda>_. R s) s'" by (intro within_wp [OF assms(2)]) (rule trans)
qed

lemma within_ok: "(\<And>x. r = Inr x \<Longrightarrow> within R (k x)) \<Longrightarrow> within R (ok r k)"
  by (cases r) (simp_all add: within_return)

lemma within_check: "(e = None \<Longrightarrow> within R k) \<Longrightarrow> within R (check e k)"
  by (cases e) (simp_all add: within_return)

lemma within_if: "\<lbrakk>b \<Longrightarrow> within R m; \<not> b \<Longrightarrow> within R n\<rbrakk> \<Longrightarrow> within R (if b then m else n)"
  by simp

lemma within_option: "\<lbrakk>x = None \<Longrightarrow> within R m; \<And>y. x = Some y \<Longrightarrow> within R (f y)\<rbrakk> \<Longrightarrow> within R (case x of None \<Rightarrow> m | Some y \<Rightarrow> f y)"
  by (cases x) simp_all

lemma within_sum: "\<lbrakk>\<And>a. x = Inl a \<Longrightarrow> within R (f a); \<And>b. x = Inr b \<Longrightarrow> within R (g b)\<rbrakk> \<Longrightarrow> within R (case x of Inl a \<Rightarrow> f a | Inr b \<Rightarrow> g b)"
  by (cases x) simp_all

lemma within_prod: "(\<And>a b. x = (a, b) \<Longrightarrow> within R (f a b)) \<Longrightarrow> within R (case x of (a, b) \<Rightarrow> f a b)"
  by (cases x) simp

lemma within_outcome:
  "\<lbrakk>within R a; within R b; within R c\<rbrakk> \<Longrightarrow> within R (case x of commitUnknown \<Rightarrow> a | commitApplied \<Rightarrow> b | commitRejected \<Rightarrow> c)"
  by (cases x) simp_all

lemma within_readdir: "\<lbrakk>\<And>n ns. within R (f n ns); \<And>ns e. within R (g ns e)\<rbrakk> \<Longrightarrow> within R (case x of Batch n ns \<Rightarrow> f n ns | Last ns e \<Rightarrow> g ns e)"
  by (cases x) simp_all

lemma within_let: "within R (f x) \<Longrightarrow> within R (let y = x in f y)"
  by simp

lemmas within_rules = within_return within_get within_bind within_ok within_check within_if within_option within_sum within_prod
  within_outcome within_readdir within_let

end

lemma wp_plift: "wp (plift m) Q s = wp m (\<lambda>a w. Q a (s\<lparr>pb_world := w\<rparr>)) (pb_world s)"
  by (simp add: wp_def plift_def split: prod.splits)

lemma within_plift: "within R m \<Longrightarrow> within (\<lambda>s s'. R (pb_world s) (pb_world s')) (plift m)"
  by (rule withinI) (auto simp: plift_def split: prod.splits dest: withinD)

lemma within_validated: "(\<And>w. R w w) \<Longrightarrow> within (\<lambda>s s'. R (pb_world s) (pb_world s')) (validated channel w)"
  by (rule withinI) (auto simp: validated_def)

lemma within_observed: "(\<And>w. R w w) \<Longrightarrow> within (\<lambda>s s'. R (pb_world s) (pb_world s')) (observed path)"
  by (rule withinI) (auto simp: observed_def)

subsection \<open>An observed environment\<close>

text \<open>Between two states the log has grown by recordings only.\<close>

definition quiet :: "('w \<Rightarrow> event list) \<Rightarrow> 'w \<Rightarrow> 'w \<Rightarrow> bool" where
  "quiet log w w' \<longleftrightarrow> (\<exists>bs. log w' = log w @ map Recorded bs)"

abbreviation pquiet :: "('w \<Rightarrow> event list) \<Rightarrow> 'w pub \<Rightarrow> 'w pub \<Rightarrow> bool" where
  "pquiet log s s' \<equiv> quiet log (pb_world s) (pb_world s')"

lemma quiet_refl [simp]: "quiet log w w"
  unfolding quiet_def by (rule exI [of _ "[]"]) simp

lemma quiet_trans: "\<lbrakk>quiet log w w'; quiet log w' w''\<rbrakk> \<Longrightarrow> quiet log w w''"
  unfolding quiet_def by (metis append.assoc map_append)

interpretation qw: state_preorder "quiet log" for log :: "'w \<Rightarrow> event list"
  by unfold_locales (auto intro: quiet_trans)

interpretation qp: state_preorder "pquiet log" for log :: "'w \<Rightarrow> event list"
  by unfold_locales (auto intro: quiet_trans)

lemmas quiet_pub = within_validated [of "quiet log" for log, OF quiet_refl] within_observed [of "quiet log" for log, OF quiet_refl]

text \<open>The log has been extended, with every new request recorded before.\<close>

definition extends :: "('w \<Rightarrow> event list) \<Rightarrow> bytes set \<Rightarrow> 'w \<Rightarrow> 'w \<Rightarrow> bool" where
  "extends log keys w w' \<longleftrightarrow> (\<exists>l. log w' = log w @ l) \<and> (write_ahead keys {} (log w) \<longrightarrow> write_ahead keys {} (log w'))"

abbreviation pextends :: "('w \<Rightarrow> event list) \<Rightarrow> bytes set \<Rightarrow> 'w pub \<Rightarrow> 'w pub \<Rightarrow> bool" where
  "pextends log keys s s' \<equiv> extends log keys (pb_world s) (pb_world s')"

lemma extends_refl [simp]: "extends log keys w w"
  by (simp add: extends_def)

lemma extends_trans: "\<lbrakk>extends log keys w w'; extends log keys w' w''\<rbrakk> \<Longrightarrow> extends log keys w w''"
  unfolding extends_def by auto

lemma quiet_extends: "quiet log w w' \<Longrightarrow> extends log keys w w'"
  by (auto simp: quiet_def extends_def write_ahead_append write_ahead_recorded)

interpretation xp: state_preorder "pextends log keys" for log :: "'w \<Rightarrow> event list" and keys
  by unfold_locales (auto intro: extends_trans)

lemma within_weaken: "\<lbrakk>within R m; \<And>s s'. R s s' \<Longrightarrow> R' s s'\<rbrakk> \<Longrightarrow> within R' m"
  by (auto simp: within_def intro: wp_conseq)

lemma quiet_within_extends: "within (pquiet log) m \<Longrightarrow> within (pextends log keys) m"
  by (erule within_weaken) (rule quiet_extends)

definition pending_reference :: "PublicationJournalState \<Rightarrow> bytes set" where
  "pending_reference state = (case ps_Pending state of None \<Rightarrow> {} | Some i \<Rightarrow> {pi_Reference i})"

locale observed_publisher =
  fixes log :: "'w \<Rightarrow> event list" and ctx :: "'w ctx" and fs :: "'w SourceFS" and publisher :: "'w Publisher"
  assumes ctx_quiet: "within (quiet log) ctx"
    and get_quiet: "within (quiet log) (Get (rp_reader (pb_repository publisher)) key options)"
    and head_quiet: "rp_store (pb_repository publisher) = Some st \<Longrightarrow> within (quiet log) (store_Head st key)"
    and put_quiet: "rp_store (pb_repository publisher) = Some st \<Longrightarrow> within (quiet log) (store_PutIfAbsent st key data)"
    and cas_logged: "\<lbrakk>rp_store (pb_repository publisher) = Some st; run_state (store_CompareAndSwap st key expected data) w = (v, w')\<rbrakk>
      \<Longrightarrow> log w' = log w @ [Exposed key data]"
    and verify_quiet: "pb_referenceVerifier publisher = Some verifier \<Longrightarrow> within (quiet log) (rv_Verify verifier keyID message signature)"
    and sign_quiet: "pb_referenceSigner publisher = Some signer \<Longrightarrow> within (quiet log) (sg_Sign signer message)"
    and now_quiet: "within (quiet log) (pb_now publisher)"
    and load_logged: "\<lbrakk>pb_publicationJournal publisher = Some js; run_state (pj_Load js channel) w = (r, w')\<rbrakk>
      \<Longrightarrow> quiet log w w' \<and> (\<forall>state revision. r = Inr (Some (state, revision)) \<longrightarrow> pending_reference state \<subseteq> recorded_in (log w'))"
    and swap_logged: "\<lbrakk>pb_publicationJournal publisher = Some js; run_state (pj_CompareAndSwap js channel expected' state') w = (r', w')\<rbrakk>
      \<Longrightarrow> quiet log w w' \<and> (\<forall>revision. r' = Inr revision \<longrightarrow> pending_reference state' \<subseteq> recorded_in (log w'))"
    and fs_quiet: "within (quiet log) (fs_Abs fs path)" "within (quiet log) (os_Lstat fs path)" "within (quiet log) (os_Open fs path)"
      "within (quiet log) (os_OpenRoot fs path)" "within (quiet log) (root_Open fs root' path)" "within (quiet log) (root_Lstat fs root' path)"
      "within (quiet log) (root_Stat fs root' path)" "within (quiet log) (root_Readlink fs root' path)" "within (quiet log) (root_Close fs root')"
      "within (quiet log) (file_Stat fs handle)" "within (quiet log) (file_ReadDir fs handle count)" "within (quiet log) (file_Close fs handle)"
      "within (quiet log) (chunker_New fs handle chunking)" "within (quiet log) (chunker_Next fs splitter)"
begin

abbreviation Qw :: "('w, 'a) state \<Rightarrow> bool" where "Qw \<equiv> within (quiet log)"
abbreviation Qp :: "('w, 'a) pm \<Rightarrow> bool" where "Qp \<equiv> within (pquiet log)"

lemma quiet_lift: "Qw m \<Longrightarrow> Qp (plift m)"
  by (rule within_plift)

lemma with_store_quiet: "(\<And>st. rp_store (pb_repository publisher) = Some st \<Longrightarrow> Qw (f st)) \<Longrightarrow> Qw (with_store (pb_repository publisher) f)"
  by (auto simp: with_store_def intro: qw.within_rules split: option.split)

lemma with_journal_quiet: "(\<And>js. pb_publicationJournal publisher = Some js \<Longrightarrow> Qw (f js)) \<Longrightarrow> Qw (with_journal publisher f)"
  by (auto simp: with_journal_def intro: qw.within_rules split: option.split)

lemma load_quiet: "pb_publicationJournal publisher = Some js \<Longrightarrow> Qw (pj_Load js channel)"
  by (rule withinI) (use load_logged in blast)

lemma swap_quiet: "pb_publicationJournal publisher = Some js \<Longrightarrow> Qw (pj_CompareAndSwap js channel expected state)"
  by (rule withinI) (use swap_logged in blast)

lemmas env_quiet = ctx_quiet get_quiet head_quiet put_quiet verify_quiet sign_quiet now_quiet load_quiet swap_quiet fs_quiet

lemma getManifest_quiet: "Qw (getManifest (pb_repository publisher) to_json of_json kind digest)"
  unfolding getManifest_def getImmutable_def getImmutableLimited_def
  by (intro qw.within_rules env_quiet)

lemma getCommit_quiet: "Qw (getCommit publisher digest)"
  unfolding getCommit_def by (rule getManifest_quiet)

lemma putImmutable_quiet: "Qw (putImmutable (pb_repository publisher) kind data)"
  unfolding putImmutable_def Let_def
  by (intro with_store_quiet qw.within_rules env_quiet)

lemma putManifest_quiet: "Qw (putManifest (pb_repository publisher) to_json kind m)"
  unfolding putManifest_def Let_def by (intro qw.within_rules putImmutable_quiet)

lemma verifySigned_quiet: "Qw (verifySignedSnapshotReference data channel (pb_referenceVerifier publisher))"
  unfolding verifySignedSnapshotReference_def Let_def
  by (intro qw.within_rules env_quiet)


lemma getReference_quiet: "Qw (getReferenceWithVerifier ctx (pb_repository publisher) channel etag (pb_referenceVerifier publisher))"
  unfolding getReferenceWithVerifier_def VerifySnapshotReference_def Let_def
  by (intro qw.within_rules env_quiet verifySigned_quiet)

lemma sign_reference_quiet:
  "Qw (signSnapshotReference channel reference (pb_referenceSigner publisher) (pb_referenceVerifier publisher))"
proof (cases "pb_referenceSigner publisher"; cases "pb_referenceVerifier publisher")
  fix signer verifier
  assume *: "pb_referenceSigner publisher = Some signer" "pb_referenceVerifier publisher = Some verifier"
  show ?thesis unfolding signSnapshotReference_def * Let_def prod.case option.case
    by (intro qw.within_rules sign_quiet [OF *(1)] verify_quiet [OF *(2)])
qed (simp_all add: signSnapshotReference_def qw.within_return)

lemmas repository_quiet = getCommit_quiet putImmutable_quiet putManifest_quiet verifySigned_quiet getReference_quiet sign_reference_quiet

subsection \<open>Everything but the swap of a reference is quiet\<close>

lemma publication_ancestry_quiet: "Qw (publication_ancestry ctx publisher anchor generation parent)"
proof (induction "unat generation" arbitrary: generation parent rule: less_induct)
  case less
  show ?case
    unfolding publication_ancestry.simps [of ctx publisher anchor generation]
    by (intro qw.within_rules env_quiet repository_quiet less) simp
qed

lemma validatePublicationDescendant_quiet: "Qw (validatePublicationDescendant ctx publisher reference commit anchor)"
  unfolding validatePublicationDescendant_def by (intro qw.within_rules publication_ancestry_quiet)

lemma validatePublicationCheckpoint_quiet: "Qp (validatePublicationCheckpoint ctx publisher channel watermark checkpoint)"
  unfolding validatePublicationCheckpoint_def publication_checkpoint_walk_def Let_def
  by (intro qp.within_rules quiet_lift quiet_pub repository_quiet validatePublicationDescendant_quiet)

lemma loadPublicationJournal_quiet: "Qp (loadPublicationJournal ctx publisher channel)"
  unfolding loadPublicationJournal_def validateLoadedPublicationJournal_def
  by (intro qp.within_rules quiet_lift with_journal_quiet env_quiet validatePublicationCheckpoint_quiet)

lemma compareAndSwapJournal_quiet: "Qw (compareAndSwapPublicationJournal publisher channel expected state)"
  unfolding compareAndSwapPublicationJournal_def by (intro with_journal_quiet qw.within_rules env_quiet)

lemma loadOrInitialize_quiet: "Qp (loadOrInitializePublicationJournal ctx publisher channel)"
  unfolding loadOrInitializePublicationJournal_def reload_initialized_def Let_def
  by (intro qp.within_rules quiet_lift quiet_pub loadPublicationJournal_quiet compareAndSwapJournal_quiet)

lemma readPublicationCommit_quiet: "Qw (readPublicationCommit publisher watermark)"
  unfolding readPublicationCommit_def by (intro qw.within_rules repository_quiet)

lemma snapshotForPublicationWatermark_quiet: "Qw (snapshotForPublicationWatermark publisher watermark)"
  unfolding snapshotForPublicationWatermark_def by (intro qw.within_rules readPublicationCommit_quiet)

lemma publicationDescends_quiet: "Qw (publicationDescends ctx publisher candidate commit anchor)"
  unfolding publicationDescends_def by (intro qw.within_rules validatePublicationDescendant_quiet)

lemma superseding_history_quiet: "Qw (superseding_history publisher generation parent)"
proof (induction "unat generation" arbitrary: generation parent rule: less_induct)
  case less
  show ?case
    unfolding superseding_history.simps [of publisher generation]
    by (intro qw.within_rules repository_quiet less) simp
qed

lemma validSuperseding_quiet: "Qw (validSupersedingPublication ctx publisher candidate commit base)"
  unfolding validSupersedingPublication_def by (intro qw.within_rules publicationDescends_quiet superseding_history_quiet)

lemma validatePending_quiet: "Qw (validatePendingPublication publisher channel intent)"
  unfolding validatePendingPublication_def by (intro qw.within_rules repository_quiet readPublicationCommit_quiet)

lemma refresh_quiet: "Qp (refreshPublicationObservation ctx publisher channel state revision object)"
  unfolding refreshPublicationObservation_def reload_observation_def Let_def
  by (intro qp.within_rules quiet_lift loadPublicationJournal_quiet compareAndSwapJournal_quiet)

lemma reloadRecovery_quiet: "Qp (reloadPublicationRecovery ctx publisher channel initial)"
  unfolding reloadPublicationRecovery_def by (intro qp.within_rules loadPublicationJournal_quiet)

lemma finalize_quiet: "Qp (finalizePublication ctx publisher state revision committed snapshot outcome)"
  unfolding finalizePublication_def Let_def
  by (intro qp.within_rules quiet_lift loadPublicationJournal_quiet compareAndSwapJournal_quiet)

lemma classifyResolved_quiet: "Qw (classifyResolvedPublication ctx publisher channel intent committed)"
  unfolding classifyResolvedPublication_def classifyResolvedResign_def resign_outcome_def Let_def
  by (intro qw.within_rules repository_quiet readPublicationCommit_quiet snapshotForPublicationWatermark_quiet
      publicationDescends_quiet validatePublicationDescendant_quiet)

lemma acceptObserved_quiet: "Qp (acceptObservedPublication ctx publisher channel state revision reference commit)"
  unfolding acceptObservedPublication_def Let_def
  by (intro qp.within_rules quiet_lift loadPublicationJournal_quiet compareAndSwapJournal_quiet validatePublicationDescendant_quiet)

lemma begin_publication_quiet: "Qp (begin_publication ctx publisher staged intent n state revision)"
proof (induction n arbitrary: state revision)
  case (Suc n)
  show ?case unfolding begin_publication.simps
    by (intro qp.within_rules quiet_lift loadPublicationJournal_quiet compareAndSwapJournal_quiet classifyResolved_quiet Suc)
qed (simp add: qp.within_return)

lemma commit_resolved_quiet: "Qp (commit_resolved ctx publisher staged intent)"
  unfolding commit_resolved_def by (intro qp.within_rules quiet_lift loadPublicationJournal_quiet classifyResolved_quiet)

lemma accept_later_quiet: "Qp (accept_later ctx publisher state revision pending remote remoteCommit)"
  unfolding accept_later_def accept_winner_def Let_def
  by (intro qp.within_rules quiet_lift publicationDescends_quiet validSuperseding_quiet finalize_quiet)

lemma accept_winner_quiet: "Qp (accept_winner ctx publisher state revision pending remote remoteCommit)"
  unfolding accept_winner_def by (intro qp.within_rules quiet_lift validSuperseding_quiet finalize_quiet)

subsection \<open>The scan is quiet\<close>

lemma file_chunks_quiet: "Qw (file_chunks ctx fs publisher splitter refs offset)"
proof (induction "maxFileChunks - length refs" arbitrary: refs offset rule: less_induct)
  case less
  show ?case
    unfolding file_chunks.simps [of ctx fs publisher splitter refs]
    by (intro qw.within_rules env_quiet repository_quiet less) simp
qed

lemma walkChunks_quiet: "Qw (walkChunks ctx fs publisher handle)"
  unfolding walkChunks_def by (intro qw.within_rules env_quiet file_chunks_quiet)

lemma read_file_quiet: "Qw (read_file ctx fs publisher root' path handle before)"
  unfolding read_file_def by (intro qw.within_rules env_quiet repository_quiet walkChunks_quiet)

lemma close_throw_quiet: "Qw (close_throw fs handle e)"
  unfolding close_throw_def by (intro qw.within_rules env_quiet)

lemma build_file_quiet: "Qw (build_file_attempts ctx fs publisher root' path expected protected n)"
proof (induction n)
  case (Suc n)
  show ?case unfolding build_file_attempts.simps
    by (intro qw.within_rules env_quiet close_throw_quiet read_file_quiet Suc)
qed (simp add: qw.within_return)

lemma buildSymlink_quiet: "Qw (buildSymlink fs publisher root' path expected)"
  unfolding buildSymlink_def by (intro qw.within_rules env_quiet repository_quiet)

lemma read_names_quiet: "Qw (read_names ctx fs handle names)"
proof (induction "maxDirectoryEntries - length names" arbitrary: names rule: less_induct)
  case less
  show ?case
    unfolding read_names.simps [of ctx fs handle names]
    by (intro qw.within_rules env_quiet less) simp
qed

lemma list_directory_quiet: "Qw (list_directory ctx fs handle expected)"
  unfolding list_directory_def by (intro qw.within_rules env_quiet read_names_quiet close_throw_quiet)

lemma directory_unchanged_quiet: "Qw (directory_unchanged fs root' directory before)"
  unfolding directory_unchanged_def by (intro qw.within_rules env_quiet)

lemma build_entries_quiet:
  assumes "\<And>path info sel. Qw (build_child path info sel)"
  shows "Qw (build_entries build_child ctx fs publisher root' protected directory depth selection names items matched)"
proof (induction names arbitrary: items matched)
  case (Cons name names)
  show ?case
    unfolding build_entries.simps build_entry_def build_item_def buildFile_def Let_def
    by (intro qw.within_rules env_quiet build_file_quiet buildSymlink_quiet assms Cons)
qed (simp add: qw.within_return)

lemma build_directory_with_quiet:
  assumes "\<And>path info sel. Qw (build_child path info sel)"
  shows "Qw (build_directory_with build_child ctx fs publisher root' protected depth directory expected selection)"
  unfolding build_directory_with_def
  by (intro qw.within_rules env_quiet repository_quiet list_directory_quiet directory_unchanged_quiet build_entries_quiet assms)

lemma build_directory_quiet: "Qw (build_directory ctx fs publisher root' protected room directory expected selection)"
proof (induction room arbitrary: directory expected selection)
  case 0
  show ?case unfolding build_directory.simps by (intro build_directory_with_quiet qw.within_return)
next
  case (Suc room)
  show ?case unfolding build_directory.simps by (intro build_directory_with_quiet Suc)
qed


lemma select_path_quiet: "Qw (select_path ctx node nodeCount path)"
proof (induction path arbitrary: node nodeCount)
  case Nil
  show ?case unfolding select_path.simps by (intro qw.within_rules)
next
  case (Cons c cs)
  show ?case unfolding select_path.simps Let_def by (intro qw.within_rules env_quiet Cons)
qed

lemma select_values_quiet: "Qw (select_values ctx trie totalBytes nodeCount paths)"
proof (induction paths arbitrary: trie totalBytes nodeCount)
  case (Cons v vs)
  show ?case unfolding select_values.simps Let_def by (intro qw.within_rules env_quiet select_path_quiet Cons)
qed (simp add: qw.within_return)

lemma newPathSelection_quiet: "Qw (newPathSelectionContext ctx paths)"
  unfolding newPathSelectionContext_def by (intro qw.within_rules env_quiet select_values_quiet)

lemma closeProtected_quiet: "Qw (closeProtectedSourceFiles fs identities)"
  by (induction identities) (auto intro!: qw.within_rules env_quiet)

lemma capture_protected_quiet: "Qp (capture_protected ctx fs files identities)"
proof (induction files arbitrary: identities)
  case (Cons f files)
  show ?case unfolding capture_protected.simps Let_def pin_protected_def
    by (intro qp.within_rules quiet_lift quiet_pub qw.within_rules env_quiet closeProtected_quiet close_throw_quiet Cons)
qed (simp add: qp.within_return)

lemma stage_commit_quiet: "Qw (stage_commit publisher channel base rootDigest)"
  unfolding stage_commit_def stage_new_def Let_def by (intro qw.within_rules env_quiet repository_quiet)

lemma stage_scan_quiet: "Qp (stage_scan ctx fs publisher source channel sourceRoot info selection base)"
  unfolding stage_scan_def captureProtectedSourceFiles_def buildDirectorySelection_def
  by (intro qp.within_rules quiet_lift qw.within_rules env_quiet capture_protected_quiet closeProtected_quiet build_directory_quiet
      stage_commit_quiet)

lemma root_identity_quiet: "Qw (root_identity fs sourceRoot info)"
  unfolding root_identity_def by (intro qw.within_rules env_quiet)

subsection \<open>What the journal has reported is recorded\<close>

abbreviation known :: "'w pub \<Rightarrow> bytes set" where
  "known s \<equiv> recorded_in (log (pb_world s))"

lemma known_mono: "pquiet log s s' \<Longrightarrow> known s \<subseteq> known s'"
  by (auto simp: quiet_def)

definition reports :: "'w pub \<Rightarrow> err + PublicationJournalState \<times> PublicationJournalRevision \<Rightarrow> 'w pub \<Rightarrow> bool" where
  "reports s r s' \<longleftrightarrow> pquiet log s s' \<and> (\<forall>state revision. r = Inr (state, revision) \<longrightarrow> pending_reference state \<subseteq> known s')"

lemma reports_error [simp]: "reports s (Inl e) s' = pquiet log s s'"
  by (simp add: reports_def)

lemma reports_ok [simp]: "reports s (Inr (state, revision)) s' \<longleftrightarrow> pquiet log s s' \<and> pending_reference state \<subseteq> known s'"
  by (simp add: reports_def)

lemma load_reports:
  "wp (loadPublicationJournal ctx publisher channel) (\<lambda>r s'. pquiet log s s'
    \<and> (\<forall>state revision. r = Inr (Some (state, revision)) \<longrightarrow> pending_reference state \<subseteq> known s')) s" (is "wp _ ?Q s")
proof -
  have "wp (plift (with_journal publisher (\<lambda>js. pj_Load js channel))) (\<lambda>r s'. pquiet log s s'
      \<and> (\<forall>state revision. r = Inr (Some (state, revision)) \<longrightarrow> pending_reference state \<subseteq> known s')) s"
  proof (cases "pb_publicationJournal publisher")
    case (Some js)
    show ?thesis unfolding wp_plift with_journal_def Some option.case
      by (rule wp_op) (use load_logged [OF Some] in auto)
  qed (simp add: wp_plift with_journal_def)
  moreover have "wp (ok l (\<lambda>found. case found of None \<Rightarrow> return (Inr None)
       | Some (state, revision) \<Rightarrow> if revision = 0 then throw [ErrCorruptObject]
           else do {
             e \<leftarrow> validateLoadedPublicationJournal ctx publisher channel state;
             check e (return (Inr (Some (state, revision)))) })) ?Q s1"
    if l: "pquiet log s s1 \<and> (\<forall>state revision. l = Inr (Some (state, revision)) \<longrightarrow> pending_reference state \<subseteq> known s1)" for l s1
  proof -
    have v: "Qp (validateLoadedPublicationJournal ctx publisher channel state)" for state
      unfolding validateLoadedPublicationJournal_def by (intro qp.within_rules validatePublicationCheckpoint_quiet)
    have "wp (validateLoadedPublicationJournal ctx publisher channel state) (\<lambda>e. wp (check e (return (Inr (Some (state, revision))))) ?Q) s1"
      if "l = Inr (Some (state, revision))" for state revision
    proof (rule within_wp [OF v])
      fix e s2 assume 2: "pquiet log s1 s2"
      have "pquiet log s s1" "pending_reference state \<subseteq> known s1" using l that by simp_all
      then have "pquiet log s s2" "pending_reference state \<subseteq> known s2"
        using known_mono [OF 2] quiet_trans [OF _ 2] by simp_all
      then show "wp (check e (return (Inr (Some (state, revision))))) ?Q s2" by (cases e) simp_all
    qed
    then show ?thesis using l by (auto simp: wp_simps split: sum.splits option.splits)
  qed
  ultimately show ?thesis unfolding loadPublicationJournal_def wp_bind [of "plift _"] by (rule wp_conseq)
qed

lemma swap_reports:
  "wp (plift (compareAndSwapPublicationJournal publisher channel expected state)) (\<lambda>r s'. pquiet log s s'
    \<and> (\<forall>revision. r = Inr revision \<longrightarrow> pending_reference state \<subseteq> known s')) s"
proof (cases "pb_publicationJournal publisher")
  case (Some js)
  show ?thesis unfolding wp_plift compareAndSwapPublicationJournal_def with_journal_def Some option.case wp_bind
    by (rule wp_op) (use swap_logged [OF Some] in \<open>auto simp: wp_simps\<close>)
qed (simp add: wp_plift compareAndSwapPublicationJournal_def with_journal_def)

lemma reload_reports:
  assumes "pquiet log s s1"
  shows "wp (loadPublicationJournal ctx publisher channel) (\<lambda>r s'. pquiet log s s'
    \<and> (\<forall>state revision. r = Inr (Some (state, revision)) \<longrightarrow> pending_reference state \<subseteq> known s')) s1"
  by (rule wp_conseq [OF load_reports]) (simp add: quiet_trans [OF assms])


lemma reload_initialized_reports:
  assumes "pquiet log s s1"
  shows "wp (reload_initialized ctx publisher channel e) (reports s) s1"
proof -
  have "wp (case l of Inl e' \<Rightarrow> throw (e @ e') | Inr None \<Rightarrow> throw e | Inr (Some loaded) \<Rightarrow> return (Inr loaded)) (reports s) s2"
    if "pquiet log s s2 \<and> (\<forall>state revision. l = Inr (Some (state, revision)) \<longrightarrow> pending_reference state \<subseteq> known s2)" for l s2
    using that by (auto simp: reports_def split: sum.splits option.splits)
  then show ?thesis
    using assms unfolding reload_initialized_def wp_if wp_bind
    by (auto intro: wp_conseq [OF reload_reports [OF assms]])
qed

lemma loadOrInitialize_reports: "wp (loadOrInitializePublicationJournal ctx publisher channel) (reports s) s"
proof -
  have empty: "pending_reference \<lparr>ps_RepositoryID = a, ps_Channel = b, ps_Committed = c, ps_Pending = None\<rparr> = {}" for a b c
    by (simp add: pending_reference_def)
  have init: "wp (plift (compareAndSwapPublicationJournal publisher channel None st)) (\<lambda>c. wp (case c of
        Inr revision \<Rightarrow> do {
          _ \<leftarrow> (case pb_trustedCheckpoint publisher of None \<Rightarrow> return () | Some checkpoint \<Rightarrow> validated channel checkpoint);
          return (Inr (st, revision)) }
      | Inl e \<Rightarrow> reload_initialized ctx publisher channel e) (reports s)) s1"
    if s1: "pquiet log s s1" and st: "pending_reference st = {}" for s1 st
  proof (rule wp_conseq [OF swap_reports])
    fix c :: "err + PublicationJournalRevision" and s2
    assume "pquiet log s1 s2 \<and> (\<forall>revision. c = Inr revision \<longrightarrow> pending_reference st \<subseteq> known s2)"
    then have s2: "pquiet log s s2" using quiet_trans [OF s1] by blast
    show "wp (case c of
        Inr revision \<Rightarrow> do {
          _ \<leftarrow> (case pb_trustedCheckpoint publisher of None \<Rightarrow> return () | Some checkpoint \<Rightarrow> validated channel checkpoint);
          return (Inr (st, revision)) }
      | Inl e \<Rightarrow> reload_initialized ctx publisher channel e) (reports s) s2"
      using s2 st reload_initialized_reports [OF s2]
      by (cases c; cases "pb_trustedCheckpoint publisher") (simp_all add: wp_simps validated_def)
  qed
  show ?thesis
    unfolding loadOrInitializePublicationJournal_def wp_bind [of "loadPublicationJournal _ _ _"]
  proof (rule wp_conseq [OF load_reports])
    fix l :: "err + journal_entry" and s1
    assume l: "pquiet log s s1 \<and> (\<forall>state revision. l = Inr (Some (state, revision)) \<longrightarrow> pending_reference state \<subseteq> known s1)"
    show "wp (ok l (\<lambda>found. let untrusted = (pb_trustedCheckpoint publisher = None \<and> \<not> pb_allowTrustOnFirstUse publisher) in
       case found of
         Some (state, revision) \<Rightarrow>
           if ps_Committed state = None \<and> ps_Pending state = None \<and> untrusted then throw [ErrTrustStateRequired]
           else return (Inr (state, revision))
       | None \<Rightarrow>
           if untrusted then throw [ErrTrustStateRequired]
           else let state = \<lparr>ps_RepositoryID = verifier_id publisher, ps_Channel = channel,
                  ps_Committed = pb_trustedCheckpoint publisher, ps_Pending = None\<rparr>
             in do {
               c \<leftarrow> plift (compareAndSwapPublicationJournal publisher channel None state);
               case c of
                 Inr revision \<Rightarrow> do {
                   _ \<leftarrow> (case pb_trustedCheckpoint publisher of None \<Rightarrow> return () | Some checkpoint \<Rightarrow> validated channel checkpoint);
                   return (Inr (state, revision)) }
               | Inl e \<Rightarrow> reload_initialized ctx publisher channel e })) (reports s) s1"
      using l init [of s1, OF _ empty] by (auto simp: Let_def wp_ok wp_option wp_if wp_bind [of "plift _"] split: prod.splits)
  qed
qed

lemma refresh_reports:
  assumes "pending_reference state \<subseteq> known s"
  shows "wp (refreshPublicationObservation ctx publisher channel state revision object) (reports s) s"
proof -
  have reload: "wp (reload_observation ctx publisher channel state desired e) (reports s) s1"
    if s1: "pquiet log s s1" for desired e s1
  proof -
    have "wp (case l of Inl e' \<Rightarrow> throw (e @ e')
        | Inr None \<Rightarrow> throw [ErrRollbackDetected]
        | Inr (Some (loaded, loadedRevision)) \<Rightarrow>
            if ps_Pending loaded = None \<or> \<not> equalPublicationIntentSemantics (ps_Pending state) (ps_Pending loaded)
            then throw [ErrPublishConflict]
            else if equalPublicationIntents (ps_Pending loaded) (ps_Pending desired) then return (Inr (loaded, loadedRevision))
            else throw [ErrPublishConflict]) (reports s) s2"
      if "pquiet log s s2 \<and> (\<forall>state revision. l = Inr (Some (state, revision)) \<longrightarrow> pending_reference state \<subseteq> known s2)" for l s2
      using that by (auto simp: wp_if split: sum.splits option.splits)
    then show ?thesis
      using s1 unfolding reload_observation_def wp_if wp_bind
      by (auto intro: wp_conseq [OF reload_reports [OF s1]])
  qed
  have cas: "wp (plift (compareAndSwapPublicationJournal publisher channel (Some revision) desired))
      (\<lambda>c. wp (case c of Inr newRevision \<Rightarrow> return (Inr (desired, newRevision))
              | Inl e \<Rightarrow> reload_observation ctx publisher channel state desired e) (reports s)) s" for desired
    by (rule wp_conseq [OF swap_reports]) (auto simp: reload split: sum.splits)
  show ?thesis
    using assms cas unfolding refreshPublicationObservation_def Let_def
    by (auto simp: wp_if wp_bind [of "plift _"] split: option.splits)
qed

lemma reloadRecovery_reports: "wp (reloadPublicationRecovery ctx publisher channel initial) (reports s) s"
  unfolding reloadPublicationRecovery_def wp_bind
  by (rule wp_conseq [OF load_reports]) (auto simp: wp_ok wp_option wp_if split: prod.splits)

subsection \<open>Every swap of a reference comes after its recording\<close>

abbreviation keys :: "bytes set" where
  "keys \<equiv> range (SignedReferenceKey (pb_repository publisher))"

abbreviation Xp :: "('w, 'a) pm \<Rightarrow> bool" where "Xp \<equiv> within (pextends log keys)"

lemma compareAndSwap_extends:
  assumes "k \<in> keys \<Longrightarrow> data \<in> recorded_in (log w)"
  shows "wp (compareAndSwap (pb_repository publisher) k expected data) (\<lambda>_. extends log keys w) w"
proof -
  have x: "extends log keys w w'" if "log w' = log w @ [Exposed k data]" for w'
    using assms that by (simp add: extends_def write_ahead_append)
  show ?thesis
  proof (cases "rp_store (pb_repository publisher)")
    case (Some st)
    show ?thesis unfolding compareAndSwap_def with_store_def Some option.case wp_bind
      by (rule wp_op) (use x cas_logged [OF Some] in \<open>auto simp: wp_simps\<close>)
  qed (simp add: compareAndSwap_def with_store_def)
qed

definition continues :: "(PublicationJournalState \<Rightarrow> PublicationJournalRevision \<Rightarrow> err \<Rightarrow> ('w, err + PublicationRecovery) pm) \<Rightarrow> bool" where
  "continues f \<longleftrightarrow> (\<forall>state revision e s. pending_reference state \<subseteq> known s \<longrightarrow> wp (f state revision e) (\<lambda>_. pextends log keys s) s)"

lemma retry_extends:
  assumes "pi_Reference pending \<in> known s" "continues continue"
  shows "wp (retry_reference ctx publisher channel initial target expected state revision pending continue) (\<lambda>_. pextends log keys s) s"
proof -
  have step: "wp (case c of
       Inr _ \<Rightarrow> finalizePublication ctx publisher state revision (pi_Next pending) target PublicationRecoveryApplied
     | Inl lastErr \<Rightarrow> do {
         r \<leftarrow> reloadPublicationRecovery ctx publisher channel initial;
         ok r (\<lambda>(state, revision). continue state revision lastErr) }) (\<lambda>_. pextends log keys s) s1"
    if s1: "pextends log keys s s1" for c :: "err + Version" and s1
  proof (cases c)
    case (Inr v)
    have "wp (finalizePublication ctx publisher state revision (pi_Next pending) target PublicationRecoveryApplied)
        (\<lambda>_. pextends log keys s) s1"
      by (rule within_wp [OF finalize_quiet]) (rule extends_trans [OF s1 quiet_extends])
    then show ?thesis using Inr by simp
  next
    case (Inl e)
    have "wp (ok r (\<lambda>(state, revision). continue state revision e)) (\<lambda>_. pextends log keys s) s2" if r: "reports s1 r s2" for r s2
    proof (cases r)
      case (Inl a)
      then show ?thesis using r extends_trans [OF s1 quiet_extends] by simp
    next
      case (Inr b)
      then obtain st rev where b: "r = Inr (st, rev)" by (cases b) auto
      then have s2: "pextends log keys s s2" "pending_reference st \<subseteq> known s2"
        using r extends_trans [OF s1 quiet_extends] by auto
      have "wp (continue st rev e) (\<lambda>_. pextends log keys s2) s2" using assms(2) s2(2) by (simp add: continues_def)
      then show ?thesis using b by (auto elim!: wp_conseq intro: extends_trans [OF s2(1)])
    qed
    then show ?thesis using Inl by (simp add: wp_bind wp_conseq [OF reloadRecovery_reports])
  qed
  have "wp (plift (compareAndSwap (pb_repository publisher) (SignedReferenceKey (pb_repository publisher) channel) expected (pi_Reference pending)))
      (\<lambda>_. pextends log keys s) s"
    unfolding wp_plift by (rule wp_conseq [OF compareAndSwap_extends]) (use assms(1) in simp_all)
  then show ?thesis
    unfolding retry_reference_def wp_bind [of "plift _"] by (rule wp_conseq) (rule step)
qed


lemma refresh_and_retry_extends:
  assumes "pending_reference state \<subseteq> known s" "continues continue"
  shows "wp (refresh_and_retry ctx publisher channel initial target object state revision continue) (\<lambda>_. pextends log keys s) s"
  unfolding refresh_and_retry_def wp_bind
proof (rule wp_conseq [OF refresh_reports [OF assms(1)]])
  fix r s1 assume r: "reports s r s1"
  show "wp (ok r (\<lambda>(state, revision). case ps_Pending state of None \<Rightarrow> throw plain_error
       | Some pending \<Rightarrow> retry_reference ctx publisher channel initial target (Some (ob_Version object)) state revision pending continue))
      (\<lambda>_. pextends log keys s) s1"
  proof (cases r)
    case (Inl a)
    then show ?thesis using r quiet_extends by simp
  next
    case (Inr b)
    then obtain st rev where b: "r = Inr (st, rev)" by (cases b) auto
    then have 1: "pextends log keys s s1" "pending_reference st \<subseteq> known s1" using r quiet_extends by auto
    show ?thesis
    proof (cases "ps_Pending st")
      case None
      then show ?thesis using b 1 by simp
    next
      case (Some p)
      then have "pi_Reference p \<in> known s1" using 1(2) by (simp add: pending_reference_def)
      then have "wp (retry_reference ctx publisher channel initial target (Some (ob_Version object)) st rev p continue)
          (\<lambda>_. pextends log keys s) s1"
        by (rule wp_conseq [OF retry_extends [OF _ assms(2)]]) (rule extends_trans [OF 1(1)])
      then show ?thesis using b Some by simp
    qed
  qed
qed

lemma extends_quiet_wp: "Qp m \<Longrightarrow> pextends log keys s s1 \<Longrightarrow> wp m (\<lambda>_. pextends log keys s) s1"
  by (erule within_wp) (erule extends_trans, erule quiet_extends)

lemma resolve_remote_extends:
  assumes "pending_reference state \<subseteq> known s" "continues continue"
  shows "wp (resolve_remote ctx publisher channel initial target state revision pending reference object continue)
    (\<lambda>_. pextends log keys s) s"
  unfolding resolve_remote_def Let_def wp_bind [of "plift _"]
proof (rule within_wp [OF quiet_lift [OF readPublicationCommit_quiet]])
  fix r :: "err + commitManifest" and s1 assume s1: "pquiet log s s1"
  have x: "pextends log keys s s1" using s1 by (rule quiet_extends)
  have "pending_reference state \<subseteq> known s1" using assms(1) known_mono [OF s1] by simp
  then have retry: "wp (refresh_and_retry ctx publisher channel initial target object state revision continue) (\<lambda>_. pextends log keys s) s1"
    by (auto intro: wp_conseq [OF refresh_and_retry_extends [OF _ assms(2)]] extends_trans [OF x])
  note q = extends_quiet_wp [OF finalize_quiet x] extends_quiet_wp [OF accept_later_quiet x] extends_quiet_wp [OF accept_winner_quiet x]
  show "wp (ok r (\<lambda>remoteCommit. if (case ps_Committed state of None \<Rightarrow> False | Some committed \<Rightarrow> wm_Generation (remote_watermark publisher reference) < wm_Generation committed)
           then throw [ErrRollbackDetected]
         else if (case ps_Committed state of None \<Rightarrow> False
             | Some committed \<Rightarrow> wm_Generation (remote_watermark publisher reference) = wm_Generation committed
                 \<and> wm_Commit (remote_watermark publisher reference) \<noteq> wm_Commit committed)
           then throw [ErrSplitBrain]
         else if pi_Kind pending = PublicationIntentResign \<and> remote_watermark publisher reference = pi_Next pending then
           (if ob_Data object = pi_Reference pending
            then finalizePublication ctx publisher state revision (remote_watermark publisher reference)
              (snapshotFromPublicationCommit (remote_watermark publisher reference) remoteCommit) PublicationRecoveryApplied
            else if publicationReferenceDigest (ob_Data object) \<noteq> pi_ExpectedReference pending
            then finalizePublication ctx publisher state revision (remote_watermark publisher reference)
              (snapshotFromPublicationCommit (remote_watermark publisher reference) remoteCommit) PublicationRecoverySuperseded
            else refresh_and_retry ctx publisher channel initial target object state revision continue)
         else if remote_watermark publisher reference = pi_Next pending
           then finalizePublication ctx publisher state revision (remote_watermark publisher reference)
              (snapshotFromPublicationCommit (remote_watermark publisher reference) remoteCommit) PublicationRecoveryApplied
         else if wm_Generation (remote_watermark publisher reference) > wm_Generation (pi_Next pending)
           then accept_later ctx publisher state revision pending (remote_watermark publisher reference) remoteCommit
         else if pi_Base pending = Some (remote_watermark publisher reference)
           then refresh_and_retry ctx publisher channel initial target object state revision continue
         else accept_winner ctx publisher state revision pending (remote_watermark publisher reference) remoteCommit))
      (\<lambda>_. pextends log keys s) s1"
    using q retry x by (simp add: wp_ok wp_if)
qed

lemma recovery_attempts_continues: "continues (recovery_attempts ctx publisher channel initial target n)"
proof (induction n)
  case 0
  show ?case by (simp add: continues_def)
next
  case (Suc n)
  have step: "wp (case g of
               Inl getErr \<Rightarrow>
                 if errors_Is getErr ErrObjectNotFound then
                   (if pi_Base pending \<noteq> None then throw [ErrRollbackDetected]
                    else retry_reference ctx publisher channel initial target None state revision pending
                      (recovery_attempts ctx publisher channel initial target n))
                 else throw (ErrPublishIndeterminate # getErr)
             | Inr (reference, object) \<Rightarrow>
                 resolve_remote ctx publisher channel initial target state revision pending reference object
                   (recovery_attempts ctx publisher channel initial target n)) (\<lambda>_. pextends log keys s) s1"
    if s1: "pquiet log s s1" and p: "ps_Pending state = Some pending" "pending_reference state \<subseteq> known s"
    for g :: "err + snapshotReference \<times> Object" and state pending revision s s1
  proof -
    have k: "pending_reference state \<subseteq> known s1" "pi_Reference pending \<in> known s1"
      using p known_mono [OF s1] by (auto simp: pending_reference_def)
    have x: "pextends log keys s s1" using s1 by (rule quiet_extends)
    have 1: "wp (retry_reference ctx publisher channel initial target None state revision pending
          (recovery_attempts ctx publisher channel initial target n)) (\<lambda>_. pextends log keys s) s1"
      by (rule wp_conseq [OF retry_extends [OF k(2) Suc]]) (rule extends_trans [OF x])
    have 2: "wp (resolve_remote ctx publisher channel initial target state revision pending reference object
          (recovery_attempts ctx publisher channel initial target n)) (\<lambda>_. pextends log keys s) s1" for reference object
      by (rule wp_conseq [OF resolve_remote_extends [OF k(1) Suc]]) (rule extends_trans [OF x])
    show ?thesis using 1 2 x by (simp add: wp_sum wp_if split: prod.splits)
  qed
  have "wp (recovery_attempts ctx publisher channel initial target (Suc n) state revision e) (\<lambda>_. pextends log keys s) s"
    if p: "pending_reference state \<subseteq> known s" for state revision e s
    unfolding recovery_attempts.simps wp_bind [of "plift ctx"]
  proof (rule within_wp [OF quiet_lift [OF ctx_quiet]])
    fix c s1 assume s1: "pquiet log s s1"
    have x: "pextends log keys s s1" using s1 by (rule quiet_extends)
    have g: "wp (plift (getReferenceWithVerifier ctx (pb_repository publisher) channel [] (pb_referenceVerifier publisher)))
       (\<lambda>g. wp (let continue = recovery_attempts ctx publisher channel initial target n in
             case g of
               Inl getErr \<Rightarrow>
                 if errors_Is getErr ErrObjectNotFound then
                   (if pi_Base pending \<noteq> None then throw [ErrRollbackDetected]
                    else retry_reference ctx publisher channel initial target None state revision pending continue)
                 else throw (ErrPublishIndeterminate # getErr)
             | Inr (reference, object) \<Rightarrow>
                 resolve_remote ctx publisher channel initial target state revision pending reference object continue)
         (\<lambda>_. pextends log keys s)) s1" if "ps_Pending state = Some pending" for pending
      unfolding Let_def
      by (rule within_wp [OF quiet_lift [OF getReference_quiet]], rule step [OF quiet_trans [OF s1]]) (use that p in simp_all)
    show "wp (case c of Some e \<Rightarrow> throw (ErrPublishIndeterminate # e)
     | None \<Rightarrow> (case ps_Pending state of
         None \<Rightarrow> plift (classifyResolvedPublication ctx publisher channel initial (ps_Committed state))
       | Some pending \<Rightarrow>
           if \<not> equalPublicationIntentSemantics (Some initial) (Some pending) then throw [ErrPublishConflict]
           else do {
             g \<leftarrow> plift (getReferenceWithVerifier ctx (pb_repository publisher) channel [] (pb_referenceVerifier publisher));
             let continue = recovery_attempts ctx publisher channel initial target n in
             case g of
               Inl getErr \<Rightarrow>
                 if errors_Is getErr ErrObjectNotFound then
                   (if pi_Base pending \<noteq> None then throw [ErrRollbackDetected]
                    else retry_reference ctx publisher channel initial target None state revision pending continue)
                 else throw (ErrPublishIndeterminate # getErr)
             | Inr (reference, object) \<Rightarrow>
                 resolve_remote ctx publisher channel initial target state revision pending reference object continue }))
       (\<lambda>_. pextends log keys s) s1"
      using g x extends_quiet_wp [OF quiet_lift [OF classifyResolved_quiet] x]
      by (auto simp: wp_option wp_if wp_bind [of "plift (getReferenceWithVerifier _ _ _ _ _)"])
  qed
  then show ?case unfolding continues_def by blast
qed

lemma recoverPublication_extends:
  assumes "pending_reference state \<subseteq> known s"
  shows "wp (recoverPublication ctx publisher channel state revision) (\<lambda>_. pextends log keys s) s"
proof -
  have "wp (plift (validatePendingPublication publisher channel initial)) (\<lambda>t. wp (ok t (\<lambda>target.
      recovery_attempts ctx publisher channel initial target publicationRecoveryAttempts state revision plain_error))
      (\<lambda>_. pextends log keys s)) s" for initial
  proof (rule within_wp [OF quiet_lift [OF validatePending_quiet]])
    fix t :: "err + Snapshot" and s1 assume s1: "pquiet log s s1"
    have x: "pextends log keys s s1" using s1 by (rule quiet_extends)
    have "pending_reference state \<subseteq> known s1" using assms known_mono [OF s1] by simp
    then have "wp (recovery_attempts ctx publisher channel initial target publicationRecoveryAttempts state revision plain_error)
        (\<lambda>_. pextends log keys s1) s1" for target
      using recovery_attempts_continues unfolding continues_def by blast
    then have "wp (recovery_attempts ctx publisher channel initial target publicationRecoveryAttempts state revision plain_error)
        (\<lambda>_. pextends log keys s) s1" for target
      by (rule wp_conseq) (rule extends_trans [OF x])
    then show "wp (ok t (\<lambda>target.
        recovery_attempts ctx publisher channel initial target publicationRecoveryAttempts state revision plain_error))
        (\<lambda>_. pextends log keys s) s1"
      using x by (simp add: wp_ok)
  qed
  then show ?thesis unfolding recoverPublication_def by (simp add: wp_option wp_bind)
qed


lemma prepare_extends: "Xp (preparePublicationJournal ctx publisher channel)"
proof -
  have "wp (preparePublicationJournal ctx publisher channel) (\<lambda>_. pextends log keys s) s" for s
    unfolding preparePublicationJournal_def wp_bind [of "loadOrInitializePublicationJournal _ _ _"]
  proof (rule wp_conseq [OF loadOrInitialize_reports])
    fix l s1 assume l: "reports s l s1"
    then have x: "pextends log keys s s1" by (auto simp: reports_def intro: quiet_extends)
    have fin: "Qp (ok r (\<lambda>_. do {
           l \<leftarrow> loadPublicationJournal ctx publisher channel;
           ok l (\<lambda>found. case found of None \<Rightarrow> throw [ErrPublishIndeterminate]
             | Some (state, revision) \<Rightarrow> if ps_Pending state \<noteq> None then throw [ErrPublishIndeterminate]
                 else return (Inr (state, revision))) }))" for r :: "err + PublicationRecovery"
      by (intro qp.within_rules loadPublicationJournal_quiet)
    have rec: "wp (recoverPublication ctx publisher channel state revision) (\<lambda>r. wp (ok r (\<lambda>_. do {
           l \<leftarrow> loadPublicationJournal ctx publisher channel;
           ok l (\<lambda>found. case found of None \<Rightarrow> throw [ErrPublishIndeterminate]
             | Some (state, revision) \<Rightarrow> if ps_Pending state \<noteq> None then throw [ErrPublishIndeterminate]
                 else return (Inr (state, revision))) })) (\<lambda>_. pextends log keys s)) s1"
      if "l = Inr (state, revision)" for state revision
      by (rule wp_conseq [OF recoverPublication_extends], use l that in simp, rule extends_quiet_wp [OF fin]) (rule extends_trans [OF x])
    show "wp (ok l (\<lambda>(state, revision). if ps_Pending state = None then return (Inr (state, revision))
       else do {
         r \<leftarrow> recoverPublication ctx publisher channel state revision;
         ok r (\<lambda>_. do {
           l \<leftarrow> loadPublicationJournal ctx publisher channel;
           ok l (\<lambda>found. case found of None \<Rightarrow> throw [ErrPublishIndeterminate]
             | Some (state, revision) \<Rightarrow> if ps_Pending state \<noteq> None then throw [ErrPublishIndeterminate]
                 else return (Inr (state, revision))) }) })) (\<lambda>_. pextends log keys s) s1"
      using x rec by (auto simp: wp_ok wp_if wp_bind [of "recoverPublication _ _ _ _ _"] split: prod.splits)
  qed
  then show ?thesis by (simp add: within_def)
qed

lemma RecoverPublication_extends: "Xp (RecoverPublication ctx publisher channel)"
proof -
  have "wp (loadOrInitializePublicationJournal ctx publisher channel) (\<lambda>l. wp (ok l (\<lambda>(state, revision). case ps_Pending state of
          None \<Rightarrow> do {
            r \<leftarrow> (case ps_Committed state of None \<Rightarrow> return (Inr zero_snapshot)
                 | Some committed \<Rightarrow> plift (snapshotForPublicationWatermark publisher committed));
            ok r (\<lambda>current. return (Inr \<lparr>pr_Outcome = PublicationRecoveryNone, pr_IntentID = 0, pr_Current = current\<rparr>)) }
        | Some _ \<Rightarrow> recoverPublication ctx publisher channel state revision)) (\<lambda>_. pextends log keys s)) s" for s
  proof (rule wp_conseq [OF loadOrInitialize_reports])
    fix l s1 assume l: "reports s l s1"
    then have x: "pextends log keys s s1" by (auto simp: reports_def intro: quiet_extends)
    have 1: "Qp (do {
            r \<leftarrow> (case ps_Committed state of None \<Rightarrow> return (Inr zero_snapshot)
                 | Some committed \<Rightarrow> plift (snapshotForPublicationWatermark publisher committed));
            ok r (\<lambda>current. return (Inr \<lparr>pr_Outcome = PublicationRecoveryNone, pr_IntentID = 0, pr_Current = current\<rparr>)) })" for state
      by (intro qp.within_rules quiet_lift snapshotForPublicationWatermark_quiet)
    have 2: "wp (recoverPublication ctx publisher channel state revision) (\<lambda>_. pextends log keys s) s1"
      if "l = Inr (state, revision)" for state revision
      by (rule wp_conseq [OF recoverPublication_extends], use l that in simp) (rule extends_trans [OF x])
    show "wp (ok l (\<lambda>(state, revision). case ps_Pending state of
          None \<Rightarrow> do {
            r \<leftarrow> (case ps_Committed state of None \<Rightarrow> return (Inr zero_snapshot)
                 | Some committed \<Rightarrow> plift (snapshotForPublicationWatermark publisher committed));
            ok r (\<lambda>current. return (Inr \<lparr>pr_Outcome = PublicationRecoveryNone, pr_IntentID = 0, pr_Current = current\<rparr>)) }
        | Some _ \<Rightarrow> recoverPublication ctx publisher channel state revision)) (\<lambda>_. pextends log keys s) s1"
      using x 2 extends_quiet_wp [OF 1 x] by (auto simp: wp_ok wp_option split: prod.splits)
  qed
  then show ?thesis unfolding RecoverPublication_def within_def by (simp add: wp_if wp_check wp_bind)
qed

lemma commitSigned_extends: "Xp (commitSignedPublication ctx publisher staged)"
  unfolding commitSignedPublication_def
  by (intro xp.within_rules quiet_within_extends [OF begin_publication_quiet] RecoverPublication_extends
      quiet_within_extends [OF commit_resolved_quiet])

definition staged_ok :: "StagedSnapshot \<Rightarrow> bool" where
  "staged_ok staged \<longleftrightarrow> (pb_referenceVerifier publisher \<noteq> None \<longrightarrow> st_unchanged staged \<or> st_publicationIntent staged \<noteq> None)"

lemma reference_key_unsigned: "ReferenceKey r c \<noteq> SignedReferenceKey r c'"
  by (simp add: ReferenceKey_def SignedReferenceKey_def repository_key_def Let_def)

lemma commit_walk_quiet: "Qw (commit_walk ctx publisher target generation digest)"
proof (induction "unat generation" arbitrary: generation digest rule: less_induct)
  case less
  show ?case
    unfolding commit_walk.simps [of ctx publisher target generation]
    by (intro qw.within_rules env_quiet repository_quiet less) simp
qed

lemma reconcileCommit_quiet: "Qw (reconcileCommit ctx publisher staged)"
  unfolding reconcileCommit_def Let_def by (intro qw.within_rules repository_quiet commit_walk_quiet)

lemma Commit_extends:
  assumes "staged_ok staged"
  shows "Xp (Commit ctx publisher staged)"
proof -
  have 1: "Qw (commit_unchanged ctx publisher staged)"
    unfolding commit_unchanged_def by (intro qw.within_rules repository_quiet)
  have 2: "Xp (plift (commit_unsigned ctx publisher staged))" if "pb_referenceVerifier publisher = None"
    unfolding within_def
  proof
    fix s :: "'w pub"
    let ?w = "pb_world s"
    have rest: "Qw (case c of Inr _ \<Rightarrow> finishCommitted staged
       | Inl casErr \<Rightarrow> do {
         (outcome, reconcileErr) \<leftarrow> reconcileCommit ctx publisher staged;
         case outcome of commitApplied \<Rightarrow> finishCommitted staged
         | commitRejected \<Rightarrow> throw [ErrPublishConflict]
         | commitUnknown \<Rightarrow> throw (indeterminatePublishError casErr reconcileErr) })" for c :: "err + Version"
      unfolding finishCommitted_def by (intro qw.within_rules reconcileCommit_quiet)
    have "wp (compareAndSwap (pb_repository publisher) (referenceKey publisher (st_channel staged)) (st_expected staged) (st_referenceData staged))
        (\<lambda>_. extends log keys ?w) ?w"
      by (rule compareAndSwap_extends) (use that in \<open>auto simp: referenceKey_def reference_key_unsigned\<close>)
    then have "wp (commit_unsigned ctx publisher staged) (\<lambda>_. extends log keys ?w) ?w"
      unfolding commit_unsigned_def wp_bind [of "compareAndSwap _ _ _ _"]
      by (rule wp_conseq) (rule within_wp [OF rest], erule extends_trans, erule quiet_extends)
    then show "wp (plift (commit_unsigned ctx publisher staged)) (\<lambda>_. pextends log keys s) s" by (simp add: wp_plift)
  qed
  show ?thesis
    using 2 assms unfolding Commit_def staged_ok_def
    by (intro xp.within_rules quiet_within_extends [OF quiet_lift [OF 1]] commitSigned_extends) auto
qed

lemma Resign_extends: "Xp (ResignReference ctx publisher channel)"
  unfolding ResignReference_def resign_current_def Let_def
  by (intro xp.within_rules prepare_extends quiet_within_extends [OF quiet_lift] quiet_within_extends [OF acceptObserved_quiet]
      repository_quiet commitSigned_extends)

lemma read_base_extends: "Xp (read_base ctx publisher channel)"
  unfolding read_base_def
  by (intro xp.within_rules prepare_extends quiet_within_extends [OF quiet_lift] quiet_within_extends [OF acceptObserved_quiet]
      repository_quiet)

lemma stage_extends: "Xp (stage ctx fs publisher source channel selection)"
  unfolding stage_def
  by (intro xp.within_rules read_base_extends quiet_within_extends [OF quiet_lift] quiet_within_extends [OF stage_scan_quiet]
      env_quiet root_identity_quiet)

lemma StageSelected_extends: "Xp (StageSelected ctx fs publisher source channel paths)"
  unfolding StageSelected_def by (intro xp.within_rules quiet_within_extends [OF quiet_lift] newPathSelection_quiet stage_extends)

end

subsection \<open>What staging returns\<close>

lemma returns_plift: "returns P m \<Longrightarrow> returns P (plift m)"
  by (simp add: returns_def wp_plift)

lemma stage_new_returns:
  "returns (\<lambda>st. pb_referenceVerifier publisher \<noteq> None \<longrightarrow> st_publicationIntent st \<noteq> None) (stage_new publisher channel base rootDigest staged)"
  unfolding stage_new_def Let_def
  by (intro returns_bind returns_ok returns_if returns_check returns_throw returns_return) simp_all

lemma stage_commit_returns:
  "returns (\<lambda>st. pb_referenceVerifier publisher \<noteq> None \<longrightarrow> st_unchanged st \<or> st_publicationIntent st \<noteq> None)
    (stage_commit publisher channel base rootDigest)"
  unfolding stage_commit_def Let_def
  by (auto split: option.splits intro!: returns_return stage_new_returns [THEN returns_conseq])

lemma stage_returns:
  "returns (\<lambda>st. pb_referenceVerifier publisher \<noteq> None \<longrightarrow> st_unchanged st \<or> st_publicationIntent st \<noteq> None)
    (stage ctx fs publisher source channel selection)"
  unfolding stage_def stage_scan_def
  by (intro returns_bind returns_keep returns_ok returns_if returns_check returns_throw returns_plift stage_commit_returns)

lemma StageSelected_returns:
  "returns (\<lambda>st. pb_referenceVerifier publisher \<noteq> None \<longrightarrow> st_unchanged st \<or> st_publicationIntent st \<noteq> None)
    (StageSelected ctx fs publisher source channel paths)"
  unfolding StageSelected_def by (intro returns_bind returns_ok stage_returns)

context observed_publisher
begin

lemma staged_then:
  assumes "Xp m" "returns staged_ok m"
  shows "Xp (do { s \<leftarrow> m; ok s (Commit ctx publisher) })"
proof -
  have "wp m (\<lambda>r. wp (ok r (Commit ctx publisher)) (\<lambda>_. pextends log keys s)) s" for s
  proof (rule wp_op)
    fix r s1 assume m: "run_state m s = (r, s1)"
    have x: "pextends log keys s s1" using withinD [OF assms(1) m] .
    have "staged_ok st" if "r = Inr st" for st
      using returnsD [OF assms(2)] m that by blast
    then have "Xp (ok r (Commit ctx publisher))" by (cases r) (auto intro: xp.within_rules Commit_extends)
    then show "wp (ok r (Commit ctx publisher)) (\<lambda>_. pextends log keys s) s1"
      by (rule within_wp) (rule extends_trans [OF x])
  qed
  then show ?thesis by (simp add: within_def wp_bind)
qed

lemma stage_staged: "returns staged_ok (stage ctx fs publisher source channel selection)"
  using stage_returns unfolding staged_ok_def .

lemma StageSelected_staged: "returns staged_ok (StageSelected ctx fs publisher source channel paths)"
  using StageSelected_returns unfolding staged_ok_def .

lemma Publish_extends: "Xp (Publish ctx fs publisher source channel)"
  unfolding Publish_def Stage_def by (rule staged_then [OF stage_extends stage_staged])

lemma PublishSelected_extends: "Xp (PublishSelected ctx fs publisher source channel paths)"
  unfolding PublishSelected_def by (rule staged_then [OF StageSelected_extends StageSelected_staged])

end

subsection \<open>The log\<close>

text \<open>
  Any environment, with a log beside its state. Every operation runs as it is; a swap of the store and what the
  journal reports are noted after it.
\<close>

definition log_op :: "('a \<Rightarrow> event list) \<Rightarrow> ('w, 'a) state \<Rightarrow> ('w \<times> event list, 'a) state" where
  "log_op events m = State (\<lambda>(w, l). case run_state m w of (a, w') \<Rightarrow> (a, (w', l @ events a)))"

abbreviation silent :: "('w, 'a) state \<Rightarrow> ('w \<times> event list, 'a) state" where
  "silent \<equiv> log_op (\<lambda>_. [])"

definition log_reader :: "'w ObjectReader \<Rightarrow> ('w \<times> event list) ObjectReader" where
  "log_reader reader = \<lparr>Get = (\<lambda>key options. silent (Get reader key options))\<rparr>"

definition log_store :: "'w Store \<Rightarrow> ('w \<times> event list) Store" where
  "log_store st = \<lparr>store_Get = (\<lambda>key options. silent (store_Get st key options)), store_Head = (\<lambda>key. silent (store_Head st key)),
     store_PutIfAbsent = (\<lambda>key data. silent (store_PutIfAbsent st key data)),
     store_CompareAndSwap = (\<lambda>key expected data. log_op (\<lambda>_. [Exposed key data]) (store_CompareAndSwap st key expected data))\<rparr>"

definition log_repository :: "'w Repository \<Rightarrow> ('w \<times> event list) Repository" where
  "log_repository r = \<lparr>rp_reader = log_reader (rp_reader r), rp_store = map_option log_store (rp_store r), rp_prefix = rp_prefix r,
     rp_clientEncryption = rp_clientEncryption r, rp_descriptor = rp_descriptor r\<rparr>"

definition pending_event :: "PublicationJournalState \<Rightarrow> event list" where
  "pending_event state = (case ps_Pending state of None \<Rightarrow> [] | Some i \<Rightarrow> [Recorded (pi_Reference i)])"

definition log_journal :: "'w PublicationJournalStore \<Rightarrow> ('w \<times> event list) PublicationJournalStore" where
  "log_journal js = \<lparr>
     pj_Load = (\<lambda>channel. log_op (\<lambda>r. case r of Inr (Some (state, _)) \<Rightarrow> pending_event state | _ \<Rightarrow> []) (pj_Load js channel)),
     pj_CompareAndSwap = (\<lambda>channel expected state.
       log_op (\<lambda>r. case r of Inr _ \<Rightarrow> pending_event state | Inl _ \<Rightarrow> []) (pj_CompareAndSwap js channel expected state))\<rparr>"

definition log_verifier :: "'w ReferenceVerifier \<Rightarrow> ('w \<times> event list) ReferenceVerifier" where
  "log_verifier v = \<lparr>rv_RepositoryID = rv_RepositoryID v, rv_Verify = (\<lambda>keyID message signature. silent (rv_Verify v keyID message signature))\<rparr>"

definition log_signer :: "'w ReferenceSigner \<Rightarrow> ('w \<times> event list) ReferenceSigner" where
  "log_signer s = \<lparr>sg_RepositoryID = sg_RepositoryID s, sg_KeyID = sg_KeyID s, sg_Sign = (\<lambda>message. silent (sg_Sign s message))\<rparr>"

definition log_publisher :: "'w Publisher \<Rightarrow> ('w \<times> event list) Publisher" where
  "log_publisher p = \<lparr>pb_address = pb_address p, pb_repository = log_repository (pb_repository p), pb_chunking = pb_chunking p,
     pb_stableReadTries = pb_stableReadTries p, pb_symlinks = pb_symlinks p, pb_protectedSourceFiles = pb_protectedSourceFiles p,
     pb_now = silent (pb_now p), pb_referenceSigner = map_option log_signer (pb_referenceSigner p),
     pb_referenceVerifier = map_option log_verifier (pb_referenceVerifier p),
     pb_publicationJournal = map_option log_journal (pb_publicationJournal p),
     pb_trustedCheckpoint = pb_trustedCheckpoint p, pb_allowTrustOnFirstUse = pb_allowTrustOnFirstUse p\<rparr>"

definition log_fs :: "'w SourceFS \<Rightarrow> ('w \<times> event list) SourceFS" where
  "log_fs fs = \<lparr>fs_Abs = (\<lambda>p. silent (fs_Abs fs p)), os_Lstat = (\<lambda>p. silent (os_Lstat fs p)), os_Open = (\<lambda>p. silent (os_Open fs p)),
     os_OpenRoot = (\<lambda>p. silent (os_OpenRoot fs p)), root_Open = (\<lambda>h p. silent (root_Open fs h p)),
     root_Lstat = (\<lambda>h p. silent (root_Lstat fs h p)), root_Stat = (\<lambda>h p. silent (root_Stat fs h p)),
     root_Readlink = (\<lambda>h p. silent (root_Readlink fs h p)), root_Close = (\<lambda>h. silent (root_Close fs h)),
     file_Stat = (\<lambda>h. silent (file_Stat fs h)), file_ReadDir = (\<lambda>h n. silent (file_ReadDir fs h n)),
     file_Close = (\<lambda>h. silent (file_Close fs h)), chunker_New = (\<lambda>h c. silent (chunker_New fs h c)),
     chunker_Next = (\<lambda>h. silent (chunker_Next fs h)), chunker_deg = chunker_deg fs, chunker_irreducible = chunker_irreducible fs\<rparr>"

lemma run_log_op: "run_state (log_op events m) s = (a, s') \<Longrightarrow> snd s' = snd s @ events a"
  by (auto simp: log_op_def split: prod.splits)

lemma silent_quiet: "within (quiet snd) (silent m)"
  by (rule withinI) (use run_log_op in \<open>fastforce simp: quiet_def intro: exI [of _ "[]"]\<close>)

lemma pending_event_recorded: "pending_event state = map Recorded (case ps_Pending state of None \<Rightarrow> [] | Some i \<Rightarrow> [pi_Reference i])"
  by (simp add: pending_event_def split: option.split)

lemma recorded_pending [simp]: "recorded_in (pending_event state) = pending_reference state"
  by (simp add: pending_event_def pending_reference_def split: option.split)

lemma quiet_same: "snd s' = snd s \<Longrightarrow> quiet snd s s'"
  unfolding quiet_def by (rule exI [of _ "[]"]) simp

lemma quiet_pending: "snd s' = snd s @ pending_event state \<Longrightarrow> quiet snd s s'"
  unfolding quiet_def pending_event_recorded by blast

interpretation logged: observed_publisher snd "silent ctx" "log_fs fs" "log_publisher publisher"
  for ctx :: "'w ctx" and fs :: "'w SourceFS" and publisher :: "'w Publisher"
proof unfold_locales
  fix js channel and w w' :: "'w \<times> event list"
    and r :: "err + (PublicationJournalState \<times> PublicationJournalRevision) option"
  assume js: "pb_publicationJournal (log_publisher publisher) = Some js" and run: "run_state (pj_Load js channel) w = (r, w')"
  then have "snd w' = snd w @ (case r of Inr (Some (state, _)) \<Rightarrow> pending_event state | _ \<Rightarrow> [])"
    by (auto simp: log_publisher_def log_journal_def dest: run_log_op)
  then show "quiet snd w w' \<and> (\<forall>state revision. r = Inr (Some (state, revision)) \<longrightarrow> pending_reference state \<subseteq> recorded_in (snd w'))"
    by (auto intro: quiet_pending quiet_same split: sum.splits option.splits prod.splits)
next
  fix st key expected data v and w w' :: "'w \<times> event list"
  assume "rp_store (pb_repository (log_publisher publisher)) = Some st" "run_state (store_CompareAndSwap st key expected data) w = (v, w')"
  then show "snd w' = snd w @ [Exposed key data]"
    by (auto simp del: split_paired_All simp: log_publisher_def log_repository_def log_store_def dest!: run_log_op)
next
  fix js channel expected' state' and w w' :: "'w \<times> event list" and r' :: "err + PublicationJournalRevision"
  assume js: "pb_publicationJournal (log_publisher publisher) = Some js"
    and run: "run_state (pj_CompareAndSwap js channel expected' state') w = (r', w')"
  then have "snd w' = snd w @ (case r' of Inr _ \<Rightarrow> pending_event state' | Inl _ \<Rightarrow> [])"
    by (auto simp: log_publisher_def log_journal_def dest: run_log_op)
  then show "quiet snd w w' \<and> (\<forall>revision. r' = Inr revision \<longrightarrow> pending_reference state' \<subseteq> recorded_in (snd w'))"
    by (auto intro: quiet_pending quiet_same split: sum.splits)
qed (auto simp: log_publisher_def log_repository_def log_reader_def log_store_def log_verifier_def log_signer_def log_fs_def
     intro: silent_quiet dest: run_log_op)

lemma log_keys: "SignedReferenceKey (pb_repository (log_publisher p)) = SignedReferenceKey (pb_repository p)"
  by (auto simp: SignedReferenceKey_def repository_key_def log_publisher_def log_repository_def Let_def)

subsection \<open>Calls\<close>

text \<open>
  What a program does with a publisher: the public operations in any order, a staged snapshot committed at any
  time and any number of times, and the process started again, which forgets all but the environment.
\<close>

datatype call = CallStage bytes bytes | CallStageSelected bytes bytes "bytes list" | CallCommit nat
  | CallPublish bytes bytes | CallPublishSelected bytes bytes "bytes list"
  | CallRecoverPublication bytes | CallResignReference bytes | Restart "bytes list"

definition stage_result :: "err + StagedSnapshot \<Rightarrow> StagedSnapshot list" where
  "stage_result r = (case r of Inr staged \<Rightarrow> [staged] | Inl _ \<Rightarrow> [])"

fun perform :: "'w ctx \<Rightarrow> 'w SourceFS \<Rightarrow> 'w Publisher \<Rightarrow> call \<Rightarrow> 'w pub \<times> StagedSnapshot list \<Rightarrow> 'w pub \<times> StagedSnapshot list" where
  "perform ctx fs p (CallStage source channel) (s, staged) =
     (case run_state (Stage ctx fs p source channel) s of (r, s') \<Rightarrow> (s', staged @ stage_result r))"
| "perform ctx fs p (CallStageSelected source channel paths) (s, staged) =
     (case run_state (StageSelected ctx fs p source channel paths) s of (r, s') \<Rightarrow> (s', staged @ stage_result r))"
| "perform ctx fs p (CallCommit k) (s, staged) =
     (if k < length staged then snd (run_state (Commit ctx p (staged ! k)) s) else s, staged)"
| "perform ctx fs p (CallPublish source channel) (s, staged) = (snd (run_state (Publish ctx fs p source channel) s), staged)"
| "perform ctx fs p (CallPublishSelected source channel paths) (s, staged) =
     (snd (run_state (PublishSelected ctx fs p source channel paths) s), staged)"
| "perform ctx fs p (CallRecoverPublication channel) (s, staged) = (snd (run_state (RecoverPublication ctx p channel) s), staged)"
| "perform ctx fs p (CallResignReference channel) (s, staged) = (snd (run_state (ResignReference ctx p channel) s), staged)"
| "perform ctx fs p (Restart seen) (s, staged) = (new_pub (pb_world s) (\<lambda>path. path \<in> set seen), [])"

context observed_publisher
begin

definition good :: "'w pub \<times> StagedSnapshot list \<Rightarrow> bool" where
  "good = (\<lambda>(s, staged). write_ahead keys {} (log (pb_world s)) \<and> (\<forall>st \<in> set staged. staged_ok st))"

lemma good_step: "\<lbrakk>Xp m; write_ahead keys {} (log (pb_world s))\<rbrakk> \<Longrightarrow> write_ahead keys {} (log (pb_world (snd (run_state m s))))"
  by (cases "run_state m s") (auto dest: withinD simp: extends_def)

lemma good_staged: "\<lbrakk>returns staged_ok m; st \<in> set (stage_result (fst (run_state m s)))\<rbrakk> \<Longrightarrow> staged_ok st"
  by (cases "run_state m s") (auto simp: stage_result_def dest: returnsD split: sum.splits)

lemma perform_good: "good c \<Longrightarrow> good (perform ctx fs publisher call' c)"
  by (cases "(ctx, fs, publisher, call', c)" rule: perform.cases)
    (auto simp: good_def Stage_def new_pub_def split_beta set_append
       intro!: good_step stage_extends StageSelected_extends Commit_extends Publish_extends PublishSelected_extends
         RecoverPublication_extends Resign_extends
       intro: good_staged [OF stage_staged] good_staged [OF StageSelected_staged])

lemma performs_good: "good c \<Longrightarrow> good (fold (perform ctx fs publisher) calls c)"
  by (induction calls arbitrary: c) (simp_all add: perform_good)

end

text \<open>
  C8. Write-ahead. Whatever the object store, the journal, the signer, the verifier, the clock, the file system
  and the caller's context do, and whatever sequence of operations is performed on a publisher, restarts
  included: the publisher never asks the store to put bytes under a signed reference key unless the journal
  had reported before, when it was loaded or written, that it holds exactly these bytes as the pending
  reference. A crash at any moment therefore leaves every reference that may have become visible in the journal.
\<close>

theorem references_recorded_first:
  "write_ahead (range (SignedReferenceKey (pb_repository publisher))) {}
     (snd (pb_world (fst (fold (perform (silent ctx) (log_fs fs) (log_publisher publisher)) calls
       (new_pub (world, []) seen, [])))))"
  using logged.performs_good [where ctx = ctx and fs = fs and publisher = publisher and calls = calls and c = "(new_pub (world, []) seen, [])"]
  by (simp add: logged.good_def log_keys new_pub_def split: prod.splits)

end
