(* ===== verification/Published_Tree.thy ===== *)
theory Published_Tree
  imports Write_Ahead
begin

section \<open>What a publisher stages, a consumer can read\<close>

text \<open>
  The tree a publisher uploads, checked with the validators of the consumer. \<open>readable\<close> is the type of a node: its
  manifest survives the encoder and the strict decoder, passes the validation of its kind, has the size its parent
  records, and its children are readable. The file system and the chunker are constrained only by what their
  packages document, the locale \<open>source_env\<close>.

  The validators refuse the digest 0, which no check of the publisher excludes: an object whose SHA-256 is zero
  would be published and refused. The conditions on digests below say exactly that.
\<close>

lemma returns_op: "(\<And>a s s'. run_state m s = (a, s') \<Longrightarrow> returns P (f a)) \<Longrightarrow> returns P (State_Monad.bind m f)"
  unfolding returns_def wp_bind by (blast intro: wp_op)

lemma returns_after:
  assumes "returns P m" "\<And>r. (\<And>x. r = Inr x \<Longrightarrow> P x) \<Longrightarrow> returns Q (f r)"
  shows "returns Q (State_Monad.bind m f)"
proof (rule returns_op, rule assms(2))
  fix r s s' x assume "run_state m s = (r, s')" "r = Inr x"
  then show "P x" using returnsD [OF assms(1)] by blast
qed

subsection \<open>Readable nodes\<close>

inductive readable :: "(u64 \<Rightarrow> int) \<Rightarrow> (u64 \<Rightarrow> bool) \<Rightarrow> bytes \<Rightarrow> digest \<Rightarrow> int \<Rightarrow> bool"
  for deg :: "u64 \<Rightarrow> int" and irreducible :: "u64 \<Rightarrow> bool" where
  readable_file: "\<lbrakk>data = canonicalJSON fileManifest_to_json m; decodeJSON fileManifest_to_json fileManifest_of_json data = Inr m;
     0 \<notin> cr_Digest ` set (elems (fm_Chunks m)) \<longrightarrow> validateFileManifest deg irreducible m = None;
     \<forall>c \<in> set (elems (fm_Chunks m)). \<exists>chunk. cr_Digest c = digestObject ''chunk'' chunk \<and> cr_Size c = len chunk\<rbrakk>
   \<Longrightarrow> readable deg irreducible EntryFile (digestObject ''file'' data) (fm_Size m)"
| readable_symlink: "\<lbrakk>data = canonicalJSON symlinkManifest_to_json m;
     decodeJSON symlinkManifest_to_json symlinkManifest_of_json data = Inr m; validateSymlinkManifest m = None\<rbrakk>
   \<Longrightarrow> readable deg irreducible EntrySymlink (digestObject ''symlink'' data) (len (elems (sm_Target m)))"
| readable_dir: "\<lbrakk>data = canonicalJSON dirManifest_to_json m; decodeJSON dirManifest_to_json dirManifest_of_json data = Inr m;
     0 \<notin> de_Node ` set (elems (dm_Entries m)) \<longrightarrow> validateDirectoryManifest m = None;
     \<forall>e \<in> set (elems (dm_Entries m)). readable deg irreducible (de_Type e) (de_Node e) (de_Size e)\<rbrakk>
   \<Longrightarrow> readable deg irreducible EntryDir (digestObject ''dir'' data) 0"

definition plain_name :: "bytes \<Rightarrow> bool" where
  "plain_name name \<longleftrightarrow> name \<noteq> ''.'' \<and> name \<noteq> ''..'' \<and> slash \<notin> set name \<and> CHR 0x00 \<notin> set name"

lemma putManifest_returns: "returns (\<lambda>d. d = digestObject kind (canonicalJSON to_json m) \<and> len (canonicalJSON to_json m) \<le> maxMetadataObjectBytes)
   (putManifest repository to_json kind m)"
  unfolding putManifest_def Let_def putImmutable_def with_store_def
  by (intro returns_rules) (auto intro!: returns_return)

lemma putImmutable_returns: "returns (\<lambda>d. d = digestObject kind data) (putImmutable repository kind data)"
  unfolding putImmutable_def Let_def with_store_def
  by (intro returns_rules) (auto intro!: returns_return)

text \<open>A snapshot is readable when its commit can be decoded, is valid for its generation and names a readable root.\<close>

definition snapshot_readable :: "(u64 \<Rightarrow> int) \<Rightarrow> (u64 \<Rightarrow> bool) \<Rightarrow> Snapshot \<Rightarrow> bool" where
  "snapshot_readable deg irreducible snapshot \<longleftrightarrow> readable deg irreducible EntryDir (ss_Root snapshot) 0
     \<and> (\<exists>commit data. data = canonicalJSON commitManifest_to_json commit
          \<and> decodeJSON commitManifest_to_json commitManifest_of_json data = Inr commit
          \<and> ss_Commit snapshot = digestObject ''commit'' data \<and> cm_Root commit = ss_Root snapshot
          \<and> (ss_Root snapshot \<noteq> 0 \<longrightarrow> validateCommitManifest commit (ss_Generation snapshot) = None))"

definition good_base :: "stage_base \<Rightarrow> bool" where
  "good_base base \<longleftrightarrow> (\<forall>current commit object. sb_current base = Some (current, commit, object) \<longrightarrow>
     sr_Generation current \<noteq> 0 \<and> sr_Generation current \<noteq> - 1 \<and> sr_Commit current \<noteq> 0
     \<and> decodeJSON commitManifest_to_json commitManifest_of_json (canonicalJSON commitManifest_to_json commit) = Inr commit
     \<and> sr_Commit current = digestObject ''commit'' (canonicalJSON commitManifest_to_json commit)
     \<and> validateCommitManifest commit (sr_Generation current) = None)"

lemma getReference_returns:
  "returns (\<lambda>(reference, object). sr_Generation reference \<noteq> 0 \<and> sr_Commit reference \<noteq> 0)
    (getReferenceWithVerifier ctx repository channel etag verifier)"
proof -
  have v: "returns (\<lambda>i. si_Generation i \<noteq> 0 \<and> si_Commit i \<noteq> 0) (VerifySnapshotReference ctx data channel verifier)" for data
    unfolding VerifySnapshotReference_def by (intro returns_rules) (auto intro!: returns_return)
  note verify = returns_seq [OF v]
  show ?thesis
    unfolding getReferenceWithVerifier_def Let_def by (intro verify returns_rules) (auto intro!: returns_return)
qed

lemma getCommit_returns:
  "returns (\<lambda>commit. decodeJSON commitManifest_to_json commitManifest_of_json (canonicalJSON commitManifest_to_json commit) = Inr commit
     \<and> digestObject ''commit'' (canonicalJSON commitManifest_to_json commit) = digest) (getCommit publisher digest)"
proof -
  have "returns (\<lambda>data. digestObject ''commit'' data = digest) (getImmutable (pb_repository publisher) ''commit'' digest)"
    unfolding returns_def by (intro allI wp_conseq [OF getImmutable_verified]) simp
  note get = returns_seq [OF this]
  show ?thesis
    unfolding getCommit_def getManifest_def
    by (rule get) (auto simp: returns_def dest: cm.decode_InrD)
qed

lemma read_base_returns: "returns good_base (read_base ctx publisher channel)"
proof -
  have found: "returns good_base (do {
       m \<leftarrow> plift (getCommit publisher (sr_Commit current));
       ok m (\<lambda>commit. check (validateCommitManifest commit (sr_Generation current)) (do {
         a \<leftarrow> (case journal of None \<Rightarrow> return (Inr None)
              | Some (state, revision) \<Rightarrow> do {
                  p \<leftarrow> acceptObservedPublication ctx publisher channel state revision current commit;
                  ok p (\<lambda>journal. return (Inr (Some journal))) });
         ok a (\<lambda>journal. if sr_Generation current = - 1 then throw [ErrGenerationExhausted]
           else return (Inr \<lparr>sb_current = Some (current, commit, object), sb_journal = journal\<rparr>)) })) })"
    if "sr_Generation current \<noteq> 0" "sr_Commit current \<noteq> 0" for current journal object
    by (rule returns_seq [OF returns_plift [OF getCommit_returns]], rule returns_check, rule returns_bind, rule returns_ok, rule returns_if,
        rule returns_throw, rule returns_return) (use that in \<open>auto simp: good_base_def\<close>)
  show ?thesis
    unfolding read_base_def
    by (rule returns_bind, rule returns_ok, rule returns_after [OF returns_plift [OF getReference_returns]], rule returns_sum)
      (auto intro!: returns_if returns_throw returns_return found simp: good_base_def)
qed

lemma stage_commit_readable:
  assumes base: "good_base base" and root': "readable deg irreducible EntryDir rootDigest 0"
  shows "returns (\<lambda>st. snapshot_readable deg irreducible (st_snapshot st)) (stage_commit publisher channel base rootDigest)"
proof -
  have new: "returns (\<lambda>st. snapshot_readable deg irreducible (st_snapshot st)) (stage_new publisher channel base rootDigest staged)" for staged
  proof -
    let ?g = "case sb_current base of None \<Rightarrow> 1 | Some (current, _) \<Rightarrow> sr_Generation current + 1"
    let ?c = "\<lambda>publishedAt. \<lparr>cm_Format = objectFormatVersion, cm_Generation = ?g,
        cm_Parent = (case sb_current base of None \<Rightarrow> None | Some (current, _) \<Rightarrow> Some (sr_Commit current)), cm_Root = rootDigest,
        cm_PublishedAtUnix = wrap64 publishedAt, cm_ResetChanges = True\<rparr>"
    have v: "rootDigest \<noteq> 0 \<longrightarrow> validateCommitManifest (?c t) ?g = None" for t
      using base by (auto simp: validateCommitManifest_def good_base_def split: option.splits)
    have "wf_commitManifest (?c t)" for t
      by (simp add: wf_commitManifest_def objectFormatVersion_def is_int64_def [of 1] maxInt64_def)
    then have d: "len (canonicalJSON commitManifest_to_json (?c t)) \<le> maxMetadataObjectBytes \<Longrightarrow>
        decodeJSON commitManifest_to_json commitManifest_of_json (canonicalJSON commitManifest_to_json (?c t)) = Inr (?c t)" for t
      by (rule cm.decode_canonical)
    have r: "snapshot_readable deg irreducible \<lparr>ss_Generation = ?g, ss_Commit = digestObject ''commit'' (canonicalJSON commitManifest_to_json (?c t)),
        ss_Root = rootDigest, ss_PublishedAt = t\<rparr>" if "len (canonicalJSON commitManifest_to_json (?c t)) \<le> maxMetadataObjectBytes" for t
      unfolding snapshot_readable_def using root' v [of t] d [OF that] by (intro conjI exI [of _ "?c t"] exI) auto
    show ?thesis
      unfolding stage_new_def Let_def
      by (intro returns_seq [OF putManifest_returns] returns_rules) (auto intro!: returns_return r)
  qed
  show ?thesis
    unfolding stage_commit_def Let_def
    by (intro returns_rules new returns_return)
      (use root' base in \<open>auto simp: snapshot_readable_def good_base_def\<close>)
qed

subsection \<open>The layout of the chunks\<close>

lemma tiles_append: "tiles offset (refs @ [c]) sz \<longleftrightarrow> (\<exists>mid. tiles offset refs mid \<and> cr_Offset c = mid \<and> 0 < cr_Size c \<and> mid + cr_Size c = sz)"
  by (induction offset refs sz rule: tiles.induct) auto

definition good_refs :: "int \<Rightarrow> chunkRef list \<Rightarrow> int \<Rightarrow> bool" where
  "good_refs maxSize refs offset \<longleftrightarrow> tiles 0 refs offset \<and> length refs \<le> maxFileChunks \<and> offset \<le> int (length refs) * maxSize
     \<and> (\<forall>c \<in> set refs. cr_Size c \<le> maxSize \<and> (\<exists>chunk. cr_Digest c = digestObject ''chunk'' chunk \<and> cr_Size c = len chunk)
          \<and> wf_chunkRef c)"

lemma normalized_max:
  assumes "ChunkingOptions_normalized deg irreducible options = Inr options"
  shows "0 < co_MaxSize options" "co_MaxSize options \<le> maxChunkObjectBytes"
    "is_int64 (co_MinSize options)" "is_int64 (co_AverageSize options)" "is_int64 (co_MaxSize options)"
  using normalized_Inr [OF assms] by (auto simp: maxChunkObjectBytes_def is_int64_def maxInt64_def)

lemma offset_bound:
  assumes "good_refs maxSize refs offset" "maxSize \<le> maxChunkObjectBytes" "0 < maxSize"
  shows "0 \<le> offset" "offset \<le> maxRepresentableFileBytes" "is_int64 offset"
proof -
  show 0: "0 \<le> offset" using assms(1) tiles_le by (auto simp: good_refs_def)
  have "int (length refs) * maxSize \<le> int maxFileChunks * maxChunkObjectBytes"
    using assms by (intro mult_mono) (auto simp: good_refs_def)
  then show 1: "offset \<le> maxRepresentableFileBytes"
    using assms(1) by (simp add: good_refs_def maxRepresentableFileBytes_def)
  then show "is_int64 offset"
    using 0 by (simp add: is_int64_def maxInt64_def maxRepresentableFileBytes_def maxFileChunks_def maxChunkObjectBytes_def)
qed

lemma good_refs_add:
  assumes g: "good_refs maxSize refs offset" and m: "maxSize \<le> maxChunkObjectBytes" "0 < maxSize"
    and d: "data \<noteq> []" "len data \<le> maxSize" and n: "length refs < maxFileChunks"
  shows "good_refs maxSize (refs @ [\<lparr>cr_Offset = offset, cr_Size = len data, cr_Digest = digestObject ''chunk'' data\<rparr>])
    (wrap64 (offset + len data))"
proof -
  have o: "offset + len data \<le> int (length refs + 1) * maxSize"
    using g d by (simp add: good_refs_def algebra_simps)
  have "int (length refs + 1) * maxSize \<le> int maxFileChunks * maxChunkObjectBytes"
    using m n by (intro mult_mono) auto
  then have "is_int64 (offset + len data)"
    using o offset_bound(1) [OF g m] d
    by (simp add: is_int64_def maxInt64_def maxFileChunks_def maxChunkObjectBytes_def)
  moreover have "is_int64 (len data)"
    using m d by (simp add: is_int64_def maxInt64_def maxChunkObjectBytes_def)
  ultimately show ?thesis
    using g d n o offset_bound(3) [OF g m] by (auto simp: good_refs_def tiles_append wf_chunkRef_def algebra_simps)
qed

lemma file_manifest_readable:
  assumes g: "good_refs (co_MaxSize (pb_chunking publisher)) refs offset"
    and n: "ChunkingOptions_normalized deg irreducible (pb_chunking publisher) = Inr (pb_chunking publisher)"
    and l: "len (canonicalJSON fileManifest_to_json (file_manifest publisher refs offset)) \<le> maxMetadataObjectBytes"
  shows "readable deg irreducible EntryFile (digestObject ''file'' (canonicalJSON fileManifest_to_json (file_manifest publisher refs offset))) offset"
proof -
  note b = normalized_max [OF n]
  note o = offset_bound [OF g b(2,1)]
  let ?m = "file_manifest publisher refs offset"
  have "wf_fileManifest ?m"
    using b o g by (auto simp: wf_fileManifest_def file_manifest_def Let_def objectFormatVersion_def is_int64_def maxInt64_def
        good_refs_def utf8_valid.simps rune_len_def)
  then have d: "decodeJSON fileManifest_to_json fileManifest_of_json (canonicalJSON fileManifest_to_json ?m) = Inr ?m"
    using l by (rule fm.decode_canonical)
  have p: "manifest_profile ?m = pb_chunking publisher"
    by (simp add: manifest_profile_def file_manifest_def Let_def)
  have v: "validateFileManifest deg irreducible ?m = None" if "0 \<notin> cr_Digest ` set refs"
  proof -
    have "chunk_layout (co_MaxSize (pb_chunking publisher)) offset 0 refs = None"
      using chunk_layout_iff [of 0 offset "co_MaxSize (pb_chunking publisher)" refs] o b(2) g that
      by (fastforce simp: good_refs_def image_iff)
    then show ?thesis
      using p n g o by (simp add: validateFileManifest_def file_manifest_def Let_def good_refs_def)
  qed
  show ?thesis
    using readable_file [OF refl d, of deg irreducible] v g by (auto simp: file_manifest_def Let_def good_refs_def)
qed

subsection \<open>The environment\<close>

text \<open>
  \<open>listing\<close> is what an open directory still has to return: every entry once, and no entry is \<open>.\<close>, \<open>..\<close> or has a
  separator or a NUL in its name. A link has no NUL in its target. The chunker returns no empty chunk and none
  above the maximum it was configured with. \<open>NewPublisher\<close> stores normalised chunking options.
\<close>

locale source_env =
  fixes ctx :: "'w ctx" and fs :: "'w SourceFS" and publisher :: "'w Publisher" and listing :: "'w \<Rightarrow> nat \<Rightarrow> bytes list"
  assumes normalized: "ChunkingOptions_normalized (chunker_deg fs) (chunker_irreducible fs) (pb_chunking publisher) = Inr (pb_chunking publisher)"
    and chunk_sizes: "run_state (chunker_Next fs splitter) w = (Inr (Some data), w') \<Longrightarrow> data \<noteq> [] \<and> len data \<le> co_MaxSize (pb_chunking publisher)"
    and link_target: "run_state (root_Readlink fs sourceRoot path) w = (Inr target, w') \<Longrightarrow> CHR 0x00 \<notin> set target"
    and listing_plain: "distinct (listing w h)" "n \<in> set (listing w h) \<Longrightarrow> plain_name n"
    and ctx_listing: "run_state ctx w = (c, w') \<Longrightarrow> listing w' = listing w"
    and read_batch: "run_state (file_ReadDir fs h k) w = (Batch m ms, w') \<Longrightarrow> listing w h = m # ms @ listing w' h"
    and read_last: "run_state (file_ReadDir fs h k) w = (Last ms e, w') \<Longrightarrow> listing w h = ms @ listing w' h"
begin

abbreviation node :: "bytes \<Rightarrow> digest \<Rightarrow> int \<Rightarrow> bool" where
  "node \<equiv> readable (chunker_deg fs) (chunker_irreducible fs)"

abbreviation maxSize :: int where
  "maxSize \<equiv> co_MaxSize (pb_chunking publisher)"

lemma file_chunks_good:
  assumes "good_refs maxSize refs offset"
  shows "returns (\<lambda>(refs, offset). good_refs maxSize refs offset) (file_chunks ctx fs publisher splitter refs offset)"
  using assms
proof (induction "maxFileChunks - length refs" arbitrary: refs offset rule: less_induct)
  case less
  have step: "returns (\<lambda>(refs, offset). good_refs maxSize refs offset) (file_chunks ctx fs publisher splitter
       (refs @ [\<lparr>cr_Offset = offset, cr_Size = len data, cr_Digest = digestObject ''chunk'' data\<rparr>]) (wrap64 (offset + len data)))"
    if "run_state (chunker_Next fs splitter) w = (Inr (Some data), w')" "length refs < maxFileChunks" for data w w'
  proof (rule less.hyps)
    show "maxFileChunks - length (refs @ [\<lparr>cr_Offset = offset, cr_Size = len data, cr_Digest = digestObject ''chunk'' data\<rparr>])
        < maxFileChunks - length refs" using that(2) by simp
    show "good_refs maxSize (refs @ [\<lparr>cr_Offset = offset, cr_Size = len data, cr_Digest = digestObject ''chunk'' data\<rparr>])
        (wrap64 (offset + len data))"
      using good_refs_add [OF less.prems] normalized_max [OF normalized] chunk_sizes [OF that(1)] that(2) by blast
  qed
  show ?case
    unfolding file_chunks.simps [of ctx fs publisher splitter refs]
    by (intro returns_op [of "chunker_Next _ _"] returns_rules returns_seq [OF putImmutable_returns])
      (auto intro!: returns_return returns_throw step simp: less.prems)
qed

lemma read_file_node:
  "returns (\<lambda>r. \<forall>d sz i. r = Some (d, sz, i) \<longrightarrow> node EntryFile d sz \<and> 0 \<le> sz \<and> sz \<le> maxRepresentableFileBytes)
    (read_file ctx fs publisher sourceRoot path handle before)"
proof -
  note b = normalized_max [OF normalized]
  have w: "returns (\<lambda>(refs, offset). good_refs maxSize refs offset) (walkChunks ctx fs publisher handle)"
    unfolding walkChunks_def
    by (intro returns_rules file_chunks_good) (simp add: good_refs_def)
  show ?thesis
    unfolding read_file_def
    by (rule returns_after [OF w], (intro returns_seq [OF putManifest_returns] returns_rules)?)
      (auto intro!: returns_return file_manifest_readable [OF _ normalized] dest: offset_bound [OF _ b(2,1)])
qed

lemma buildFile_node:
  "returns (\<lambda>(d, sz, i). node EntryFile d sz \<and> 0 \<le> sz \<and> sz \<le> maxRepresentableFileBytes)
    (buildFile ctx fs publisher sourceRoot path expected protected)"
proof -
  have "returns (\<lambda>(d, sz, i). node EntryFile d sz \<and> 0 \<le> sz \<and> sz \<le> maxRepresentableFileBytes)
     (build_file_attempts ctx fs publisher sourceRoot path expected protected n)" for n
  proof (induction n)
    case (Suc n)
    show ?case
      unfolding build_file_attempts.simps close_throw_def
      by (intro returns_rules returns_seq [OF read_file_node] Suc) (auto intro!: returns_return)
  qed (simp add: returns_throw)
  then show ?thesis by (simp add: buildFile_def)
qed

lemma buildSymlink_node:
  "returns (\<lambda>(d, sz). node EntrySymlink d sz \<and> 0 < sz \<and> sz \<le> int maxSymlinkTargetBytes) (buildSymlink fs publisher sourceRoot path expected)"
proof -
  have "node EntrySymlink (digestObject ''symlink'' (canonicalJSON symlinkManifest_to_json \<lparr>sm_Format = objectFormatVersion, sm_Target = Some t\<rparr>)) (len t)"
    if "CHR 0x00 \<notin> set t" "t \<noteq> []" "length t \<le> maxSymlinkTargetBytes"
      "len (canonicalJSON symlinkManifest_to_json \<lparr>sm_Format = objectFormatVersion, sm_Target = Some t\<rparr>) \<le> maxMetadataObjectBytes" for t
  proof -
    let ?m = "\<lparr>sm_Format = objectFormatVersion, sm_Target = Some t\<rparr>"
    have "wf_symlinkManifest ?m" by (simp add: wf_symlinkManifest_def objectFormatVersion_def is_int64_def maxInt64_def)
    then have d: "decodeJSON symlinkManifest_to_json symlinkManifest_of_json (canonicalJSON symlinkManifest_to_json ?m) = Inr ?m"
      using that(4) by (rule sm.decode_canonical)
    show ?thesis using readable_symlink [OF refl d] that by (simp add: validateSymlinkManifest_def)
  qed
  then show ?thesis
    unfolding buildSymlink_def
    by (intro returns_op [of "root_Readlink _ _ _"] returns_rules returns_seq [OF putManifest_returns])
      (auto intro!: returns_return dest!: link_target)
qed

abbreviation good_names :: "bytes list \<Rightarrow> bool" where
  "good_names names \<equiv> distinct names \<and> (\<forall>n \<in> set names. plain_name n)"

lemma read_names_good: "returns (\<lambda>ns. good_names ns \<and> length ns \<le> maxDirectoryEntries) (read_names ctx fs handle [])"
proof -
  have "wp (read_names ctx fs handle names) (\<lambda>r _. \<forall>ns. r = Inr ns \<longrightarrow> good_names ns \<and> length ns \<le> maxDirectoryEntries) w"
    if "good_names (names @ listing w handle)" for names w
    using that
  proof (induction "maxDirectoryEntries - length names" arbitrary: names w rule: less_induct)
    case less
    have batch: "wp (read_names ctx fs handle (names @ n # ns))
        (\<lambda>r _. \<forall>ns. r = Inr ns \<longrightarrow> good_names ns \<and> length ns \<le> maxDirectoryEntries) w''"
      if "run_state ctx w = (c, w')" "run_state (file_ReadDir fs handle 1024) w' = (Batch n ns, w'')"
        "length (names @ n # ns) \<le> maxDirectoryEntries" for c w' w'' n ns
      using less.prems ctx_listing [OF that(1)] read_batch [OF that(2)] that(3)
      by (intro less.hyps) auto
    have last: "good_names (names @ ns)"
      if "run_state ctx w = (c, w')" "run_state (file_ReadDir fs handle 1024) w' = (Last ns e, w'')" for c w' w'' ns e
      using less.prems ctx_listing [OF that(1)] read_last [OF that(2)] by auto
    show ?case
      unfolding read_names.simps [of ctx fs handle names] wp_bind wp_check
    proof (rule wp_op, intro conjI impI allI)
      fix c w' assume c: "run_state ctx w = (c, w')"
      show "wp (file_ReadDir fs handle 1024) (\<lambda>b. wp (case b of
         Batch n ns \<Rightarrow>
           if length (names @ n # ns) > maxDirectoryEntries then throw [ErrResourceLimit]
           else read_names ctx fs handle (names @ n # ns)
       | Last ns e \<Rightarrow>
           if length (names @ ns) > maxDirectoryEntries then throw [ErrResourceLimit]
           else if errors_Is e ErrEOF then return (Inr (names @ ns)) else throw e)
         (\<lambda>r _. \<forall>ns. r = Inr ns \<longrightarrow> good_names ns \<and> length ns \<le> maxDirectoryEntries)) w'"
      proof (rule wp_op)
        fix b w'' assume b: "run_state (file_ReadDir fs handle 1024) w' = (b, w'')"
        show "wp (case b of
         Batch n ns \<Rightarrow>
           if length (names @ n # ns) > maxDirectoryEntries then throw [ErrResourceLimit]
           else read_names ctx fs handle (names @ n # ns)
       | Last ns e \<Rightarrow>
           if length (names @ ns) > maxDirectoryEntries then throw [ErrResourceLimit]
           else if errors_Is e ErrEOF then return (Inr (names @ ns)) else throw e)
         (\<lambda>r _. \<forall>ns. r = Inr ns \<longrightarrow> good_names ns \<and> length ns \<le> maxDirectoryEntries) w''"
          using b batch [OF c] last [OF c] by (cases b) (auto simp: wp_if)
      qed
    qed simp_all
  qed
  then show ?thesis using listing_plain by (simp add: returns_def)
qed

lemma list_directory_good:
  "returns (\<lambda>(before, ns). good_names ns \<and> length ns \<le> maxDirectoryEntries) (list_directory ctx fs handle expected)"
proof -
  have "returns (\<lambda>(before, ns). good_names ns \<and> length ns \<le> maxDirectoryEntries) (do {
       s \<leftarrow> file_Stat fs handle;
       ok s (\<lambda>before.
         if \<not> IsDir before \<or> \<not> SameFile expected before \<or> \<not> stableFileInfo expected before then throw [ErrUnstableFile]
         else do {
           n \<leftarrow> read_names ctx fs handle [];
           ok n (\<lambda>names. do {
             c \<leftarrow> ctx;
             check c (do {
               cl \<leftarrow> file_Close fs handle;
               check cl (return (Inr (before, names))) }) }) }) })"
    by (intro returns_seq [OF read_names_good] returns_rules) (auto intro!: returns_return)
  then show ?thesis
    unfolding list_directory_def close_throw_def
    by (rule returns_after) (intro returns_rules, auto intro!: returns_return)
qed

definition good_entry :: "bytes \<Rightarrow> dirEntry \<Rightarrow> bool" where
  "good_entry name e \<longleftrightarrow> entry_name e = name \<and> node (de_Type e) (de_Node e) (de_Size e) \<and> wf_dirEntry e
     \<and> (de_Node e \<noteq> 0 \<and> plain_name name \<longrightarrow> validate_entry e = None)"

lemma build_item_good:
  assumes "\<And>p i sel. returns (\<lambda>d. node EntryDir d 0) (build_child p i sel)" "name \<noteq> []" "length name \<le> maxEntryNameBytes"
  shows "returns (good_entry name) (build_item build_child ctx fs publisher sourceRoot protected childSelection name childPath info)"
proof -
  have perm: "Perm i AND - 512 = 0" for i
    unfolding Perm_def and.assoc by simp
  have int64: "is_int64 sz" if "0 \<le> sz" "sz \<le> maxRepresentableFileBytes" for sz
    using that by (simp add: is_int64_def maxInt64_def maxRepresentableFileBytes_def maxFileChunks_def maxChunkObjectBytes_def)
  have small: "is_int64 sz" if "0 < sz" "sz \<le> int maxSymlinkTargetBytes" for sz
    using that by (simp add: is_int64_def maxInt64_def maxSymlinkTargetBytes_def)
  have zero: "is_int64 0" by (simp add: is_int64_def maxInt64_def)
  show ?thesis
    unfolding build_item_def Let_def
    by (intro returns_seq [OF buildFile_node] returns_seq [OF buildSymlink_node] returns_seq [OF assms(1)] returns_rules)
      (auto intro!: returns_return simp: good_entry_def validate_entry_def wf_dirEntry_def plain_name_def assms(2) leD [OF assms(3)] perm
        int64 small zero UnixNano_def Let_def utf8_valid.simps rune_len_def)
qed

abbreviation good_item :: "dirEntry \<Rightarrow> bool" where
  "good_item e \<equiv> good_entry (entry_name e) e \<and> plain_name (entry_name e)"

lemma build_entry_good:
  assumes "\<And>p i sel. returns (\<lambda>d. node EntryDir d 0) (build_child p i sel)"
  shows "returns (good_entry name) (build_entry build_child ctx fs publisher sourceRoot protected directory depth childSelection name)"
  unfolding build_entry_def Let_def
  by (intro returns_rules build_item_good assms) auto

lemma build_entries_good:
  assumes "\<And>p i sel. returns (\<lambda>d. node EntryDir d 0) (build_child p i sel)"
    and "good_names (map entry_name items @ names)" "\<forall>e \<in> set items. good_item e"
  shows "returns (\<lambda>(es, matched). distinct (map entry_name es) \<and> (\<forall>e \<in> set es. good_item e) \<and> length es \<le> length items + length names)
    (build_entries build_child ctx fs publisher sourceRoot protected directory depth selection names items matched)"
  using assms(2,3)
proof (induction names arbitrary: items matched)
  case (Cons name names)
  have skip: "returns (\<lambda>(es, matched). distinct (map entry_name es) \<and> (\<forall>e \<in> set es. good_item e) \<and> length es \<le> length items + length (name # names))
      (build_entries build_child ctx fs publisher sourceRoot protected directory depth selection names items matched)" for matched
    using Cons.prems by (intro returns_conseq [OF Cons.IH]) auto
  have add: "returns (\<lambda>(es, matched). distinct (map entry_name es) \<and> (\<forall>e \<in> set es. good_item e) \<and> length es \<le> length items + length (name # names))
      (build_entries build_child ctx fs publisher sourceRoot protected directory depth selection names (items @ [e]) matched)"
    if "good_entry name e" for e matched
  proof (rule returns_conseq [OF Cons.IH])
    have "entry_name e = name" using that by (simp add: good_entry_def)
    then show "good_names (map entry_name (items @ [e]) @ names)" "\<forall>e' \<in> set (items @ [e]). good_item e'"
      using Cons.prems that by auto
  qed auto
  show ?case
    unfolding build_entries.simps Let_def
    by (intro returns_seq [OF build_entry_good [OF assms(1)]] returns_rules skip add)
qed (auto intro!: returns_return)

lemma build_directory_with_node:
  assumes child: "\<And>p i sel. returns (\<lambda>d. node EntryDir d 0) (build_child p i sel)"
  shows "returns (\<lambda>d. node EntryDir d 0) (build_directory_with build_child ctx fs publisher sourceRoot protected depth directory expected selection)"
proof -
  have dir: "node EntryDir (digestObject ''dir'' (canonicalJSON dirManifest_to_json m)) 0"
    if m: "m = \<lparr>dm_Format = objectFormatVersion, dm_Entries = Some (sort_key entry_name es)\<rparr>"
      and es: "distinct (map entry_name es)" "\<forall>e \<in> set es. good_item e" "length es \<le> maxDirectoryEntries"
      and l: "len (canonicalJSON dirManifest_to_json m) \<le> maxMetadataObjectBytes" for m es
  proof -
    have "wf_dirManifest m"
      using m es by (auto simp: wf_dirManifest_def objectFormatVersion_def is_int64_def maxInt64_def good_entry_def)
    then have d: "decodeJSON dirManifest_to_json dirManifest_of_json (canonicalJSON dirManifest_to_json m) = Inr m"
      using l by (rule dm.decode_canonical)
    have "sorted_wrt (<) (map entry_name (sort_key entry_name es))"
      using es(1) by (simp add: strict_sorted_iff distinct_map)
    then have "validateDirectoryManifest m = None" if "0 \<notin> de_Node ` set es"
      using that m es by (auto simp: validateDirectoryManifest_def validate_entries_iff good_entry_def image_iff)
    then show ?thesis
      using readable_dir [OF refl d, of "chunker_deg fs" "chunker_irreducible fs"] m es by (auto simp: good_entry_def)
  qed
  show ?thesis
    unfolding build_directory_with_def
    by (intro returns_seq [OF list_directory_good] returns_seq [OF build_entries_good [OF child]] returns_conseq [OF putManifest_returns] returns_rules)
      (auto intro: dir)
qed

lemma buildDirectory_node: "returns (\<lambda>d. node EntryDir d 0) (buildDirectorySelection ctx fs publisher sourceRoot directory expected depth selection protected)"
proof -
  have "returns (\<lambda>d. node EntryDir d 0) (build_directory ctx fs publisher sourceRoot protected room directory expected selection)" for room directory expected selection
    by (induction room arbitrary: directory expected selection)
      (simp_all add: build_directory_with_node returns_throw)
  then show ?thesis by (simp add: buildDirectorySelection_def)
qed

lemma stage_readable:
  "returns (\<lambda>st. snapshot_readable (chunker_deg fs) (chunker_irreducible fs) (st_snapshot st)) (stage ctx fs publisher source channel selection)"
  unfolding stage_def stage_scan_def
  by (intro returns_seq [OF read_base_returns] returns_seq [OF buildDirectory_node] stage_commit_readable returns_plift returns_keep returns_rules)

end

text \<open>
  C9. What is staged can be read. When the source tree is listed and chunked as the packages document, every
  snapshot that \<open>Stage\<close> or \<open>StageSelected\<close> returns is well typed for a consumer, whatever the store, the journal and
  the signer answer: its commit is decoded to the same value and validated for its generation, and from its root
  on every directory, file and link manifest is decoded, has the kind and size its parent records and passes the
  consumer's validation, and every chunk has the digest and size its file records. The one exception is an object
  whose SHA-256 digest is zero, which the validators refuse.
\<close>

theorem staged_snapshot_readable:
  assumes "source_env ctx fs publisher listing"
    and "run_state (stage ctx fs publisher source channel selection) s = (Inr staged, s')"
  shows "snapshot_readable (chunker_deg fs) (chunker_irreducible fs) (st_snapshot staged)"
  using returnsD [OF source_env.stage_readable [OF assms(1)] assms(2)] .

subsection \<open>A source tree with one file\<close>

text \<open>The state says whether the directory has been listed and the file has been chunked; the store has every object.\<close>

definition demo_dir :: FileInfo where
  "demo_dir = \<lparr>fi_Mode = ModeDir OR 0x1ED, fi_Size = 0, fi_ModTime = 1, fi_identity = 1\<rparr>"

definition demo_info :: FileInfo where
  "demo_info = \<lparr>fi_Mode = 0x1A4, fi_Size = 2, fi_ModTime = 1, fi_identity = 2\<rparr>"

definition demo_fs :: "(bool \<times> bool) SourceFS" where
  "demo_fs = \<lparr>fs_Abs = (\<lambda>p. return (Inr p)), os_Lstat = (\<lambda>p. return (Inr demo_dir)), os_Open = (\<lambda>p. return (Inl [])),
     os_OpenRoot = (\<lambda>p. return (Inr 0)), root_Open = (\<lambda>h p. return (Inr (if p = ''.'' then 4 else 5))),
     root_Lstat = (\<lambda>h p. return (Inr (if p = ''.'' then demo_dir else demo_info))),
     root_Stat = (\<lambda>h p. return (Inr demo_info)), root_Readlink = (\<lambda>h p. return (Inl [])), root_Close = (\<lambda>h. return None),
     file_Stat = (\<lambda>h. return (Inr (if h = 4 then demo_dir else demo_info))),
     file_ReadDir = (\<lambda>h n. State (\<lambda>(listed, chunked). if listed then (Last [] [ErrEOF], (listed, chunked)) else (Batch ''a'' [], (True, chunked)))),
     file_Close = (\<lambda>h. return None), chunker_New = (\<lambda>h c. return 3),
     chunker_Next = (\<lambda>h. State (\<lambda>(listed, chunked). if chunked then (Inr None, (listed, chunked)) else (Inr (Some ''hi''), (listed, True)))),
     chunker_deg = (\<lambda>_. 53), chunker_irreducible = (\<lambda>_. True)\<rparr>"

definition demo_store :: "(bool \<times> bool) Store" where
  "demo_store = \<lparr>store_Get = (\<lambda>k o'. return (Inl [ErrObjectNotFound])), store_Head = (\<lambda>k. return (Inr \<lparr>v_ETag = ''e'', v_VersionID = []\<rparr>)),
     store_PutIfAbsent = (\<lambda>k d. return (Inl [ErrPrecondition])), store_CompareAndSwap = (\<lambda>k e d. return (Inl [ErrPrecondition]))\<rparr>"

definition demo_publisher :: "(bool \<times> bool) Publisher" where
  "demo_publisher = \<lparr>pb_address = 1,
     pb_repository = \<lparr>rp_reader = Store_reader demo_store, rp_store = Some demo_store, rp_prefix = [], rp_clientEncryption = None, rp_descriptor = None\<rparr>,
     pb_chunking = \<lparr>co_MinSize = 64, co_AverageSize = 128, co_MaxSize = 256, co_Polynomial = 5\<rparr>, pb_stableReadTries = 1,
     pb_symlinks = SymlinkRejectExternal, pb_protectedSourceFiles = [], pb_now = return 9, pb_referenceSigner = None,
     pb_referenceVerifier = None, pb_publicationJournal = None, pb_trustedCheckpoint = None, pb_allowTrustOnFirstUse = False\<rparr>"

interpretation demo_source: source_env "return None" demo_fs demo_publisher "\<lambda>(listed, chunked) h. if listed then [] else [''a'']"
  by unfold_locales
    (auto simp: demo_fs_def demo_publisher_def ChunkingOptions_normalized_def plain_name_def maxChunkObjectBytes_def split: prod.splits if_splits)

text \<open>An upper bound of the length of a printed value that is easy to evaluate.\<close>

fun print_room :: "json \<Rightarrow> nat" where
  "print_room JNull = 4"
| "print_room (JBool b) = 5"
| "print_room (JNum i) = nat \<bar>i\<bar> + 2"
| "print_room (JStr s) = 6 * length s + 2"
| "print_room (JArr xs) = 2 + sum_list (map (\<lambda>x. Suc (print_room x)) xs)"
| "print_room (JObj kvs) = 2 + sum_list (map (\<lambda>(k, v). 6 * length k + 4 + print_room v) kvs)"

lemma length_join_comma: "length (join_comma xs) \<le> sum_list (map (\<lambda>x. Suc (length x)) xs)"
  by (induction xs rule: join_comma.induct) auto

lemma length_dec_le: "length (dec n) \<le> n + 1"
proof (induction n rule: dec.induct)
  case (1 n)
  then show ?case by (cases "n < 10") (auto simp: dec.simps [of n])
qed

lemma length_json_print: "length (json_print j) \<le> print_room j"
proof (induction j rule: print_room.induct)
  case (3 i)
  show ?case using length_dec_le [of "nat i"] length_dec_le [of "nat (- i)"] by (auto simp: dec_int_def)
next
  case (5 xs)
  then have "sum_list (map (\<lambda>x. Suc (length x)) (map json_print xs)) \<le> sum_list (map (\<lambda>x. Suc (print_room x)) xs)"
    unfolding map_map by (intro sum_list_mono) auto
  then show ?case using length_join_comma [of "map json_print xs"] by simp
next
  case (6 kvs)
  let ?f = "\<lambda>(k, v). print_string k @ CHR '':'' # json_print v"
  have "Suc (length (?f (k, v))) \<le> 6 * length k + 4 + print_room v" if "(k, v) \<in> set kvs" for k v
    using 6 [OF that refl] length_print_string [of k] by simp
  then have "sum_list (map (\<lambda>x. Suc (length x)) (map ?f kvs)) \<le> sum_list (map (\<lambda>(k, v). 6 * length k + 4 + print_room v) kvs)"
    unfolding map_map by (intro sum_list_mono) auto
  then show ?case using length_join_comma [of "map ?f kvs"] by simp
qed (use length_print_string in auto)

lemma canonical_fits: "print_room (to_json m) \<le> 16777216 \<Longrightarrow> len (canonicalJSON to_json m) \<le> maxMetadataObjectBytes"
  using length_json_print [of "to_json m"] by (simp add: canonicalJSON_def maxMetadataObjectBytes_def)

lemma demo_file_fits: "len (canonicalJSON fileManifest_to_json (file_manifest demo_publisher [\<lparr>cr_Offset = 0, cr_Size = 2, cr_Digest = d\<rparr>] 2)) \<le> maxMetadataObjectBytes"
  by (rule canonical_fits) (simp add: file_manifest_def demo_publisher_def fileManifest_to_json_def chunkRef_to_json_def digest_json_def
      uint_json_def objectFormatVersion_def slice_json_def)

lemma demo_dir_fits: "len (canonicalJSON dirManifest_to_json \<lparr>dm_Format = objectFormatVersion, dm_Entries = Some [\<lparr>de_Name = Some ''a'',
    de_Type = EntryFile, de_Node = d, de_Mode = 0x1A4, de_Size = 2, de_ModTimeUnixNano = 1\<rparr>]\<rparr>) \<le> maxMetadataObjectBytes"
proof (rule canonical_fits)
  have "length (b64_std_encode ''a'') = 4" by code_simp
  then show "print_room (dirManifest_to_json \<lparr>dm_Format = objectFormatVersion, dm_Entries = Some [\<lparr>de_Name = Some ''a'',
    de_Type = EntryFile, de_Node = d, de_Mode = 0x1A4, de_Size = 2, de_ModTimeUnixNano = 1\<rparr>]\<rparr>) \<le> 16777216"
    by (simp add: dirManifest_to_json_def dirEntry_to_json_def digest_json_def uint_json_def objectFormatVersion_def slice_json_def bytes_json_def)
qed

lemma demo_commit_fits: "len (canonicalJSON commitManifest_to_json \<lparr>cm_Format = objectFormatVersion, cm_Generation = 1, cm_Parent = None, cm_Root = d,
    cm_PublishedAtUnix = 9, cm_ResetChanges = True\<rparr>) \<le> maxMetadataObjectBytes"
  by (rule canonical_fits) (simp add: commitManifest_to_json_def digest_json_def uint_json_def objectFormatVersion_def)

lemma demo_put: "putImmutable (pb_repository demo_publisher) kind data = return (Inr (digestObject kind data))"
  by (simp add: putImmutable_def with_store_def demo_publisher_def demo_store_def validateStoreVersion_def MaxStoreVersionTokenBytes_def)

lemma demo_putManifest: "len (canonicalJSON to_json m) \<le> maxMetadataObjectBytes \<Longrightarrow>
    putManifest (pb_repository demo_publisher) to_json kind m = return (Inr (digestObject kind (canonicalJSON to_json m)))"
  by (simp add: putManifest_def demo_put)

definition demo_ref :: chunkRef where
  "demo_ref = \<lparr>cr_Offset = 0, cr_Size = 2, cr_Digest = digestObject ''chunk'' ''hi''\<rparr>"

definition demo_node :: digest where
  "demo_node = digestObject ''file'' (canonicalJSON fileManifest_to_json (file_manifest demo_publisher [demo_ref] 2))"

lemma demo_chunks: "run_state (walkChunks (return None) demo_fs demo_publisher h) (True, False) = (Inr ([demo_ref], 2), (True, True))"
proof -
  have n: "run_state (chunker_Next demo_fs 3) (True, c) = (if c then (Inr None, (True, True)) else (Inr (Some ''hi''), (True, True)))"
    "chunker_New demo_fs h options = return 3" for c options
    by (auto simp: demo_fs_def)
  have w: "wrap64 2 = 2" by (simp add: wrap64_def)
  have 2: "run_state (file_chunks (return None) demo_fs demo_publisher 3 [demo_ref] 2) (True, True) = (Inr ([demo_ref], 2), (True, True))"
    by (simp add: file_chunks.simps [of _ _ _ _ "[demo_ref]"] n)
  have "run_state (file_chunks (return None) demo_fs demo_publisher 3 [] 0) (True, False) = (Inr ([demo_ref], 2), (True, True))"
    using 2 by (simp add: file_chunks.simps [of _ _ _ _ "[]"] n demo_put w maxFileChunks_def demo_ref_def)
  then show ?thesis
    by (simp add: walkChunks_def demo_source.normalized n)
qed

lemma demo_buildFile: "run_state (buildFile (return None) demo_fs demo_publisher r ''a'' demo_info []) (True, False) = (Inr (demo_node, 2, demo_info), (True, True))"
proof -
  have "pb_stableReadTries demo_publisher = 1" "co_MaxSize (pb_chunking demo_publisher) = 256" by (simp_all add: demo_publisher_def)
  moreover have "root_Open demo_fs r ''a'' = return (Inr 5)" "file_Stat demo_fs 5 = return (Inr demo_info)" "file_Close demo_fs h = return None"
    "root_Stat demo_fs r ''a'' = return (Inr demo_info)" for h by (simp_all add: demo_fs_def)
  moreover have "putManifest (pb_repository demo_publisher) fileManifest_to_json ''file'' (file_manifest demo_publisher [demo_ref] 2) = return (Inr demo_node)"
    unfolding demo_node_def demo_ref_def by (rule demo_putManifest [OF demo_file_fits])
  ultimately show ?thesis
    by (simp add: buildFile_def read_file_def demo_chunks IsRegular_def demo_info_def ModeType_def SameFile_def maxFileChunks_def stableFileInfo_def)
qed

definition demo_root :: digest where
  "demo_root = digestObject ''dir'' (canonicalJSON dirManifest_to_json \<lparr>dm_Format = objectFormatVersion, dm_Entries = Some [\<lparr>de_Name = Some ''a'',
     de_Type = EntryFile, de_Node = demo_node, de_Mode = 0x1A4, de_Size = 2, de_ModTimeUnixNano = 1\<rparr>]\<rparr>)"

lemma demo_names: "run_state (read_names (return None) demo_fs h []) (False, False) = (Inr [''a''], (True, False))"
proof -
  have r: "run_state (file_ReadDir demo_fs h 1024) (listed, False) =
      (if listed then (Last [] [ErrEOF], (True, False)) else (Batch ''a'' [], (True, False)))" for listed
    by (auto simp: demo_fs_def)
  have "run_state (read_names (return None) demo_fs h [''a'']) (True, False) = (Inr [''a''], (True, False))"
    by (simp add: read_names.simps [of _ _ _ "[''a'']"] r maxDirectoryEntries_def)
  then show ?thesis by (simp add: read_names.simps [of _ _ _ "[]"] r maxDirectoryEntries_def)
qed

lemma demo_tree: "run_state (buildDirectorySelection (return None) demo_fs demo_publisher 0 ''.'' demo_dir 0 None []) (False, False)
    = (Inr demo_root, (True, True))"
proof -
  have fs: "root_Open demo_fs 0 ''.'' = return (Inr 4)" "file_Stat demo_fs 4 = return (Inr demo_dir)" "file_Close demo_fs h = return None"
    "root_Lstat demo_fs 0 ''.'' = return (Inr demo_dir)" "root_Lstat demo_fs 0 ''a'' = return (Inr demo_info)" for h by (simp_all add: demo_fs_def)
  have info: "IsDir demo_dir" "SameFile demo_dir demo_dir" "stableFileInfo demo_dir demo_dir" "IsRegular demo_info" "Perm demo_info = 0x1A4"
    "UnixNano demo_info = 1"
    by (simp_all add: IsDir_def demo_dir_def SameFile_def stableFileInfo_def ModeDir_def IsRegular_def demo_info_def ModeType_def Perm_def
        UnixNano_def wrap64_def)
  have path: "path_Join2 ''.'' ''a'' = ''a''" by code_simp
  have list: "run_state (list_directory (return None) demo_fs 4 demo_dir) (False, False) = (Inr (demo_dir, [''a'']), (True, False))"
    by (simp add: list_directory_def fs info demo_names)
  have items: "run_state (build_entries f (return None) demo_fs demo_publisher 0 [] ''.'' 0 None [''a''] [] []) (True, False)
      = (Inr ([\<lparr>de_Name = Some ''a'', de_Type = EntryFile, de_Node = demo_node, de_Mode = 0x1A4, de_Size = 2, de_ModTimeUnixNano = 1\<rparr>], []), (True, True))" for f
    by (simp add: build_entry_def build_item_def Let_def path fs info demo_buildFile maxEntryNameBytes_def maxLookupDepth_def maxLookupPathBytes_def)
  have same: "run_state (directory_unchanged demo_fs 0 ''.'' demo_dir) (True, True) = (True, (True, True))"
    by (simp add: directory_unchanged_def fs info)
  have "run_state (build_directory_with f (return None) demo_fs demo_publisher 0 [] 0 ''.'' demo_dir None) (False, False) = (Inr demo_root, (True, True))" for f
    unfolding build_directory_with_def
    by (simp add: list items same fs maxLookupPathBytes_def demo_putManifest [OF demo_dir_fits] demo_root_def del: build_entries.simps)
  note with_any = this
  obtain room where room: "maxLookupDepth = Suc room" by (cases maxLookupDepth) (auto simp: maxLookupDepth_def)
  show ?thesis unfolding buildDirectorySelection_def room diff_zero build_directory.simps diff_self_eq_0 by (rule with_any)
qed

lemma demo_stage:
  "\<exists>staged s'. run_state (stage (return None) demo_fs demo_publisher ''/src'' ''main'' None) (new_pub (False, False) (\<lambda>_. False)) = (Inr staged, s')
     \<and> ss_Root (st_snapshot staged) = demo_root"
proof -
  have fs: "fs_Abs demo_fs ''/src'' = return (Inr ''/src'')" "os_Lstat demo_fs ''/src'' = return (Inr demo_dir)"
    "os_OpenRoot demo_fs ''/src'' = return (Inr 0)" "root_Close demo_fs 0 = return None" "root_Open demo_fs 0 ''.'' = return (Inr 4)"
    "file_Stat demo_fs 4 = return (Inr demo_dir)" "file_Close demo_fs h = return None" for h by (simp_all add: demo_fs_def)
  have info: "IsDir demo_dir" "SameFile demo_dir demo_dir" "stableFileInfo demo_dir demo_dir"
    by (simp_all add: IsDir_def demo_dir_def SameFile_def stableFileInfo_def ModeDir_def)
  have c: "repository_validateChannel (pb_repository demo_publisher) ''main'' = None" by code_simp
  have pub: "pb_referenceVerifier demo_publisher = None" "pb_referenceSigner demo_publisher = None" "pb_protectedSourceFiles demo_publisher = []"
    "pb_now demo_publisher = return 9" by (simp_all add: demo_publisher_def)
  have get: "getReferenceWithVerifier (return None) (pb_repository demo_publisher) ''main'' [] None = return (Inl [ErrObjectNotFound])"
    by (simp add: getReferenceWithVerifier_def demo_publisher_def demo_store_def)
  have small: "len (canonicalJSON snapshotReference_to_json \<lparr>sr_Format = objectFormatVersion, sr_Generation = 1, sr_Commit = d\<rparr>) \<le> maxReferenceBytes" for d
  proof -
    have "print_room (snapshotReference_to_json \<lparr>sr_Format = objectFormatVersion, sr_Generation = 1, sr_Commit = d\<rparr>) \<le> 4096"
      by (simp add: snapshotReference_to_json_def digest_json_def uint_json_def objectFormatVersion_def)
    then show ?thesis
      using length_json_print [of "snapshotReference_to_json \<lparr>sr_Format = objectFormatVersion, sr_Generation = 1, sr_Commit = d\<rparr>"]
      by (simp add: canonicalJSON_def maxReferenceBytes_def)
  qed
  have "wrap64 9 = 9" by (simp add: wrap64_def)
  then have "\<exists>staged. run_state (stage_commit demo_publisher ''main'' \<lparr>sb_current = None, sb_journal = None\<rparr> demo_root) (True, True)
      = (Inr staged, (True, True)) \<and> ss_Root (st_snapshot staged) = demo_root"
    by (simp add: stage_commit_def stage_new_def Let_def pub demo_putManifest [OF demo_commit_fits] not_less [THEN iffD2, OF small])
  then obtain staged where commit: "run_state (stage_commit demo_publisher ''main'' \<lparr>sb_current = None, sb_journal = None\<rparr> demo_root) (True, True)
      = (Inr staged, (True, True))" "ss_Root (st_snapshot staged) = demo_root" by blast
  then show ?thesis
    by (simp add: stage_def c fs info root_identity_def read_base_def pub get stage_scan_def captureProtectedSourceFiles_def demo_tree
      plift_def new_pub_def commit)
qed

theorem staged_snapshot_readable_witness:
  "\<exists>staged s'. run_state (stage (return None) demo_fs demo_publisher ''/src'' ''main'' None) (new_pub (False, False) (\<lambda>_. False)) = (Inr staged, s')
     \<and> ss_Root (st_snapshot staged) = demo_root
     \<and> snapshot_readable (\<lambda>_. 53) (\<lambda>_. True) (st_snapshot staged)"
proof -
  have "chunker_deg demo_fs = (\<lambda>_. 53)" "chunker_irreducible demo_fs = (\<lambda>_. True)" by (simp_all add: demo_fs_def)
  then show ?thesis
    using demo_stage staged_snapshot_readable [OF demo_source.source_env_axioms] by metis
qed

end
