(* ===== verification/Publisher_Properties.thy ===== *)
theory Publisher_Properties
  imports Published_Tree Consumer_Trust
begin

section \<open>Construction and commit of a publisher\<close>

text \<open>
  What \<open>NewPublisher\<close> guarantees to the operations, and what the answer of a commit in unsigned mode means when the
  response of the compare-and-swap is lost. The ancestry of commits is the relation \<open>descends\<close> that the consumer
  is verified against.
\<close>

subsection \<open>Reconciling a lost response\<close>

lemma commit_walk_descends:
  assumes "target \<le> generation"
  shows "returns (\<lambda>d. descends digest generation d target) (commit_walk ctx publisher target generation digest)"
  using assms
proof (induction "unat generation" arbitrary: generation digest rule: less_induct)
  case less
  show ?case
  proof (cases "target < generation")
    case True
    have walk: "returns (\<lambda>d. descends digest generation d target) (commit_walk ctx publisher target (generation - 1) p)"
      if "commit_object digest commit" "validateCommitManifest commit generation = None" "cm_Parent commit = Some p" for commit p
      using True that less.hyps [of "generation - 1" p] pred_ge
      by (intro returns_conseq [OF less.hyps]) (auto intro: descends.parent)
    have get: "returns (commit_object digest) (getCommit publisher digest)"
      by (rule returns_conseq [OF getCommit_returns]) (auto simp: commit_object_def dest: cm.decode_InrD)
    show ?thesis
      using True unfolding commit_walk.simps [of ctx publisher target generation]
      by (simp, intro returns_seq [OF get] returns_rules walk)
  next
    case False
    then have "generation = target" using less.prems by simp
    then show ?thesis by (simp add: commit_walk.simps [of ctx publisher target] returns_return descends.same)
  qed
qed

text \<open>After the swap a reference was read, and its history has the commit \<open>d\<close> at the staged generation.\<close>

definition found_in_history :: "'w ctx \<Rightarrow> 'w Publisher \<Rightarrow> StagedSnapshot \<Rightarrow> 'w \<Rightarrow> digest \<Rightarrow> bool" where
  "found_in_history ctx publisher staged w d \<longleftrightarrow> (\<exists>reference object w'.
     run_state (getReferenceWithVerifier ctx (pb_repository publisher) (st_channel staged) [] (pb_referenceVerifier publisher)) w
       = (Inr (reference, object), w')
     \<and> descends (sr_Commit reference) (sr_Generation reference) d (ss_Generation (st_snapshot staged)))"

lemma reconcileCommit_outcome:
  "wp (reconcileCommit ctx publisher staged) (\<lambda>(outcome, _) _.
     (outcome = commitApplied \<longrightarrow> found_in_history ctx publisher staged w (ss_Commit (st_snapshot staged)))
     \<and> (outcome = commitRejected \<longrightarrow> (\<exists>d. d \<noteq> ss_Commit (st_snapshot staged) \<and> found_in_history ctx publisher staged w d))) w"
  unfolding reconcileCommit_def wp_bind [of "getReferenceWithVerifier _ _ _ _ _"]
proof (rule wp_op)
  fix g w1 assume g: "run_state (getReferenceWithVerifier ctx (pb_repository publisher) (st_channel staged) [] (pb_referenceVerifier publisher)) w = (g, w1)"
  show "wp (case g of Inl e \<Rightarrow> return (commitUnknown, Some e)
     | Inr (reference, _) \<Rightarrow> let target = ss_Generation (st_snapshot staged) in
         if sr_Generation reference < target then return (commitUnknown, None)
         else if unat (sr_Generation reference - target) > maxCommitWalk then return (commitUnknown, Some [ErrResourceLimit])
         else do {
           w \<leftarrow> commit_walk ctx publisher target (sr_Generation reference) (sr_Commit reference);
           return (case w of Inl e \<Rightarrow> (commitUnknown, Some e)
             | Inr digest \<Rightarrow> (if digest = ss_Commit (st_snapshot staged) then commitApplied else commitRejected, None)) })
     (\<lambda>(outcome, _) _. (outcome = commitApplied \<longrightarrow> found_in_history ctx publisher staged w (ss_Commit (st_snapshot staged)))
     \<and> (outcome = commitRejected \<longrightarrow> (\<exists>d. d \<noteq> ss_Commit (st_snapshot staged) \<and> found_in_history ctx publisher staged w d))) w1"
  proof (cases g)
    case (Inr x)
    then obtain reference object where x: "g = Inr (reference, object)" by (cases x) auto
    let ?t = "ss_Generation (st_snapshot staged)"
    have "wp (commit_walk ctx publisher ?t (sr_Generation reference) (sr_Commit reference))
        (\<lambda>r _. \<forall>d. r = Inr d \<longrightarrow> found_in_history ctx publisher staged w d) w1" if "\<not> sr_Generation reference < ?t"
      using commit_walk_descends [of ?t "sr_Generation reference" "sr_Commit reference" ctx publisher] that g x
      unfolding returns_def found_in_history_def by (blast intro: wp_conseq dest: leI)
    then show ?thesis
      using x by (auto simp: Let_def wp_if wp_bind elim!: wp_conseq split: sum.splits) blast
  qed simp
qed


subsection \<open>Construction\<close>

lemma normalize_protected_returns:
  assumes "distinct (map pp_Path result)" "sum_list (map (\<lambda>p. length (pp_Path p)) result) = totalBytes" "totalBytes \<le> maxProtectedSourceTotalBytes"
  shows "returns (\<lambda>ps. distinct (map pp_Path ps) \<and> length ps = length result + length vs
      \<and> sum_list (map (\<lambda>p. length (pp_Path p)) ps) \<le> maxProtectedSourceTotalBytes) (normalize_protected fs vs totalBytes result)"
  using assms
proof (induction vs arbitrary: totalBytes result)
  case (Cons v vs)
  have step: "returns (\<lambda>ps. distinct (map pp_Path ps) \<and> length ps = length result + length (v # vs)
      \<and> sum_list (map (\<lambda>p. length (pp_Path p)) ps) \<le> maxProtectedSourceTotalBytes)
     (normalize_protected fs vs (totalBytes + length (path_Clean a)) (result @ [\<lparr>pp_Path = path_Clean a, pp_AllowMissingInitially = b\<rparr>]))"
    if "totalBytes + length (path_Clean a) \<le> maxProtectedSourceTotalBytes" "path_Clean a \<notin> pp_Path ` set result" for a b
    using Cons.prems that by (intro returns_conseq [OF Cons.IH]) auto
  show ?case
    unfolding normalize_protected.simps Let_def
    by (intro returns_rules step) auto
qed (auto intro!: returns_return)

text \<open>
  C34. What \<open>NewPublisher\<close> hands to the operations. Over a repository without a descriptor or with a valid one, a
  publisher that could be constructed can write, has chunking options that are their own normal form, between 1 and
  100 attempts to read a file, and at most 64 protected files with different paths within the byte limit. A signer,
  a verifier and a journal are there together or not at all; a verifier names a repository, and a checkpoint that
  was pinned belongs to it and names a commit.
\<close>

theorem new_publisher_valid:
  assumes "case rp_descriptor repository of None \<Rightarrow> True
      | Some d \<Rightarrow> validateRepositoryDescriptor (chunker_deg fs) (chunker_irreducible fs) d = None"
    and "run_state (NewPublisher address clock fs repository options) w = (Inr (publisher, seen), w')"
  shows "rp_store (pb_repository publisher) \<noteq> None
    \<and> ChunkingOptions_normalized (chunker_deg fs) (chunker_irreducible fs) (pb_chunking publisher) = Inr (pb_chunking publisher)
    \<and> 1 \<le> pb_stableReadTries publisher \<and> pb_stableReadTries publisher \<le> 100
    \<and> distinct (map pp_Path (pb_protectedSourceFiles publisher)) \<and> length (pb_protectedSourceFiles publisher) \<le> maxProtectedSourceFiles
    \<and> sum_list (map (\<lambda>p. length (pp_Path p)) (pb_protectedSourceFiles publisher)) \<le> maxProtectedSourceTotalBytes
    \<and> (case (pb_referenceSigner publisher, pb_referenceVerifier publisher, pb_publicationJournal publisher) of
         (None, None, None) \<Rightarrow> pb_trustedCheckpoint publisher = None
       | (Some signer, Some verifier, Some _) \<Rightarrow> rv_RepositoryID verifier \<noteq> 0 \<and> sg_RepositoryID signer = rv_RepositoryID verifier
           \<and> (case pb_trustedCheckpoint publisher of None \<Rightarrow> True
              | Some k \<Rightarrow> wm_RepositoryID k = rv_RepositoryID verifier \<and> wm_Generation k \<noteq> 0 \<and> wm_Commit k \<noteq> 0)
       | _ \<Rightarrow> False)" (is "?P publisher")
proof -
  have protected: "returns (\<lambda>ps. distinct (map pp_Path ps) \<and> length ps \<le> maxProtectedSourceFiles
      \<and> sum_list (map (\<lambda>p. length (pp_Path p)) ps) \<le> maxProtectedSourceTotalBytes) (normalizeProtectedSourceFiles fs vs)" for vs
    unfolding normalizeProtectedSourceFiles_def
    by (intro returns_rules returns_conseq [OF normalize_protected_returns]) auto
  have chunking: "ChunkingOptions_normalized (chunker_deg fs) (chunker_irreducible fs) c = Inr c"
    if "publisher_chunking fs repository options = Inr c" for c
    using that assms(1)
    by (auto simp: publisher_chunking_def okr_def validateRepositoryDescriptor_def
        split: option.splits if_splits sum.splits dest: normalized_idem)
  have "returns (\<lambda>(p, _). ?P p) (NewPublisher address clock fs repository options)"
    unfolding NewPublisher_def Let_def
    by (intro returns_seq [OF protected] returns_rules returns_return)
      (auto simp: chunking publisher_trust_def split: option.splits if_splits)
  from returnsD [OF this assms(2)] show ?thesis by simp
qed

definition demo_options :: "(bool \<times> bool) PublisherOptions" where
  "demo_options = \<lparr>po_Chunking = \<lparr>co_MinSize = 64, co_AverageSize = 128, co_MaxSize = 256, co_Polynomial = 5\<rparr>, po_StableReadTries = 0,
     po_Symlinks = SymlinkRejectExternal, po_ProtectedSourceFiles = [\<lparr>pp_Path = ''/k'', pp_AllowMissingInitially = True\<rparr>],
     po_DangerouslyAllowUncommissionedRepository = True, po_ReferenceSigner = None, po_ReferenceVerifier = None,
     po_PublicationJournal = None, po_TrustedCheckpoint = None, po_AllowTrustOnFirstUse = False, po_Now = None\<rparr>"

lemma demo_NewPublisher: "\<exists>publisher seen. run_state (NewPublisher 1 (return 9) demo_fs (pb_repository demo_publisher) demo_options) w = (Inr (publisher, seen), w)
    \<and> pb_protectedSourceFiles publisher = [\<lparr>pp_Path = ''/k'', pp_AllowMissingInitially = True\<rparr>] \<and> pb_stableReadTries publisher = 3"
proof -
  have 1: "path_Clean ''/k'' = ''/k''" by code_simp
  have 2: "ChunkingOptions_normalized (chunker_deg demo_fs) (chunker_irreducible demo_fs) (po_Chunking demo_options) = Inr (po_Chunking demo_options)"
    using demo_source.normalized by (simp add: demo_options_def demo_publisher_def)
  have 3: "rp_store (pb_repository demo_publisher) = Some demo_store" "rp_descriptor (pb_repository demo_publisher) = None"
    by (simp_all add: demo_publisher_def)
  have 4: "fs_Abs demo_fs p = return (Inr p)" "os_Lstat demo_fs p = return (Inr demo_dir)" for p by (simp_all add: demo_fs_def)
  have 5: "publisher_chunking demo_fs (pb_repository demo_publisher) demo_options = Inr (po_Chunking demo_options)"
    using 2 3 by (simp add: publisher_chunking_def)
  have 6: "publisher_trust (pb_repository demo_publisher) demo_options = None" by (simp add: publisher_trust_def demo_options_def)
  show ?thesis
    by (simp add: NewPublisher_def Let_def 5 6 3)
      (simp add: demo_options_def normalizeProtectedSourceFiles_def 1 4 maxProtectedSourcePathBytes_def maxProtectedSourceTotalBytes_def maxProtectedSourceFiles_def Let_def)
qed

theorem new_publisher_valid_witness:
  "\<exists>publisher seen. run_state (NewPublisher 1 (return 9) demo_fs (pb_repository demo_publisher) demo_options) (False, False) = (Inr (publisher, seen), (False, False))
    \<and> pb_protectedSourceFiles publisher = [\<lparr>pp_Path = ''/k'', pp_AllowMissingInitially = True\<rparr>]
    \<and> 1 \<le> pb_stableReadTries publisher \<and> pb_stableReadTries publisher \<le> 100
    \<and> ChunkingOptions_normalized (\<lambda>_. 53) (\<lambda>_. True) (pb_chunking publisher) = Inr (pb_chunking publisher)"
proof -
  obtain publisher seen where run: "run_state (NewPublisher 1 (return 9) demo_fs (pb_repository demo_publisher) demo_options) (False, False)
      = (Inr (publisher, seen), (False, False))" "pb_protectedSourceFiles publisher = [\<lparr>pp_Path = ''/k'', pp_AllowMissingInitially = True\<rparr>]"
    using demo_NewPublisher by blast
  have "rp_descriptor (pb_repository demo_publisher) = None" "chunker_deg demo_fs = (\<lambda>_. 53)" "chunker_irreducible demo_fs = (\<lambda>_. True)"
    by (simp_all add: demo_publisher_def demo_fs_def)
  then show ?thesis
    using new_publisher_valid [OF _ run(1)] run by (intro exI [of _ publisher] exI [of _ seen]) simp
qed

end
