(* ===== verification/Spec2Isabelle.thy ===== *)
theory Spec2Isabelle
  imports Symlink Repo_Descriptor Flight Consumer_Properties Closure_Properties
    Path_Selection Publisher_Properties
begin

section \<open>Verification of s3disk\<close>

text \<open>
  s3disk publishes snapshots of a directory to an object store and lets consumers read them without trusting the
  store. A \<open>Publisher\<close> scans a local tree, uploads chunks and manifests under keys that contain their SHA-256
  digest, writes a commit that names its parent, and moves the reference of a channel to it by one
  compare-and-swap; in signed mode the reference is signed and a durable journal records it before the store can
  see it. A \<open>Consumer\<close> follows a channel: it accepts a reference only if it is authentic and its commit descends
  from the one it knows, keeps that position in a watermark that survives restarts, and reads files lazily through
  caches and resource limits. A closure lists the exact keys of one snapshot for code that hands out capabilities.

  \<^bold>\<open>How the code is modelled.\<close> A struct is a \<open>record\<close>, an enumeration a \<open>datatype\<close>, an operation a function. An
  operation with effects is a computation of the state monad over the state of the environment, which is a type
  variable: a store, a file system, a clock or a signer is a record of arbitrary computations, so that what is
  proved holds for every answer and for every change other processes make between two calls. A failure is the
  left of a sum and carries the sentinels of \<open>errors.go\<close> that \<open>errors.Is\<close> finds. \<open>int64\<close> and \<open>uint64\<close> wrap
  around. Comments in the text of an error, clones of values and checks for nil pointers of required arguments have
  no counterpart. Weakest preconditions (\<open>Prelude\<close>) carry the proofs about programs.

  \<^bold>\<open>Language and libraries.\<close>
  \<^item> \<open>Prelude\<close>: bytes, errors, programs and their logic, machine integers.
  \<^item> \<open>Go_Lib\<close>, \<open>Go_Path\<close>, \<open>Go_Json\<close>: hex, base64, decimal, UTF-8, binary search, \<open>path\<close>, and \<open>encoding/json\<close>
    with the round trip of printing and parsing.
  \<^item> \<open>Sha256\<close>, \<open>Sha256_Eval\<close>, \<open>Crypto\<close>, \<open>Aes_Gcm\<close>: SHA-256, HMAC, HKDF and AES-GCM, executable. Ed25519 is a
    parameter. Nothing is assumed about collisions: a property that needs one to be absent names it.

  \<^bold>\<open>Formats and storage.\<close>
  \<^item> \<open>Protocol_Model\<close> (\<open>model.go\<close>, \<open>digest.go\<close>): the stored structures, canonical JSON and the strict decoder; the
    locale \<open>json_codec\<close> is interpreted for every structure, also in the theories below.
  \<^item> \<open>Symlink\<close> (\<open>symlink.go\<close>), \<open>Manifests\<close> (validators of \<open>consumer.go\<close>): accepted links stay inside the
    snapshot; binary search is linear search; chunks tile the file.
  \<^item> \<open>Object_Store\<close> (\<open>store.go\<close>): the contract of a store as the locale \<open>object_store\<close>; \<open>Mem_Store\<close>
    (\<open>memstore\<close>) and the encrypting wrapper of \<open>Client_Encryption\<close> (\<open>client_encryption.go\<close>) satisfy it.
  \<^item> \<open>Repo\<close> (\<open>repository.go\<close>), \<open>Repo_Descriptor\<close> (\<open>repository_descriptor.go\<close>): keys, verified reads, idempotent
    writes, and commissioning of a prefix exactly once.
  \<^item> \<open>Trust\<close> (\<open>trust.go\<close>, \<open>reference_identity.go\<close>): signed references, their round trip and authenticity.
  \<^item> \<open>Watermark\<close> (\<open>watermark.go\<close>), \<open>Publication_Journal\<close> (\<open>publication_journal.go\<close>): two durable files over one
    file protocol, the locale \<open>local_file\<close>, which states what rename, sync and the lock of \<open>internal/localstate\<close>
    give. Each refines an abstract store (\<open>watermark_store\<close>, \<open>journal_store\<close>) whose content is what survives a
    crash. For both a state is exhibited that is stored and can never be read again.

  \<^bold>\<open>Consumer\<close> (\<open>consumer.go\<close>, \<open>authorization.go\<close>, \<open>metadata_cache.go\<close>, \<open>internal/syncutil\<close>).
  \<^item> \<open>Metadata_Cache\<close>, \<open>Weighted_Semaphore\<close>, \<open>Flight\<close>: the LRU cache, the byte semaphore and the flight group, the
    last two as state machines under their mutex with arbitrary interleavings.
  \<^item> \<open>Consumer\<close>: creation, refresh, lookup, listing, reading and chunk loading.
  \<^item> \<open>Consumer_Trust\<close>, \<open>Consumer_Read\<close>, \<open>Consumer_Live\<close>: the invariant of every operation over the interface
    \<open>consumer_env\<close>; reads return parts of the authenticated tree; with a store that serves the objects the operations
    succeed.
  \<^item> \<open>Consumer_Properties\<close>, with the concrete repository of \<open>Sample\<close> and \<open>Consumer_Sample\<close>: no rollback, durability of
    the position, authenticity of bytes and lookups, reads as slices, progress of a refresh, resources given back.
  \<^item> \<open>Snapshot_Closure\<close>, \<open>Closure_Properties\<close> (\<open>snapshot_closure.go\<close>): the closure is exact, ends within its
    budgets on every tree, and its seal binds it.

  \<^bold>\<open>Publisher\<close> (\<open>publisher.go\<close>, \<open>chunking.go\<close>, \<open>publication_recovery.go\<close>).
  \<^item> \<open>Path_Selection\<close>: the trie of selected paths publishes exactly what was selected.
  \<^item> \<open>Publication\<close>: loading, initialising and updating the journal, ancestry checks, recovery and the signed commit.
  \<^item> \<open>Source_Tree\<close>: reading files, links and directories. \<open>os.Root\<close>, \<open>os.File\<close> and the chunker package are the record
    \<open>SourceFS\<close>.
  \<^item> \<open>Publisher\<close>: construction, protected files, staging, committing, publishing, signing again.
  \<^item> \<open>Write_Ahead\<close>: for every environment and every sequence of calls and restarts, bytes are sent to a signed
    reference key only after the journal reported them as pending. The interface \<open>observed_publisher\<close> is interpreted
    on an arbitrary environment with a log.
  \<^item> \<open>Published_Tree\<close>: every staged snapshot passes the decoder and the validators of the consumer. The locale
    \<open>source_env\<close> states what the file system and the chunker document; it is interpreted on a tree with one file.
  \<^item> \<open>Publisher_Properties\<close>: what construction guarantees, and that the answer of a commit is true even when the
    response of the store is lost.

  \<^bold>\<open>Bounds.\<close> Loops of the source that end on every input are total functions with a termination proof: ancestry
  walks count a \<open>uint64\<close> down, listings and chunk lists are bounded by the limits of the protocol, the scan by
  \<open>maxLookupDepth\<close>, recovery by its four attempts. The JSON parser has fuel of twice the length of the text, which is
  proved to be enough. The eviction loop of the metadata cache is a partial function and is proved to return. The
  search of the journal for a fresh random revision has no bound in the source; the model draws at most a given
  number of times and then fails, which the refinement permits.

  \<^bold>\<open>Not modelled.\<close> \<open>DiskCache\<close> of \<open>cache.go\<close> (the consumer is proved for an arbitrary \<open>ChunkCache\<close>); sealed local
  state and \<open>internal/localstate\<close> (system calls, whose behaviour is assumed in \<open>local_file\<close>); the live session
  (goroutines and timers); the S3 adapter, presigned shares, compatibility probes, FUSE and WebDAV (HTTP and
  third-party callbacks over operations that are modelled); the key material of the publisher process; the command
  line. Deadlines and fairness of the scheduler are outside the model; a cancelled context may be observed at every
  point where the source looks at it.
\<close>

end
